(* ===== verification/Prelude.thy ===== *)
theory Prelude
  imports Main "HOL-Library.AList"
begin

text \<open>
  Shared vocabulary of the development: the failures a Go program can stop with, the readings of
  Go maps and slices that the sources use, and generic facts on lists, majorities and maps that
  several components need. Nothing here mentions a particular component.
\<close>

named_theorems go_defs \<open>definitions of the Go primitives\<close>

section \<open>How a Go operation can fail\<close>

text \<open>
  A run-time panic, a call of \<^verbatim>\<open>panic\<close> or a \<^verbatim>\<open>log.Fatal\<close> ends the operation without a result. It is the
  left value of a sum; the right value is the result.
\<close>

datatype gopanic =
    IndexOutOfRange
  | SliceBounds
  | Explicit string
  | Fatal string

type_synonym 'a go = "gopanic + 'a"

definition go_bind :: "'a go \<Rightarrow> ('a \<Rightarrow> 'b go) \<Rightarrow> 'b go" where
  "go_bind m f = (case m of Inl e \<Rightarrow> Inl e | Inr x \<Rightarrow> f x)"

lemma go_bind_simps [simp]:
  "go_bind (Inl e) f = Inl e"
  "go_bind (Inr x) f = f x"
  by (simp_all add: go_bind_def)

lemma go_bind_eq_Inr:
  "go_bind m f = Inr y \<longleftrightarrow> (\<exists>x. m = Inr x \<and> f x = Inr y)"
  by (cases m) simp_all

definition nil_dereference :: gopanic where
  "nil_dereference = Explicit ''nil pointer dereference''"

section \<open>Maps, slices and integer division\<close>

text \<open>Reading an absent key of a Go map with integer values gives the zero value.\<close>

definition go_get :: "('k \<rightharpoonup> int) \<Rightarrow> 'k \<Rightarrow> int" where
  "go_get m k = (case m k of None \<Rightarrow> 0 | Some v \<Rightarrow> v)"

lemma go_get_upd [simp]: "go_get (m(k \<mapsto> v)) j = (if j = k then v else go_get m j)"
  by (simp add: go_get_def)

text \<open>Indexing a slice panics outside its length.\<close>

definition go_index :: "'a list \<Rightarrow> int \<Rightarrow> 'a go" where
  [go_defs]: "go_index xs i = (if 0 \<le> i \<and> i < int (length xs) then Inr (xs ! nat i) else Inl IndexOutOfRange)"

text \<open>The slice expressions \<^verbatim>\<open>xs[lo:]\<close> and \<^verbatim>\<open>xs[lo:hi]\<close>.\<close>

definition go_from :: "'a list \<Rightarrow> int \<Rightarrow> 'a list go" where
  [go_defs]: "go_from xs lo = (if 0 \<le> lo \<and> lo \<le> int (length xs) then Inr (drop (nat lo) xs) else Inl SliceBounds)"

definition go_range :: "'a list \<Rightarrow> int \<Rightarrow> int \<Rightarrow> 'a list go" where
  [go_defs]: "go_range xs lo hi =
     (if 0 \<le> lo \<and> lo \<le> hi \<and> hi \<le> int (length xs)
      then Inr (take (nat hi - nat lo) (drop (nat lo) xs)) else Inl SliceBounds)"

lemma go_index_Inr: "go_index xs i = Inr x \<longleftrightarrow> 0 \<le> i \<and> i < int (length xs) \<and> x = xs ! nat i"
  by (auto simp: go_index_def)

lemma go_from_Inr: "go_from xs i = Inr ys \<longleftrightarrow> 0 \<le> i \<and> i \<le> int (length xs) \<and> ys = drop (nat i) xs"
  by (auto simp: go_from_def)

lemma go_range_Inr:
  "go_range xs lo hi = Inr ys \<longleftrightarrow>
     0 \<le> lo \<and> lo \<le> hi \<and> hi \<le> int (length xs) \<and> ys = take (nat hi - nat lo) (drop (nat lo) xs)"
  by (auto simp: go_range_def)

section \<open>Majorities\<close>

text \<open>Two majorities of the same finite set share an element.\<close>

lemma majorities_meet:
  assumes "finite N" "A \<subseteq> N" "B \<subseteq> N"
    and "2 * card A > card N" "2 * card B > card N"
  obtains z where "z \<in> A" "z \<in> B"
proof -
  have fin: "finite A" "finite B" using assms finite_subset by auto
  have "A \<inter> B \<noteq> {}"
  proof
    assume "A \<inter> B = {}"
    then have "card A + card B = card (A \<union> B)" using fin by (simp add: card_Un_disjoint)
    also have "\<dots> \<le> card N" using assms by (simp add: card_mono)
    finally show False using assms(4,5) by linarith
  qed
  then show thesis using that by blast
qed

section \<open>Lists\<close>

lemma take_Suc_eq_iff:
  assumes "i < length xs" "i < length ys"
  shows "take (Suc i) xs = take (Suc i) ys \<longleftrightarrow> take i xs = take i ys \<and> xs ! i = ys ! i"
  using assms by (simp add: take_Suc_conv_app_nth)

lemma take_eq_mono: "take n xs = take n ys \<Longrightarrow> m \<le> n \<Longrightarrow> take m xs = take m ys"
  by (metis min.absorb1 take_take)

lemma take_eq_nth: "take n xs = take n ys \<Longrightarrow> i < n \<Longrightarrow> i < length xs \<Longrightarrow> xs ! i = ys ! i"
  by (metis nth_take)

lemma count_filter_map: "length (filter P xs) = (\<Sum>x\<leftarrow>xs. if P x then 1 else 0)"
  by (induction xs) auto

end
