(* ===== verification/RaftTypes.thy ===== *)
theory RaftTypes
  imports Prelude
begin

text \<open>
  The data that the Raft packages exchange: server states, log entries and the arguments and
  replies of the two RPCs. The packages under \<^verbatim>\<open>src/raft/part1\<close>, \<^verbatim>\<open>part2\<close>, \<^verbatim>\<open>part3\<close> and \<^verbatim>\<open>src/craft\<close>
  declare these structures with the same fields; the line references are those of \<^verbatim>\<open>part3/raft.go\<close>.
  Terms, indices and server ids are Go's \<^verbatim>\<open>int\<close>, modelled as unbounded integers: a term or an index
  grows by one per election or command and never comes near the 63-bit limit.
  The type of client commands (Go's \<^verbatim>\<open>any\<close>) is the type parameter.
\<close>

datatype CMState = Follower | Candidate | Leader | Dead

fun CMState_String :: "CMState \<Rightarrow> string" where
  "CMState_String Follower = ''Follower''"
| "CMState_String Candidate = ''Candidate''"
| "CMState_String Leader = ''Leader''"
| "CMState_String Dead = ''Dead''"

record 'c LogEntry =
  Command :: 'c
  Term :: int

record 'c CommitEntry =
  ce_Command :: 'c
  ce_Index :: int
  ce_Term :: int

record RequestVoteArgs =
  rv_Term :: int
  rv_CandidateId :: int
  rv_LastLogIndex :: int
  rv_LastLogTerm :: int

record RequestVoteReply =
  rvr_Term :: int
  rvr_VoteGranted :: bool

record 'c AppendEntriesArgs =
  ae_Term :: int
  ae_LeaderId :: int
  ae_PrevLogIndex :: int
  ae_PrevLogTerm :: int
  ae_Entries :: "'c LogEntry list"
  ae_LeaderCommit :: int

record AppendEntriesReply =
  aer_Term :: int
  aer_Success :: bool
  aer_ConflictIndex :: int
  aer_ConflictTerm :: int

text \<open>
  What a critical section of a consensus module leaves running behind it: the goroutines it starts
  and the notifications it sends on the trigger channel.
  \<^item> \<open>GoRunElectionTimer\<close>: \<^verbatim>\<open>go cm.runElectionTimer()\<close>;
  \<^item> \<open>GoRequestVote p t\<close>: the goroutine that asks peer \<open>p\<close> for its vote in term \<open>t\<close>;
  \<^item> \<open>GoLeaderLoop\<close>: the heartbeat goroutine of a new leader;
  \<^item> \<open>GoSendAE p t\<close>: the goroutine that sends one AppendEntries of term \<open>t\<close> to peer \<open>p\<close>;
  \<^item> \<open>SendTriggerAE\<close>: a send on \<^verbatim>\<open>triggerAEChan\<close>.
\<close>

datatype effect =
    GoRunElectionTimer
  | GoRequestVote int int
  | GoLeaderLoop
  | GoSendAE int int
  | SendTriggerAE

text \<open>\<open>majority\<close> is the test \<^verbatim>\<open>votes*2 > len(cm.peerIds)+1\<close> that elections and commits use.\<close>

definition majority :: "int \<Rightarrow> int list \<Rightarrow> bool" where
  "majority votes peers \<longleftrightarrow> votes * 2 > int (length peers) + 1"

end
