(* ===== verification/RaftNet.thy ===== *)
theory RaftNet
  imports RaftTypes
begin

text \<open>
  A cluster of Raft servers: the interleaving of the critical sections of all servers and of their
  goroutines, over a network that delays, reorders and loses RPCs.

  A server implementation is a record of operations (\<open>raft_impl\<close>); the theories of \<^verbatim>\<open>part1\<close>, \<^verbatim>\<open>part2\<close>,
  \<^verbatim>\<open>part3\<close> and \<^verbatim>\<open>craft\<close> provide one each. The cluster state holds the servers, the goroutines that are alive
  (each with what it has captured: the saved term, the arguments, the reply), the counter
  \<^verbatim>\<open>votesReceived\<close> of every election, and history variables that no operation reads: who granted
  which vote, who was leader in which term, which logs have existed, and what every server sent on
  its commit channel. One event is one critical section of one goroutine, so every interleaving
  that the mutexes allow is a sequence of events.

  An RPC handler runs at most once per call, as in \<^verbatim>\<open>net/rpc\<close>; \<open>EDrop\<close> loses a call or its reply
  at any point. A send on a channel is taken to complete.
\<close>

record ('n, 'c) raft_impl =
  im_id :: "'n \<Rightarrow> int"
  im_peers :: "'n \<Rightarrow> int list"
  im_term :: "'n \<Rightarrow> int"
  im_voted :: "'n \<Rightarrow> int"
  im_role :: "'n \<Rightarrow> CMState"
  im_log :: "'n \<Rightarrow> 'c LogEntry list"
  im_ready :: "int \<Rightarrow> 'n \<Rightarrow> 'n \<times> effect list"
  im_RequestVote :: "int \<Rightarrow> RequestVoteArgs \<Rightarrow> 'n \<Rightarrow> 'n \<times> RequestVoteReply option \<times> effect list"
  im_AppendEntries ::
    "int \<Rightarrow> 'c AppendEntriesArgs \<Rightarrow> 'n \<Rightarrow> ('n \<times> AppendEntriesReply option \<times> effect list) go"
  im_timer :: "int \<Rightarrow> int \<Rightarrow> int \<Rightarrow> 'n \<Rightarrow> bool \<times> 'n \<times> effect list"
  im_voteArgs :: "int \<Rightarrow> 'n \<Rightarrow> RequestVoteArgs"
  im_voteReply :: "int \<Rightarrow> int \<Rightarrow> int \<Rightarrow> RequestVoteReply \<Rightarrow> 'n \<Rightarrow> 'n \<times> int \<times> effect list"
  im_sendAEs :: "'n \<Rightarrow> effect list"
  im_aeArgs :: "int \<Rightarrow> int \<Rightarrow> 'n \<Rightarrow> (int \<times> 'c AppendEntriesArgs) go"
  im_aeReply :: "int \<Rightarrow> int \<Rightarrow> int \<Rightarrow> int \<Rightarrow> nat \<Rightarrow> AppendEntriesReply \<Rightarrow> 'n \<Rightarrow> 'n \<times> effect list"
  im_Submit :: "'c \<Rightarrow> 'n \<Rightarrow> 'n \<times> int \<times> effect list"
  im_Stop :: "'n \<Rightarrow> 'n"
  im_commit :: "'n \<Rightarrow> ('n \<times> 'c CommitEntry list) go"
  im_restart :: "'n \<Rightarrow> 'n go"
  im_fresh :: "int \<Rightarrow> AppendEntriesReply \<Rightarrow> 'n \<Rightarrow> bool"

text \<open>
  The goroutines, by what they wait for. The first argument is the server. \<open>el\<close> identifies the
  election a vote goroutine belongs to.
  \<^item> \<open>GVoteStart n el p t\<close>, \<open>GVoteCall\<close>, \<open>GVoteReply\<close>: the request to peer \<open>p\<close> of the election in
    term \<open>t\<close>, before its arguments are read, with its request under way, with its reply under way;
  \<^item> \<open>GSendStart n p t\<close>, \<open>GSendCall\<close>, \<open>GSendReply\<close>: the same for one AppendEntries call;
  \<^item> \<open>GLoopSend\<close>, \<open>GLoopWait\<close>: the heartbeat goroutine, about to send and waiting;
  \<^item> \<open>GTrigger\<close>: a notification on \<^verbatim>\<open>triggerAEChan\<close> not yet received.
\<close>

datatype 'c goroutine =
    GReady int
  | GTimerNew int
  | GTimer int int int
  | GVoteStart int nat int int
  | GVoteCall int nat int int RequestVoteArgs
  | GVoteReply int nat int int RequestVoteReply
  | GLoopSend int
  | GLoopWait int
  | GSendStart int int int
  | GSendCall int int int int "'c AppendEntriesArgs"
  | GSendReply int int int int nat AppendEntriesReply
  | GTrigger int

fun go_node :: "'c goroutine \<Rightarrow> int" where
  "go_node (GReady n) = n"
| "go_node (GTimerNew n) = n"
| "go_node (GTimer n t d) = n"
| "go_node (GVoteStart n el p t) = n"
| "go_node (GVoteCall n el p t a) = n"
| "go_node (GVoteReply n el p t r) = n"
| "go_node (GLoopSend n) = n"
| "go_node (GLoopWait n) = n"
| "go_node (GSendStart n p t) = n"
| "go_node (GSendCall n p t i a) = n"
| "go_node (GSendReply n p t i k r) = n"
| "go_node (GTrigger n) = n"

fun goroutine_of :: "int \<Rightarrow> nat \<Rightarrow> effect \<Rightarrow> 'c goroutine" where
  "goroutine_of n el GoRunElectionTimer = GTimerNew n"
| "goroutine_of n el (GoRequestVote p t) = GVoteStart n el p t"
| "goroutine_of n el GoLeaderLoop = GLoopSend n"
| "goroutine_of n el (GoSendAE p t) = GSendStart n p t"
| "goroutine_of n el SendTriggerAE = GTrigger n"

record ('n, 'c) cluster =
  members :: "int list"
  nodes :: "int \<Rightarrow> 'n"
  gos :: "nat \<rightharpoonup> 'c goroutine"
  next_go :: nat
  votes :: "nat \<Rightarrow> int"
  next_el :: nat
  el_of :: "nat \<Rightarrow> int \<times> int"
  voters :: "nat \<Rightarrow> int set"
  granted :: "(int \<times> int \<times> int) set"
  elected :: "(int \<times> int) set"
  logs :: "'c LogEntry list set"
  commits :: "int \<Rightarrow> 'c CommitEntry list"

text \<open>Writing a server's new state also extends the history of leaders and of logs.\<close>

definition set_node :: "('n, 'c) raft_impl \<Rightarrow> int \<Rightarrow> 'n \<Rightarrow> ('n, 'c) cluster \<Rightarrow> ('n, 'c) cluster" where
  "set_node im n c s =
     s\<lparr>nodes := (nodes s)(n := c),
       elected := (if im_role im c = Leader then insert (im_term im c, n) (elected s) else elected s),
       logs := insert (im_log im c) (logs s)\<rparr>"

definition spawn :: "int \<Rightarrow> effect list \<Rightarrow> ('n, 'c) cluster \<Rightarrow> ('n, 'c) cluster" where
  "spawn n es s =
     s\<lparr>gos := (\<lambda>g. if next_go s \<le> g \<and> g < next_go s + length es
                  then Some (goroutine_of n (next_el s) (es ! (g - next_go s))) else gos s g),
       next_go := next_go s + length es\<rparr>"

definition finish :: "nat \<Rightarrow> ('n, 'c) cluster \<Rightarrow> ('n, 'c) cluster" where
  "finish g s = s\<lparr>gos := (gos s)(g := None)\<rparr>"

definition become :: "nat \<Rightarrow> 'c goroutine \<Rightarrow> ('n, 'c) cluster \<Rightarrow> ('n, 'c) cluster" where
  "become g x s = s\<lparr>gos := (gos s)(g \<mapsto> x)\<rparr>"

definition launch :: "'c goroutine \<Rightarrow> ('n, 'c) cluster \<Rightarrow> ('n, 'c) cluster" where
  "launch x s = s\<lparr>gos := (gos s)(next_go s \<mapsto> x), next_go := Suc (next_go s)\<rparr>"

definition kill_node :: "int \<Rightarrow> ('n, 'c) cluster \<Rightarrow> ('n, 'c) cluster" where
  "kill_node n s = s\<lparr>gos := (\<lambda>g. case gos s g of None \<Rightarrow> None
                               | Some x \<Rightarrow> if go_node x = n then None else Some x)\<rparr>"

text \<open>What each of these leaves unchanged.\<close>

lemma set_node_fields [simp]:
  "members (set_node im n c s) = members s"
  "gos (set_node im n c s) = gos s"
  "next_go (set_node im n c s) = next_go s"
  "votes (set_node im n c s) = votes s"
  "next_el (set_node im n c s) = next_el s"
  "el_of (set_node im n c s) = el_of s"
  "voters (set_node im n c s) = voters s"
  "granted (set_node im n c s) = granted s"
  "commits (set_node im n c s) = commits s"
  by (simp_all add: set_node_def)

lemma spawn_fields [simp]:
  "members (spawn n es s) = members s"
  "nodes (spawn n es s) = nodes s"
  "votes (spawn n es s) = votes s"
  "next_el (spawn n es s) = next_el s"
  "el_of (spawn n es s) = el_of s"
  "voters (spawn n es s) = voters s"
  "granted (spawn n es s) = granted s"
  "elected (spawn n es s) = elected s"
  "logs (spawn n es s) = logs s"
  "commits (spawn n es s) = commits s"
  by (simp_all add: spawn_def)

lemma finish_fields [simp]:
  "members (finish g s) = members s"
  "nodes (finish g s) = nodes s"
  "next_go (finish g s) = next_go s"
  "votes (finish g s) = votes s"
  "next_el (finish g s) = next_el s"
  "el_of (finish g s) = el_of s"
  "voters (finish g s) = voters s"
  "granted (finish g s) = granted s"
  "elected (finish g s) = elected s"
  "logs (finish g s) = logs s"
  "commits (finish g s) = commits s"
  by (simp_all add: finish_def)

lemma become_fields [simp]:
  "members (become g x s) = members s"
  "nodes (become g x s) = nodes s"
  "next_go (become g x s) = next_go s"
  "votes (become g x s) = votes s"
  "next_el (become g x s) = next_el s"
  "el_of (become g x s) = el_of s"
  "voters (become g x s) = voters s"
  "granted (become g x s) = granted s"
  "elected (become g x s) = elected s"
  "logs (become g x s) = logs s"
  "commits (become g x s) = commits s"
  by (simp_all add: become_def)

lemma launch_fields [simp]:
  "members (launch x s) = members s"
  "nodes (launch x s) = nodes s"
  "votes (launch x s) = votes s"
  "next_el (launch x s) = next_el s"
  "el_of (launch x s) = el_of s"
  "voters (launch x s) = voters s"
  "granted (launch x s) = granted s"
  "elected (launch x s) = elected s"
  "logs (launch x s) = logs s"
  "commits (launch x s) = commits s"
  by (simp_all add: launch_def)

lemma kill_node_fields [simp]:
  "members (kill_node n s) = members s"
  "nodes (kill_node n s) = nodes s"
  "next_go (kill_node n s) = next_go s"
  "votes (kill_node n s) = votes s"
  "next_el (kill_node n s) = next_el s"
  "el_of (kill_node n s) = el_of s"
  "voters (kill_node n s) = voters s"
  "granted (kill_node n s) = granted s"
  "elected (kill_node n s) = elected s"
  "logs (kill_node n s) = logs s"
  "commits (kill_node n s) = commits s"
  by (simp_all add: kill_node_def)

lemma set_node_changes:
  "nodes (set_node im n c s) = (nodes s)(n := c)"
  "elected (set_node im n c s) = (if im_role im c = Leader then insert (im_term im c, n) (elected s) else elected s)"
  "logs (set_node im n c s) = insert (im_log im c) (logs s)"
  by (simp_all add: set_node_def)

lemma spawn_gos:
  "gos (spawn n es s) g = Some x \<Longrightarrow>
     gos s g = Some x \<or> (\<exists>i < length es. g = next_go s + i \<and> x = goroutine_of n (next_el s) (es ! i))"
proof -
  assume a: "gos (spawn n es s) g = Some x"
  show ?thesis
  proof (cases "next_go s \<le> g \<and> g < next_go s + length es")
    case True
    with a have "g - next_go s < length es \<and> g = next_go s + (g - next_go s)
       \<and> x = goroutine_of n (next_el s) (es ! (g - next_go s))"
      by (auto simp: spawn_def)
    then show ?thesis by blast
  next
    case False
    with a show ?thesis by (auto simp: spawn_def split: if_splits)
  qed
qed

text \<open>
  The events. A natural number names a goroutine; an integer after it is the time.
  \<open>ETimerNew g d\<close> starts the election timer \<open>g\<close> with the random timeout \<open>d\<close>.
\<close>

datatype 'c event =
    EReady nat int
  | ETimerNew nat int
  | ETimerTick nat int
  | EVoteSend nat
  | EVoteDeliver nat int
  | EVoteReply nat int
  | ELoopSend nat
  | ELoopFire nat
  | ELoopTrigger nat nat
  | ESend nat
  | ESendDeliver nat int
  | ESendReply nat int
  | EDrop nat
  | ESubmit int 'c
  | EStop int
  | ECommit int
  | ERestart int

text \<open>
  \<open>cstep im ev s\<close>: \<open>None\<close> when the event cannot happen in \<open>s\<close>; \<open>Inl\<close> when the critical section
  panics; otherwise the next state.
\<close>

fun cstep :: "('n, 'c) raft_impl \<Rightarrow> 'c event \<Rightarrow> ('n, 'c) cluster \<Rightarrow> ('n, 'c) cluster go option" where
  "cstep im (EReady g now) s =
     (case gos s g of
        Some (GReady n) \<Rightarrow>
          (let (c, es) = im_ready im now (nodes s n)
           in Some (Inr (spawn n es (set_node im n c (finish g s)))))
      | _ \<Rightarrow> None)"
| "cstep im (ETimerNew g d) s =
     (case gos s g of
        Some (GTimerNew n) \<Rightarrow> Some (Inr (become g (GTimer n (im_term im (nodes s n)) d) s))
      | _ \<Rightarrow> None)"
| "cstep im (ETimerTick g now) s =
     (case gos s g of
        Some (GTimer n t d) \<Rightarrow>
          (let (goes_on, c, es) = im_timer im now t d (nodes s n);
               s1 = spawn n es (set_node im n c (if goes_on then s else finish g s))
           in Some (Inr (s1\<lparr>votes := (votes s1)(next_el s := 1),
                            el_of := (el_of s1)(next_el s := (n, im_term im c)),
                            voters := (voters s1)(next_el s := {}),
                            next_el := Suc (next_el s)\<rparr>)))
      | _ \<Rightarrow> None)"
| "cstep im (EVoteSend g) s =
     (case gos s g of
        Some (GVoteStart n el p t) \<Rightarrow>
          Some (Inr (become g (GVoteCall n el p t (im_voteArgs im t (nodes s n))) s))
      | _ \<Rightarrow> None)"
| "cstep im (EVoteDeliver g now) s =
     (case gos s g of
        Some (GVoteCall n el p t a) \<Rightarrow>
          (let (c, r, es) = im_RequestVote im now a (nodes s p);
               s1 = spawn p es (set_node im p c s)
           in case r of
                None \<Rightarrow> Some (Inr (finish g s1))
              | Some reply \<Rightarrow>
                  Some (Inr (become g (GVoteReply n el p t reply)
                    (if rvr_VoteGranted reply
                     then s1\<lparr>granted := insert (p, rv_Term a, rv_CandidateId a) (granted s1)\<rparr>
                     else s1))))
      | _ \<Rightarrow> None)"
| "cstep im (EVoteReply g now) s =
     (case gos s g of
        Some (GVoteReply n el p t r) \<Rightarrow>
          (let (c, v, es) = im_voteReply im now t (votes s el) r (nodes s n);
               s1 = spawn n es (set_node im n c (finish g s))
           in Some (Inr (s1\<lparr>votes := (votes s1)(el := v),
                            voters := (voters s1)(el := (if v = votes s el then voters s el
                                                         else insert p (voters s el)))\<rparr>)))
      | _ \<Rightarrow> None)"
| "cstep im (ELoopSend g) s =
     (case gos s g of
        Some (GLoopSend n) \<Rightarrow> Some (Inr (spawn n (im_sendAEs im (nodes s n)) (become g (GLoopWait n) s)))
      | _ \<Rightarrow> None)"
| "cstep im (ELoopFire g) s =
     (case gos s g of
        Some (GLoopWait n) \<Rightarrow>
          Some (Inr (if im_role im (nodes s n) = Leader then become g (GLoopSend n) s else finish g s))
      | _ \<Rightarrow> None)"
| "cstep im (ELoopTrigger g h) s =
     (case (gos s g, gos s h) of
        (Some (GLoopWait n), Some (GTrigger m)) \<Rightarrow>
          (if n = m
           then Some (Inr (let s1 = finish h s
                           in if im_role im (nodes s n) = Leader then become g (GLoopSend n) s1
                              else finish g s1))
           else None)
      | _ \<Rightarrow> None)"
| "cstep im (ESend g) s =
     (case gos s g of
        Some (GSendStart n p t) \<Rightarrow>
          Some (go_bind (im_aeArgs im t p (nodes s n)) (\<lambda>(ni, a). Inr (become g (GSendCall n p t ni a) s)))
      | _ \<Rightarrow> None)"
| "cstep im (ESendDeliver g now) s =
     (case gos s g of
        Some (GSendCall n p t ni a) \<Rightarrow>
          Some (go_bind (im_AppendEntries im now a (nodes s p)) (\<lambda>(c, r, es).
            let s1 = spawn p es (set_node im p c s)
            in case r of
                 None \<Rightarrow> Inr (finish g s1)
               | Some reply \<Rightarrow> Inr (become g (GSendReply n p t ni (length (ae_Entries a)) reply) s1)))
      | _ \<Rightarrow> None)"
| "cstep im (ESendReply g now) s =
     (case gos s g of
        Some (GSendReply n p t ni k r) \<Rightarrow>
          (let (c, es) = im_aeReply im now t p ni k r (nodes s n)
           in Some (Inr (spawn n es (set_node im n c (finish g s)))))
      | _ \<Rightarrow> None)"
| "cstep im (EDrop g) s = (case gos s g of Some x \<Rightarrow> Some (Inr (finish g s)) | None \<Rightarrow> None)"
| "cstep im (ESubmit n cmd) s =
     (if n \<in> set (members s)
      then let (c, i, es) = im_Submit im cmd (nodes s n)
           in Some (Inr (spawn n es (set_node im n c s)))
      else None)"
| "cstep im (EStop n) s =
     (if n \<in> set (members s) then Some (Inr (set_node im n (im_Stop im (nodes s n)) s)) else None)"
| "cstep im (ECommit n) s =
     (if n \<in> set (members s)
      then Some (go_bind (im_commit im (nodes s n)) (\<lambda>(c, out).
             let s1 = set_node im n c s
             in Inr (s1\<lparr>commits := (commits s1)(n := commits s1 n @ out)\<rparr>)))
      else None)"
| "cstep im (ERestart n) s =
     (if n \<in> set (members s)
      then Some (go_bind (im_restart im (nodes s n)) (\<lambda>c.
             Inr (launch (GReady n) (set_node im n c (kill_node n s)))))
      else None)"

text \<open>A cluster with servers \<open>ns\<close>, created by \<open>mk id peers\<close> and waiting for \<^verbatim>\<open>ready\<close>.\<close>

definition others :: "int list \<Rightarrow> int \<Rightarrow> int list" where
  "others ns n = filter (\<lambda>p. p \<noteq> n) ns"

lemma length_others: "distinct ns \<Longrightarrow> n \<in> set ns \<Longrightarrow> Suc (length (others ns n)) = length ns"
  by (induction ns) (auto simp: others_def intro!: arg_cong [of _ _ length] filter_True)

definition cluster_init :: "(int \<Rightarrow> int list \<Rightarrow> 'n) \<Rightarrow> int list \<Rightarrow> ('n, 'c) cluster" where
  "cluster_init mk ns =
     \<lparr>members = ns, nodes = (\<lambda>n. mk n (others ns n)),
      gos = (\<lambda>g. if g < length ns then Some (GReady (ns ! g)) else None),
      next_go = length ns, votes = (\<lambda>_. 0), next_el = 0, el_of = (\<lambda>_. (0, 0)),
      voters = (\<lambda>_. {}), granted = {}, elected = {}, logs = {[]}, commits = (\<lambda>_. [])\<rparr>"

fun crun :: "('n, 'c) raft_impl \<Rightarrow> 'c event list \<Rightarrow> ('n, 'c) cluster \<Rightarrow> ('n, 'c) cluster go option" where
  "crun im [] s = Some (Inr s)"
| "crun im (ev # evs) s =
     (case cstep im ev s of
        Some (Inr s') \<Rightarrow> crun im evs s'
      | other \<Rightarrow> other)"

text \<open>
  A \<open>timely\<close> event is one in which a vote reply that reaches a candidate belongs to the election
  the candidate is running, a restarted server finds in its storage the term, the vote and the
  log it had when it stopped, and a heartbeat reply is not staler than \<open>im_fresh\<close> allows (which
  only \<^verbatim>\<open>part1\<close> restricts). The implementations do not check the first and the last, and do not ensure
  the second; the safety theorems say what holds for runs of timely events, and the theorems on
  stale replies and lost votes show that the restriction is needed.
\<close>

fun timely :: "('n, 'c) raft_impl \<Rightarrow> ('n, 'c) cluster \<Rightarrow> 'c event \<Rightarrow> bool" where
  "timely im s (EVoteReply g now) =
     (case gos s g of
        Some (GVoteReply n el p t r) \<Rightarrow>
          im_role im (nodes s n) = Candidate \<longrightarrow> im_term im (nodes s n) = t
      | _ \<Rightarrow> True)"
| "timely im s (ERestart n) =
     (case im_restart im (nodes s n) of
        Inr c \<Rightarrow> im_term im c = im_term im (nodes s n) \<and> im_voted im c = im_voted im (nodes s n)
               \<and> im_log im c = im_log im (nodes s n)
      | Inl _ \<Rightarrow> True)"
| "timely im s (ESendReply g now) =
     (case gos s g of
        Some (GSendReply n p t ni k r) \<Rightarrow> im_fresh im t r (nodes s n)
      | _ \<Rightarrow> True)"
| "timely im s _ = True"

text \<open>The states that runs of timely events reach.\<close>

inductive timely_reach :: "('n, 'c) raft_impl \<Rightarrow> ('n, 'c) cluster \<Rightarrow> ('n, 'c) cluster \<Rightarrow> bool"
  for im :: "('n, 'c) raft_impl" and s0 :: "('n, 'c) cluster" where
  start: "timely_reach im s0 s0"
| step: "timely_reach im s0 s \<Longrightarrow> timely im s ev \<Longrightarrow> cstep im ev s = Some (Inr s')
         \<Longrightarrow> timely_reach im s0 s'"

fun timely_run :: "('n, 'c) raft_impl \<Rightarrow> 'c event list \<Rightarrow> ('n, 'c) cluster \<Rightarrow> bool" where
  "timely_run im [] s = True"
| "timely_run im (ev # evs) s =
     (timely im s ev \<and> (case cstep im ev s of Some (Inr s') \<Rightarrow> timely_run im evs s' | _ \<Rightarrow> True))"

lemma timely_run_reach:
  "timely_reach im s0 s \<Longrightarrow> timely_run im evs s \<Longrightarrow> crun im evs s = Some (Inr s')
     \<Longrightarrow> timely_reach im s0 s'"
proof (induction evs arbitrary: s)
  case Nil
  then show ?case by simp
next
  case (Cons ev evs)
  from Cons.prems(3) obtain t where t: "cstep im ev s = Some (Inr t)" "crun im evs t = Some (Inr s')"
    by (auto split: option.splits sum.splits)
  with Cons.prems have "timely_reach im s0 t" "timely_run im evs t"
    by (auto intro: timely_reach.step)
  then show ?case using Cons.IH t(2) by blast
qed

text \<open>\<open>ends_in r P\<close>: the run \<open>r\<close> completed, in a state that satisfies \<open>P\<close>.\<close>

definition ends_in :: "('n, 'c) cluster go option \<Rightarrow> (('n, 'c) cluster \<Rightarrow> bool) \<Rightarrow> bool" where
  "ends_in r P \<longleftrightarrow> (case r of Some (Inr s) \<Rightarrow> P s | _ \<Rightarrow> False)"

lemma ends_inD: "ends_in r P \<Longrightarrow> \<exists>s. r = Some (Inr s) \<and> P s"
  by (auto simp: ends_in_def split: option.splits sum.splits)

text \<open>Equations that evaluate runs on concrete clusters.\<close>

lemma spawn_Nil: "spawn n [] s = s"
  by (rule cluster.equality) (auto simp: spawn_def fun_eq_iff)

lemma spawn_Cons: "spawn n (e # es) s = spawn n es (launch (goroutine_of n (next_el s) e) s)"
  by (rule cluster.equality) (auto simp: spawn_def launch_def fun_eq_iff nth_Cons')

lemma cluster_init3:
  "cluster_init mk [a, b, c] =
     \<lparr>members = [a, b, c], nodes = (\<lambda>n. mk n (others [a, b, c] n)),
      gos = [0 \<mapsto> GReady a, 1 \<mapsto> GReady b, 2 \<mapsto> GReady c], next_go = 3, votes = (\<lambda>_. 0), next_el = 0,
      el_of = (\<lambda>_. (0, 0)), voters = (\<lambda>_. {}), granted = {}, elected = {}, logs = {[]}, commits = (\<lambda>_. [])\<rparr>"
  by (auto simp: cluster_init_def fun_eq_iff nth_Cons' numeral_3_eq_3 numeral_2_eq_2)

lemmas net_eval = set_node_def spawn_Nil spawn_Cons finish_def become_def launch_def kill_node_def
  cluster_init3 others_def majority_def go_index_def go_from_def go_range_def go_get_def ends_in_def

end
