(* ===== verification/RaftElection.thy ===== *)
theory RaftElection
  imports RaftNet
begin

text \<open>
  Election safety, proved once for every implementation that obeys the laws of the locale
  \<open>raft_node\<close>: in the states that timely runs reach, two servers that have been leaders of the same
  term are the same server. The laws speak of a server only through its term, vote, role, log and
  peers; the theories of the implementations discharge them.
\<close>

section \<open>The contract of an implementation\<close>

definition active :: "CMState \<Rightarrow> bool" where
  "active r \<longleftrightarrow> r = Candidate \<or> r = Leader"

lemma active_simps [simp]:
  "active Candidate" "active Leader" "\<not> active Follower" "\<not> active Dead"
  by (simp_all add: active_def)

text \<open>\<open>keeps\<close>: terms do not go back, a vote stays within its term, nobody is promoted.\<close>

definition keeps :: "('n, 'c) raft_impl \<Rightarrow> 'n \<Rightarrow> 'n \<Rightarrow> bool" where
  "keeps im c c' \<longleftrightarrow>
     im_id im c' = im_id im c \<and> im_peers im c' = im_peers im c \<and> im_term im c \<le> im_term im c'
     \<and> (im_term im c' = im_term im c \<longrightarrow> im_voted im c \<noteq> -1 \<longrightarrow> im_voted im c' = im_voted im c)
     \<and> (active (im_role im c') \<longrightarrow> im_role im c' = im_role im c \<and> im_term im c' = im_term im c)"

definition quiet :: "effect list \<Rightarrow> bool" where
  "quiet es \<longleftrightarrow> set es \<subseteq> {GoRunElectionTimer, SendTriggerAE}"

definition same_vote :: "('n, 'c) raft_impl \<Rightarrow> 'n \<Rightarrow> 'n \<Rightarrow> bool" where
  "same_vote im c c' \<longleftrightarrow>
     im_id im c' = im_id im c \<and> im_peers im c' = im_peers im c \<and> im_term im c' = im_term im c
     \<and> im_voted im c' = im_voted im c"

locale raft_node =
  fixes im :: "('n, 'c) raft_impl"
  assumes ready_law:
      "im_ready im now c = (c', es) \<Longrightarrow> keeps im c c' \<and> quiet es"
    and RequestVote_law:
      "im_RequestVote im now a c = (c', r, es) \<Longrightarrow>
         keeps im c c' \<and> quiet es
         \<and> (\<forall>reply. r = Some reply \<and> rvr_VoteGranted reply \<longrightarrow>
              rvr_Term reply = rv_Term a \<and> im_term im c' = rv_Term a \<and> im_voted im c' = rv_CandidateId a)"
    and AppendEntries_law:
      "im_AppendEntries im now b c = Inr (c', q, es) \<Longrightarrow>
         quiet es \<and> im_id im c' = im_id im c \<and> im_peers im c' = im_peers im c
         \<and> im_term im c \<le> im_term im c'
         \<and> (im_term im c' = im_term im c \<longrightarrow> im_voted im c \<noteq> -1 \<longrightarrow>
              im_voted im c' = im_voted im c
              \<or> active (im_role im c) \<and> im_role im c' = Follower \<and> ae_Term b = im_term im c)
         \<and> (active (im_role im c') \<longrightarrow> im_role im c' = im_role im c \<and> im_term im c' = im_term im c)"
    and timer_law:
      "im_timer im now t d c = (goes_on, c', es) \<Longrightarrow>
         (c' = c \<and> es = [])
         \<or> (im_id im c' = im_id im c \<and> im_peers im c' = im_peers im c
            \<and> im_term im c' = im_term im c + 1 \<and> im_role im c' = Candidate \<and> im_voted im c' = im_id im c
            \<and> es = map (\<lambda>p. GoRequestVote p (im_term im c')) (im_peers im c) @ [GoRunElectionTimer])"
    and voteArgs_law:
      "rv_Term (im_voteArgs im t c) = t \<and> rv_CandidateId (im_voteArgs im t c) = im_id im c"
    and voteReply_law:
      "im_voteReply im now t v rep c = (c', v', es) \<Longrightarrow>
         (im_role im c = Candidate \<longrightarrow> im_term im c = t) \<Longrightarrow>
         (keeps im c c' \<and> v' = v \<and> quiet es)
         \<or> (im_role im c = Candidate \<and> rvr_VoteGranted rep \<and> rvr_Term rep = t \<and> v' = v + 1
            \<and> same_vote im c c'
            \<and> (im_role im c' = Candidate \<and> es = []
               \<or> im_role im c' = Leader \<and> majority v' (im_peers im c) \<and> es = [GoLeaderLoop]))"
    and sendAEs_law:
      "set (im_sendAEs im c) \<subseteq> {GoSendAE p (im_term im c) | p. p \<in> set (im_peers im c) \<and> im_role im c = Leader}"
    and aeArgs_law:
      "im_aeArgs im t p c = Inr (ni, b) \<Longrightarrow> ae_Term b = t"
    and aeReply_law:
      "im_aeReply im now t p ni k ar c = (c', es) \<Longrightarrow> im_fresh im t ar c \<Longrightarrow> keeps im c c' \<and> quiet es"
    and Submit_law:
      "im_Submit im cmd c = (c', i, es) \<Longrightarrow> keeps im c c' \<and> quiet es"
    and Stop_law:
      "keeps im c (im_Stop im c)"
    and commit_law:
      "im_commit im c = Inr (c', out) \<Longrightarrow> keeps im c c'"
    and restart_law:
      "im_restart im c = Inr c' \<Longrightarrow>
         im_id im c' = im_id im c \<and> im_peers im c' = im_peers im c \<and> \<not> active (im_role im c')"

section \<open>The invariant\<close>

text \<open>Servers, granted votes \<open>G\<close> and past leaders \<open>E\<close>: one predicate per kind of fact, for one
  server, one vote, one leader.\<close>

definition node_ok :: "('n, 'c) raft_impl \<Rightarrow> int list \<Rightarrow> int \<Rightarrow> 'n \<Rightarrow> bool" where
  "node_ok im ns n c \<longleftrightarrow> im_id im c = n \<and> im_peers im c = others ns n
     \<and> (active (im_role im c) \<longrightarrow> im_voted im c = n \<and> n \<in> set ns)"

definition grant_ok :: "('n, 'c) raft_impl \<Rightarrow> int list \<Rightarrow> (int \<Rightarrow> 'n) \<Rightarrow> int \<Rightarrow> int \<Rightarrow> int \<Rightarrow> bool" where
  "grant_ok im ns nd p t a \<longleftrightarrow> p \<in> set ns \<and> a \<in> set ns \<and> a \<noteq> p \<and> t \<le> im_term im (nd p)
     \<and> (t = im_term im (nd p) \<longrightarrow> im_voted im (nd p) = a \<and> \<not> active (im_role im (nd p)))"

definition elect_ok ::
  "('n, 'c) raft_impl \<Rightarrow> int list \<Rightarrow> (int \<Rightarrow> 'n) \<Rightarrow> (int \<times> int \<times> int) set \<Rightarrow> int \<Rightarrow> int \<Rightarrow> bool" where
  "elect_ok im ns nd G t n \<longleftrightarrow> n \<in> set ns \<and> t \<le> im_term im (nd n)
     \<and> (t = im_term im (nd n) \<longrightarrow> im_voted im (nd n) = n \<and> im_role im (nd n) \<noteq> Candidate)
     \<and> 2 * card (insert n {p. (p, t, n) \<in> G}) > card (set ns)
     \<and> (\<forall>b. (n, t, b) \<notin> G)"

definition core_inv ::
  "('n, 'c) raft_impl \<Rightarrow> int list \<Rightarrow> (int \<Rightarrow> 'n) \<Rightarrow> (int \<times> int \<times> int) set \<Rightarrow> (int \<times> int) set \<Rightarrow> bool" where
  "core_inv im ns nd G E \<longleftrightarrow>
     (\<forall>n. node_ok im ns n (nd n))
     \<and> (\<forall>p t a. (p, t, a) \<in> G \<longrightarrow> grant_ok im ns nd p t a)
     \<and> (\<forall>p t a b. (p, t, a) \<in> G \<longrightarrow> (p, t, b) \<in> G \<longrightarrow> a = b)
     \<and> (\<forall>t n. (t, n) \<in> E \<longrightarrow> elect_ok im ns nd G t n)
     \<and> (\<forall>t m n. (t, m) \<in> E \<longrightarrow> (t, n) \<in> E \<longrightarrow> m = n)
     \<and> (\<forall>n. im_role im (nd n) = Leader \<longrightarrow> (im_term im (nd n), n) \<in> E)"

text \<open>What is known of a goroutine.\<close>

fun vkey :: "'c goroutine \<Rightarrow> (nat \<times> int) option" where
  "vkey (GVoteStart n el p t) = Some (el, p)"
| "vkey (GVoteCall n el p t a) = Some (el, p)"
| "vkey (GVoteReply n el p t r) = Some (el, p)"
| "vkey _ = None"

definition vote_ok :: "int list \<Rightarrow> ('n, 'c) cluster \<Rightarrow> int \<Rightarrow> nat \<Rightarrow> int \<Rightarrow> int \<Rightarrow> bool" where
  "vote_ok ns s n el p t \<longleftrightarrow>
     p \<in> set ns \<and> p \<noteq> n \<and> el < next_el s \<and> el_of s el = (n, t) \<and> p \<notin> voters s el"

definition send_ok :: "int list \<Rightarrow> ('n, 'c) cluster \<Rightarrow> int \<Rightarrow> int \<Rightarrow> int \<Rightarrow> bool" where
  "send_ok ns s n p t \<longleftrightarrow> p \<in> set ns \<and> p \<noteq> n \<and> (t, n) \<in> elected s"

fun go_ok :: "int list \<Rightarrow> ('n, 'c) cluster \<Rightarrow> 'c goroutine \<Rightarrow> bool" where
  "go_ok ns s (GVoteStart n el p t) = (n \<in> set ns \<and> vote_ok ns s n el p t)"
| "go_ok ns s (GVoteCall n el p t a) =
     (n \<in> set ns \<and> vote_ok ns s n el p t \<and> rv_Term a = t \<and> rv_CandidateId a = n)"
| "go_ok ns s (GVoteReply n el p t r) =
     (n \<in> set ns \<and> vote_ok ns s n el p t
      \<and> (rvr_VoteGranted r \<longrightarrow> rvr_Term r = t \<longrightarrow> (p, t, n) \<in> granted s))"
| "go_ok ns s (GSendStart n p t) = (n \<in> set ns \<and> send_ok ns s n p t)"
| "go_ok ns s (GSendCall n p t i a) = (n \<in> set ns \<and> send_ok ns s n p t \<and> ae_Term a = t)"
| "go_ok ns s x = (go_node x \<in> set ns)"

definition gos_inv :: "int list \<Rightarrow> ('n, 'c) cluster \<Rightarrow> bool" where
  "gos_inv ns s \<longleftrightarrow>
     (\<forall>g x. gos s g = Some x \<longrightarrow> g < next_go s \<and> go_ok ns s x)
     \<and> (\<forall>g h x y k. gos s g = Some x \<longrightarrow> gos s h = Some y \<longrightarrow> vkey x = Some k \<longrightarrow> vkey y = Some k \<longrightarrow> g = h)"

text \<open>The vote counter of an election counts distinct servers that granted their vote to it.\<close>

definition el_inv :: "int list \<Rightarrow> ('n, 'c) cluster \<Rightarrow> bool" where
  "el_inv ns s \<longleftrightarrow>
     (\<forall>el < next_el s. votes s el = 1 + int (card (voters s el))
        \<and> voters s el \<subseteq> {p. (p, snd (el_of s el), fst (el_of s el)) \<in> granted s})"

definition cluster_inv :: "('n, 'c) raft_impl \<Rightarrow> int list \<Rightarrow> ('n, 'c) cluster \<Rightarrow> bool" where
  "cluster_inv im ns s \<longleftrightarrow>
     members s = ns \<and> core_inv im ns (nodes s) (granted s) (elected s) \<and> gos_inv ns s \<and> el_inv ns s"

definition good_config :: "int list \<Rightarrow> bool" where
  "good_config ns \<longleftrightarrow> distinct ns \<and> -1 \<notin> set ns"

lemma core_invI:
  assumes "\<And>n. node_ok im ns n (nd n)"
    and "\<And>p t a. (p, t, a) \<in> G \<Longrightarrow> grant_ok im ns nd p t a"
    and "\<And>p t a b. (p, t, a) \<in> G \<Longrightarrow> (p, t, b) \<in> G \<Longrightarrow> a = b"
    and "\<And>t n. (t, n) \<in> E \<Longrightarrow> elect_ok im ns nd G t n"
    and "\<And>t m n. (t, m) \<in> E \<Longrightarrow> (t, n) \<in> E \<Longrightarrow> m = n"
    and "\<And>n. im_role im (nd n) = Leader \<Longrightarrow> (im_term im (nd n), n) \<in> E"
  shows "core_inv im ns nd G E"
  unfolding core_inv_def using assms by (intro conjI allI impI)

lemma core_inv_node: "core_inv im ns nd G E \<Longrightarrow> node_ok im ns n (nd n)"
  by (simp add: core_inv_def)

lemma core_inv_grant: "core_inv im ns nd G E \<Longrightarrow> (p, t, a) \<in> G \<Longrightarrow> grant_ok im ns nd p t a"
  by (simp add: core_inv_def)

lemma core_inv_grant_fun: "core_inv im ns nd G E \<Longrightarrow> (p, t, a) \<in> G \<Longrightarrow> (p, t, b) \<in> G \<Longrightarrow> a = b"
  unfolding core_inv_def by (elim conjE) metis

lemma core_inv_elect: "core_inv im ns nd G E \<Longrightarrow> (t, n) \<in> E \<Longrightarrow> elect_ok im ns nd G t n"
  by (simp add: core_inv_def)

lemma core_inv_elect_fun: "core_inv im ns nd G E \<Longrightarrow> (t, m) \<in> E \<Longrightarrow> (t, n) \<in> E \<Longrightarrow> m = n"
  unfolding core_inv_def by (elim conjE) metis

lemma core_inv_leader: "core_inv im ns nd G E \<Longrightarrow> im_role im (nd n) = Leader \<Longrightarrow> (im_term im (nd n), n) \<in> E"
  by (simp add: core_inv_def)

lemmas core_inv_D = core_inv_node core_inv_grant core_inv_grant_fun core_inv_elect core_inv_elect_fun
  core_inv_leader

section \<open>Steps of one server\<close>

text \<open>A server that keeps its vote and is not promoted, or gives its vote up in a term of which it
  was never the leader.\<close>

definition settled :: "('n, 'c) raft_impl \<Rightarrow> (int \<times> int) set \<Rightarrow> int \<Rightarrow> 'n \<Rightarrow> 'n \<Rightarrow> bool" where
  "settled im E n c c' \<longleftrightarrow>
     im_id im c' = im_id im c \<and> im_peers im c' = im_peers im c \<and> im_term im c \<le> im_term im c'
     \<and> (im_term im c' = im_term im c \<longrightarrow> im_voted im c \<noteq> -1 \<longrightarrow>
          im_voted im c' = im_voted im c
          \<or> active (im_role im c) \<and> im_role im c' = Follower \<and> (im_term im c, n) \<notin> E)
     \<and> (active (im_role im c') \<longrightarrow> im_role im c' = im_role im c \<and> im_term im c' = im_term im c)"

lemma keeps_settled: "keeps im c c' \<Longrightarrow> settled im E n c c'"
  by (auto simp: keeps_def settled_def)

lemma settled_grant:
  assumes "grant_ok im ns nd n t a" "settled im E n (nd n) c'" "good_config ns"
  shows "grant_ok im ns (nd(n := c')) n t a"
  using assms by (auto simp: grant_ok_def settled_def good_config_def)

lemma settled_elect:
  assumes "elect_ok im ns nd G t n" "(t, n) \<in> E" "settled im E n (nd n) c'" "good_config ns"
  shows "elect_ok im ns (nd(n := c')) G t n"
  using assms by (auto simp: elect_ok_def settled_def good_config_def)

lemma settled_node:
  assumes "node_ok im ns n c" "settled im E n c c'" "good_config ns"
  shows "node_ok im ns n c'"
  using assms by (auto simp: node_ok_def settled_def good_config_def)

lemma core_settled:
  assumes inv: "core_inv im ns nd G E" and cfg: "good_config ns" and st: "settled im E n (nd n) c'"
  shows "core_inv im ns (nd(n := c')) G (if im_role im c' = Leader then insert (im_term im c', n) E else E)"
proof -
  have ldr: "(im_term im c', n) \<in> E" if "im_role im c' = Leader"
  proof -
    have "im_role im (nd n) = Leader \<and> im_term im c' = im_term im (nd n)"
      using st that by (simp add: settled_def)
    then show ?thesis using core_inv_leader [OF inv, of n] by simp
  qed
  then have E: "(if im_role im c' = Leader then insert (im_term im c', n) E else E) = E"
    by (auto simp: insert_absorb)
  show ?thesis
    unfolding E
  proof (rule core_invI)
    fix m show "node_ok im ns m ((nd(n := c')) m)"
      using settled_node [OF core_inv_node [OF inv] st cfg] core_inv_node [OF inv] by simp
    show "(im_term im ((nd(n := c')) m), m) \<in> E" if "im_role im ((nd(n := c')) m) = Leader"
      using that ldr core_inv_leader [OF inv] by (auto split: if_splits)
  next
    fix p t a assume g: "(p, t, a) \<in> G"
    show "grant_ok im ns (nd(n := c')) p t a"
      using core_inv_grant [OF inv g] settled_grant [where nd = nd and n = n, OF _ st cfg]
      by (cases "p = n") (auto simp: grant_ok_def)
  next
    fix t m assume e: "(t, m) \<in> E"
    show "elect_ok im ns (nd(n := c')) G t m"
      using core_inv_elect [OF inv e] settled_elect [where nd = nd and n = n, OF _ _ st cfg] e
      by (cases "m = n") (auto simp: elect_ok_def)
  qed (rule core_inv_grant_fun [OF inv] core_inv_elect_fun [OF inv], assumption+)+
qed

text \<open>A vote just granted enters the history.\<close>

lemma core_grant:
  assumes inv: "core_inv im ns nd G E"
    and now: "im_term im (nd p) = t" "im_voted im (nd p) = a"
    and who: "p \<in> set ns" "a \<in> set ns" "a \<noteq> p"
  shows "core_inv im ns nd (insert (p, t, a) G) E"
proof -
  have new: "grant_ok im ns nd p t a"
    using core_inv_node [OF inv, of p] now who by (auto simp: grant_ok_def node_ok_def)
  have fn: "b = a" if "(p, t, b) \<in> G" for b
    using core_inv_grant [OF inv that] now by (simp add: grant_ok_def)
  have ne: "(t, p) \<notin> E"
    using core_inv_elect [OF inv, of t p] now who by (auto simp: elect_ok_def)
  have sub: "{q. (q, u, m) \<in> insert (p, t, a) G} \<subseteq> set ns" for u m
    using core_inv_grant [OF inv] who by (auto simp: grant_ok_def)
  have fin: "finite {q. (q, u, m) \<in> insert (p, t, a) G}" for u m
    by (rule finite_subset [OF sub]) simp
  show ?thesis
  proof (rule core_invI)
    fix u m assume e: "(u, m) \<in> E"
    have "card (insert m {q. (q, u, m) \<in> G}) \<le> card (insert m {q. (q, u, m) \<in> insert (p, t, a) G})"
      by (intro card_mono finite.insertI fin) auto
    then show "elect_ok im ns nd (insert (p, t, a) G) u m"
      using core_inv_elect [OF inv e] ne e unfolding elect_ok_def by (intro conjI) auto
  next
    fix q u b d assume "(q, u, b) \<in> insert (p, t, a) G" "(q, u, d) \<in> insert (p, t, a) G"
    then show "b = d" using fn core_inv_grant_fun [OF inv] by blast
  next
    fix q u b assume "(q, u, b) \<in> insert (p, t, a) G"
    then show "grant_ok im ns nd q u b" using new core_inv_grant [OF inv] by auto
  next
    fix u m n assume "(u, m) \<in> E" "(u, n) \<in> E"
    then show "m = n" by (rule core_inv_elect_fun [OF inv])
  qed (simp_all add: core_inv_node [OF inv] core_inv_leader [OF inv])
qed

text \<open>The start of an election.\<close>

lemma core_candidate:
  assumes inv: "core_inv im ns nd G E" and n: "n \<in> set ns"
    and same: "im_id im c' = im_id im (nd n)" "im_peers im c' = im_peers im (nd n)"
    and c: "im_term im c' = im_term im (nd n) + 1" "im_role im c' = Candidate" "im_voted im c' = im_id im (nd n)"
  shows "core_inv im ns (nd(n := c')) G E"
proof (rule core_invI)
  fix m show "node_ok im ns m ((nd(n := c')) m)"
    using core_inv_node [OF inv, of m] core_inv_node [OF inv, of n] same c n by (auto simp: node_ok_def)
  show "(im_term im ((nd(n := c')) m), m) \<in> E" if "im_role im ((nd(n := c')) m) = Leader"
    using that c core_inv_leader [OF inv] by (auto split: if_splits)
next
  fix p t a assume "(p, t, a) \<in> G"
  then show "grant_ok im ns (nd(n := c')) p t a"
    using core_inv_grant [OF inv, of p t a] c by (auto simp: grant_ok_def)
next
  fix t m assume "(t, m) \<in> E"
  then show "elect_ok im ns (nd(n := c')) G t m"
    using core_inv_elect [OF inv, of t m] c by (auto simp: elect_ok_def)
qed (rule core_inv_grant_fun [OF inv] core_inv_elect_fun [OF inv], assumption+)+

text \<open>The end of an election won with the votes of \<open>W\<close>: two elections in one term would share a voter.\<close>

lemma core_leader:
  assumes inv: "core_inv im ns nd G E"
    and same: "same_vote im (nd n) c'" and role: "im_role im (nd n) = Candidate" "im_role im c' = Leader"
    and W: "W \<subseteq> {p. (p, im_term im (nd n), n) \<in> G}" "2 * (1 + card W) > card (set ns)"
  shows "core_inv im ns (nd(n := c')) G (insert (im_term im c', n) E)"
proof -
  define t where "t = im_term im (nd n)"
  define Q where "Q m = insert m {p. (p, t, m) \<in> G}" for m
  have N: "n \<in> set ns" "im_voted im (nd n) = n" "im_id im (nd n) = n" "im_peers im (nd n) = others ns n"
    using core_inv_node [OF inv, of n] role by (auto simp: node_ok_def)
  have S: "im_id im c' = n" "im_peers im c' = others ns n" "im_term im c' = t" "im_voted im c' = n"
    using same N by (auto simp: same_vote_def t_def)
  have noG: "(n, t, b) \<notin> G" for b
    using core_inv_grant [OF inv, of n t b] role by (auto simp: grant_ok_def t_def)
  have Qsub: "Q m \<subseteq> set ns" if "m \<in> set ns" for m
    using core_inv_grant [OF inv] that by (auto simp: grant_ok_def Q_def)
  have nQ: "2 * card (Q n) > card (set ns)"
  proof -
    have nW: "n \<notin> W" using W(1) noG by (auto simp: t_def)
    have finQ: "finite (Q n)" using Qsub [OF N(1)] finite_subset by blast
    have sub: "insert n W \<subseteq> Q n" using W(1) by (auto simp: Q_def t_def)
    then have "finite W" using finQ by (auto intro: finite_subset)
    with nW have "1 + card W = card (insert n W)" by simp
    also have "\<dots> \<le> card (Q n)" using sub finQ by (intro card_mono)
    finally have "2 * (1 + card W) \<le> 2 * card (Q n)" by (rule mult_le_mono2)
    with W(2) show ?thesis by (rule less_le_trans)
  qed
  have uniq: "m = n" if m: "(t, m) \<in> E" for m
  proof (rule ccontr)
    assume ne: "m \<noteq> n"
    have M: "m \<in> set ns" "2 * card (Q m) > card (set ns)" "\<And>b. (m, t, b) \<notin> G"
      using core_inv_elect [OF inv m] by (auto simp: elect_ok_def Q_def)
    obtain z where z: "z \<in> Q m" "z \<in> Q n"
      using majorities_meet [of "set ns" "Q m" "Q n"] Qsub [OF M(1)] Qsub [OF N(1)] nQ M(2) by auto
    from z ne noG M(3) have "(z, t, m) \<in> G" "(z, t, n) \<in> G" by (auto simp: Q_def)
    then show False using core_inv_grant_fun [OF inv] ne by blast
  qed
  have notE: "(t, n) \<notin> E"
    using core_inv_elect [OF inv, of t n] role by (auto simp: elect_ok_def t_def)
  have new: "elect_ok im ns (nd(n := c')) G t n"
    using S N(1) role nQ noG by (auto simp: elect_ok_def Q_def)
  show ?thesis
    unfolding S(3)
  proof (rule core_invI)
    fix m show "node_ok im ns m ((nd(n := c')) m)"
      using core_inv_node [OF inv, of m] S N(1) by (auto simp: node_ok_def)
    show "(im_term im ((nd(n := c')) m), m) \<in> insert (t, n) E" if "im_role im ((nd(n := c')) m) = Leader"
      using that S core_inv_leader [OF inv] by (auto split: if_splits)
  next
    fix p u a assume g: "(p, u, a) \<in> G"
    then show "grant_ok im ns (nd(n := c')) p u a"
      using core_inv_grant [OF inv g] noG S by (auto simp: grant_ok_def t_def)
  next
    fix u m assume e: "(u, m) \<in> insert (t, n) E"
    show "elect_ok im ns (nd(n := c')) G u m"
    proof (cases "(u, m) = (t, n)")
      case True then show ?thesis using new by simp
    next
      case False
      with e have "(u, m) \<in> E" by auto
      then show ?thesis using core_inv_elect [OF inv, of u m] S notE by (auto simp: elect_ok_def t_def)
    qed
  next
    fix u m k assume "(u, m) \<in> insert (t, n) E" "(u, k) \<in> insert (t, n) E"
    then show "m = k" using uniq core_inv_elect_fun [OF inv] by blast
  next
    fix p u a b assume "(p, u, a) \<in> G" "(p, u, b) \<in> G"
    then show "a = b" by (rule core_inv_grant_fun [OF inv])
  qed
qed

section \<open>Goroutines\<close>

lemma vkey_go_ok: "vkey x = Some (el, p) \<Longrightarrow> go_ok ns s x \<Longrightarrow> el < next_el s"
  by (cases x) (auto simp: vote_ok_def)

lemma go_ok_mono:
  assumes "go_ok ns s x"
    and "granted s \<subseteq> granted s'" "elected s \<subseteq> elected s'" "next_el s \<le> next_el s'"
    and "\<And>el. el < next_el s \<Longrightarrow> el_of s' el = el_of s el"
    and "\<And>el p. vkey x = Some (el, p) \<Longrightarrow> el < next_el s \<Longrightarrow> p \<notin> voters s el \<Longrightarrow> p \<notin> voters s' el"
  shows "go_ok ns s' x"
  using assms by (cases x) (auto simp: vote_ok_def send_ok_def)

lemma gos_invD:
  assumes "gos_inv ns s" "gos s g = Some x"
  shows "g < next_go s" "go_ok ns s x"
  using assms unfolding gos_inv_def by blast+

lemma gos_inv_uniq:
  "gos_inv ns s \<Longrightarrow> gos s g = Some x \<Longrightarrow> gos s h = Some y \<Longrightarrow> vkey x = Some k \<Longrightarrow> vkey y = Some k \<Longrightarrow> g = h"
  unfolding gos_inv_def by (elim conjE) metis

lemma gos_invI:
  assumes "\<And>g x. gos s g = Some x \<Longrightarrow> g < next_go s" "\<And>g x. gos s g = Some x \<Longrightarrow> go_ok ns s x"
    and "\<And>g h x y k. gos s g = Some x \<Longrightarrow> gos s h = Some y \<Longrightarrow> vkey x = Some k \<Longrightarrow> vkey y = Some k \<Longrightarrow> g = h"
  shows "gos_inv ns s"
  unfolding gos_inv_def using assms by blast

lemma gos_inv_frame:
  assumes inv: "gos_inv ns s" and "gos s' = gos s" "next_go s' = next_go s"
    and "granted s \<subseteq> granted s'" "elected s \<subseteq> elected s'" "next_el s \<le> next_el s'"
    and "\<And>el. el < next_el s \<Longrightarrow> el_of s' el = el_of s el"
    and "\<And>g x el p. gos s g = Some x \<Longrightarrow> vkey x = Some (el, p) \<Longrightarrow> el < next_el s \<Longrightarrow> p \<notin> voters s el
           \<Longrightarrow> p \<notin> voters s' el"
  shows "gos_inv ns s'"
proof (rule gos_invI)
  fix g x assume "gos s' g = Some x"
  then have x: "gos s g = Some x" using assms(2) by simp
  show "g < next_go s'" using gos_invD(1) [OF inv x] assms(3) by simp
  show "go_ok ns s' x"
    by (rule go_ok_mono [OF gos_invD(2) [OF inv x]]) (use assms(4-7) assms(8) [OF x] in auto)
next
  fix g h x y k
  assume "gos s' g = Some x" "gos s' h = Some y" "vkey x = Some k" "vkey y = Some k"
  then show "g = h" using gos_inv_uniq [OF inv] assms(2) by simp
qed

lemma gos_inv_set_node: "gos_inv ns s \<Longrightarrow> gos_inv ns (set_node im n c s)"
  by (erule gos_inv_frame) (auto simp: set_node_def)

lemma gos_inv_finish: "gos_inv ns s \<Longrightarrow> gos_inv ns (finish g s)"
proof (rule gos_invI)
  fix h x assume "gos_inv ns s" "gos (finish g s) h = Some x"
  then have x: "gos s h = Some x" and i: "gos_inv ns s" by (auto simp: finish_def split: if_splits)
  show "h < next_go (finish g s)" using gos_invD(1) [OF i x] by simp
  show "go_ok ns (finish g s) x" by (rule go_ok_mono [OF gos_invD(2) [OF i x]]) auto
next
  fix h h' x y k
  assume "gos_inv ns s" "gos (finish g s) h = Some x" "gos (finish g s) h' = Some y"
    "vkey x = Some k" "vkey y = Some k"
  then show "h = h'" using gos_inv_uniq [of ns s h x h' y k] by (auto simp: finish_def split: if_splits)
qed

lemma gos_inv_kill: "gos_inv ns s \<Longrightarrow> gos_inv ns (kill_node n s)"
proof (rule gos_invI)
  have sub: "gos (kill_node n s) h = Some x \<Longrightarrow> gos s h = Some x" for h x
    by (auto simp: kill_node_def split: option.splits if_splits)
  {
    fix h x assume i: "gos_inv ns s" and "gos (kill_node n s) h = Some x"
    then have x: "gos s h = Some x" by (rule_tac sub)
    show "h < next_go (kill_node n s)" using gos_invD(1) [OF i x] by simp
    show "go_ok ns (kill_node n s) x" by (rule go_ok_mono [OF gos_invD(2) [OF i x]]) auto
  next
    fix h h' x y k
    assume "gos_inv ns s" "gos (kill_node n s) h = Some x" "gos (kill_node n s) h' = Some y"
      "vkey x = Some k" "vkey y = Some k"
    then show "h = h'" using gos_inv_uniq [of ns s h x h' y k] sub by blast
  }
qed

lemma gos_inv_become:
  assumes i: "gos_inv ns s" and g: "gos s g = Some y" and k: "vkey x = None \<or> vkey x = vkey y"
    and ok: "go_ok ns s x"
  shows "gos_inv ns (become g x s)"
proof (rule gos_invI)
  fix h z assume z: "gos (become g x s) h = Some z"
  show "h < next_go (become g x s)"
    using z gos_invD(1) [OF i] g by (auto simp: become_def split: if_splits)
  have "go_ok ns s z" using z gos_invD(2) [OF i] ok by (auto simp: become_def split: if_splits)
  then show "go_ok ns (become g x s) z" by (rule go_ok_mono) auto
next
  fix h h' z z' l
  assume a: "gos (become g x s) h = Some z" "gos (become g x s) h' = Some z'" "vkey z = Some l" "vkey z' = Some l"
  have "\<exists>w. gos s h = Some w \<and> vkey w = Some l" "\<exists>w. gos s h' = Some w \<and> vkey w = Some l"
    using a k g by (auto simp: become_def split: if_splits)
  then show "h = h'" using gos_inv_uniq [OF i] by blast
qed

lemma gos_inv_spawn:
  assumes i: "gos_inv ns s"
    and es: "\<And>e. e \<in> set es \<Longrightarrow> vkey (goroutine_of n (next_el s) e :: 'c goroutine) = None"
      "\<And>e. e \<in> set es \<Longrightarrow> go_ok ns s (goroutine_of n (next_el s) e)"
  shows "gos_inv ns (spawn n es (s :: ('n, 'c) cluster))"
proof (rule gos_invI)
  fix h x assume "gos (spawn n es s) h = Some x"
  then consider "gos s h = Some x"
    | j where "j < length es" "h = next_go s + j" "x = goroutine_of n (next_el s) (es ! j)"
    using spawn_gos by blast
  then have "h < next_go s + length es \<and> go_ok ns s x"
    using gos_invD [OF i] es(2) by cases fastforce+
  then show "h < next_go (spawn n es s)" "go_ok ns (spawn n es s) x"
    using go_ok_mono [of ns s x "spawn n es s"] by (auto simp: spawn_def)
next
  fix h h' x y k
  assume a: "gos (spawn n es s) h = Some x" "gos (spawn n es s) h' = Some y" "vkey x = Some k" "vkey y = Some k"
  have "gos s h = Some x" using spawn_gos [OF a(1)] a(3) es(1) by (metis nth_mem option.distinct(1))
  moreover have "gos s h' = Some y" using spawn_gos [OF a(2)] a(4) es(1) by (metis nth_mem option.distinct(1))
  ultimately show "h = h'" using gos_inv_uniq [OF i] a(3,4) by blast
qed

lemma gos_inv_quiet: "gos_inv ns s \<Longrightarrow> n \<in> set ns \<Longrightarrow> quiet es \<Longrightarrow> gos_inv ns (spawn n es s)"
  by (rule gos_inv_spawn) (auto simp: quiet_def)

text \<open>The goroutines of a new election: one per peer, all for the fresh election number.\<close>

definition open_election :: "int \<Rightarrow> int \<Rightarrow> ('n, 'c) cluster \<Rightarrow> ('n, 'c) cluster" where
  "open_election n t s =
     s\<lparr>votes := (votes s)(next_el s := 1), el_of := (el_of s)(next_el s := (n, t)),
       voters := (voters s)(next_el s := {}), next_el := Suc (next_el s)\<rparr>"

lemma open_election_frame:
  assumes "gos_inv ns s" shows "gos_inv ns (open_election n t s)"
  by (rule gos_inv_frame [OF assms]) (auto simp: open_election_def)

lemma el_inv_open: "el_inv ns s \<Longrightarrow> el_inv ns (open_election n t s)"
  by (auto simp: el_inv_def open_election_def less_Suc_eq)

lemma vkey_request:
  "vkey (goroutine_of n el e :: 'c goroutine) = Some k \<Longrightarrow> \<exists>p t. e = GoRequestVote p t \<and> k = (el, p)"
  by (cases e) auto

lemma gos_inv_election:
  fixes s :: "('n, 'c) cluster"
  assumes i: "gos_inv ns s" and cfg: "good_config ns" and n: "n \<in> set ns"
    and es: "es = map (\<lambda>p. GoRequestVote p t) (others ns n) @ [GoRunElectionTimer]"
  shows "gos_inv ns (open_election n t (spawn n es s))"
proof -
  let ?s = "open_election n t (spawn n es s)"
  have fields: "next_go ?s = next_go s + length es" "next_el ?s = Suc (next_el s)"
      "el_of ?s = (el_of s)(next_el s := (n, t))" "voters ?s = (voters s)(next_el s := {})"
      "granted ?s = granted s" "elected ?s = elected s" "gos ?s = gos (spawn n es s)"
    by (simp_all add: open_election_def spawn_def)
  have old: "go_ok ns ?s x" if "gos s h = Some x" for h x
    by (rule go_ok_mono [OF gos_invD(2) [OF i that]]) (auto simp: fields)
  have new: "go_ok ns ?s (goroutine_of n (next_el s) e)" if "e \<in> set es" for e
  proof -
    have "e = GoRunElectionTimer \<or> (\<exists>p. e = GoRequestVote p t \<and> p \<in> set ns \<and> p \<noteq> n)"
      using that by (auto simp: es others_def)
    then show ?thesis using n by (auto simp: vote_ok_def fields)
  qed
  have oldk: "fst k < next_el s" if "gos s h = Some x" "vkey x = Some k" for h x k
    using vkey_go_ok [of x "fst k" "snd k" ns s] gos_invD(2) [OF i that(1)] that(2) by simp
  have dist: "distinct es"
    using cfg by (auto simp: es good_config_def others_def distinct_map inj_on_def)
  show ?thesis
  proof (rule gos_invI)
    fix h x assume "gos ?s h = Some x"
    then consider "gos s h = Some x"
      | j where "j < length es" "h = next_go s + j" "x = goroutine_of n (next_el s) (es ! j)"
      using spawn_gos fields(7) by metis
    then show "h < next_go ?s" "go_ok ns ?s x"
      using gos_invD(1) [OF i] old new by (cases; fastforce simp: fields)+
  next
    fix h h' x y k
    assume a: "gos ?s h = Some x" "gos ?s h' = Some y" "vkey x = Some k" "vkey y = Some k"
    from spawn_gos a(1,2) fields(7) have
      x: "gos s h = Some x \<or> (\<exists>j<length es. h = next_go s + j \<and> x = goroutine_of n (next_el s) (es ! j))" and
      y: "gos s h' = Some y \<or> (\<exists>j<length es. h' = next_go s + j \<and> y = goroutine_of n (next_el s) (es ! j))"
      by metis+
    show "h = h'"
    proof (cases "fst k < next_el s")
      case True
      have "gos s h = Some x" using x vkey_request a(3) True by fastforce
      moreover have "gos s h' = Some y" using y vkey_request a(4) True by fastforce
      ultimately show ?thesis using gos_inv_uniq [OF i] a(3,4) by blast
    next
      case False
      obtain j where j: "j < length es" "h = next_go s + j" "x = goroutine_of n (next_el s) (es ! j)"
        using x oldk a(3) False by blast
      obtain j' where j': "j' < length es" "h' = next_go s + j'" "y = goroutine_of n (next_el s) (es ! j')"
        using y oldk a(4) False by blast
      have "\<exists>p u. es ! j = GoRequestVote p u \<and> k = (next_el s, p)" using vkey_request j(3) a(3) by metis
      moreover have "\<exists>p u. es ! j' = GoRequestVote p u \<and> k = (next_el s, p)" using vkey_request j'(3) a(4) by metis
      moreover have "\<And>p u. GoRequestVote p u \<in> set es \<Longrightarrow> u = t" by (auto simp: es)
      ultimately have "es ! j = es ! j'" using j(1) j'(1) by (metis Pair_inject nth_mem)
      then show ?thesis using dist j j' by (simp add: nth_eq_iff_index_eq)
    qed
  qed
qed

lemma el_inv_frame:
  "el_inv ns s \<Longrightarrow> votes s' = votes s \<Longrightarrow> voters s' = voters s \<Longrightarrow> el_of s' = el_of s
     \<Longrightarrow> next_el s' = next_el s \<Longrightarrow> granted s \<subseteq> granted s' \<Longrightarrow> el_inv ns s'"
  unfolding el_inv_def by (auto)

section \<open>Every timely step keeps the invariant\<close>

lemma cluster_invD:
  assumes "cluster_inv im ns s"
  shows "members s = ns" "core_inv im ns (nodes s) (granted s) (elected s)" "gos_inv ns s" "el_inv ns s"
  using assms by (simp_all add: cluster_inv_def)

text \<open>A server moves without promotion and starts only timers and triggers.\<close>

lemma cluster_inv_settled:
  assumes inv: "cluster_inv im ns s" and cfg: "good_config ns"
    and st: "settled im (elected s) n (nodes s n) c'"
  shows "cluster_inv im ns (set_node im n c' s)"
  using core_settled [OF cluster_invD(2) [OF inv] cfg st] gos_inv_set_node [OF cluster_invD(3) [OF inv]]
    el_inv_frame [OF cluster_invD(4) [OF inv], of "set_node im n c' s"] cluster_invD(1) [OF inv]
  by (simp add: cluster_inv_def set_node_changes)

lemma cluster_inv_quiet:
  assumes "cluster_inv im ns s" "quiet es" "n \<in> set ns"
  shows "cluster_inv im ns (spawn n es s)"
  using cluster_invD [OF assms(1)] gos_inv_quiet [OF _ assms(3,2)]
    el_inv_frame [OF cluster_invD(4) [OF assms(1)], of "spawn n es s"]
  by (simp add: cluster_inv_def)

lemma cluster_inv_finish: "cluster_inv im ns s \<Longrightarrow> cluster_inv im ns (finish g s)"
  using gos_inv_finish [of ns s g] el_inv_frame [of ns s "finish g s"] by (simp add: cluster_inv_def)

lemma cluster_inv_become:
  assumes "cluster_inv im ns s" "gos s g = Some y" "vkey x = None \<or> vkey x = vkey y" "go_ok ns s x"
  shows "cluster_inv im ns (become g x s)"
  using cluster_invD [OF assms(1)] gos_inv_become [OF _ assms(2-4)]
    el_inv_frame [OF cluster_invD(4) [OF assms(1)], of "become g x s"]
  by (simp add: cluster_inv_def)

lemma cluster_inv_kill: "cluster_inv im ns s \<Longrightarrow> cluster_inv im ns (kill_node n s)"
  using gos_inv_kill [of ns s n] el_inv_frame [of ns s "kill_node n s"] by (simp add: cluster_inv_def)

lemma cluster_inv_launch:
  assumes "cluster_inv im ns s" "n \<in> set ns"
  shows "cluster_inv im ns (launch (GReady n) s)"
proof -
  have "gos_inv ns (launch (GReady n) s)"
  proof (rule gos_invI)
    note i = cluster_invD(3) [OF assms(1)]
    fix h x assume x: "gos (launch (GReady n) s) h = Some x"
    show "h < next_go (launch (GReady n) s)"
      using x gos_invD(1) [OF i] by (fastforce simp: launch_def split: if_splits)
    have "go_ok ns s x" using x gos_invD(2) [OF i] assms(2) by (auto simp: launch_def split: if_splits)
    then show "go_ok ns (launch (GReady n) s) x" by (rule go_ok_mono) auto
  next
    fix h h' x y k
    assume "gos (launch (GReady n) s) h = Some x" "gos (launch (GReady n) s) h' = Some y"
      "vkey x = Some k" "vkey y = Some k"
    then show "h = h'" using gos_inv_uniq [OF cluster_invD(3) [OF assms(1)]]
      by (auto simp: launch_def split: if_splits)
  qed
  then show ?thesis
    using cluster_invD [OF assms(1)] el_inv_frame [OF cluster_invD(4) [OF assms(1)], of "launch (GReady n) s"]
    by (simp add: cluster_inv_def)
qed

lemma cluster_inv_go: "cluster_inv im ns s \<Longrightarrow> gos s g = Some x \<Longrightarrow> go_ok ns s x"
  by (rule gos_invD(2) [OF cluster_invD(3)])

lemma cluster_inv_grant:
  assumes inv: "cluster_inv im ns s" and now: "im_term im (nodes s p) = t" "im_voted im (nodes s p) = a"
    and who: "p \<in> set ns" "a \<in> set ns" "a \<noteq> p"
  shows "cluster_inv im ns (s\<lparr>granted := insert (p, t, a) (granted s)\<rparr>)"
proof -
  let ?s = "s\<lparr>granted := insert (p, t, a) (granted s)\<rparr>"
  have "gos_inv ns ?s" by (rule gos_inv_frame [OF cluster_invD(3) [OF inv]]) auto
  moreover have "el_inv ns ?s" by (rule el_inv_frame [OF cluster_invD(4) [OF inv]]) auto
  ultimately show ?thesis
    using core_grant [OF cluster_invD(2) [OF inv] now who] cluster_invD(1) [OF inv]
    by (simp add: cluster_inv_def)
qed

lemma go_node_ok: "go_ok ns s x \<Longrightarrow> go_node x \<in> set ns"
  by (cases x) auto

context raft_node
begin

text \<open>Moving a server by an operation that keeps its vote, with the goroutines it starts.\<close>

lemma inv_keeps:
  assumes "cluster_inv im ns s" "good_config ns" "keeps im (nodes s n) c'" "quiet es" "n \<in> set ns"
  shows "cluster_inv im ns (spawn n es (set_node im n c' s))"
  by (rule cluster_inv_quiet [OF cluster_inv_settled [OF assms(1,2) keeps_settled [OF assms(3)]] assms(4,5)])

lemma inv_VoteDeliver:
  assumes inv: "cluster_inv im ns s" and cfg: "good_config ns"
    and step: "cstep im (EVoteDeliver g now) s = Some (Inr s')"
  shows "cluster_inv im ns s'"
proof -
  from step obtain n el p t a where g: "gos s g = Some (GVoteCall n el p t a)"
    by (auto split: option.splits goroutine.splits)
  obtain c r es where rv: "im_RequestVote im now a (nodes s p) = (c, r, es)" by (metis prod_cases3)
  note law = RequestVote_law [OF rv]
  from cluster_inv_go [OF inv g] have ok: "n \<in> set ns" "vote_ok ns s n el p t" "rv_Term a = t" "rv_CandidateId a = n"
    by auto
  then have p: "p \<in> set ns" "p \<noteq> n" by (auto simp: vote_ok_def)
  define s1 where "s1 = spawn p es (set_node im p c s)"
  have inv1: "cluster_inv im ns s1"
    unfolding s1_def using inv_keeps [OF inv cfg] law p by blast
  have gs1: "gos s1 g = Some (GVoteCall n el p t a)"
    using g gos_invD(1) [OF cluster_invD(3) [OF inv] g] by (simp add: s1_def spawn_def)
  have nd1: "nodes s1 p = c" by (simp add: s1_def set_node_changes)
  show ?thesis
  proof (cases r)
    case None
    with step g rv have "s' = finish g s1" by (simp add: s1_def)
    with cluster_inv_finish [OF inv1] show ?thesis by simp
  next
    case (Some reply)
    define s2 where "s2 = (if rvr_VoteGranted reply then s1\<lparr>granted := insert (p, t, n) (granted s1)\<rparr> else s1)"
    have inv2: "cluster_inv im ns s2"
      using cluster_inv_grant [OF inv1, of p t n] inv1 law Some nd1 p ok by (auto simp: s2_def)
    have gs2: "gos s2 g = Some (GVoteCall n el p t a)" using gs1 by (simp add: s2_def)
    have ok2: "go_ok ns s2 (GVoteReply n el p t reply)"
      using cluster_inv_go [OF inv2 gs2] by (auto simp: s2_def)
    have "s' = become g (GVoteReply n el p t reply) s2"
      using step g rv Some ok by (auto simp: s1_def s2_def)
    with cluster_inv_become [OF inv2 gs2 _ ok2] show ?thesis by simp
  qed
qed

lemma inv_TimerTick:
  assumes inv: "cluster_inv im ns s" and cfg: "good_config ns"
    and step: "cstep im (ETimerTick g now) s = Some (Inr s')"
  shows "cluster_inv im ns s'"
proof -
  from step obtain n t d where g: "gos s g = Some (GTimer n t d)"
    by (auto split: option.splits goroutine.splits)
  obtain goes_on c es where tm: "im_timer im now t d (nodes s n) = (goes_on, c, es)" by (metis prod_cases3)
  have n: "n \<in> set ns" using cluster_inv_go [OF inv g] by simp
  define s0 where "s0 = (if goes_on then s else finish g s)"
  have inv0: "cluster_inv im ns s0" using inv cluster_inv_finish by (auto simp: s0_def)
  have same: "nodes s0 = nodes s" "next_el s0 = next_el s" by (simp_all add: s0_def)
  have s': "s' = open_election n (im_term im c) (spawn n es (set_node im n c s0))"
    using step g tm by (auto simp: s0_def open_election_def)
  have I: "gos_inv ns (set_node im n c s0)" "el_inv ns (spawn n es (set_node im n c s0))"
    using gos_inv_set_node [OF cluster_invD(3) [OF inv0]]
      el_inv_frame [OF cluster_invD(4) [OF inv0], of "spawn n es (set_node im n c s0)"] by simp_all
  have mem: "members s' = ns" using cluster_invD(1) [OF inv0] by (simp add: s' open_election_def)
  have el: "el_inv ns s'" using el_inv_open [OF I(2)] s' by simp
  have nodes': "nodes s' = (nodes s)(n := c)" "granted s' = granted s0"
      "elected s' = (if im_role im c = Leader then insert (im_term im c, n) (elected s0) else elected s0)"
    by (simp_all add: s' open_election_def set_node_changes same)
  from timer_law [OF tm] show ?thesis
  proof (elim disjE conjE)
    assume q: "c = nodes s n" "es = []"
    have "core_inv im ns (nodes s') (granted s') (elected s')"
      using core_settled [OF cluster_invD(2) [OF inv0] cfg, of n c] q
      by (simp add: nodes' settled_def same)
    moreover have "gos_inv ns s'"
      using open_election_frame gos_inv_spawn [OF I(1), of "[]" n] q s' by simp
    ultimately show ?thesis using mem el by (simp add: cluster_inv_def)
  next
    assume c: "im_id im c = im_id im (nodes s n)" "im_peers im c = im_peers im (nodes s n)"
      "im_term im c = im_term im (nodes s n) + 1" "im_role im c = Candidate" "im_voted im c = im_id im (nodes s n)"
      and es: "es = map (\<lambda>p. GoRequestVote p (im_term im c)) (im_peers im (nodes s n)) @ [GoRunElectionTimer]"
    have "core_inv im ns (nodes s') (granted s') (elected s')"
      using core_candidate [OF cluster_invD(2) [OF inv0] n, of c] c by (simp add: nodes' same)
    moreover have "im_peers im (nodes s n) = others ns n"
      using core_inv_node [OF cluster_invD(2) [OF inv], of n] by (simp add: node_ok_def)
    then have "gos_inv ns s'"
      using gos_inv_election [OF I(1) cfg n, of es "im_term im c"] es s' by simp
    ultimately show ?thesis using mem el by (simp add: cluster_inv_def)
  qed
qed

text \<open>Counting one more vote: the goroutine that carried it is gone and no other one of this election
  asks the same peer.\<close>

lemma inv_count_vote:
  assumes inv: "cluster_inv im ns s" and g: "gos s g = Some (GVoteReply n el p t r)"
    and r: "rvr_VoteGranted r" "rvr_Term r = t"
  defines "s1 \<equiv> (finish g s)\<lparr>votes := (votes s)(el := votes s el + 1),
                              voters := (voters s)(el := insert p (voters s el))\<rparr>"
  shows "cluster_inv im ns s1" "insert p (voters s el) \<subseteq> {q. (q, t, n) \<in> granted s}"
    and "votes s el + 1 = 1 + int (card (insert p (voters s el)))"
proof -
  from cluster_inv_go [OF inv g] r have ok: "vote_ok ns s n el p t" "(p, t, n) \<in> granted s" by auto
  then have vo: "el < next_el s" "el_of s el = (n, t)" "p \<notin> voters s el" by (auto simp: vote_ok_def)
  have E: "votes s el = 1 + int (card (voters s el))" "voters s el \<subseteq> {q. (q, t, n) \<in> granted s}"
    using cluster_invD(4) [OF inv, unfolded el_inv_def, rule_format, OF vo(1)] vo(2) by simp_all
  show sub: "insert p (voters s el) \<subseteq> {q. (q, t, n) \<in> granted s}" using E ok by auto
  have "{q. (q, t, n) \<in> granted s} \<subseteq> set ns"
    using core_inv_grant [OF cluster_invD(2) [OF inv]] by (auto simp: grant_ok_def)
  then have "finite (voters s el)" using E(2) by (meson finite_set finite_subset)
  then show cnt: "votes s el + 1 = 1 + int (card (insert p (voters s el)))" using E(1) vo(3) by simp
  have "gos_inv ns s1"
  proof (rule gos_inv_frame [OF gos_inv_finish [OF cluster_invD(3) [OF inv], of g]])
    fix h x el' q
    assume h: "gos (finish g s) h = Some x" "vkey x = Some (el', q)" "q \<notin> voters (finish g s) el'"
    then have hs: "gos s h = Some x" "h \<noteq> g" by (auto simp: finish_def split: if_splits)
    have "(el', q) \<noteq> (el, p)" using gos_inv_uniq [OF cluster_invD(3) [OF inv] hs(1) g h(2)] hs(2) by auto
    then show "q \<notin> voters s1 el'" using h(3) by (auto simp: s1_def)
  qed (auto simp: s1_def)
  moreover have "el_inv ns s1"
    using cluster_invD(4) [OF inv] cnt sub vo by (auto simp: el_inv_def s1_def)
  ultimately show "cluster_inv im ns s1"
    using cluster_invD(1,2) [OF inv] by (simp add: cluster_inv_def s1_def)
qed

lemma inv_VoteReply:
  assumes inv: "cluster_inv im ns s" and cfg: "good_config ns" and tl: "timely im s (EVoteReply g now)"
    and step: "cstep im (EVoteReply g now) s = Some (Inr s')"
  shows "cluster_inv im ns s'"
proof -
  from step obtain n el p t r where g: "gos s g = Some (GVoteReply n el p t r)"
    by (auto split: option.splits goroutine.splits)
  obtain c v es where vr: "im_voteReply im now t (votes s el) r (nodes s n) = (c, v, es)" by (metis prod_cases3)
  have n: "n \<in> set ns" using cluster_inv_go [OF inv g] by simp
  have tm: "im_role im (nodes s n) = Candidate \<longrightarrow> im_term im (nodes s n) = t" using tl g by simp
  have s': "s' = (spawn n es (set_node im n c (finish g s)))
     \<lparr>votes := (votes s)(el := v),
      voters := (voters s)(el := (if v = votes s el then voters s el else insert p (voters s el)))\<rparr>"
    using step g vr by auto
  from voteReply_law [OF vr tm] show ?thesis
  proof (elim disjE)
    assume k: "keeps im (nodes s n) c \<and> v = votes s el \<and> quiet es"
    then have "s' = spawn n es (set_node im n c (finish g s))"
      by (simp add: s' fun_upd_idem spawn_def set_node_def finish_def)
    then show ?thesis using inv_keeps [OF cluster_inv_finish [OF inv] cfg] k n by simp
  next
    assume k: "im_role im (nodes s n) = Candidate \<and> rvr_VoteGranted r \<and> rvr_Term r = t \<and> v = votes s el + 1
            \<and> same_vote im (nodes s n) c
            \<and> (im_role im c = Candidate \<and> es = []
               \<or> im_role im c = Leader \<and> majority v (im_peers im (nodes s n)) \<and> es = [GoLeaderLoop])"
    define s1 where "s1 = (finish g s)\<lparr>votes := (votes s)(el := votes s el + 1),
                              voters := (voters s)(el := insert p (voters s el))\<rparr>"
    have cv: "cluster_inv im ns s1" "insert p (voters s el) \<subseteq> {q. (q, t, n) \<in> granted s}"
      "votes s el + 1 = 1 + int (card (insert p (voters s el)))"
      using inv_count_vote [OF inv g] k unfolding s1_def by blast+
    have nd: "nodes s1 = nodes s" by (simp add: s1_def)
    have s'1: "s' = spawn n es (set_node im n c s1)"
      by (rule cluster.equality) (simp_all add: s' s1_def spawn_def set_node_def finish_def k cong: if_cong)
    show ?thesis
    proof (cases "im_role im c = Leader")
      case False
      with k have "keeps im (nodes s n) c" "quiet es" by (auto simp: keeps_def same_vote_def quiet_def)
      then show ?thesis using inv_keeps [OF cv(1) cfg, of n c es] n nd s'1 by simp
    next
      case True
      with k have maj: "majority v (im_peers im (nodes s n))" and es: "es = [GoLeaderLoop]" by auto
      have pe: "im_peers im (nodes s n) = others ns n"
        using core_inv_node [OF cluster_invD(2) [OF inv], of n] by (simp add: node_ok_def)
      have len: "Suc (length (others ns n)) = card (set ns)"
        using cfg n by (simp add: length_others distinct_card good_config_def)
      have W: "2 * (1 + card (insert p (voters s el))) > card (set ns)"
        using maj k cv(3) len by (simp add: majority_def pe)
      have "core_inv im ns ((nodes s1)(n := c)) (granted s1) (insert (im_term im c, n) (elected s1))"
        by (rule core_leader [OF cluster_invD(2) [OF cv(1)], of n c "insert p (voters s el)"])
          (use k True cv(2) tm W nd in \<open>auto simp: s1_def\<close>)
      then have "cluster_inv im ns (set_node im n c s1)"
        using True cluster_invD [OF cv(1)] gos_inv_set_node [OF cluster_invD(3) [OF cv(1)]]
          el_inv_frame [OF cluster_invD(4) [OF cv(1)], of "set_node im n c s1"]
        by (simp add: cluster_inv_def set_node_changes)
      moreover have "gos_inv ns (spawn n es (set_node im n c s1))"
        using gos_inv_spawn [OF cluster_invD(3) [OF calculation], of es n] es n by simp
      ultimately show ?thesis
        unfolding s'1 cluster_inv_def
        using el_inv_frame [OF cluster_invD(4), of im ns "set_node im n c s1" "spawn n es (set_node im n c s1)"]
        by (simp add: cluster_inv_def)
    qed
  qed
qed

text \<open>An AppendEntries call of term \<open>t\<close> comes from the leader of \<open>t\<close>, so a server that gives its vote
  up because of it was not that leader.\<close>

lemma inv_SendDeliver:
  assumes inv: "cluster_inv im ns s" and cfg: "good_config ns"
    and step: "cstep im (ESendDeliver g now) s = Some (Inr s')"
  shows "cluster_inv im ns s'"
proof -
  from step obtain n p t ni a where g: "gos s g = Some (GSendCall n p t ni a)"
    by (auto split: option.splits goroutine.splits)
  with step obtain c r es where ae: "im_AppendEntries im now a (nodes s p) = Inr (c, r, es)"
    and s': "s' = (case r of None \<Rightarrow> finish g (spawn p es (set_node im p c s))
       | Some reply \<Rightarrow> become g (GSendReply n p t ni (length (ae_Entries a)) reply) (spawn p es (set_node im p c s)))"
    by (auto simp: go_bind_eq_Inr Let_def split: option.splits)
  note law = AppendEntries_law [OF ae]
  from cluster_inv_go [OF inv g] have ok: "n \<in> set ns" "send_ok ns s n p t" "ae_Term a = t" by auto
  then have p: "p \<in> set ns" "p \<noteq> n" "(t, n) \<in> elected s" by (auto simp: send_ok_def)
  have "(t, p) \<notin> elected s"
    using core_inv_elect_fun [OF cluster_invD(2) [OF inv] p(3)] p(2) by blast
  then have "settled im (elected s) p (nodes s p) c"
    using law ok(3) by (auto simp: settled_def)
  then have inv1: "cluster_inv im ns (spawn p es (set_node im p c s))"
    using cluster_inv_quiet [OF cluster_inv_settled [OF inv cfg]] law p(1) by blast
  have gs1: "gos (spawn p es (set_node im p c s)) g = Some (GSendCall n p t ni a)"
    using g gos_invD(1) [OF cluster_invD(3) [OF inv] g] by (simp add: spawn_def)
  show ?thesis
    using cluster_inv_finish [OF inv1, of g] cluster_inv_become [OF inv1 gs1] ok(1)
    by (auto simp: s' split: option.splits)
qed

lemma inv_Restart:
  assumes inv: "cluster_inv im ns s" and cfg: "good_config ns" and tl: "timely im s (ERestart n)"
    and step: "cstep im (ERestart n) s = Some (Inr s')"
  shows "cluster_inv im ns s'"
proof -
  from step obtain c where n: "n \<in> set ns" and r: "im_restart im (nodes s n) = Inr c"
    and s': "s' = launch (GReady n) (set_node im n c (kill_node n s))"
    using cluster_invD(1) [OF inv] by (auto simp: go_bind_eq_Inr split: if_splits)
  have "settled im (elected s) n (nodes s n) c"
    using restart_law [OF r] tl r by (auto simp: settled_def)
  then have "cluster_inv im ns (set_node im n c (kill_node n s))"
    using cluster_inv_settled [where s = "kill_node n s" and n = n and c' = c, OF cluster_inv_kill [OF inv] cfg]
    by simp
  then show ?thesis unfolding s' by (rule cluster_inv_launch [OF _ n])
qed

lemma inv_loop_fire:
  assumes "cluster_inv im ns s" "gos s g = Some (GLoopWait n)"
  shows "cluster_inv im ns (if P then become g (GLoopSend n) s else finish g s)"
  using cluster_inv_become [OF assms, of "GLoopSend n"] cluster_inv_finish [OF assms(1)]
    cluster_inv_go [OF assms] by simp

lemma inv_LoopSend:
  assumes inv: "cluster_inv im ns s" and g: "gos s g = Some (GLoopSend n)"
  shows "cluster_inv im ns (spawn n (im_sendAEs im (nodes s n)) (become g (GLoopWait n) s))"
proof -
  let ?es = "im_sendAEs im (nodes s n)" and ?s = "become g (GLoopWait n) s"
  have n: "n \<in> set ns" using cluster_inv_go [OF inv g] by simp
  have inv1: "cluster_inv im ns ?s" by (rule cluster_inv_become [OF inv g]) (use n in auto)
  have "gos_inv ns (spawn n ?es ?s)"
  proof (rule gos_inv_spawn [OF cluster_invD(3) [OF inv1]])
    fix e assume "e \<in> set ?es"
    then obtain q where q: "e = GoSendAE q (im_term im (nodes s n))" "q \<in> set (im_peers im (nodes s n))"
      and l: "im_role im (nodes s n) = Leader" using sendAEs_law by blast
    have "(im_term im (nodes s n), n) \<in> elected s" by (rule core_inv_leader [OF cluster_invD(2) [OF inv] l])
    moreover have "im_peers im (nodes s n) = others ns n"
      using core_inv_node [OF cluster_invD(2) [OF inv], of n] by (simp add: node_ok_def)
    ultimately show "vkey (goroutine_of n (next_el ?s) e) = None" "go_ok ns ?s (goroutine_of n (next_el ?s) e)"
      using q n by (auto simp: send_ok_def others_def)
  qed
  then show ?thesis
    using cluster_invD [OF inv1] el_inv_frame [OF cluster_invD(4) [OF inv1], of "spawn n ?es ?s"]
    by (simp add: cluster_inv_def)
qed

text \<open>The goroutine of an event that moves one server with \<open>keeps\<close>, and of one that moves none.\<close>

lemma inv_calls:
  assumes inv: "cluster_inv im ns s"
  shows "gos s g = Some (GTimerNew n) \<Longrightarrow> cluster_inv im ns (become g (GTimer n u d) s)"
    and "gos s g = Some (GVoteStart n el p t) \<Longrightarrow>
           cluster_inv im ns (become g (GVoteCall n el p t (im_voteArgs im t (nodes s n))) s)"
    and "gos s g = Some (GSendStart n p t) \<Longrightarrow> im_aeArgs im t p (nodes s n) = Inr (i, a) \<Longrightarrow>
           cluster_inv im ns (become g (GSendCall n p t i a) s)"
proof -
  show "cluster_inv im ns (become g (GTimer n u d) s)" if "gos s g = Some (GTimerNew n)"
    by (rule cluster_inv_become [OF inv that]) (use cluster_inv_go [OF inv that] in auto)
  show "cluster_inv im ns (become g (GVoteCall n el p t (im_voteArgs im t (nodes s n))) s)"
    if g: "gos s g = Some (GVoteStart n el p t)"
    using cluster_inv_go [OF inv g] voteArgs_law core_inv_node [OF cluster_invD(2) [OF inv], of n]
    by (intro cluster_inv_become [OF inv g]) (auto simp: node_ok_def)
  show "cluster_inv im ns (become g (GSendCall n p t i a) s)"
    if g: "gos s g = Some (GSendStart n p t)" and a: "im_aeArgs im t p (nodes s n) = Inr (i, a)"
    using cluster_inv_go [OF inv g] aeArgs_law [OF a] by (intro cluster_inv_become [OF inv g]) auto
qed

lemma inv_step:
  assumes inv: "cluster_inv im ns s" and cfg: "good_config ns" and tl: "timely im s ev"
    and step: "cstep im ev s = Some (Inr s')"
  shows "cluster_inv im ns s'"
proof (cases ev)
  case (EReady g now)
  then obtain n c es where "gos s g = Some (GReady n)" "im_ready im now (nodes s n) = (c, es)"
      "s' = spawn n es (set_node im n c (finish g s))"
    using step by (auto split: option.splits goroutine.splits prod.splits)
  then show ?thesis
    using inv_keeps [where s = "finish g s", OF cluster_inv_finish [OF inv] cfg, of n c es] ready_law [of now "nodes s n" c es]
      cluster_inv_go [OF inv, of g] by simp
next
  case (ETimerNew g d)
  then show ?thesis using step inv_calls(1) [OF inv] by (auto split: option.splits goroutine.splits)
next
  case (ETimerTick g now)
  then show ?thesis using step inv_TimerTick [OF inv cfg] by blast
next
  case (EVoteSend g)
  then show ?thesis using step inv_calls(2) [OF inv] by (auto split: option.splits goroutine.splits)
next
  case (EVoteDeliver g now)
  then show ?thesis using step inv_VoteDeliver [OF inv cfg] by blast
next
  case (EVoteReply g now)
  then show ?thesis using step tl inv_VoteReply [OF inv cfg] by blast
next
  case (ELoopSend g)
  then show ?thesis using step inv_LoopSend [OF inv] by (auto split: option.splits goroutine.splits)
next
  case (ELoopFire g)
  then obtain n where "gos s g = Some (GLoopWait n)"
      "s' = (if im_role im (nodes s n) = Leader then become g (GLoopSend n) s else finish g s)"
    using step by (auto split: option.splits goroutine.splits)
  then show ?thesis using inv_loop_fire [OF inv] by blast
next
  case (ELoopTrigger g h)
  then obtain n where "gos s g = Some (GLoopWait n)" "gos s h = Some (GTrigger n)"
      "s' = (if im_role im (nodes s n) = Leader then become g (GLoopSend n) (finish h s) else finish g (finish h s))"
    using step by (auto simp: Let_def split: option.splits goroutine.splits if_splits)
  moreover from this have "gos (finish h s) g = Some (GLoopWait n)" by (auto simp: finish_def)
  ultimately show ?thesis using inv_loop_fire [OF cluster_inv_finish [OF inv]] by blast
next
  case (ESend g)
  then obtain n p t i a where "gos s g = Some (GSendStart n p t)" "im_aeArgs im t p (nodes s n) = Inr (i, a)"
      "s' = become g (GSendCall n p t i a) s"
    using step by (auto simp: go_bind_eq_Inr split: option.splits goroutine.splits)
  then show ?thesis using inv_calls(3) [OF inv] by blast
next
  case (ESendDeliver g now)
  then show ?thesis using step inv_SendDeliver [OF inv cfg] by blast
next
  case (ESendReply g now)
  then obtain n p t ni k r c es where "gos s g = Some (GSendReply n p t ni k r)"
      "im_aeReply im now t p ni k r (nodes s n) = (c, es)" "s' = spawn n es (set_node im n c (finish g s))"
    using step by (auto split: option.splits goroutine.splits prod.splits)
  then show ?thesis
    using inv_keeps [where s = "finish g s", OF cluster_inv_finish [OF inv] cfg, of n c es] aeReply_law [of now t p ni k r "nodes s n" c es]
      cluster_inv_go [OF inv, of g] tl ESendReply by simp
next
  case (EDrop g)
  then show ?thesis using step cluster_inv_finish [OF inv] by (auto split: option.splits)
next
  case (ESubmit n cmd)
  then obtain c i es where "n \<in> set ns" "im_Submit im cmd (nodes s n) = (c, i, es)"
      "s' = spawn n es (set_node im n c s)"
    using step cluster_invD(1) [OF inv] by (auto split: if_splits prod.splits)
  then show ?thesis using inv_keeps [OF inv cfg, of n c es] Submit_law [of cmd "nodes s n" c i es] by simp
next
  case (EStop n)
  then show ?thesis
    using step cluster_inv_settled [OF inv cfg keeps_settled [OF Stop_law]] by (auto split: if_splits)
next
  case (ECommit n)
  then obtain c out where c: "im_commit im (nodes s n) = Inr (c, out)"
      "s' = (set_node im n c s)\<lparr>commits := (commits s)(n := commits s n @ out)\<rparr>"
    using step by (auto simp: go_bind_eq_Inr Let_def split: if_splits)
  have "cluster_inv im ns (set_node im n c s)"
    by (rule cluster_inv_settled [OF inv cfg keeps_settled [OF commit_law [OF c(1)]]])
  then show ?thesis
    using gos_inv_frame [of ns "set_node im n c s" s'] el_inv_frame [of ns "set_node im n c s" s']
    by (simp add: cluster_inv_def c(2))
next
  case (ERestart n)
  then show ?thesis using step tl inv_Restart [OF inv cfg] by blast
qed

end

section \<open>Election safety\<close>

text \<open>A cluster of such servers, created by \<open>mk\<close>.\<close>

locale raft_cluster = raft_node im for im :: "('n, 'c) raft_impl" +
  fixes mk :: "int \<Rightarrow> int list \<Rightarrow> 'n"
  assumes mk_law:
    "im_id im (mk n ps) = n" "im_peers im (mk n ps) = ps" "im_role im (mk n ps) = Follower"
    "im_log im (mk n ps) = []"
begin

lemma inv_init: "cluster_inv im ns (cluster_init mk ns)"
  by (auto simp: cluster_inv_def core_inv_def node_ok_def gos_inv_def el_inv_def cluster_init_def mk_law
      split: if_splits)

lemma inv_reach:
  assumes "timely_reach im (cluster_init mk ns) s" "good_config ns"
  shows "cluster_inv im ns s"
  using assms
proof (induction rule: timely_reach.induct)
  case start
  show ?case by (rule inv_init)
next
  case (step s ev s')
  then show ?case using inv_step by blast
qed

lemma one_leader_per_term:
  assumes "timely_reach im (cluster_init mk ns) s" "good_config ns"
    and "(t, m) \<in> elected s" "(t, n) \<in> elected s"
  shows "m = n"
  using inv_reach [OF assms(1,2)] assms(3,4) by (meson cluster_invD(2) core_inv_elect_fun)

lemma leaders_agree:
  assumes "timely_reach im (cluster_init mk ns) s" "good_config ns"
    and "im_role im (nodes s m) = Leader" "im_role im (nodes s n) = Leader"
    and "im_term im (nodes s m) = im_term im (nodes s n)"
  shows "m = n"
  using one_leader_per_term [OF assms(1,2)] inv_reach [OF assms(1,2)] assms(3-5)
  by (metis cluster_invD(2) core_inv_leader)

end

end
