(* ===== verification/Raft1.thy ===== *)
theory Raft1
  imports RaftElection
begin

text \<open>
  The consensus module of \<^verbatim>\<open>src/raft/part1/raft.go\<close>: leader election only, with heartbeats that carry
  no entries and a state that is lost when the server restarts. The laws of \<open>raft_node\<close> hold, except
  that a heartbeat reply is compared with the term in which the heartbeat was sent and not with the
  current one; \<open>fresh1\<close> says which replies are harmless.
\<close>

record 'c ConsensusModule1 =
  id1 :: int
  peerIds1 :: "int list"
  currentTerm1 :: int
  votedFor1 :: int
  log1 :: "'c LogEntry list"
  state1 :: CMState
  electionResetEvent1 :: int

definition NewConsensusModule1 :: "int \<Rightarrow> int list \<Rightarrow> 'c ConsensusModule1" where
  "NewConsensusModule1 i peers =
     \<lparr>id1 = i, peerIds1 = peers, currentTerm1 = 0, votedFor1 = -1, log1 = [], state1 = Follower,
      electionResetEvent1 = 0\<rparr>"

definition cm_ready1 :: "int \<Rightarrow> 'c ConsensusModule1 \<Rightarrow> 'c ConsensusModule1 \<times> effect list" where
  "cm_ready1 now cm = (cm\<lparr>electionResetEvent1 := now\<rparr>, [GoRunElectionTimer])"

definition Report1 :: "'c ConsensusModule1 \<Rightarrow> int \<times> int \<times> bool" where
  "Report1 cm = (id1 cm, currentTerm1 cm, state1 cm = Leader)"

definition Stop1 :: "'c ConsensusModule1 \<Rightarrow> 'c ConsensusModule1" where
  "Stop1 cm = cm\<lparr>state1 := Dead\<rparr>"

definition becomeFollower1 :: "int \<Rightarrow> int \<Rightarrow> 'c ConsensusModule1 \<Rightarrow> 'c ConsensusModule1 \<times> effect list" where
  "becomeFollower1 now t cm =
     (cm\<lparr>state1 := Follower, currentTerm1 := t, votedFor1 := -1, electionResetEvent1 := now\<rparr>,
      [GoRunElectionTimer])"

definition RequestVote1 ::
  "int \<Rightarrow> RequestVoteArgs \<Rightarrow> 'c ConsensusModule1 \<Rightarrow> 'c ConsensusModule1 \<times> RequestVoteReply \<times> effect list" where
  "RequestVote1 now args cm =
     (if state1 cm = Dead then (cm, \<lparr>rvr_Term = 0, rvr_VoteGranted = False\<rparr>, [])
      else
        let (cm1, es) = (if rv_Term args > currentTerm1 cm
                         then becomeFollower1 now (rv_Term args) cm else (cm, []));
            grant = (currentTerm1 cm1 = rv_Term args
                     \<and> (votedFor1 cm1 = -1 \<or> votedFor1 cm1 = rv_CandidateId args));
            cm2 = (if grant then cm1\<lparr>votedFor1 := rv_CandidateId args, electionResetEvent1 := now\<rparr> else cm1)
        in (cm2, \<lparr>rvr_Term = currentTerm1 cm2, rvr_VoteGranted = grant\<rparr>, es))"

text \<open>The reply of \<^verbatim>\<open>part1\<close> has no conflict fields; they are zero here.\<close>

definition AppendEntries1 ::
  "int \<Rightarrow> 'c AppendEntriesArgs \<Rightarrow> 'c ConsensusModule1
     \<Rightarrow> 'c ConsensusModule1 \<times> AppendEntriesReply \<times> effect list" where
  "AppendEntries1 now args cm =
     (if state1 cm = Dead
      then (cm, \<lparr>aer_Term = 0, aer_Success = False, aer_ConflictIndex = 0, aer_ConflictTerm = 0\<rparr>, [])
      else
        let (cm1, es1) = (if ae_Term args > currentTerm1 cm
                          then becomeFollower1 now (ae_Term args) cm else (cm, []));
            (cm3, success, es) =
              (if ae_Term args = currentTerm1 cm1
               then let (cm2, es2) = (if state1 cm1 \<noteq> Follower
                                      then becomeFollower1 now (ae_Term args) cm1 else (cm1, []))
                    in (cm2\<lparr>electionResetEvent1 := now\<rparr>, True, es1 @ es2)
               else (cm1, False, es1))
        in (cm3, \<lparr>aer_Term = currentTerm1 cm3, aer_Success = success,
                  aer_ConflictIndex = 0, aer_ConflictTerm = 0\<rparr>, es))"

definition electionTimeout1 :: "bool \<Rightarrow> nat \<Rightarrow> nat \<Rightarrow> int" where
  "electionTimeout1 forced r3 r150 = (if forced \<and> r3 = 0 then 150 else 150 + int r150)"

definition startElection1 :: "int \<Rightarrow> 'c ConsensusModule1 \<Rightarrow> 'c ConsensusModule1 \<times> effect list" where
  "startElection1 now cm =
     (let cm1 = cm\<lparr>state1 := Candidate, currentTerm1 := currentTerm1 cm + 1,
                   electionResetEvent1 := now, votedFor1 := id1 cm\<rparr>;
          savedCurrentTerm = currentTerm1 cm1
      in (cm1, map (\<lambda>p. GoRequestVote p savedCurrentTerm) (peerIds1 cm1) @ [GoRunElectionTimer]))"

definition runElectionTimer1 ::
  "int \<Rightarrow> int \<Rightarrow> int \<Rightarrow> 'c ConsensusModule1 \<Rightarrow> bool \<times> 'c ConsensusModule1 \<times> effect list" where
  "runElectionTimer1 now termStarted timeoutDuration cm =
     (if state1 cm \<noteq> Candidate \<and> state1 cm \<noteq> Follower then (False, cm, [])
      else if termStarted \<noteq> currentTerm1 cm then (False, cm, [])
      else if now - electionResetEvent1 cm \<ge> timeoutDuration
      then let (cm1, es) = startElection1 now cm in (False, cm1, es)
      else (True, cm, []))"

text \<open>The vote request leaves the two log fields at zero.\<close>

definition voteArgs1 :: "int \<Rightarrow> 'c ConsensusModule1 \<Rightarrow> RequestVoteArgs" where
  "voteArgs1 savedCurrentTerm cm =
     \<lparr>rv_Term = savedCurrentTerm, rv_CandidateId = id1 cm, rv_LastLogIndex = 0, rv_LastLogTerm = 0\<rparr>"

definition startLeader1 :: "'c ConsensusModule1 \<Rightarrow> 'c ConsensusModule1 \<times> effect list" where
  "startLeader1 cm = (cm\<lparr>state1 := Leader\<rparr>, [GoLeaderLoop])"

definition voteReply1 ::
  "int \<Rightarrow> int \<Rightarrow> int \<Rightarrow> RequestVoteReply \<Rightarrow> 'c ConsensusModule1 \<Rightarrow> 'c ConsensusModule1 \<times> int \<times> effect list" where
  "voteReply1 now savedCurrentTerm votesReceived reply cm =
     (if state1 cm \<noteq> Candidate then (cm, votesReceived, [])
      else if rvr_Term reply > savedCurrentTerm
      then let (cm1, es) = becomeFollower1 now (rvr_Term reply) cm in (cm1, votesReceived, es)
      else if rvr_Term reply = savedCurrentTerm \<and> rvr_VoteGranted reply
      then let votes = votesReceived + 1
           in if majority votes (peerIds1 cm)
              then let (cm1, es) = startLeader1 cm in (cm1, votes, es)
              else (cm, votes, [])
      else (cm, votesReceived, []))"

definition leaderSendHeartbeats1 :: "'c ConsensusModule1 \<Rightarrow> effect list" where
  "leaderSendHeartbeats1 cm =
     (if state1 cm \<noteq> Leader then [] else map (\<lambda>p. GoSendAE p (currentTerm1 cm)) (peerIds1 cm))"

definition aeArgs1 :: "int \<Rightarrow> 'c ConsensusModule1 \<Rightarrow> 'c AppendEntriesArgs" where
  "aeArgs1 savedCurrentTerm cm =
     \<lparr>ae_Term = savedCurrentTerm, ae_LeaderId = id1 cm, ae_PrevLogIndex = 0, ae_PrevLogTerm = 0,
      ae_Entries = [], ae_LeaderCommit = 0\<rparr>"

definition aeReply1 ::
  "int \<Rightarrow> int \<Rightarrow> AppendEntriesReply \<Rightarrow> 'c ConsensusModule1 \<Rightarrow> 'c ConsensusModule1 \<times> effect list" where
  "aeReply1 now savedCurrentTerm reply cm =
     (if aer_Term reply > savedCurrentTerm then becomeFollower1 now (aer_Term reply) cm else (cm, []))"

section \<open>Clusters\<close>

text \<open>There is no \<^verbatim>\<open>Submit\<close> and no commit channel in \<^verbatim>\<open>part1\<close>: those events do nothing. A restarted server
  starts afresh.\<close>

definition fresh1 :: "int \<Rightarrow> AppendEntriesReply \<Rightarrow> 'c ConsensusModule1 \<Rightarrow> bool" where
  "fresh1 savedCurrentTerm reply cm \<longleftrightarrow>
     (aer_Term reply > savedCurrentTerm \<longrightarrow> aer_Term reply > currentTerm1 cm)"

definition part1_impl :: "('c ConsensusModule1, 'c) raft_impl" where
  "part1_impl =
     \<lparr>im_id = id1, im_peers = peerIds1, im_term = currentTerm1, im_voted = votedFor1, im_role = state1, im_log = log1,
      im_ready = cm_ready1,
      im_RequestVote = (\<lambda>now a cm. let (cm', r, es) = RequestVote1 now a cm in (cm', Some r, es)),
      im_AppendEntries = (\<lambda>now a cm. let (cm', r, es) = AppendEntries1 now a cm in Inr (cm', Some r, es)),
      im_timer = runElectionTimer1, im_voteArgs = voteArgs1, im_voteReply = voteReply1,
      im_sendAEs = leaderSendHeartbeats1, im_aeArgs = (\<lambda>t p cm. Inr (0, aeArgs1 t cm)),
      im_aeReply = (\<lambda>now t p ni k r cm. aeReply1 now t r cm),
      im_Submit = (\<lambda>cmd cm. (cm, -1, [])), im_Stop = Stop1, im_commit = (\<lambda>cm. Inr (cm, [])),
      im_restart = (\<lambda>cm. Inr (NewConsensusModule1 (id1 cm) (peerIds1 cm))), im_fresh = fresh1\<rparr>"

lemma part1_impl_sel [simp]:
  "im_id part1_impl = id1" "im_peers part1_impl = peerIds1" "im_term part1_impl = currentTerm1"
  "im_voted part1_impl = votedFor1" "im_role part1_impl = state1" "im_log part1_impl = log1"
  "im_ready part1_impl = cm_ready1" "im_timer part1_impl = runElectionTimer1" "im_voteArgs part1_impl = voteArgs1"
  "im_voteReply part1_impl = voteReply1" "im_sendAEs part1_impl = leaderSendHeartbeats1"
  "im_aeArgs part1_impl t p cm = Inr (0, aeArgs1 t cm)" "im_aeReply part1_impl now t p ni k r cm = aeReply1 now t r cm"
  "im_Submit part1_impl cmd cm = (cm, -1, [])" "im_Stop part1_impl = Stop1" "im_commit part1_impl cm = Inr (cm, [])"
  "im_restart part1_impl cm = Inr (NewConsensusModule1 (id1 cm) (peerIds1 cm))" "im_fresh part1_impl = fresh1"
  "im_RequestVote part1_impl now a cm = (let (cm', r, es) = RequestVote1 now a cm in (cm', Some r, es))"
  "im_AppendEntries part1_impl now b cm = (let (cm', r, es) = AppendEntries1 now b cm in Inr (cm', Some r, es))"
  by (simp_all add: part1_impl_def)

lemmas p1_ops = cm_ready1_def RequestVote1_def becomeFollower1_def AppendEntries1_def runElectionTimer1_def
  startElection1_def voteArgs1_def startLeader1_def voteReply1_def leaderSendHeartbeats1_def aeArgs1_def aeReply1_def
  Stop1_def NewConsensusModule1_def fresh1_def

interpretation p1: raft_node part1_impl
proof (standard, goal_cases)
  case (3 now b c c' q es)
  then show ?case
    by (cases "state1 c") (auto simp: p1_ops Let_def quiet_def split: if_splits)
qed (auto simp: p1_ops Let_def keeps_def quiet_def same_vote_def split: if_splits)

interpretation p1c: raft_cluster part1_impl NewConsensusModule1
  by standard (simp_all add: NewConsensusModule1_def)

abbreviation part1_run :: "int list \<Rightarrow> 'c event list \<Rightarrow> ('c ConsensusModule1, 'c) cluster go option" where
  "part1_run ns evs \<equiv> crun part1_impl evs (cluster_init NewConsensusModule1 ns)"

abbreviation part1_timely :: "int list \<Rightarrow> 'c event list \<Rightarrow> bool" where
  "part1_timely ns evs \<equiv> timely_run part1_impl evs (cluster_init NewConsensusModule1 ns)"

lemmas p1_eval = net_eval p1_ops

text \<open>Server 0 wins the election of term 1 and server 2 hears its first heartbeat.\<close>

definition ex_elect :: "int event list" where
  "ex_elect = [EReady 0 0, ETimerNew 3 150, ETimerTick 3 200, EVoteSend 4, EVoteDeliver 4 201, EVoteReply 4 202,
     ELoopSend 8, ESend 10, ESendDeliver 10 203, ESendReply 10 204]"

lemma ex_elect_run:
  "part1_timely [0, 1, 2] ex_elect"
  "ends_in (part1_run [0, 1, 2] ex_elect) (\<lambda>s. (1, 0) \<in> elected s)"
  by (simp_all add: ex_elect_def p1_eval)

text \<open>
  C14: election safety of the part1 cluster. In every run of timely events two servers that have been
  leader in a term are the same server.
\<close>

theorem part1_election_safety:
  assumes "good_config ns" "part1_timely ns evs" "part1_run ns evs = Some (Inr s)"
    and "(t, m) \<in> elected s" "(t, n) \<in> elected s"
  shows "m = n"
  by (rule p1c.one_leader_per_term [OF timely_run_reach [OF timely_reach.start assms(2,3)] assms(1,4,5)])

theorem part1_election_safety_witness:
  "\<exists>s. part1_run [0, 1, 2] ex_elect = Some (Inr s) \<and> (1, 0) \<in> elected s \<and> (1, 2) \<notin> elected s"
proof -
  obtain s where s: "part1_run [0, 1, 2] ex_elect = Some (Inr s)" "(1, 0) \<in> elected s"
    using ends_inD [OF ex_elect_run(2)] by auto
  then show ?thesis
    using part1_election_safety [OF _ ex_elect_run(1) s, of 2] by (auto simp: good_config_def)
qed

text \<open>
  Server 0 leads term 1; its heartbeat reaches server 1 when that is already a candidate of term 2, and
  the reply is delayed. Server 0 votes for server 1, which leads term 2. The reply arrives and clears
  the vote of server 0 in term 2, so that server 2, a candidate of term 2, gets it as well.
\<close>

definition ex_stale_heartbeat :: "int event list" where
  "ex_stale_heartbeat = [EReady 0 0, ETimerNew 3 150, ETimerTick 3 200, EVoteSend 4, EVoteDeliver 4 201, EVoteReply 4 202,
     ELoopSend 8, ETimerNew 7 150, ETimerTick 7 400, ESend 9, ESendDeliver 9 401, EVoteSend 11, EVoteDeliver 11 402,
     EVoteReply 11 403, EReady 2 410, ETimerNew 16 150, ETimerTick 16 600, ETimerNew 19 150, ETimerTick 19 800,
     ESendReply 9 801, EVoteSend 20, EVoteDeliver 20 802, EVoteReply 20 803]"

text \<open>
  The restriction on heartbeat replies is needed for part1. In this run every vote reply is
  timely and no server restarts, but one stale heartbeat reply makes servers 1 and 2 both leaders of
  term 2.
\<close>

theorem part1_stale_heartbeat_two_leaders:
  "ends_in (part1_run [0, 1, 2] ex_stale_heartbeat)
     (\<lambda>s. Report1 (nodes s 1) = (1, 2, True) \<and> Report1 (nodes s 2) = (2, 2, True))"
  by (simp add: ex_stale_heartbeat_def p1_eval Report1_def)

end
