(* ===== verification/RaftStorage.thy ===== *)
theory RaftStorage
  imports RaftTypes
begin

text \<open>
  Stable storage (\<^verbatim>\<open>src/raft/part3/storage.go\<close>, and the same file in \<^verbatim>\<open>src/craft\<close>): the interface
  \<^verbatim>\<open>Storage\<close> as a locale, its in-memory implementation \<^verbatim>\<open>MapStorage\<close>, and the save/load protocol of
  the consensus modules proved once against the interface.

  A byte slice produced by \<^verbatim>\<open>encoding/gob\<close> is represented by the value it encodes; decoding it into
  a variable of another type is an error, which the callers turn into \<^verbatim>\<open>log.Fatal\<close>.
\<close>

datatype 'c gob = GobInt int | GobLog "'c LogEntry list"

fun gob_decode_int :: "'c gob \<Rightarrow> int go" where
  "gob_decode_int (GobInt i) = Inr i"
| "gob_decode_int (GobLog l) = Inl (Fatal ''gob: type mismatch'')"

fun gob_decode_log :: "'c gob \<Rightarrow> 'c LogEntry list go" where
  "gob_decode_log (GobLog l) = Inr l"
| "gob_decode_log (GobInt i) = Inl (Fatal ''gob: type mismatch'')"

record 'v MapStorage =
  ms_m :: "(string \<times> 'v) list"

definition NewMapStorage :: "'v MapStorage" where
  "NewMapStorage = \<lparr>ms_m = []\<rparr>"

definition ms_Get :: "'v MapStorage \<Rightarrow> string \<Rightarrow> 'v option" where
  "ms_Get ms key = map_of (ms_m ms) key"

definition ms_Set :: "'v MapStorage \<Rightarrow> string \<Rightarrow> 'v \<Rightarrow> 'v MapStorage" where
  "ms_Set ms key v = ms\<lparr>ms_m := AList.update key v (ms_m ms)\<rparr>"

definition ms_HasData :: "'v MapStorage \<Rightarrow> bool" where
  "ms_HasData ms \<longleftrightarrow> length (ms_m ms) > 0"

text \<open>The contract of the Go interface: what a \<^verbatim>\<open>Get\<close> sees after a \<^verbatim>\<open>Set\<close>, and what \<^verbatim>\<open>HasData\<close> reports.\<close>

locale stable_storage =
  fixes sget :: "'s \<Rightarrow> string \<Rightarrow> 'v option"
    and sset :: "'s \<Rightarrow> string \<Rightarrow> 'v \<Rightarrow> 's"
    and hasData :: "'s \<Rightarrow> bool"
    and fresh :: 's
  assumes get_set: "sget (sset s k v) k' = (if k' = k then Some v else sget s k')"
    and hasData_set: "hasData (sset s k v)"
    and fresh_get: "sget fresh k = None"
    and fresh_no_data: "\<not> hasData fresh"
begin

text \<open>Three values stored under distinct names are all read back, and nothing else is disturbed.\<close>

lemma set3_get:
  assumes "distinct [a, b, c]"
  shows "sget (sset (sset (sset s a x) b y) c z) a = Some x"
    and "sget (sset (sset (sset s a x) b y) c z) b = Some y"
    and "sget (sset (sset (sset s a x) b y) c z) c = Some z"
    and "k \<notin> {a, b, c} \<Longrightarrow> sget (sset (sset (sset s a x) b y) c z) k = sget s k"
  using assms by (auto simp: get_set)

end

interpretation ms: stable_storage ms_Get ms_Set ms_HasData NewMapStorage
proof unfold_locales
  fix s :: "'v MapStorage" and k k' :: string and v :: 'v
  show "ms_Get (ms_Set s k v) k' = (if k' = k then Some v else ms_Get s k')"
    by (simp add: ms_Get_def ms_Set_def update_conv)
  show "ms_HasData (ms_Set s k v)"
    by (cases "ms_m s") (auto simp: ms_HasData_def ms_Set_def split: if_splits)
  show "ms_Get NewMapStorage k = (None :: 'v option)"
    by (simp add: ms_Get_def NewMapStorage_def)
  show "\<not> ms_HasData (NewMapStorage :: 'v MapStorage)"
    by (simp add: ms_HasData_def NewMapStorage_def)
qed

end
