(* ===== verification/Raft3.thy ===== *)
theory Raft3
  imports RaftStorage
begin

text \<open>
  The consensus module of \<^verbatim>\<open>src/raft/part3/raft.go\<close>. One definition per method; a method that holds
  \<^verbatim>\<open>cm.mu\<close> throughout is one function from the state before to the state after, a goroutine that
  releases the mutex around an RPC is split at the release into the function that builds the
  arguments and the function that handles the reply. The instant read by \<^verbatim>\<open>time.Now()\<close> is the
  argument \<open>now\<close> (milliseconds). \<open>newCommitReadyChan\<close> counts the notifications sent and not yet
  received. \<^verbatim>\<open>dlog\<close> only prints and is left out.
\<close>

record 'c ConsensusModule =
  cm_id :: int
  peerIds :: "int list"
  storage :: "'c gob MapStorage"
  newCommitReadyChan :: nat
  currentTerm :: int
  votedFor :: int
  log :: "'c LogEntry list"
  commitIndex :: int
  lastApplied :: int
  state :: CMState
  electionResetEvent :: int
  nextIndex :: "int \<rightharpoonup> int"
  matchIndex :: "int \<rightharpoonup> int"

section \<open>Persistence\<close>

definition persistToStorage :: "'c ConsensusModule \<Rightarrow> 'c ConsensusModule" where
  "persistToStorage cm =
     (let s1 = ms_Set (storage cm) ''currentTerm'' (GobInt (currentTerm cm));
          s2 = ms_Set s1 ''votedFor'' (GobInt (votedFor cm));
          s3 = ms_Set s2 ''log'' (GobLog (log cm))
      in cm\<lparr>storage := s3\<rparr>)"

definition restoreFromStorage :: "'c ConsensusModule \<Rightarrow> 'c ConsensusModule go" where
  "restoreFromStorage cm =
     (case ms_Get (storage cm) ''currentTerm'' of
        None \<Rightarrow> Inl (Fatal ''currentTerm not found in storage'')
      | Some termData \<Rightarrow> go_bind (gob_decode_int termData) (\<lambda>t.
     (case ms_Get (storage cm) ''votedFor'' of
        None \<Rightarrow> Inl (Fatal ''votedFor not found in storage'')
      | Some votedData \<Rightarrow> go_bind (gob_decode_int votedData) (\<lambda>v.
     (case ms_Get (storage cm) ''log'' of
        None \<Rightarrow> Inl (Fatal ''log not found in storage'')
      | Some logData \<Rightarrow> go_bind (gob_decode_log logData) (\<lambda>l.
          Inr (cm\<lparr>currentTerm := t, votedFor := v, log := l\<rparr>)))))))"

text \<open>The constructor. Its first goroutine waits for \<^verbatim>\<open>ready\<close>, then resets the election clock and
  runs an election timer; \<open>cm_ready\<close> is its critical section.\<close>

definition NewConsensusModule :: "int \<Rightarrow> int list \<Rightarrow> 'c gob MapStorage \<Rightarrow> 'c ConsensusModule go" where
  "NewConsensusModule i peers st =
     (let cm = \<lparr>cm_id = i, peerIds = peers, storage = st, newCommitReadyChan = 0,
                currentTerm = 0, votedFor = -1, log = [], commitIndex = -1, lastApplied = -1,
                state = Follower, electionResetEvent = 0,
                nextIndex = Map.empty, matchIndex = Map.empty\<rparr>
      in if ms_HasData st then restoreFromStorage cm else Inr cm)"

definition cm_ready :: "int \<Rightarrow> 'c ConsensusModule \<Rightarrow> 'c ConsensusModule \<times> effect list" where
  "cm_ready now cm = (cm\<lparr>electionResetEvent := now\<rparr>, [GoRunElectionTimer])"

definition Report :: "'c ConsensusModule \<Rightarrow> int \<times> int \<times> bool" where
  "Report cm = (cm_id cm, currentTerm cm, state cm = Leader)"

text \<open>\<^verbatim>\<open>Submit\<close> returns the index of the new entry, or \<open>-1\<close> on a server that is not the leader.\<close>

definition Submit :: "'c \<Rightarrow> 'c ConsensusModule \<Rightarrow> 'c ConsensusModule \<times> int \<times> effect list" where
  "Submit command cm =
     (if state cm = Leader
      then let submitIndex = int (length (log cm));
               cm1 = cm\<lparr>log := log cm @ [\<lparr>Command = command, Term = currentTerm cm\<rparr>]\<rparr>
           in (persistToStorage cm1, submitIndex, [SendTriggerAE])
      else (cm, -1, []))"

definition Stop :: "'c ConsensusModule \<Rightarrow> 'c ConsensusModule" where
  "Stop cm = cm\<lparr>state := Dead\<rparr>"

section \<open>The RPC handlers\<close>

definition lastLogIndexAndTerm :: "'c ConsensusModule \<Rightarrow> int \<times> int" where
  "lastLogIndexAndTerm cm =
     (if length (log cm) > 0
      then let lastIndex = length (log cm) - 1 in (int lastIndex, Term (log cm ! lastIndex))
      else (-1, -1))"

definition becomeFollower :: "int \<Rightarrow> int \<Rightarrow> 'c ConsensusModule \<Rightarrow> 'c ConsensusModule \<times> effect list" where
  "becomeFollower now t cm =
     (cm\<lparr>state := Follower, currentTerm := t, votedFor := -1, electionResetEvent := now\<rparr>,
      [GoRunElectionTimer])"

definition RequestVote ::
  "int \<Rightarrow> RequestVoteArgs \<Rightarrow> 'c ConsensusModule \<Rightarrow> 'c ConsensusModule \<times> RequestVoteReply \<times> effect list" where
  "RequestVote now args cm =
     (if state cm = Dead then (cm, \<lparr>rvr_Term = 0, rvr_VoteGranted = False\<rparr>, [])
      else
        let (lastLogIndex, lastLogTerm) = lastLogIndexAndTerm cm;
            (cm1, es) = (if rv_Term args > currentTerm cm
                         then becomeFollower now (rv_Term args) cm else (cm, []));
            grant = (currentTerm cm1 = rv_Term args
                     \<and> (votedFor cm1 = -1 \<or> votedFor cm1 = rv_CandidateId args)
                     \<and> (rv_LastLogTerm args > lastLogTerm
                        \<or> (rv_LastLogTerm args = lastLogTerm \<and> rv_LastLogIndex args \<ge> lastLogIndex)));
            cm2 = (if grant then cm1\<lparr>votedFor := rv_CandidateId args, electionResetEvent := now\<rparr> else cm1);
            reply = \<lparr>rvr_Term = currentTerm cm2, rvr_VoteGranted = grant\<rparr>
        in (persistToStorage cm2, reply, es))"

text \<open>
  The loop of \<^verbatim>\<open>AppendEntries\<close> that looks for the insertion point: it advances both indices while
  the terms of the stored and the received entries agree.
\<close>

function insert_loop :: "'c LogEntry list \<Rightarrow> 'c LogEntry list \<Rightarrow> nat \<Rightarrow> nat \<Rightarrow> nat \<times> nat" where
  "insert_loop lg es li ni =
     (if li \<ge> length lg \<or> ni \<ge> length es then (li, ni)
      else if Term (lg ! li) \<noteq> Term (es ! ni) then (li, ni)
      else insert_loop lg es (Suc li) (Suc ni))"
  by pat_completeness auto
termination
  by (relation "measure (\<lambda>(lg, es, li, ni). length es - ni)") auto

declare insert_loop.simps [simp del]

text \<open>The loop that looks for the first entry of the conflicting term; the argument is \<^verbatim>\<open>i + 1\<close>.\<close>

fun conflict_loop :: "'c LogEntry list \<Rightarrow> int \<Rightarrow> nat \<Rightarrow> nat" where
  "conflict_loop lg t 0 = 0"
| "conflict_loop lg t (Suc i) = (if Term (lg ! i) \<noteq> t then Suc i else conflict_loop lg t i)"

text \<open>
  The part of the handler under \<^verbatim>\<open>args.Term == cm.currentTerm\<close>, after the switch to follower. The
  test on \<^verbatim>\<open>PrevLogIndex\<close> indexes the log, so an index below \<open>-1\<close> panics.
\<close>

definition prev_matches :: "'c LogEntry list \<Rightarrow> int \<Rightarrow> int \<Rightarrow> bool go" where
  "prev_matches lg prevIndex prevTerm =
     (if prevIndex = -1 then Inr True
      else if prevIndex < int (length lg)
      then go_bind (go_index lg prevIndex) (\<lambda>e. Inr (prevTerm = Term e))
      else Inr False)"

definition append_accept :: "'c AppendEntriesArgs \<Rightarrow> 'c ConsensusModule \<Rightarrow> 'c ConsensusModule" where
  "append_accept args cm =
     (let (li, ni) = insert_loop (log cm) (ae_Entries args) (nat (ae_PrevLogIndex args + 1)) 0;
          cm1 = (if ni < length (ae_Entries args)
                 then cm\<lparr>log := take li (log cm) @ drop ni (ae_Entries args)\<rparr> else cm)
      in if ae_LeaderCommit args > commitIndex cm1
         then cm1\<lparr>commitIndex := min (ae_LeaderCommit args) (int (length (log cm1)) - 1),
                  newCommitReadyChan := Suc (newCommitReadyChan cm1)\<rparr>
         else cm1)"

definition append_conflict :: "'c LogEntry list \<Rightarrow> int \<Rightarrow> int \<times> int" where
  "append_conflict lg prevIndex =
     (if prevIndex \<ge> int (length lg) then (int (length lg), -1)
      else let ct = Term (lg ! nat prevIndex)
           in (int (conflict_loop lg ct (nat prevIndex)), ct))"

definition AppendEntries ::
  "int \<Rightarrow> 'c AppendEntriesArgs \<Rightarrow> 'c ConsensusModule
     \<Rightarrow> ('c ConsensusModule \<times> AppendEntriesReply \<times> effect list) go" where
  "AppendEntries now args cm =
     (if state cm = Dead
      then Inr (cm, \<lparr>aer_Term = 0, aer_Success = False, aer_ConflictIndex = 0, aer_ConflictTerm = 0\<rparr>, [])
      else
        let (cm1, es1) = (if ae_Term args > currentTerm cm
                          then becomeFollower now (ae_Term args) cm else (cm, []))
        in if ae_Term args = currentTerm cm1
           then
             let (cm2, es2) = (if state cm1 \<noteq> Follower
                               then becomeFollower now (ae_Term args) cm1 else (cm1, []));
                 cm3 = cm2\<lparr>electionResetEvent := now\<rparr>
             in go_bind (prev_matches (log cm3) (ae_PrevLogIndex args) (ae_PrevLogTerm args)) (\<lambda>ok.
                  if ok
                  then let cm4 = append_accept args cm3
                       in Inr (persistToStorage cm4,
                               \<lparr>aer_Term = currentTerm cm4, aer_Success = True,
                                aer_ConflictIndex = 0, aer_ConflictTerm = 0\<rparr>, es1 @ es2)
                  else let (ci, ct) = append_conflict (log cm3) (ae_PrevLogIndex args)
                       in Inr (persistToStorage cm3,
                               \<lparr>aer_Term = currentTerm cm3, aer_Success = False,
                                aer_ConflictIndex = ci, aer_ConflictTerm = ct\<rparr>, es1 @ es2))
           else Inr (persistToStorage cm1,
                     \<lparr>aer_Term = currentTerm cm1, aer_Success = False,
                      aer_ConflictIndex = 0, aer_ConflictTerm = 0\<rparr>, es1))"

section \<open>Elections\<close>

text \<open>\<open>forced\<close>: \<^verbatim>\<open>RAFT_FORCE_MORE_REELECTION\<close> is set; \<open>r3\<close> and \<open>r150\<close> are the two random numbers.\<close>

definition electionTimeout :: "bool \<Rightarrow> nat \<Rightarrow> nat \<Rightarrow> int" where
  "electionTimeout forced r3 r150 = (if forced \<and> r3 = 0 then 150 else 150 + int r150)"

definition startElection :: "int \<Rightarrow> 'c ConsensusModule \<Rightarrow> 'c ConsensusModule \<times> effect list" where
  "startElection now cm =
     (let cm1 = cm\<lparr>state := Candidate, currentTerm := currentTerm cm + 1,
                   electionResetEvent := now, votedFor := cm_id cm\<rparr>;
          savedCurrentTerm = currentTerm cm1
      in (cm1, map (\<lambda>p. GoRequestVote p savedCurrentTerm) (peerIds cm1) @ [GoRunElectionTimer]))"

text \<open>One round of the ticker loop of \<^verbatim>\<open>runElectionTimer\<close>; the first component says whether the
  goroutine goes on.\<close>

definition runElectionTimer ::
  "int \<Rightarrow> int \<Rightarrow> int \<Rightarrow> 'c ConsensusModule \<Rightarrow> bool \<times> 'c ConsensusModule \<times> effect list" where
  "runElectionTimer now termStarted timeoutDuration cm =
     (if state cm \<noteq> Candidate \<and> state cm \<noteq> Follower then (False, cm, [])
      else if termStarted \<noteq> currentTerm cm then (False, cm, [])
      else if now - electionResetEvent cm \<ge> timeoutDuration
      then let (cm1, es) = startElection now cm in (False, cm1, es)
      else (True, cm, []))"

text \<open>The goroutine started by \<^verbatim>\<open>startElection\<close> for one peer: its arguments, then its reply. The
  shared counter \<^verbatim>\<open>votesReceived\<close> of the election is passed in and out.\<close>

definition voteArgs :: "int \<Rightarrow> 'c ConsensusModule \<Rightarrow> RequestVoteArgs" where
  "voteArgs savedCurrentTerm cm =
     (let (savedLastLogIndex, savedLastLogTerm) = lastLogIndexAndTerm cm
      in \<lparr>rv_Term = savedCurrentTerm, rv_CandidateId = cm_id cm,
          rv_LastLogIndex = savedLastLogIndex, rv_LastLogTerm = savedLastLogTerm\<rparr>)"

definition startLeader :: "'c ConsensusModule \<Rightarrow> 'c ConsensusModule \<times> effect list" where
  "startLeader cm =
     (let cm1 = cm\<lparr>state := Leader\<rparr>
      in (fold (\<lambda>p c. c\<lparr>nextIndex := (nextIndex c)(p \<mapsto> int (length (log c))),
                       matchIndex := (matchIndex c)(p \<mapsto> -1)\<rparr>) (peerIds cm1) cm1,
          [GoLeaderLoop]))"

definition voteReply ::
  "int \<Rightarrow> int \<Rightarrow> int \<Rightarrow> RequestVoteReply \<Rightarrow> 'c ConsensusModule \<Rightarrow> 'c ConsensusModule \<times> int \<times> effect list" where
  "voteReply now savedCurrentTerm votesReceived reply cm =
     (if state cm \<noteq> Candidate then (cm, votesReceived, [])
      else if rvr_Term reply > savedCurrentTerm
      then let (cm1, es) = becomeFollower now (rvr_Term reply) cm in (cm1, votesReceived, es)
      else if rvr_Term reply = savedCurrentTerm \<and> rvr_VoteGranted reply
      then let votes = votesReceived + 1
           in if majority votes (peerIds cm)
              then let (cm1, es) = startLeader cm in (cm1, votes, es)
              else (cm, votes, [])
      else (cm, votesReceived, []))"

section \<open>Replication\<close>

text \<open>\<^verbatim>\<open>leaderSendAEs\<close> starts one goroutine per peer; \<open>aeArgs\<close> is what that goroutine reads under the
  mutex, \<open>aeReply\<close> what it does with the reply.\<close>

definition leaderSendAEs :: "'c ConsensusModule \<Rightarrow> effect list" where
  "leaderSendAEs cm =
     (if state cm \<noteq> Leader then [] else map (\<lambda>p. GoSendAE p (currentTerm cm)) (peerIds cm))"

definition aeArgs :: "int \<Rightarrow> int \<Rightarrow> 'c ConsensusModule \<Rightarrow> (int \<times> 'c AppendEntriesArgs) go" where
  "aeArgs savedCurrentTerm peerId cm =
     (let ni = go_get (nextIndex cm) peerId;
          prevLogIndex = ni - 1
      in go_bind (if prevLogIndex \<ge> 0 then go_bind (go_index (log cm) prevLogIndex) (\<lambda>e. Inr (Term e))
                  else Inr (-1)) (\<lambda>prevLogTerm.
         go_bind (go_from (log cm) ni) (\<lambda>entries.
           Inr (ni, \<lparr>ae_Term = savedCurrentTerm, ae_LeaderId = cm_id cm,
                     ae_PrevLogIndex = prevLogIndex, ae_PrevLogTerm = prevLogTerm,
                     ae_Entries = entries, ae_LeaderCommit = commitIndex cm\<rparr>))))"

definition matchCount :: "'c ConsensusModule \<Rightarrow> int \<Rightarrow> int" where
  "matchCount cm i =
     1 + int (length (filter (\<lambda>p. go_get (matchIndex cm) p \<ge> i) (peerIds cm)))"

definition advance_commit :: "'c ConsensusModule \<Rightarrow> 'c ConsensusModule" where
  "advance_commit cm =
     fold (\<lambda>i c. if Term (log c ! i) = currentTerm c \<and> majority (matchCount c (int i)) (peerIds c)
                then c\<lparr>commitIndex := int i\<rparr> else c)
       [nat (commitIndex cm + 1) ..< length (log cm)] cm"

fun last_index_loop :: "'c LogEntry list \<Rightarrow> int \<Rightarrow> nat \<Rightarrow> int" where
  "last_index_loop lg t 0 = -1"
| "last_index_loop lg t (Suc i) = (if Term (lg ! i) = t then int i else last_index_loop lg t i)"

definition aeReply ::
  "int \<Rightarrow> int \<Rightarrow> int \<Rightarrow> int \<Rightarrow> nat \<Rightarrow> AppendEntriesReply \<Rightarrow> 'c ConsensusModule
     \<Rightarrow> 'c ConsensusModule \<times> effect list" where
  "aeReply now savedCurrentTerm peerId ni nEntries reply cm =
     (if aer_Term reply > currentTerm cm then becomeFollower now (aer_Term reply) cm
      else if state cm = Leader \<and> savedCurrentTerm = aer_Term reply
      then if aer_Success reply
           then let cm1 = cm\<lparr>nextIndex := (nextIndex cm)(peerId \<mapsto> ni + int nEntries),
                             matchIndex := (matchIndex cm)(peerId \<mapsto> ni + int nEntries - 1)\<rparr>;
                    savedCommitIndex = commitIndex cm1;
                    cm2 = advance_commit cm1
                in if commitIndex cm2 \<noteq> savedCommitIndex
                   then (cm2\<lparr>newCommitReadyChan := Suc (newCommitReadyChan cm2)\<rparr>, [SendTriggerAE])
                   else (cm2, [])
           else let newNext =
                      (if aer_ConflictTerm reply \<ge> 0
                       then let lastIndexOfTerm =
                                  last_index_loop (log cm) (aer_ConflictTerm reply) (length (log cm))
                            in if lastIndexOfTerm \<ge> 0 then lastIndexOfTerm + 1
                               else aer_ConflictIndex reply
                       else aer_ConflictIndex reply)
                in (cm\<lparr>nextIndex := (nextIndex cm)(peerId \<mapsto> newNext)\<rparr>, [])
      else (cm, []))"

text \<open>One round of \<^verbatim>\<open>commitChanSender\<close>: the state after it took one notification, and the entries it
  sends to the client.\<close>

definition commitChanSender ::
  "'c ConsensusModule \<Rightarrow> ('c ConsensusModule \<times> 'c CommitEntry list) go" where
  "commitChanSender cm =
     (let savedTerm = currentTerm cm;
          savedLastApplied = lastApplied cm;
          cm1 = cm\<lparr>newCommitReadyChan := newCommitReadyChan cm - 1\<rparr>
      in if commitIndex cm > lastApplied cm
         then go_bind (go_range (log cm) (lastApplied cm + 1) (commitIndex cm + 1)) (\<lambda>entries.
                Inr (cm1\<lparr>lastApplied := commitIndex cm\<rparr>,
                     map (\<lambda>(i, e). \<lparr>ce_Command = Command e, ce_Index = savedLastApplied + int i + 1,
                                    ce_Term = savedTerm\<rparr>) (List.enumerate 0 entries)))
         else Inr (cm1, []))"

section \<open>What the operations leave alone\<close>

named_theorems raft_frame \<open>fields that an operation of the consensus module does not touch\<close>

lemma persist_frame [raft_frame]:
  "cm_id (persistToStorage cm) = cm_id cm" "peerIds (persistToStorage cm) = peerIds cm"
  "newCommitReadyChan (persistToStorage cm) = newCommitReadyChan cm"
  "currentTerm (persistToStorage cm) = currentTerm cm" "votedFor (persistToStorage cm) = votedFor cm"
  "log (persistToStorage cm) = log cm" "commitIndex (persistToStorage cm) = commitIndex cm"
  "lastApplied (persistToStorage cm) = lastApplied cm" "state (persistToStorage cm) = state cm"
  "electionResetEvent (persistToStorage cm) = electionResetEvent cm"
  "nextIndex (persistToStorage cm) = nextIndex cm" "matchIndex (persistToStorage cm) = matchIndex cm"
  by (simp_all add: persistToStorage_def Let_def)

lemma append_accept_frame [raft_frame]:
  "cm_id (append_accept args cm) = cm_id cm" "peerIds (append_accept args cm) = peerIds cm"
  "storage (append_accept args cm) = storage cm"
  "currentTerm (append_accept args cm) = currentTerm cm" "votedFor (append_accept args cm) = votedFor cm"
  "state (append_accept args cm) = state cm" "lastApplied (append_accept args cm) = lastApplied cm"
  "nextIndex (append_accept args cm) = nextIndex cm" "matchIndex (append_accept args cm) = matchIndex cm"
  by (simp_all add: append_accept_def Let_def split: prod.splits)

lemma advance_fold:
  assumes "\<And>i c. \<exists>x. f i c = c\<lparr>commitIndex := x\<rparr>"
  shows "\<exists>x. fold f is c = c\<lparr>commitIndex := x\<rparr>"
proof (induction "is" arbitrary: c)
  case Nil
  have "fold f [] c = c\<lparr>commitIndex := commitIndex c\<rparr>" by simp
  then show ?case ..
next
  case (Cons i "is")
  obtain x where "f i c = c\<lparr>commitIndex := x\<rparr>" using assms by blast
  then show ?case using Cons.IH [of "f i c"] by auto
qed

lemma advance_commit_only: "\<exists>x. advance_commit cm = cm\<lparr>commitIndex := x\<rparr>"
proof (unfold advance_commit_def, rule advance_fold)
  fix i and c :: "'a ConsensusModule"
  have "c = c\<lparr>commitIndex := commitIndex c\<rparr>" by simp
  then show "\<exists>x. (if Term (log c ! i) = currentTerm c \<and> majority (matchCount c (int i)) (peerIds c)
                then c\<lparr>commitIndex := int i\<rparr> else c) = c\<lparr>commitIndex := x\<rparr>" by (metis (full_types))
qed

lemma advance_commit_frame [raft_frame]:
  "cm_id (advance_commit cm) = cm_id cm" "peerIds (advance_commit cm) = peerIds cm"
  "storage (advance_commit cm) = storage cm" "newCommitReadyChan (advance_commit cm) = newCommitReadyChan cm"
  "currentTerm (advance_commit cm) = currentTerm cm" "votedFor (advance_commit cm) = votedFor cm"
  "log (advance_commit cm) = log cm" "state (advance_commit cm) = state cm"
  "lastApplied (advance_commit cm) = lastApplied cm"
  "nextIndex (advance_commit cm) = nextIndex cm" "matchIndex (advance_commit cm) = matchIndex cm"
  using advance_commit_only [of cm] by auto

lemma start_fold:
  "\<exists>f g. fold (\<lambda>p c. c\<lparr>nextIndex := (nextIndex c)(p \<mapsto> int (length (log c))),
              matchIndex := (matchIndex c)(p \<mapsto> -1)\<rparr>) ps cm = cm\<lparr>nextIndex := f, matchIndex := g\<rparr>"
proof (induction ps arbitrary: cm)
  case Nil
  have "cm = cm\<lparr>nextIndex := nextIndex cm, matchIndex := matchIndex cm\<rparr>" by simp
  then show ?case by (metis fold_simps(1))
next
  case (Cons p ps)
  from Cons.IH [of "cm\<lparr>nextIndex := (nextIndex cm)(p \<mapsto> int (length (log cm))),
              matchIndex := (matchIndex cm)(p \<mapsto> -1)\<rparr>"]
  show ?case by (simp del: fun_upd_apply)
qed

lemma startLeader_only:
  "\<exists>f g. fst (startLeader cm) = cm\<lparr>state := Leader, nextIndex := f, matchIndex := g\<rparr>"
  using start_fold [of "peerIds cm" "cm\<lparr>state := Leader\<rparr>"] by (auto simp: startLeader_def Let_def)

lemma startLeader_frame [raft_frame]:
  "cm_id (fst (startLeader cm)) = cm_id cm" "peerIds (fst (startLeader cm)) = peerIds cm"
  "storage (fst (startLeader cm)) = storage cm" "currentTerm (fst (startLeader cm)) = currentTerm cm"
  "votedFor (fst (startLeader cm)) = votedFor cm" "log (fst (startLeader cm)) = log cm"
  "commitIndex (fst (startLeader cm)) = commitIndex cm" "lastApplied (fst (startLeader cm)) = lastApplied cm"
  "newCommitReadyChan (fst (startLeader cm)) = newCommitReadyChan cm"
  "state (fst (startLeader cm)) = Leader" "snd (startLeader cm) = [GoLeaderLoop]"
  using startLeader_only [of cm] by (auto simp: startLeader_def Let_def)

section \<open>The insertion loop\<close>

lemma insert_loop_spec:
  assumes "insert_loop lg es li ni = (li', ni')" "li \<le> length lg" "ni \<le> length es"
  shows "\<exists>k. li' = li + k \<and> ni' = ni + k \<and> li' \<le> length lg \<and> ni' \<le> length es
     \<and> (\<forall>j < k. Term (lg ! (li + j)) = Term (es ! (ni + j)))
     \<and> (li' < length lg \<longrightarrow> ni' < length es \<longrightarrow> Term (lg ! li') \<noteq> Term (es ! ni'))"
  using assms
proof (induction lg es li ni rule: insert_loop.induct)
  case (1 lg es li ni)
  show ?case
  proof (cases "li \<ge> length lg \<or> ni \<ge> length es \<or> Term (lg ! li) \<noteq> Term (es ! ni)")
    case True
    then have "li' = li \<and> ni' = ni" using "1.prems"(1) by (auto simp: insert_loop.simps [of lg es li ni] split: if_splits)
    then show ?thesis using True "1.prems"(2,3) by auto
  next
    case False
    then have "insert_loop lg es (Suc li) (Suc ni) = (li', ni')"
      using "1.prems"(1) by (simp add: insert_loop.simps [of lg es li ni])
    from "1.IH" [OF _ _ this] False obtain k where k: "li' = Suc li + k" "ni' = Suc ni + k" "li' \<le> length lg"
      "ni' \<le> length es" "\<forall>j < k. Term (lg ! (Suc li + j)) = Term (es ! (Suc ni + j))"
      "li' < length lg \<longrightarrow> ni' < length es \<longrightarrow> Term (lg ! li') \<noteq> Term (es ! ni')" by auto
    have "\<forall>j < Suc k. Term (lg ! (li + j)) = Term (es ! (ni + j))"
      using k(5) False by (auto simp: less_Suc_eq_0_disj)
    then show ?thesis using k by (intro exI [of _ "Suc k"]) auto
  qed
qed

text \<open>The log after an accepted call: the entries of the log up to the first one whose term differs
  from the received one, then the received ones; a log that already has all of them stays.\<close>

lemma append_accept_log:
  assumes "-1 \<le> ae_PrevLogIndex args" "ae_PrevLogIndex args < int (length (log cm))"
  defines "m \<equiv> nat (ae_PrevLogIndex args + 1)"
  obtains k where "k \<le> length (ae_Entries args)" "m + k \<le> length (log cm)"
    "\<And>j. j < k \<Longrightarrow> Term (log cm ! (m + j)) = Term (ae_Entries args ! j)"
    "m + k < length (log cm) \<Longrightarrow> k < length (ae_Entries args)
       \<Longrightarrow> Term (log cm ! (m + k)) \<noteq> Term (ae_Entries args ! k)"
    "log (append_accept args cm) =
       (if k < length (ae_Entries args) then take (m + k) (log cm) @ drop k (ae_Entries args) else log cm)"
proof -
  obtain li ni where l: "insert_loop (log cm) (ae_Entries args) m 0 = (li, ni)" by fastforce
  have m: "m \<le> length (log cm)" using assms by (simp add: nat_le_iff)
  from insert_loop_spec [OF l m] obtain k where k: "li = m + k" "ni = k" "m + k \<le> length (log cm)"
    "k \<le> length (ae_Entries args)" "\<forall>j < k. Term (log cm ! (m + j)) = Term (ae_Entries args ! j)"
    "m + k < length (log cm) \<longrightarrow> k < length (ae_Entries args) \<longrightarrow> Term (log cm ! (m + k)) \<noteq> Term (ae_Entries args ! k)"
    by auto
  show thesis
    by (rule that [of k]) (use k l in \<open>auto simp: append_accept_def Let_def m_def\<close>)
qed

end
