(* ===== verification/RaftLog.thy ===== *)
theory RaftLog
  imports RaftElection
begin

text \<open>
  The log matching property, proved once for every implementation that obeys the laws of the locale
  \<open>raft_log\<close>: in the states that timely runs reach, two logs that ever existed and agree on the term
  of one index agree on everything up to that index. The induction also shows that the follower's
  merge of the received entries always reproduces a log that existed before.
\<close>

section \<open>The contract of an implementation\<close>

text \<open>\<open>from_log L b\<close>: the AppendEntries arguments \<open>b\<close> were cut out of the log \<open>L\<close>.\<close>

definition from_log :: "'c LogEntry list \<Rightarrow> 'c AppendEntriesArgs \<Rightarrow> bool" where
  "from_log L b \<longleftrightarrow>
     0 \<le> ae_PrevLogIndex b + 1 \<and> ae_PrevLogIndex b + 1 \<le> int (length L)
     \<and> ae_Entries b = drop (nat (ae_PrevLogIndex b + 1)) L
     \<and> (0 \<le> ae_PrevLogIndex b \<longrightarrow> ae_PrevLogTerm b = Term (L ! nat (ae_PrevLogIndex b)))"

text \<open>\<open>merged lg b k lg'\<close>: \<open>lg'\<close> keeps of \<open>lg\<close> the prefix before \<open>b\<close> and the \<open>k\<close> entries after it whose
  terms are those of \<open>b\<close>, and takes the rest from \<open>b\<close>.\<close>

definition merged :: "'c LogEntry list \<Rightarrow> 'c AppendEntriesArgs \<Rightarrow> nat \<Rightarrow> 'c LogEntry list \<Rightarrow> bool" where
  "merged lg b k lg' \<longleftrightarrow>
     (let m = nat (ae_PrevLogIndex b + 1)
      in -1 \<le> ae_PrevLogIndex b \<and> m + k \<le> length lg \<and> k \<le> length (ae_Entries b)
         \<and> (0 \<le> ae_PrevLogIndex b \<longrightarrow> Term (lg ! nat (ae_PrevLogIndex b)) = ae_PrevLogTerm b)
         \<and> (\<forall>j < k. Term (lg ! (m + j)) = Term (ae_Entries b ! j))
         \<and> lg' = take (m + k) lg @ drop k (ae_Entries b))"

locale raft_log = raft_node im for im :: "('n, 'c) raft_impl" +
  assumes ready_log: "im_ready im now c = (c', es) \<Longrightarrow> im_log im c' = im_log im c"
    and RequestVote_log: "im_RequestVote im now a c = (c', r, es) \<Longrightarrow> im_log im c' = im_log im c"
    and AppendEntries_log:
      "im_AppendEntries im now b c = Inr (c', q, es) \<Longrightarrow>
         im_log im c' = im_log im c
         \<or> (\<exists>k. merged (im_log im c) b k (im_log im c')) \<and> im_role im c' \<noteq> Leader"
    and timer_log: "im_timer im now t d c = (goes_on, c', es) \<Longrightarrow> im_log im c' = im_log im c"
    and voteReply_log: "im_voteReply im now t v rep c = (c', v', es) \<Longrightarrow> im_log im c' = im_log im c"
    and aeArgs_log: "im_aeArgs im t p c = Inr (ni, b) \<Longrightarrow> from_log (im_log im c) b"
    and aeReply_log: "im_aeReply im now t p ni k ar c = (c', es) \<Longrightarrow> im_log im c' = im_log im c"
    and Submit_log:
      "im_Submit im cmd c = (c', i, es) \<Longrightarrow>
         im_log im c' = im_log im c
         \<or> im_role im c = Leader \<and> im_term im c' = im_term im c
           \<and> im_log im c' = im_log im c @ [\<lparr>Command = cmd, Term = im_term im c\<rparr>]"
    and Stop_log: "im_log im (im_Stop im c) = im_log im c"
    and commit_log: "im_commit im c = Inr (c', out) \<Longrightarrow> im_log im c' = im_log im c"

section \<open>The invariant\<close>

definition log_matching :: "'c LogEntry list set \<Rightarrow> bool" where
  "log_matching Ls \<longleftrightarrow>
     (\<forall>L\<in>Ls. \<forall>M\<in>Ls. \<forall>i. i < length L \<longrightarrow> i < length M \<longrightarrow> Term (L ! i) = Term (M ! i)
        \<longrightarrow> take (Suc i) L = take (Suc i) M)"

definition calls :: "('n, 'c) cluster \<Rightarrow> 'c AppendEntriesArgs set" where
  "calls s = {b. \<exists>g n p t i. gos s g = Some (GSendCall n p t i b)}"

definition log_inv :: "('n, 'c) raft_impl \<Rightarrow> ('n, 'c) cluster \<Rightarrow> bool" where
  "log_inv im s \<longleftrightarrow>
     (\<forall>n. im_log im (nodes s n) \<in> logs s)
     \<and> log_matching (logs s)
     \<and> (\<forall>L\<in>logs s. \<forall>e\<in>set L. \<exists>m. (Term e, m) \<in> elected s)
     \<and> (\<forall>n. im_role im (nodes s n) = Leader \<longrightarrow>
          (\<forall>L\<in>logs s. \<forall>i < length L. Term (L ! i) = im_term im (nodes s n) \<longrightarrow> i < length (im_log im (nodes s n))))
     \<and> (\<forall>b\<in>calls s. \<exists>L\<in>logs s. from_log L b)"

lemma log_matchingD:
  "log_matching Ls \<Longrightarrow> L \<in> Ls \<Longrightarrow> M \<in> Ls \<Longrightarrow> i < length L \<Longrightarrow> i < length M \<Longrightarrow> Term (L ! i) = Term (M ! i)
     \<Longrightarrow> take (Suc i) L = take (Suc i) M"
  unfolding log_matching_def by blast

text \<open>The heart of the matter: what a follower builds from a call cut out of \<open>L\<close> is \<open>L\<close>.\<close>

lemma merged_is_source:
  assumes lm: "log_matching Ls" and lg: "lg \<in> Ls" and L: "L \<in> Ls"
    and b: "from_log L b" and m: "merged lg b k lg'"
  shows "lg' = L"
proof -
  define n where "n = nat (ae_PrevLogIndex b + 1)"
  have len: "n + k \<le> length lg" "n \<le> length L" "k \<le> length L - n" and E: "ae_Entries b = drop n L"
    and lg': "lg' = take (n + k) lg @ drop k (drop n L)"
    using b m by (auto simp: from_log_def merged_def Let_def n_def nat_le_iff)
  have "take (n + k) lg = take (n + k) L"
  proof (cases "n + k")
    case (Suc i)
    have "Term (lg ! i) = Term (L ! i)"
    proof (cases k)
      case 0
      then have p: "0 \<le> ae_PrevLogIndex b" "i = nat (ae_PrevLogIndex b)" using Suc by (simp_all add: n_def)
      then show ?thesis using b m by (simp add: from_log_def merged_def Let_def)
    next
      case (Suc j)
      then have "Term (lg ! (n + j)) = Term (drop n L ! j)"
        using m E by (simp add: merged_def Let_def n_def)
      moreover have "i = n + j" using Suc \<open>n + k = Suc i\<close> by simp
      ultimately show ?thesis using len Suc by simp
    qed
    then show ?thesis using log_matchingD [OF lm lg L, of i] len Suc by simp
  qed simp
  then show ?thesis using lg' len by (simp add: add.commute)
qed

lemma callsI: "gos s g = Some (GSendCall n p t i b) \<Longrightarrow> b \<in> calls s"
  unfolding calls_def by blast

lemma calls_mono:
  assumes "\<And>g n p t i b. gos s' g = Some (GSendCall n p t i b) \<Longrightarrow> b \<in> calls s"
  shows "calls s' \<subseteq> calls s"
  using assms unfolding calls_def [of s'] by blast

lemma calls_simps:
  "calls (set_node im n c s) = calls s"
  "calls (finish g s) \<subseteq> calls s"
  "calls (kill_node n s) \<subseteq> calls s"
  "calls (launch (GReady m) s) \<subseteq> calls s"
proof -
  show "calls (set_node im n c s) = calls s" by (simp add: calls_def)
  show "calls (finish g s) \<subseteq> calls s"
    by (rule calls_mono) (auto simp: finish_def intro: callsI split: if_splits)
  show "calls (kill_node n s) \<subseteq> calls s"
    by (rule calls_mono) (auto simp: kill_node_def intro: callsI split: if_splits option.splits)
  show "calls (launch (GReady m) s) \<subseteq> calls s"
    by (rule calls_mono) (auto simp: launch_def intro: callsI split: if_splits)
qed

lemma calls_spawn: "calls (spawn n es s) \<subseteq> calls s"
proof (rule calls_mono)
  fix g m p t i b assume "gos (spawn n es s) g = Some (GSendCall m p t i b)"
  then show "b \<in> calls s"
  proof (elim spawn_gos [THEN disjE] exE conjE)
    fix j assume "GSendCall m p t i b = goroutine_of n (next_el s) (es ! j)"
    then show ?thesis by (cases "es ! j") auto
  qed (rule callsI)
qed

lemma log_invD:
  assumes "log_inv im s"
  shows "im_log im (nodes s n) \<in> logs s" "log_matching (logs s)"
    and "L \<in> logs s \<Longrightarrow> e \<in> set L \<Longrightarrow> \<exists>m. (Term e, m) \<in> elected s"
    and "im_role im (nodes s n) = Leader \<Longrightarrow> L \<in> logs s \<Longrightarrow> i < length L \<Longrightarrow> Term (L ! i) = im_term im (nodes s n)
           \<Longrightarrow> i < length (im_log im (nodes s n))"
    and "b \<in> calls s \<Longrightarrow> \<exists>L\<in>logs s. from_log L b"
  using assms by (auto simp: log_inv_def)

text \<open>One server moves, no new log comes into existence.\<close>

lemma log_inv_move:
  assumes li: "log_inv im s" and ci: "cluster_inv im ns s" "cluster_inv im ns s'"
    and nd: "nodes s' = (nodes s)(n := c')" and lg: "logs s' = logs s" and el: "elected s \<subseteq> elected s'"
    and new: "im_log im c' \<in> logs s"
    and ldr: "im_role im c' = Leader \<Longrightarrow> im_log im c' = im_log im (nodes s n)
                \<and> im_term im c' = im_term im (nodes s n) \<and> active (im_role im (nodes s n))"
    and msg: "\<And>b. b \<in> calls s' \<Longrightarrow> b \<in> calls s \<or> (\<exists>L\<in>logs s. from_log L b)"
  shows "log_inv im s'"
proof -
  have "i < length (im_log im c')"
    if r: "im_role im c' = Leader" and L: "L \<in> logs s" and i: "i < length L" and t: "Term (L ! i) = im_term im c'"
    for L i
  proof (cases "im_role im (nodes s n) = Leader")
    case True
    then show ?thesis using log_invD(4) [OF li True L i] t ldr [OF r] by simp
  next
    case False
    then have cand: "im_role im (nodes s n) = Candidate" using ldr [OF r] by (simp add: active_def)
    obtain m where m: "(im_term im c', m) \<in> elected s"
      using log_invD(3) [OF li L, of "L ! i"] i t by auto
    have "(im_term im c', n) \<in> elected s'"
      using core_inv_leader [OF cluster_invD(2) [OF ci(2)], of n] r nd by simp
    then have "m = n" using core_inv_elect_fun [OF cluster_invD(2) [OF ci(2)]] m el by blast
    then show ?thesis
      using core_inv_elect [OF cluster_invD(2) [OF ci(1)] m] ldr [OF r] cand by (simp add: elect_ok_def)
  qed
  then have "im_role im (nodes s' x) = Leader \<longrightarrow> (\<forall>L\<in>logs s. \<forall>i < length L.
      Term (L ! i) = im_term im (nodes s' x) \<longrightarrow> i < length (im_log im (nodes s' x)))" for x
    using log_invD(4) [OF li, of x] nd by simp
  moreover have "\<forall>L\<in>logs s. \<forall>e\<in>set L. \<exists>m. (Term e, m) \<in> elected s'"
    using log_invD(3) [OF li] el by (meson subsetD)
  moreover have "\<forall>b\<in>calls s'. \<exists>L\<in>logs s. from_log L b" using msg log_invD(5) [OF li] by blast
  ultimately show ?thesis
    using log_invD(1,2) [OF li] new nd lg by (simp add: log_inv_def)
qed

lemma calls_upd [simp]:
  "calls (s\<lparr>votes := x1\<rparr>) = calls s" "calls (s\<lparr>voters := x2\<rparr>) = calls s" "calls (s\<lparr>el_of := x3\<rparr>) = calls s"
  "calls (s\<lparr>next_el := x4\<rparr>) = calls s" "calls (s\<lparr>granted := x5\<rparr>) = calls s" "calls (s\<lparr>commits := x6\<rparr>) = calls s"
  by (simp_all add: calls_def)

lemma calls_dest [dest!]:
  "b \<in> calls (set_node im n c s) \<Longrightarrow> b \<in> calls s"
  "b \<in> calls (spawn n es s) \<Longrightarrow> b \<in> calls s"
  "b \<in> calls (finish g s) \<Longrightarrow> b \<in> calls s"
  "b \<in> calls (kill_node n s) \<Longrightarrow> b \<in> calls s"
  "b \<in> calls (launch (GReady n) s) \<Longrightarrow> b \<in> calls s"
  using calls_simps(1) [of im n c s] calls_simps(2) [of g s] calls_simps(3,4) [of n s] calls_spawn [of n es s]
  by auto

lemma calls_becomeD [dest!]:
  "b \<in> calls (become g x s) \<Longrightarrow> b \<in> calls s \<or> (\<exists>m p t i. x = GSendCall m p t i b)"
  by (auto simp: calls_def become_def split: if_splits)

text \<open>An operation that leaves the log of its server alone.\<close>

lemma log_inv_op:
  assumes "log_inv im s" "cluster_inv im ns s" "cluster_inv im ns s'"
    and nd: "nodes s' = (nodes s)(n := c')" and lg: "logs s' = insert (im_log im c') (logs s)"
    and "elected s \<subseteq> elected s'" "calls s' \<subseteq> calls s"
    and same: "im_log im c' = im_log im (nodes s n)"
    and "im_role im c' = Leader \<Longrightarrow> im_term im c' = im_term im (nodes s n) \<and> active (im_role im (nodes s n))"
  shows "log_inv im s'"
  using log_invD(1) [OF assms(1), of n] assms
  by (intro log_inv_move [OF assms(1-3) nd]) (auto simp: insert_absorb)

lemma log_inv_still:
  assumes "log_inv im s" "cluster_inv im ns s" "cluster_inv im ns s'"
    and "nodes s' = nodes s" "logs s' = logs s" "elected s' = elected s"
    and "\<And>b. b \<in> calls s' \<Longrightarrow> b \<in> calls s \<or> (\<exists>L\<in>logs s. from_log L b)"
  shows "log_inv im s'"
  using log_invD(1) [OF assms(1)] assms
  by (intro log_inv_move [where n = undefined and c' = "nodes s undefined", OF assms(1-3)]) auto

text \<open>A leader appends one entry of its own term.\<close>

lemma log_matching_snoc:
  assumes lm: "log_matching Ls" and lg: "lg \<in> Ls"
    and fresh: "\<And>L i. L \<in> Ls \<Longrightarrow> i < length L \<Longrightarrow> Term (L ! i) = Term e \<Longrightarrow> i < length lg"
  shows "log_matching (insert (lg @ [e]) Ls)"
proof -
  have new: "take (Suc i) L = take (Suc i) (lg @ [e])"
    if "L \<in> Ls" "i < length L" "i < length (lg @ [e])" "Term (L ! i) = Term ((lg @ [e]) ! i)" for L i
  proof (cases "i < length lg")
    case True
    have "take (Suc i) L = take (Suc i) lg"
      by (rule log_matchingD [OF lm that(1) lg that(2) True]) (use that(4) True in \<open>simp add: nth_append\<close>)
    then show ?thesis using True by simp
  next
    case False
    then have "i = length lg" using that(3) by simp
    then show ?thesis using fresh [OF that(1,2)] that(4) by simp
  qed
  show ?thesis
    unfolding log_matching_def
  proof (intro ballI allI impI)
    fix L M i assume a: "L \<in> insert (lg @ [e]) Ls" "M \<in> insert (lg @ [e]) Ls" "i < length L" "i < length M"
      "Term (L ! i) = Term (M ! i)"
    then show "take (Suc i) L = take (Suc i) M"
      using new [of L i] new [of M i] log_matchingD [OF lm, of L M i] by (elim insertE) simp_all
  qed
qed

lemma log_inv_append:
  assumes li: "log_inv im s" and ci: "cluster_inv im ns s" "cluster_inv im ns s'"
    and nd: "nodes s' = (nodes s)(n := c')" and lg: "logs s' = insert (im_log im c') (logs s)"
    and el: "elected s \<subseteq> elected s'" and msg: "calls s' \<subseteq> calls s"
    and r: "im_role im (nodes s n) = Leader" and t: "im_term im c' = im_term im (nodes s n)" "Term e = im_term im (nodes s n)"
    and c': "im_log im c' = im_log im (nodes s n) @ [e]"
  shows "log_inv im s'"
proof -
  note own = log_invD(1) [OF li, of n] and D = log_invD [OF li]
  have ldr: "(Term e, n) \<in> elected s" using core_inv_leader [OF cluster_invD(2) [OF ci(1)] r] t by simp
  have "log_matching (logs s')"
    unfolding lg c' by (rule log_matching_snoc [OF D(2) own]) (use D(4) [OF r] t in auto)
  moreover have "\<forall>L\<in>logs s'. \<forall>x\<in>set L. \<exists>m. (Term x, m) \<in> elected s'"
    using D(3) own ldr el unfolding lg c' by fastforce
  moreover have "i < length (im_log im (nodes s' m))"
    if m: "im_role im (nodes s' m) = Leader" "L \<in> logs s'" "i < length L" "Term (L ! i) = im_term im (nodes s' m)"
    for m L i
  proof (cases "m = n")
    case True
    have "i < length (im_log im (nodes s n))" if "L \<in> logs s"
      using D(4) [OF r that] m t True nd by simp
    then show ?thesis using m True nd c' unfolding lg by auto
  next
    case False
    have nd': "nodes s' m = nodes s m" using False nd by simp
    show ?thesis
    proof (cases "L \<in> logs s")
      case True
      then show ?thesis using D(4) [of m L i] m nd' by simp
    next
      case L: False
      then have "L = im_log im (nodes s n) @ [e]" using m(2) lg c' by simp
      then have "i < length (im_log im (nodes s n)) \<or> (Term e, m) \<in> elected s'"
        using m nd' core_inv_leader [OF cluster_invD(2) [OF ci(2)] m(1)] by (auto simp: nth_append less_Suc_eq)
      then show ?thesis
      proof
        assume "i < length (im_log im (nodes s n))"
        then show ?thesis using D(4) [of m "im_log im (nodes s n)" i] own m nd' \<open>L = _\<close> by (simp add: nth_append)
      next
        assume "(Term e, m) \<in> elected s'"
        then show ?thesis
          using core_inv_elect_fun [OF cluster_invD(2) [OF ci(2)], of "Term e" m n] ldr el False by blast
      qed
    qed
  qed
  moreover have "\<forall>b\<in>calls s'. \<exists>L\<in>logs s'. from_log L b" using msg D(5) lg by blast
  moreover have "im_log im (nodes s' m) \<in> logs s'" for m using D(1) [of m] nd lg by simp
  ultimately show ?thesis unfolding log_inv_def by blast
qed

section \<open>Every timely step keeps the invariant\<close>

lemma keeps_leader:
  "keeps im c c' \<Longrightarrow> im_role im c' = Leader \<Longrightarrow> im_term im c' = im_term im c \<and> active (im_role im c)"
  by (auto simp: keeps_def)

context raft_log
begin

lemma log_SendDeliver:
  assumes li: "log_inv im s" and ci: "cluster_inv im ns s" "cluster_inv im ns s'"
    and step: "cstep im (ESendDeliver g now) s = Some (Inr s')"
  shows "log_inv im s'"
proof -
  from step obtain n p t ni a where g: "gos s g = Some (GSendCall n p t ni a)"
    by (auto split: option.splits goroutine.splits)
  with step obtain c r es where ae: "im_AppendEntries im now a (nodes s p) = Inr (c, r, es)"
    and s': "s' = (case r of None \<Rightarrow> finish g (spawn p es (set_node im p c s))
       | Some reply \<Rightarrow> become g (GSendReply n p t ni (length (ae_Entries a)) reply) (spawn p es (set_node im p c s)))"
    by (auto simp: go_bind_eq_Inr Let_def split: option.splits)
  obtain L where L: "L \<in> logs s" "from_log L a" using log_invD(5) [OF li callsI [OF g]] by blast
  have new: "im_log im c \<in> logs s"
    using AppendEntries_log [OF ae] merged_is_source [OF log_invD(2,1) [OF li] L] L(1) log_invD(1) [OF li]
    by auto
  have nd: "nodes s' = (nodes s)(p := c)" "logs s' = logs s" "elected s \<subseteq> elected s'"
    using new by (auto simp: s' set_node_changes insert_absorb split: option.splits)
  have cs: "calls s' \<subseteq> calls s"
    by (auto simp: s' split: option.splits)
  show ?thesis
  proof (rule log_inv_move [OF li ci nd new])
    assume r: "im_role im c = Leader"
    then show "im_log im c = im_log im (nodes s p) \<and> im_term im c = im_term im (nodes s p) \<and> active (im_role im (nodes s p))"
      using AppendEntries_log [OF ae] AppendEntries_law [OF ae] by auto
  qed (use cs in blast)
qed

lemma log_Submit:
  assumes li: "log_inv im s" and ci: "cluster_inv im ns s" "cluster_inv im ns s'"
    and step: "cstep im (ESubmit n cmd) s = Some (Inr s')"
  shows "log_inv im s'"
proof -
  from step obtain c i es where c: "im_Submit im cmd (nodes s n) = (c, i, es)"
      and s': "s' = spawn n es (set_node im n c s)"
    by (auto split: if_splits prod.splits)
  have nd: "nodes s' = (nodes s)(n := c)" "logs s' = insert (im_log im c) (logs s)" "elected s \<subseteq> elected s'"
    "calls s' \<subseteq> calls s"
    by (auto simp: s' set_node_changes)
  from Submit_log [OF c] show ?thesis
  proof
    assume "im_log im c = im_log im (nodes s n)"
    then show ?thesis using Submit_law [OF c] by (intro log_inv_op [OF li ci nd]) (auto dest: keeps_leader)
  next
    assume "im_role im (nodes s n) = Leader \<and> im_term im c = im_term im (nodes s n)
      \<and> im_log im c = im_log im (nodes s n) @ [\<lparr>Command = cmd, Term = im_term im (nodes s n)\<rparr>]"
    then show ?thesis by (intro log_inv_append [OF li ci nd]) auto
  qed
qed

lemma log_VoteDeliver:
  assumes li: "log_inv im s" and ci: "cluster_inv im ns s" "cluster_inv im ns s'"
    and step: "cstep im (EVoteDeliver g now) s = Some (Inr s')"
  shows "log_inv im s'"
proof -
  from step obtain n el p t a where g: "gos s g = Some (GVoteCall n el p t a)"
    by (auto split: option.splits goroutine.splits)
  obtain c r es where rv: "im_RequestVote im now a (nodes s p) = (c, r, es)" by (metis prod_cases3)
  have "nodes s' = (nodes s)(p := c) \<and> logs s' = insert (im_log im c) (logs s) \<and> elected s \<subseteq> elected s' \<and> calls s' \<subseteq> calls s"
    using step g rv by (auto simp: Let_def set_node_changes split: option.splits if_splits)
  then show ?thesis
    using log_inv_op [OF li ci, of p c] RequestVote_log [OF rv] RequestVote_law [OF rv] keeps_leader [of im "nodes s p" c]
    by blast
qed

lemma log_VoteReply:
  assumes li: "log_inv im s" and ci: "cluster_inv im ns s" "cluster_inv im ns s'"
    and tl: "timely im s (EVoteReply g now)" and step: "cstep im (EVoteReply g now) s = Some (Inr s')"
  shows "log_inv im s'"
proof -
  from step obtain n el p t r where g: "gos s g = Some (GVoteReply n el p t r)"
    by (auto split: option.splits goroutine.splits)
  obtain c v es where vr: "im_voteReply im now t (votes s el) r (nodes s n) = (c, v, es)" by (metis prod_cases3)
  have tm: "im_role im (nodes s n) = Candidate \<longrightarrow> im_term im (nodes s n) = t" using tl g by simp
  have nd: "nodes s' = (nodes s)(n := c)" "logs s' = insert (im_log im c) (logs s)" "elected s \<subseteq> elected s'"
    "calls s' \<subseteq> calls s"
    using step g vr by (auto simp: set_node_changes)
  show ?thesis
    using voteReply_log [OF vr] voteReply_law [OF vr tm]
    by (intro log_inv_op [OF li ci nd]) (auto simp: same_vote_def dest: keeps_leader)
qed

lemma log_TimerTick:
  assumes li: "log_inv im s" and ci: "cluster_inv im ns s" "cluster_inv im ns s'"
    and step: "cstep im (ETimerTick g now) s = Some (Inr s')"
  shows "log_inv im s'"
proof -
  from step obtain n t d where g: "gos s g = Some (GTimer n t d)"
    by (auto split: option.splits goroutine.splits)
  obtain goes_on c es where tm: "im_timer im now t d (nodes s n) = (goes_on, c, es)" by (metis prod_cases3)
  have nd: "nodes s' = (nodes s)(n := c)" "logs s' = insert (im_log im c) (logs s)" "elected s \<subseteq> elected s'"
    "calls s' \<subseteq> calls s"
    using step g tm by (auto simp: Let_def set_node_changes split: if_splits)
  show ?thesis
    using timer_log [OF tm] timer_law [OF tm] by (intro log_inv_op [OF li ci nd]) auto
qed

lemma log_Restart:
  assumes li: "log_inv im s" and ci: "cluster_inv im ns s" "cluster_inv im ns s'"
    and tl: "timely im s (ERestart n)" and step: "cstep im (ERestart n) s = Some (Inr s')"
  shows "log_inv im s'"
proof -
  from step obtain c where c: "im_restart im (nodes s n) = Inr c"
    and s': "s' = launch (GReady n) (set_node im n c (kill_node n s))"
    by (auto simp: go_bind_eq_Inr split: if_splits)
  have nd: "nodes s' = (nodes s)(n := c)" "logs s' = insert (im_log im c) (logs s)" "elected s \<subseteq> elected s'"
    "calls s' \<subseteq> calls s"
    by (auto simp: s' set_node_changes)
  show ?thesis
    using tl c restart_law [OF c] by (intro log_inv_op [OF li ci nd]) auto
qed

lemma log_still:
  assumes li: "log_inv im s" and ci: "cluster_inv im ns s" "cluster_inv im ns s'"
    and step: "cstep im ev s = Some (Inr s')"
    and ev: "ev \<in> {ETimerNew g d, EVoteSend g, ELoopSend g, ELoopFire g, ELoopTrigger g h, ESend g, EDrop g}"
  shows "log_inv im s'"
proof (rule log_inv_still [OF li ci])
  show "nodes s' = nodes s" "logs s' = logs s" "elected s' = elected s"
    using step ev by (auto simp: go_bind_eq_Inr Let_def split: option.splits goroutine.splits if_splits)
  fix b assume "b \<in> calls s'"
  then show "b \<in> calls s \<or> (\<exists>L\<in>logs s. from_log L b)"
  proof (cases "ev = ESend g")
    case True
    then obtain n p t i a where a: "im_aeArgs im t p (nodes s n) = Inr (i, a)"
        "s' = become g (GSendCall n p t i a) s"
      using step by (auto simp: go_bind_eq_Inr split: option.splits goroutine.splits)
    have "calls s' \<subseteq> insert a (calls s)"
      unfolding a(2) by auto
    then show ?thesis using \<open>b \<in> calls s'\<close> aeArgs_log [OF a(1)] log_invD(1) [OF li] by blast
  next
    case False
    then have "calls s' \<subseteq> calls s"
      using step ev by (auto simp: go_bind_eq_Inr Let_def split: option.splits goroutine.splits if_splits
       )
    then show ?thesis using \<open>b \<in> calls s'\<close> by blast
  qed
qed

lemma log_step:
  assumes li: "log_inv im s" and ci: "cluster_inv im ns s" "cluster_inv im ns s'"
    and tl: "timely im s ev" and step: "cstep im ev s = Some (Inr s')"
  shows "log_inv im s'"
proof (cases ev)
  case (EReady g now)
  then obtain n c es where c: "im_ready im now (nodes s n) = (c, es)"
      "s' = spawn n es (set_node im n c (finish g s))"
    using step by (auto split: option.splits goroutine.splits prod.splits)
  show ?thesis
    by (rule log_inv_op [OF li ci, of n c])
      (use c ready_log [OF c(1)] ready_law [OF c(1)] in \<open>auto simp: set_node_changes dest: keeps_leader\<close>)
next
  case (ESendReply g now)
  then obtain n p t ni k r c es where c: "im_aeReply im now t p ni k r (nodes s n) = (c, es)"
      "s' = spawn n es (set_node im n c (finish g s))" and fr: "im_fresh im t r (nodes s n)"
    using step tl by (auto split: option.splits goroutine.splits prod.splits)
  show ?thesis
    by (rule log_inv_op [OF li ci, of n c])
      (use c aeReply_log [OF c(1)] aeReply_law [OF c(1) fr] in \<open>auto simp: set_node_changes dest: keeps_leader\<close>)
next
  case (EStop n)
  then show ?thesis
    using step keeps_leader [OF Stop_law] Stop_log
    by (intro log_inv_op [OF li ci, of n "im_Stop im (nodes s n)"]) (auto simp: set_node_changes split: if_splits)
next
  case (ECommit n)
  then obtain c out where c: "im_commit im (nodes s n) = Inr (c, out)"
      "s' = (set_node im n c s)\<lparr>commits := (commits s)(n := commits s n @ out)\<rparr>"
    using step by (auto simp: go_bind_eq_Inr Let_def split: if_splits)
  show ?thesis
    by (rule log_inv_op [OF li ci, of n c])
      (use c commit_log [OF c(1)] commit_law [OF c(1)] in \<open>auto simp: set_node_changes dest: keeps_leader\<close>)
qed (use step tl log_still [OF li ci step] log_SendDeliver [OF li ci] log_Submit [OF li ci] log_VoteDeliver [OF li ci]
      log_VoteReply [OF li ci] log_TimerTick [OF li ci] log_Restart [OF li ci] in blast)+

end

section \<open>Log matching\<close>

locale raft_log_cluster = raft_log im + raft_cluster im mk
  for im :: "('n, 'c) raft_impl" and mk :: "int \<Rightarrow> int list \<Rightarrow> 'n"
begin

lemma log_inv_reach:
  assumes "timely_reach im (cluster_init mk ns) s" "good_config ns"
  shows "log_inv im s"
  using assms
proof (induction rule: timely_reach.induct)
  case start
  show ?case
    by (auto simp: log_inv_def cluster_init_def mk_law log_matching_def calls_def split: if_splits)
next
  case (step s ev s')
  then show ?case
    using log_step [OF _ inv_reach] inv_reach [OF timely_reach.step] by blast
qed

lemma logs_match:
  assumes "timely_reach im (cluster_init mk ns) s" "good_config ns"
    and "i < length (im_log im (nodes s m))" "i < length (im_log im (nodes s n))"
    and "Term (im_log im (nodes s m) ! i) = Term (im_log im (nodes s n) ! i)"
  shows "take (Suc i) (im_log im (nodes s m)) = take (Suc i) (im_log im (nodes s n))"
  using log_inv_reach [OF assms(1,2)] assms(3-5) by (intro log_matchingD [of "logs s"]) (auto dest: log_invD)

end

end
