(* ===== verification/Raft3Net.thy ===== *)
theory Raft3Net
  imports Raft3 RaftLog
begin

text \<open>
  Clusters of \<^verbatim>\<open>src/raft/part3/raft.go\<close> servers: the implementation record over the handlers of
  \<^verbatim>\<open>Raft3\<close>, the proof that it obeys the contracts of elections and of logs, and the safety theorems
  that follow for the cluster.
\<close>

definition part3_impl :: "('c ConsensusModule, 'c) raft_impl" where
  "part3_impl =
     \<lparr>im_id = cm_id, im_peers = peerIds, im_term = currentTerm, im_voted = votedFor, im_role = state, im_log = log,
      im_ready = cm_ready,
      im_RequestVote = (\<lambda>now a cm. let (cm', r, es) = RequestVote now a cm in (cm', Some r, es)),
      im_AppendEntries = (\<lambda>now a cm. go_bind (AppendEntries now a cm) (\<lambda>(cm', r, es). Inr (cm', Some r, es))),
      im_timer = runElectionTimer, im_voteArgs = voteArgs, im_voteReply = voteReply,
      im_sendAEs = leaderSendAEs, im_aeArgs = aeArgs, im_aeReply = aeReply,
      im_Submit = Submit, im_Stop = Stop, im_commit = commitChanSender,
      im_restart = (\<lambda>cm. NewConsensusModule (cm_id cm) (peerIds cm) (storage cm)),
      im_fresh = (\<lambda>t r cm. True)\<rparr>"

definition part3_new :: "int \<Rightarrow> int list \<Rightarrow> 'c ConsensusModule" where
  "part3_new i peers =
     \<lparr>cm_id = i, peerIds = peers, storage = NewMapStorage, newCommitReadyChan = 0,
      currentTerm = 0, votedFor = -1, log = [], commitIndex = -1, lastApplied = -1,
      state = Follower, electionResetEvent = 0, nextIndex = Map.empty, matchIndex = Map.empty\<rparr>"

lemma part3_new_eq: "NewConsensusModule i peers NewMapStorage = Inr (part3_new i peers)"
  by (simp add: NewConsensusModule_def part3_new_def ms_HasData_def NewMapStorage_def)

lemma part3_impl_sel [simp]:
  "im_id part3_impl = cm_id" "im_peers part3_impl = peerIds" "im_term part3_impl = currentTerm"
  "im_voted part3_impl = votedFor" "im_role part3_impl = state" "im_log part3_impl = log"
  "im_ready part3_impl = cm_ready" "im_timer part3_impl = runElectionTimer" "im_voteArgs part3_impl = voteArgs"
  "im_voteReply part3_impl = voteReply" "im_sendAEs part3_impl = leaderSendAEs" "im_aeArgs part3_impl = aeArgs"
  "im_aeReply part3_impl = aeReply" "im_Submit part3_impl = Submit" "im_Stop part3_impl = Stop"
  "im_commit part3_impl = commitChanSender" "im_fresh part3_impl t r cm"
  "im_restart part3_impl cm = NewConsensusModule (cm_id cm) (peerIds cm) (storage cm)"
  "im_RequestVote part3_impl now a cm = (let (cm', r, es) = RequestVote now a cm in (cm', Some r, es))"
  "im_AppendEntries part3_impl now b cm =
     go_bind (AppendEntries now b cm) (\<lambda>(cm', r, es). Inr (cm', Some r, es))"
  by (simp_all add: part3_impl_def)

section \<open>The contracts\<close>

lemmas p3_ops = cm_ready_def RequestVote_def becomeFollower_def runElectionTimer_def startElection_def
  voteArgs_def leaderSendAEs_def Submit_def Stop_def

lemma AppendEntries_vote:
  assumes "AppendEntries now b c = Inr (c', q, es)"
  shows "quiet es \<and> cm_id c' = cm_id c \<and> peerIds c' = peerIds c \<and> currentTerm c \<le> currentTerm c'
         \<and> (currentTerm c' = currentTerm c \<longrightarrow> votedFor c \<noteq> -1 \<longrightarrow>
              votedFor c' = votedFor c
              \<or> active (state c) \<and> state c' = Follower \<and> ae_Term b = currentTerm c)
         \<and> (active (state c') \<longrightarrow> state c' = state c \<and> currentTerm c' = currentTerm c)"
  using assms
  by (cases "state c")
    (auto simp: AppendEntries_def becomeFollower_def Let_def go_bind_eq_Inr quiet_def active_def raft_frame
      split: if_splits prod.splits)

lemma prev_matches_Inr:
  "prev_matches lg i t = Inr ok \<longleftrightarrow>
     (i = -1 \<and> ok) \<or> (i \<ge> int (length lg) \<and> i \<noteq> -1 \<and> \<not> ok)
     \<or> (0 \<le> i \<and> i < int (length lg) \<and> (ok \<longleftrightarrow> t = Term (lg ! nat i)))"
  by (auto simp: prev_matches_def go_bind_eq_Inr go_index_Inr)

lemma AppendEntries_merges:
  assumes "AppendEntries now b c = Inr (c', q, es)"
  shows "log c' = log c \<or> (\<exists>k. merged (log c) b k (log c')) \<and> state c' \<noteq> Leader"
proof (cases "log c' = log c")
  case False
  with assms obtain cm3 where acc: "log c' = log (append_accept b cm3)" "log cm3 = log c" "state c' = Follower"
    and pm: "prev_matches (log c) (ae_PrevLogIndex b) (ae_PrevLogTerm b) = Inr True"
    by (auto simp: AppendEntries_def becomeFollower_def Let_def go_bind_eq_Inr raft_frame
        split: if_splits prod.splits)
  have pi: "-1 \<le> ae_PrevLogIndex b" "ae_PrevLogIndex b < int (length (log cm3))"
    "0 \<le> ae_PrevLogIndex b \<Longrightarrow> ae_PrevLogTerm b = Term (log c ! nat (ae_PrevLogIndex b))"
    using pm acc(2) by (auto simp: prev_matches_Inr)
  obtain k where "k \<le> length (ae_Entries b)" "nat (ae_PrevLogIndex b + 1) + k \<le> length (log cm3)"
    "\<And>j. j < k \<Longrightarrow> Term (log cm3 ! (nat (ae_PrevLogIndex b + 1) + j)) = Term (ae_Entries b ! j)"
    "log (append_accept b cm3) =
       (if k < length (ae_Entries b) then take (nat (ae_PrevLogIndex b + 1) + k) (log cm3) @ drop k (ae_Entries b) else log cm3)"
    using append_accept_log [OF pi(1,2)] by metis
  then have "merged (log c) b k (log c')"
    using False acc pi by (auto simp: merged_def Let_def split: if_splits)
  then show ?thesis using acc(3) by auto
qed simp

lemma aeReply_vote:
  assumes "aeReply now t p ni k ar c = (c', es)"
  shows "keeps part3_impl c c' \<and> quiet es \<and> log c' = log c"
  using assms
  by (auto simp: aeReply_def becomeFollower_def Let_def keeps_def quiet_def raft_frame split: if_splits)

lemma voteReply_vote:
  assumes vr: "voteReply now t v rep c = (c', v', es)" and tm: "state c = Candidate \<longrightarrow> currentTerm c = t"
  shows "(keeps part3_impl c c' \<and> v' = v \<and> quiet es)
         \<or> (state c = Candidate \<and> rvr_VoteGranted rep \<and> rvr_Term rep = t \<and> v' = v + 1 \<and> same_vote part3_impl c c'
            \<and> (state c' = Candidate \<and> es = [] \<or> state c' = Leader \<and> majority v' (peerIds c) \<and> es = [GoLeaderLoop]))"
proof (cases "state c = Candidate \<and> rvr_Term rep = t \<and> rvr_VoteGranted rep \<and> majority (v + 1) (peerIds c)")
  case True
  then have "c' = fst (startLeader c)" "es = snd (startLeader c)" "v' = v + 1"
    using vr by (auto simp: voteReply_def Let_def split: prod.splits)
  then show ?thesis using True by (simp add: same_vote_def raft_frame)
next
  case False
  then show ?thesis
    using vr tm by (auto simp: voteReply_def becomeFollower_def Let_def keeps_def quiet_def same_vote_def split: if_splits)
qed

lemma voteReply_log3: "voteReply now t v rep c = (c', v', es) \<Longrightarrow> log c' = log c"
  using startLeader_frame(6) [of c]
  by (auto simp: voteReply_def becomeFollower_def Let_def split: if_splits prod.splits)

lemma NewConsensusModule_Inr:
  "NewConsensusModule i ps st = Inr c \<Longrightarrow> cm_id c = i \<and> peerIds c = ps \<and> state c = Follower \<and> storage c = st
     \<and> commitIndex c = -1 \<and> lastApplied c = -1"
  by (auto simp: NewConsensusModule_def restoreFromStorage_def Let_def go_bind_eq_Inr split: if_splits option.splits)

interpretation p3: raft_node part3_impl
proof (standard, goal_cases)
  case (2 now a c c' r es)
  then show ?case
    by (auto simp: p3_ops Let_def keeps_def quiet_def raft_frame split: if_splits prod.splits)
next
  case (3 now b c c' q es)
  then obtain r where "AppendEntries now b c = Inr (c', r, es)" by (auto simp: go_bind_eq_Inr)
  then show ?case using AppendEntries_vote by simp
next
  case (6 now t v rep c c' v' es)
  then show ?case using voteReply_vote by simp
next
  case (9 now t p ni k ar c c' es)
  then show ?case using aeReply_vote [of now t p ni k ar c] by simp
next
  case (13 c c')
  then show ?case by (auto dest: NewConsensusModule_Inr)
qed (auto simp: p3_ops Let_def keeps_def quiet_def raft_frame aeArgs_def commitChanSender_def go_bind_eq_Inr
    split: if_splits prod.splits)

interpretation p3log: raft_log part3_impl
proof (standard, goal_cases)
  case (3 now b c c' q es)
  then obtain r where "AppendEntries now b c = Inr (c', r, es)" by (auto simp: go_bind_eq_Inr)
  then show ?case using AppendEntries_merges by simp
next
  case (5 now t v rep c c' v' es)
  then show ?case by (simp add: voteReply_log3)
next
  case (6 t p c ni b)
  then show ?case
    by (auto simp: aeArgs_def from_log_def Let_def go_bind_eq_Inr go_index_Inr go_from_Inr split: if_splits)
next
  case (7 now t p ni k ar c c' es)
  then show ?case using aeReply_vote [of now t p ni k ar c] by simp
qed (auto simp: p3_ops Let_def raft_frame commitChanSender_def go_bind_eq_Inr split: if_splits prod.splits)

interpretation p3c: raft_log_cluster part3_impl part3_new
  by standard (simp_all add: part3_new_def)

section \<open>Cluster safety\<close>

text \<open>A server created from an empty storage is the one the cluster starts with.\<close>

abbreviation part3_run :: "int list \<Rightarrow> 'c event list \<Rightarrow> ('c ConsensusModule, 'c) cluster go option" where
  "part3_run ns evs \<equiv> crun part3_impl evs (cluster_init part3_new ns)"

abbreviation part3_timely :: "int list \<Rightarrow> 'c event list \<Rightarrow> bool" where
  "part3_timely ns evs \<equiv> timely_run part3_impl evs (cluster_init part3_new ns)"

lemmas p3_eval = net_eval part3_new_def NewMapStorage_def p3_ops lastLogIndexAndTerm_def persistToStorage_def
  ms_Set_def ms_Get_def ms_HasData_def NewConsensusModule_def restoreFromStorage_def voteReply_def startLeader_def
  AppendEntries_def prev_matches_def append_accept_def append_conflict_def insert_loop.simps aeArgs_def aeReply_def
  advance_commit_def matchCount_def commitChanSender_def

text \<open>A run in which server 0 wins the election of term 1 with the vote of server 1, accepts a command,
  replicates it to server 1 and commits it.\<close>

definition ex_commit :: "int event list" where
  "ex_commit = [EReady 0 0, ETimerNew 3 150, ETimerTick 3 200, EVoteSend 4, EVoteDeliver 4 201, EVoteReply 4 202,
     ELoopSend 8, ESubmit 0 7, ESend 9, ESendDeliver 9 203, ESendReply 9 204, ECommit 0]"

lemma ex_commit_run:
  "part3_timely [0, 1, 2] ex_commit"
  "ends_in (part3_run [0, 1, 2] ex_commit) (\<lambda>s. (1, 0) \<in> elected s)"
  "ends_in (part3_run [0, 1, 2] ex_commit) (\<lambda>s. log (nodes s 0) = [\<lparr>Command = 7, Term = 1\<rparr>]
     \<and> log (nodes s 1) = [\<lparr>Command = 7, Term = 1\<rparr>])"
  by (simp_all add: ex_commit_def p3_eval)

text \<open>
  C3: election safety of the part3 cluster. In every run of timely events from freshly created
  servers, two servers that have both been leader in a term are the same server.
\<close>

theorem part3_election_safety:
  assumes "good_config ns" "part3_timely ns evs" "part3_run ns evs = Some (Inr s)"
    and "(t, m) \<in> elected s" "(t, n) \<in> elected s"
  shows "m = n"
  using p3c.one_leader_per_term [OF timely_run_reach [OF timely_reach.start assms(2,3)] assms(1,4,5)] .

theorem part3_election_safety_witness:
  "\<exists>s. part3_run [0, 1, 2] ex_commit = Some (Inr s) \<and> (1, 0) \<in> elected s \<and> (1, 1) \<notin> elected s"
proof -
  obtain s where s: "part3_run [0, 1, 2] ex_commit = Some (Inr s)" "(1, 0) \<in> elected s"
    using ends_inD [OF ex_commit_run(2)] by auto
  then show ?thesis
    using part3_election_safety [OF _ ex_commit_run(1) s, of 1] by (auto simp: good_config_def)
qed

text \<open>
  C4: the log matching property of the part3 cluster. In every run of timely events, if the logs of
  two servers have entries of the same term at an index, the logs agree up to that index, commands
  included.
\<close>

theorem part3_log_matching:
  assumes "good_config ns" "part3_timely ns evs" "part3_run ns evs = Some (Inr s)"
    and "i < length (log (nodes s m))" "i < length (log (nodes s n))"
    and "Term (log (nodes s m) ! i) = Term (log (nodes s n) ! i)"
  shows "take (Suc i) (log (nodes s m)) = take (Suc i) (log (nodes s n))"
  using p3c.logs_match [OF timely_run_reach [OF timely_reach.start assms(2,3)] assms(1), of i m n] assms(4-6)
  by simp

theorem part3_log_matching_witness:
  "\<exists>s. part3_run [0, 1, 2] ex_commit = Some (Inr s) \<and> 0 < length (log (nodes s 0))
     \<and> take (Suc 0) (log (nodes s 0)) = take (Suc 0) (log (nodes s 1))"
proof -
  obtain s where s: "part3_run [0, 1, 2] ex_commit = Some (Inr s)"
      "log (nodes s 0) = [\<lparr>Command = 7, Term = 1\<rparr>]" "log (nodes s 1) = [\<lparr>Command = 7, Term = 1\<rparr>]"
    using ends_inD [OF ex_commit_run(3)] by auto
  have "take (Suc 0) (log (nodes s 0)) = take (Suc 0) (log (nodes s 1))"
    by (rule part3_log_matching [OF _ ex_commit_run(1) s(1)]) (simp_all add: s good_config_def)
  then show ?thesis using s by auto
qed

section \<open>Where the timely runs end\<close>

text \<open>
  Server 0 gets the vote of server 1 in term 1, but the reply is delayed; server 0 times out and
  starts the election of term 2; server 1 wins term 2 with the vote of server 2; now the old reply
  arrives and completes the count of the old election.
\<close>

definition ex_stale_vote :: "int event list" where
  "ex_stale_vote = [EReady 0 0, ETimerNew 3 150, ETimerTick 3 200, EVoteSend 4, EVoteDeliver 4 201,
     ETimerNew 6 150, ETimerTick 6 400, ETimerNew 7 150, ETimerTick 7 500,
     EVoteSend 12, EVoteDeliver 12 501, EVoteReply 12 502, EVoteReply 4 503]"


text \<open>
  Server 0 wins term 1 with the vote of server 1 and restarts; its term and its vote for itself were
  never stored, so it votes for server 2 in term 1 as well.
\<close>

definition ex_lost_vote :: "int event list" where
  "ex_lost_vote = [EReady 0 0, ETimerNew 3 150, ETimerTick 3 200, EVoteSend 4, EVoteDeliver 4 201, EVoteReply 4 202,
     ERestart 0, EReady 2 300, ETimerNew 10 150, ETimerTick 10 500, EVoteSend 11, EVoteDeliver 11 501,
     EVoteReply 11 502]"


text \<open>
  Server 0 leads term 1, accepts two commands nobody receives, steps down and is elected again in
  term 3, so that its next index for server 1 is 2. Before its heartbeat goroutine for server 1 reads
  the log, server 2 wins term 4 and replaces the log of server 0 by its single entry.
\<close>

definition ex_short_log :: "int event list" where
  "ex_short_log = [EReady 0 0, ETimerNew 3 150, ETimerTick 3 200, EVoteSend 4, EVoteDeliver 4 201, EVoteReply 4 202,
     ESubmit 0 7, ESubmit 0 8, EReady 2 210, ETimerNew 11 150, ETimerTick 11 400, ETimerNew 14 150, ETimerTick 14 600,
     EVoteSend 15, EVoteDeliver 15 601, ETimerNew 18 150, ETimerTick 18 800, EVoteSend 19, EVoteDeliver 19 801,
     EVoteReply 19 802, ELoopSend 23, ETimerNew 17 150, ETimerTick 17 900, ETimerNew 28 150, ETimerTick 28 1100,
     EVoteSend 30, EVoteDeliver 30 1101, EVoteReply 30 1102, ESubmit 2 9, ELoopSend 33, ESend 35,
     ESendDeliver 35 1103, ESend 24]"

text \<open>
  A heartbeat goroutine that runs after its server has stepped down indexes the log with the
  next index of its former leadership; in this run the log has become shorter and the server
  panics, although every event of the run is timely.
\<close>

theorem part3_stale_heartbeat_panics:
  "part3_timely [0, 1, 2] ex_short_log \<and> part3_run [0, 1, 2] ex_short_log = Some (Inl IndexOutOfRange)"
  by (simp add: ex_short_log_def p3_eval)

end
