(* ===== verification/Raft3Facts.thy ===== *)
theory Raft3Facts
  imports Raft3Net
begin

text \<open>
  What the single operations of \<^verbatim>\<open>src/raft/part3/raft.go\<close> compute, on every branch: persistence, the two
  RPC handlers, conflict reports, the leader's commit rule and the stream of committed entries.
\<close>

section \<open>Persistence\<close>

lemma persisted_data:
  "ms_HasData (storage (persistToStorage cm))"
  "ms_Get (storage (persistToStorage cm)) ''currentTerm'' = Some (GobInt (currentTerm cm))"
  "ms_Get (storage (persistToStorage cm)) ''votedFor'' = Some (GobInt (votedFor cm))"
  "ms_Get (storage (persistToStorage cm)) ''log'' = Some (GobLog (log cm))"
  by (simp_all add: persistToStorage_def Let_def ms.hasData_set ms.set3_get)

text \<open>
  Restart round trip. A consensus module created on the storage that \<^verbatim>\<open>persistToStorage\<close> wrote is
  the module created on an empty storage, except that it has the term, the vote and the log that
  were stored.
\<close>

theorem part3_persist_restore:
  "NewConsensusModule i ps (storage (persistToStorage cm)) =
     Inr ((part3_new i ps)\<lparr>storage := storage (persistToStorage cm), currentTerm := currentTerm cm,
                           votedFor := votedFor cm, log := log cm\<rparr>)"
  by (simp add: NewConsensusModule_def restoreFromStorage_def persisted_data part3_new_def)

text \<open>\<open>durable cm\<close>: a restart on the current storage gives back the current term, vote and log.\<close>

definition durable :: "'c ConsensusModule \<Rightarrow> bool" where
  "durable cm \<longleftrightarrow>
     (case NewConsensusModule (cm_id cm) (peerIds cm) (storage cm) of
        Inl _ \<Rightarrow> False
      | Inr c \<Rightarrow> currentTerm c = currentTerm cm \<and> votedFor c = votedFor cm \<and> log c = log cm)"

lemma durable_persist: "durable (persistToStorage cm)"
  by (simp add: durable_def NewConsensusModule_def restoreFromStorage_def persisted_data raft_frame)

section \<open>RequestVote\<close>

text \<open>The candidate's log is at least as up to date: a later last term, or the same and no shorter.\<close>

definition up_to_date :: "RequestVoteArgs \<Rightarrow> 'c ConsensusModule \<Rightarrow> bool" where
  "up_to_date args cm \<longleftrightarrow>
     (let t = (if log cm = [] then -1 else Term (last (log cm)))
      in rv_LastLogTerm args > t
         \<or> rv_LastLogTerm args = t \<and> rv_LastLogIndex args \<ge> int (length (log cm)) - 1)"

lemma lastLog_up_to_date:
  "lastLogIndexAndTerm cm = (i, t) \<Longrightarrow>
     up_to_date args cm \<longleftrightarrow> rv_LastLogTerm args > t \<or> (rv_LastLogTerm args = t \<and> rv_LastLogIndex args \<ge> i)"
  by (cases "log cm" rule: rev_cases) (auto simp: up_to_date_def lastLogIndexAndTerm_def)

text \<open>
  C8: a live server grants its vote exactly when the request is not from an older term, the server
  has not voted for another candidate in that term, and the candidate's log is at least as up to
  date as its own; the reply carries the larger of the two terms; the new term and vote are durable
  before the reply leaves; the log and the commit index are untouched.
\<close>

theorem part3_RequestVote_spec:
  assumes "state cm \<noteq> Dead" "RequestVote now args cm = (cm', reply, es)"
  shows "(rvr_VoteGranted reply \<longleftrightarrow>
            (rv_Term args > currentTerm cm
             \<or> rv_Term args = currentTerm cm \<and> (votedFor cm = -1 \<or> votedFor cm = rv_CandidateId args))
            \<and> up_to_date args cm)
         \<and> rvr_Term reply = max (currentTerm cm) (rv_Term args)
         \<and> currentTerm cm' = rvr_Term reply
         \<and> votedFor cm' = (if rvr_VoteGranted reply then rv_CandidateId args
                            else if rv_Term args > currentTerm cm then -1 else votedFor cm)
         \<and> state cm' = (if rv_Term args > currentTerm cm then Follower else state cm)
         \<and> (rvr_VoteGranted reply \<longrightarrow> electionResetEvent cm' = now)
         \<and> durable cm' \<and> log cm' = log cm \<and> commitIndex cm' = commitIndex cm"
proof -
  obtain i t where lt: "lastLogIndexAndTerm cm = (i, t)" by fastforce
  note defs = RequestVote_def lt becomeFollower_def Let_def raft_frame durable_persist lastLog_up_to_date [OF lt]
  show ?thesis
    using assms by (intro conjI) (auto simp: defs split: if_splits)
qed

definition ex_vote :: RequestVoteArgs where
  "ex_vote = \<lparr>rv_Term = 3, rv_CandidateId = 2, rv_LastLogIndex = 0, rv_LastLogTerm = 1\<rparr>"

theorem part3_RequestVote_spec_witness:
  "rvr_VoteGranted (fst (snd (RequestVote 9 ex_vote (part3_new 0 [1, 2] :: int ConsensusModule))))"
proof -
  let ?cm = "part3_new 0 [1, 2] :: int ConsensusModule"
  obtain cm' reply es where r: "RequestVote 9 ex_vote ?cm = (cm', reply, es)" by (metis prod_cases3)
  have "rvr_VoteGranted reply"
    using part3_RequestVote_spec [OF _ r] by (simp add: part3_new_def ex_vote_def up_to_date_def)
  then show ?thesis using r by simp
qed

section \<open>AppendEntries\<close>

text \<open>The merge of a follower's entries with the received ones, as one would specify it: keep the
  entries whose terms agree, and from the first disagreement on take what was received.\<close>

fun merge_entries :: "'c LogEntry list \<Rightarrow> 'c LogEntry list \<Rightarrow> 'c LogEntry list" where
  "merge_entries old [] = old"
| "merge_entries [] (n # ns) = n # ns"
| "merge_entries (e # old) (n # ns) = (if Term e = Term n then e # merge_entries old ns else n # ns)"

lemma merge_Nil_left [simp]: "merge_entries [] ns = ns"
  by (cases ns) simp_all

lemma merge_entries_nth:
  "j < length ns \<Longrightarrow> j < length (merge_entries old ns) \<and> Term (merge_entries old ns ! j) = Term (ns ! j)"
  by (induction old ns arbitrary: j rule: merge_entries.induct) (auto simp: less_Suc_eq_0_disj)

lemma merge_entries_same:
  "length ns \<le> length old \<Longrightarrow> (\<And>j. j < length ns \<Longrightarrow> Term (old ! j) = Term (ns ! j)) \<Longrightarrow> merge_entries old ns = old"
proof (induction old ns rule: merge_entries.induct)
  case (3 e old n ns)
  from "3.prems"(2) [of 0] have "Term e = Term n" by simp
  moreover have "Term (old ! j) = Term (ns ! j)" if "j < length ns" for j
    using "3.prems"(2) [of "Suc j"] that by simp
  ultimately show ?case using "3.IH" "3.prems"(1) by simp
qed simp_all

lemma insert_loop_merge:
  assumes "insert_loop lg es li ni = (li', ni')" "li \<le> length lg"
  shows "(if ni' < length es then take li' lg @ drop ni' es else lg)
           = take li lg @ merge_entries (drop li lg) (drop ni es)"
  using assms
proof (induction lg es li ni rule: insert_loop.induct)
  case (1 lg es li ni)
  show ?case
  proof (cases "li \<ge> length lg \<or> ni \<ge> length es")
    case True
    then have "li' = li \<and> ni' = ni" using "1.prems"(1) by (simp add: insert_loop.simps [of lg es li ni])
    then show ?thesis using True "1.prems"(2) by (cases "drop ni es") auto
  next
    case False
    then have d: "drop li lg = lg ! li # drop (Suc li) lg" "drop ni es = es ! ni # drop (Suc ni) es"
      by (simp_all add: Cons_nth_drop_Suc)
    show ?thesis
    proof (cases "Term (lg ! li) = Term (es ! ni)")
      case True
      then have "insert_loop lg es (Suc li) (Suc ni) = (li', ni')"
        using "1.prems"(1) False by (simp add: insert_loop.simps [of lg es li ni])
      then show ?thesis
        using "1.IH" False True d by (simp add: take_Suc_conv_app_nth)
    next
      case False2: False
      then have "li' = li \<and> ni' = ni" using False "1.prems"(1) by (simp add: insert_loop.simps [of lg es li ni])
      then show ?thesis using False False2 d by simp
    qed
  qed
qed

lemma append_accept_merge:
  assumes "-1 \<le> ae_PrevLogIndex args" "ae_PrevLogIndex args < int (length (log cm))"
  defines "m \<equiv> nat (ae_PrevLogIndex args + 1)"
  shows "log (append_accept args cm) = take m (log cm) @ merge_entries (drop m (log cm)) (ae_Entries args)"
proof -
  obtain li ni where l: "insert_loop (log cm) (ae_Entries args) m 0 = (li, ni)" by fastforce
  have "m \<le> length (log cm)" using assms by (simp add: nat_le_iff)
  from insert_loop_merge [OF l this] show ?thesis
    using l by (auto simp: append_accept_def m_def)
qed

lemma append_accept_commit:
  "commitIndex (append_accept args cm) =
     (if ae_LeaderCommit args > commitIndex cm
      then min (ae_LeaderCommit args) (int (length (log (append_accept args cm))) - 1) else commitIndex cm)"
  by (simp add: append_accept_def Let_def split: prod.splits)

text \<open>\<open>prev_ok\<close>: the entry before the received ones is in the log, with the right term.\<close>

definition prev_ok :: "'c AppendEntriesArgs \<Rightarrow> 'c LogEntry list \<Rightarrow> bool" where
  "prev_ok args lg \<longleftrightarrow> ae_PrevLogIndex args = -1
     \<or> (0 \<le> ae_PrevLogIndex args \<and> ae_PrevLogIndex args < int (length lg)
        \<and> Term (lg ! nat (ae_PrevLogIndex args)) = ae_PrevLogTerm args)"

lemma prev_matches_ok:
  "-1 \<le> ae_PrevLogIndex args \<Longrightarrow>
     prev_matches lg (ae_PrevLogIndex args) (ae_PrevLogTerm args) = Inr (prev_ok args lg)"
  by (auto simp: prev_matches_Inr prev_ok_def)

text \<open>The two outcomes of a call on a live server.\<close>

lemma AppendEntries_accepts:
  assumes "state cm \<noteq> Dead" "-1 \<le> ae_PrevLogIndex args"
    and "currentTerm cm \<le> ae_Term args" "prev_ok args (log cm)"
  defines "m \<equiv> nat (ae_PrevLogIndex args + 1)"
  shows "\<exists>cm' reply es. AppendEntries now args cm = Inr (cm', reply, es)
     \<and> aer_Success reply \<and> aer_Term reply = ae_Term args \<and> currentTerm cm' = aer_Term reply
     \<and> log cm' = take m (log cm) @ merge_entries (drop m (log cm)) (ae_Entries args)
     \<and> commitIndex cm' = (if ae_LeaderCommit args > commitIndex cm
                         then min (ae_LeaderCommit args) (int (length (log cm')) - 1) else commitIndex cm)
     \<and> state cm' = Follower \<and> durable cm'"
proof -
  have acc: "log (append_accept args c) = take m (log cm) @ merge_entries (drop m (log cm)) (ae_Entries args)"
    if "log c = log cm" for c
    using append_accept_merge [OF assms(2), of c] assms(4) that by (auto simp: prev_ok_def m_def)
  show ?thesis
    using assms(1,3,4) prev_matches_ok [OF assms(2), of "log cm"] acc
    by (cases "state cm"; cases "ae_Term args > currentTerm cm")
      (auto simp: AppendEntries_def becomeFollower_def Let_def raft_frame durable_persist append_accept_commit)
qed

lemma AppendEntries_rejects:
  assumes "state cm \<noteq> Dead" "-1 \<le> ae_PrevLogIndex args"
    and "\<not> (currentTerm cm \<le> ae_Term args \<and> prev_ok args (log cm))"
  shows "\<exists>cm' reply es. AppendEntries now args cm = Inr (cm', reply, es)
     \<and> \<not> aer_Success reply \<and> aer_Term reply = max (currentTerm cm) (ae_Term args) \<and> currentTerm cm' = aer_Term reply
     \<and> log cm' = log cm \<and> commitIndex cm' = commitIndex cm
     \<and> state cm' = (if currentTerm cm \<le> ae_Term args then Follower else state cm) \<and> durable cm'"
  using assms(1,3) prev_matches_ok [OF assms(2), of "log cm"]
  by (cases "state cm"; cases "ae_Term args > currentTerm cm"; cases "ae_Term args = currentTerm cm")
    (auto simp: AppendEntries_def becomeFollower_def Let_def raft_frame durable_persist split: prod.splits)

text \<open>
  C9: \<^verbatim>\<open>AppendEntries\<close> on a live server, for every call a leader can send. The handler returns; it
  succeeds exactly when the term is not older and the log has the entry before the received ones; on
  success the log is the prefix followed by the merge, whatever the in-place insertion loop does
  internally; on failure the log and the commit index stay; the commit index follows the leader's
  as far as the log reaches; the reply has the newer term; and everything is durable.
\<close>

theorem part3_AppendEntries_spec:
  assumes "state cm \<noteq> Dead" "-1 \<le> ae_PrevLogIndex args"
  defines "ok \<equiv> currentTerm cm \<le> ae_Term args \<and> prev_ok args (log cm)"
    and "m \<equiv> nat (ae_PrevLogIndex args + 1)"
  shows "\<exists>cm' reply es. AppendEntries now args cm = Inr (cm', reply, es)
     \<and> (aer_Success reply \<longleftrightarrow> ok)
     \<and> aer_Term reply = max (currentTerm cm) (ae_Term args) \<and> currentTerm cm' = aer_Term reply
     \<and> log cm' = (if ok then take m (log cm) @ merge_entries (drop m (log cm)) (ae_Entries args) else log cm)
     \<and> commitIndex cm' = (if ok \<and> ae_LeaderCommit args > commitIndex cm
                         then min (ae_LeaderCommit args) (int (length (log cm')) - 1) else commitIndex cm)
     \<and> state cm' = (if currentTerm cm \<le> ae_Term args then Follower else state cm)
     \<and> durable cm'"
proof (cases ok)
  case True
  then have "max (currentTerm cm) (ae_Term args) = ae_Term args" by (simp add: ok_def)
  then show ?thesis
    using True AppendEntries_accepts [OF assms(1,2), of now] by (simp add: ok_def m_def)
next
  case False
  then show ?thesis
    using AppendEntries_rejects [OF assms(1,2), of now]
    by (cases "currentTerm cm \<le> ae_Term args") (simp_all add: ok_def)
qed

definition ex_follower :: "int ConsensusModule" where
  "ex_follower = (part3_new 0 [1, 2])\<lparr>currentTerm := 4,
     log := [\<lparr>Command = 10, Term = 1\<rparr>, \<lparr>Command = 11, Term = 1\<rparr>, \<lparr>Command = 12, Term = 2\<rparr>]\<rparr>"

definition ex_append :: "int AppendEntriesArgs" where
  "ex_append = \<lparr>ae_Term = 4, ae_LeaderId = 1, ae_PrevLogIndex = 0, ae_PrevLogTerm = 1,
     ae_Entries = [\<lparr>Command = 11, Term = 1\<rparr>, \<lparr>Command = 20, Term = 3\<rparr>], ae_LeaderCommit = 1\<rparr>"

theorem part3_AppendEntries_spec_witness:
  "\<exists>cm' reply es. AppendEntries 9 ex_append ex_follower = Inr (cm', reply, es)
     \<and> map Command (log cm') = [10, 11, 20] \<and> commitIndex cm' = 1"
  using part3_AppendEntries_spec [of ex_follower ex_append 9]
  by (auto simp: ex_follower_def ex_append_def part3_new_def prev_ok_def)

lemma merge_entries_idem: "merge_entries (merge_entries old ns) ns = merge_entries old ns"
  by (induction old ns rule: merge_entries.induct) (auto intro: merge_entries_same)

text \<open>
  \<^verbatim>\<open>AppendEntries\<close> is idempotent. A call that succeeded succeeds again when it is delivered again
  before the log changes, and leaves the log, the term and the commit index as they are.
\<close>

theorem part3_AppendEntries_idempotent:
  assumes first: "AppendEntries now args cm = Inr (cm1, reply1, es1)" "aer_Success reply1"
    and live: "state cm \<noteq> Dead" and prev: "-1 \<le> ae_PrevLogIndex args"
  shows "\<exists>cm2 reply2 es2. AppendEntries later args cm1 = Inr (cm2, reply2, es2) \<and> aer_Success reply2
     \<and> log cm2 = log cm1 \<and> currentTerm cm2 = currentTerm cm1 \<and> commitIndex cm2 = commitIndex cm1
     \<and> es2 = []"
proof -
  let ?m = "nat (ae_PrevLogIndex args + 1)"
  have ok: "ae_Term args \<ge> currentTerm cm" "prev_ok args (log cm)" "currentTerm cm1 = ae_Term args" "state cm1 = Follower"
    and lg1: "log cm1 = take ?m (log cm) @ merge_entries (drop ?m (log cm)) (ae_Entries args)"
    and ci1: "commitIndex cm1 = (if ae_LeaderCommit args > commitIndex cm
                         then min (ae_LeaderCommit args) (int (length (log cm1)) - 1) else commitIndex cm)"
    using AppendEntries_accepts [OF live prev, of now] AppendEntries_rejects [OF live prev, of now] first
    by (cases "currentTerm cm \<le> ae_Term args \<and> prev_ok args (log cm)"; auto)+
  have m: "?m \<le> length (log cm)" using ok(2) by (auto simp: prev_ok_def nat_le_iff)
  then have split1: "take ?m (log cm1) = take ?m (log cm)"
    "drop ?m (log cm1) = merge_entries (drop ?m (log cm)) (ae_Entries args)"
    by (simp_all add: lg1)
  have p1: "prev_ok args (log cm1)"
  proof (cases "ae_PrevLogIndex args = -1")
    case False
    then have "nat (ae_PrevLogIndex args) < ?m" "nat (ae_PrevLogIndex args) < length (log cm)"
      using ok(2) by (auto simp: prev_ok_def)
    then have "log cm1 ! nat (ae_PrevLogIndex args) = log cm ! nat (ae_PrevLogIndex args)"
      using m by (simp add: lg1 nth_append)
    then show ?thesis using ok(2) m False by (auto simp: prev_ok_def lg1)
  qed (simp add: prev_ok_def)
  have "log (append_accept args c) = log cm1" if "log c = log cm1" for c
    using append_accept_merge [OF prev, of c] p1 that split1
    by (auto simp: prev_ok_def merge_entries_idem append_take_drop_id simp flip: lg1)
  then show ?thesis
    using ok p1 prev_matches_ok [OF prev, of "log cm1"] ci1
    by (auto simp: AppendEntries_def Let_def raft_frame append_accept_commit)
qed

theorem part3_AppendEntries_idempotent_witness:
  "\<exists>cm1 reply1 es1 cm2 reply2. AppendEntries 9 ex_append ex_follower = Inr (cm1, reply1, es1)
     \<and> AppendEntries 12 ex_append cm1 = Inr (cm2, reply2, []) \<and> log cm2 = log cm1"
proof -
  have live: "state ex_follower \<noteq> Dead" "-1 \<le> ae_PrevLogIndex ex_append"
    by (simp_all add: ex_follower_def ex_append_def part3_new_def)
  have "currentTerm ex_follower \<le> ae_Term ex_append" "prev_ok ex_append (log ex_follower)"
    by (simp_all add: ex_follower_def ex_append_def part3_new_def prev_ok_def)
  then obtain cm1 reply1 es1 where "AppendEntries 9 ex_append ex_follower = Inr (cm1, reply1, es1)" "aer_Success reply1"
    using AppendEntries_accepts [OF live, of 9] by blast
  then show ?thesis
    using part3_AppendEntries_idempotent [OF _ _ live, of 9 cm1 reply1 es1 12] by auto
qed

section \<open>Conflict reports\<close>

lemma conflict_loop_spec:
  "conflict_loop lg t i \<le> i \<and> (\<forall>j. conflict_loop lg t i \<le> j \<longrightarrow> j < i \<longrightarrow> Term (lg ! j) = t)
     \<and> (0 < conflict_loop lg t i \<longrightarrow> Term (lg ! (conflict_loop lg t i - 1)) \<noteq> t)"
  by (induction i) (auto simp: less_Suc_eq)

lemma last_index_loop_spec:
  "last_index_loop lg t i = (if \<exists>j<i. Term (lg ! j) = t then int (Max {j. j < i \<and> Term (lg ! j) = t}) else -1)"
proof (induction i)
  case (Suc i)
  show ?case
  proof (cases "Term (lg ! i) = t")
    case True
    have "Max {j. j < Suc i \<and> Term (lg ! j) = t} = i" by (rule Max_eqI) (use True in auto)
    then show ?thesis using True by auto
  next
    case False
    then have "{j. j < Suc i \<and> Term (lg ! j) = t} = {j. j < i \<and> Term (lg ! j) = t}" by (auto simp: less_Suc_eq)
    then show ?thesis using Suc False by (auto simp: less_Suc_eq)
  qed
qed simp

text \<open>
  The conflict report of a rejected call of the current term. If the log is too short, the
  report is its length with no term. Otherwise it is the term \<open>t\<close> of the entry at the previous index
  and the first index of the block of entries of term \<open>t\<close> that ends there; the reported index never
  lies beyond the previous index, so a leader that adopts it as its next index moves back.
\<close>

theorem part3_conflict_report:
  assumes "state cm \<noteq> Dead" "currentTerm cm \<le> ae_Term args" "0 \<le> ae_PrevLogIndex args"
    and "AppendEntries now args cm = Inr (cm', reply, es)" "\<not> aer_Success reply"
  shows "if int (length (log cm)) \<le> ae_PrevLogIndex args
         then aer_ConflictIndex reply = int (length (log cm)) \<and> aer_ConflictTerm reply = -1
         else 0 \<le> aer_ConflictIndex reply \<and> aer_ConflictIndex reply \<le> ae_PrevLogIndex args
           \<and> (\<forall>j. aer_ConflictIndex reply \<le> int j \<and> int j \<le> ae_PrevLogIndex args
                  \<longrightarrow> Term (log cm ! j) = aer_ConflictTerm reply)
           \<and> (0 < aer_ConflictIndex reply
                  \<longrightarrow> Term (log cm ! nat (aer_ConflictIndex reply - 1)) \<noteq> aer_ConflictTerm reply)
           \<and> aer_ConflictTerm reply \<noteq> ae_PrevLogTerm args"
proof -
  let ?p = "ae_PrevLogIndex args"
  have "\<not> prev_ok args (log cm)"
    using AppendEntries_accepts [of cm args now] assms by fastforce
  then have npm: "prev_matches (log cm) ?p (ae_PrevLogTerm args) = Inr False"
    using prev_matches_ok [of args "log cm"] assms(3) by simp
  obtain ci ct where ct: "append_conflict (log cm) ?p = (ci, ct)" by fastforce
  have rep: "(aer_ConflictIndex reply, aer_ConflictTerm reply) = append_conflict (log cm) ?p"
    using assms(1,2,4) npm ct
    by (cases "ae_Term args > currentTerm cm"; cases "state cm = Follower")
      (auto simp: AppendEntries_def becomeFollower_def)
  show ?thesis
  proof (cases "int (length (log cm)) \<le> ?p")
    case True
    then show ?thesis using rep by (simp add: append_conflict_def)
  next
    case False
    define t where "t = Term (log cm ! nat ?p)"
    define c where "c = conflict_loop (log cm) t (nat ?p)"
    have r: "aer_ConflictIndex reply = int c" "aer_ConflictTerm reply = t"
      using rep False by (simp_all add: append_conflict_def Let_def t_def c_def)
    have spec: "c \<le> nat ?p" "\<And>j. c \<le> j \<Longrightarrow> j < nat ?p \<Longrightarrow> Term (log cm ! j) = t"
      "0 < c \<Longrightarrow> Term (log cm ! (c - 1)) \<noteq> t"
      using conflict_loop_spec [of "log cm" t "nat ?p"] unfolding c_def by blast+
    have eq: "Term (log cm ! j) = t" if j: "c \<le> j" "int j \<le> ?p" for j
    proof (cases "j = nat ?p")
      case False
      then have "j < nat ?p" using j(2) by linarith
      then show ?thesis using spec(2) j(1) by blast
    qed (simp add: t_def)
    have "t \<noteq> ae_PrevLogTerm args" using npm False assms(3) unfolding t_def by (auto simp: prev_matches_Inr)
    moreover have "int c \<le> ?p" using spec(1) assms(3) by linarith
    moreover have "0 < c \<longrightarrow> Term (log cm ! nat (int c - 1)) \<noteq> t"
      using spec(3) by (simp add: nat_diff_distrib)
    ultimately show ?thesis using False eq r by auto
  qed
qed

theorem part3_conflict_report_witness:
  "\<exists>cm' reply es. AppendEntries 9 (ex_append\<lparr>ae_PrevLogIndex := 1, ae_PrevLogTerm := 3\<rparr>) ex_follower = Inr (cm', reply, es)
     \<and> 0 \<le> aer_ConflictIndex reply \<and> aer_ConflictIndex reply \<le> 1 \<and> Term (log ex_follower ! 1) = aer_ConflictTerm reply"
proof -
  let ?a = "ex_append\<lparr>ae_PrevLogIndex := 1, ae_PrevLogTerm := 3\<rparr>"
  note defs = ex_follower_def ex_append_def part3_new_def prev_ok_def
  obtain cm' reply es where r: "AppendEntries 9 ?a ex_follower = Inr (cm', reply, es)" "\<not> aer_Success reply"
    using AppendEntries_rejects [of ex_follower ?a 9] by (auto simp: defs)
  from part3_conflict_report [OF _ _ _ r]
  have c: "0 \<le> aer_ConflictIndex reply" "aer_ConflictIndex reply \<le> 1"
    "\<And>j. aer_ConflictIndex reply \<le> int j \<Longrightarrow> int j \<le> 1 \<Longrightarrow> Term (log ex_follower ! j) = aer_ConflictTerm reply"
    by (simp_all add: defs)
  then have "Term (log ex_follower ! 1) = aer_ConflictTerm reply" by simp
  then show ?thesis using r(1) c(1,2) by blast
qed

section \<open>The leader's commit rule\<close>

lemma advance_commit_fold:
  "fold (\<lambda>i c. if Term (log c ! i) = currentTerm c \<and> majority (matchCount c (int i)) (peerIds c)
                then c\<lparr>commitIndex := int i\<rparr> else c) is cm
   = (case filter (\<lambda>i. Term (log cm ! i) = currentTerm cm \<and> majority (matchCount cm (int i)) (peerIds cm)) is of
        [] \<Rightarrow> cm
      | j # js \<Rightarrow> cm\<lparr>commitIndex := int (last (j # js))\<rparr>)"
  by (induction "is" arbitrary: cm) (auto simp: matchCount_def split: list.splits)

lemma sorted_le_last: "sorted xs \<Longrightarrow> y \<in> set xs \<Longrightarrow> y \<le> last xs"
  by (induction xs) (auto split: if_splits)

lemma last_filter_Max:
  assumes "sorted xs" "filter P xs \<noteq> []"
  shows "last (filter P xs) = Max {x \<in> set xs. P x}"
proof (rule sym, rule Max_eqI)
  show "last (filter P xs) \<in> {x \<in> set xs. P x}" using last_in_set [OF assms(2)] by auto
  show "y \<le> last (filter P xs)" if "y \<in> {x \<in> set xs. P x}" for y
    by (rule sorted_le_last) (use that assms(1) in \<open>auto intro: sorted_wrt_filter\<close>)
qed simp

text \<open>The indices above the commit index whose entries are of the current term and held by a majority
  of the cluster, as far as the leader knows.\<close>

definition committable :: "'c ConsensusModule \<Rightarrow> nat set" where
  "committable cm = {i. commitIndex cm < int i \<and> i < length (log cm) \<and> Term (log cm ! i) = currentTerm cm
     \<and> 2 * (1 + card {p \<in> set (peerIds cm). int i \<le> go_get (matchIndex cm) p}) > 1 + length (peerIds cm)}"

lemma matchCount_card:
  "distinct (peerIds cm) \<Longrightarrow> matchCount cm i = 1 + int (card {p \<in> set (peerIds cm). i \<le> go_get (matchIndex cm) p})"
  by (simp add: matchCount_def distinct_length_filter Int_def conj_commute)

text \<open>
  C10: the commit rule. After a successful reply the leader's commit index becomes the greatest
  index above it that holds an entry of the leader's own term known to be on a majority of the
  servers, and stays when there is none; nothing else changes.
\<close>

theorem part3_advance_commit:
  assumes "distinct (peerIds cm)" "-1 \<le> commitIndex cm"
  shows "advance_commit cm =
     cm\<lparr>commitIndex := if committable cm = {} then commitIndex cm else int (Max (committable cm))\<rparr>"
proof -
  let ?P = "\<lambda>i. Term (log cm ! i) = currentTerm cm \<and> majority (matchCount cm (int i)) (peerIds cm)"
  let ?is = "[nat (commitIndex cm + 1) ..< length (log cm)]"
  have C: "committable cm = {i \<in> set ?is. ?P i}"
    using assms by (auto simp: committable_def majority_def matchCount_card nat_le_iff)
  show ?thesis
  proof (cases "filter ?P ?is")
    case Nil
    then have "committable cm = {}" unfolding C by (auto simp: filter_empty_conv)
    then show ?thesis unfolding advance_commit_def advance_commit_fold Nil by simp
  next
    case (Cons j js)
    then have ne: "filter ?P ?is \<noteq> []" by simp
    have "committable cm \<noteq> {}" using last_in_set [OF ne] unfolding C by auto
    moreover have "last (j # js) = Max (committable cm)"
      using last_filter_Max [OF _ ne] unfolding C Cons [symmetric] by simp
    ultimately show ?thesis unfolding advance_commit_def advance_commit_fold Cons by simp
  qed
qed

definition ex_leader :: "int ConsensusModule" where
  "ex_leader = (part3_new 0 [1, 2])\<lparr>currentTerm := 2, state := Leader, matchIndex := [1 \<mapsto> 2, 2 \<mapsto> 0],
     log := [\<lparr>Command = 10, Term = 1\<rparr>, \<lparr>Command = 11, Term = 1\<rparr>, \<lparr>Command = 12, Term = 2\<rparr>, \<lparr>Command = 13, Term = 2\<rparr>]\<rparr>"

theorem part3_advance_commit_witness:
  "commitIndex (advance_commit ex_leader) = 2"
proof -
  have C: "committable ex_leader = {2}"
    by (auto simp: committable_def ex_leader_def part3_new_def go_get_def nth_Cons' Collect_conv_if
        less_Suc_eq numeral_eq_Suc)
  show ?thesis
    using part3_advance_commit [of ex_leader] unfolding C by (simp add: ex_leader_def part3_new_def)
qed

section \<open>The stream of committed entries\<close>

lemma p3_lastApplied:
  "cm_ready now c = (c', es) \<Longrightarrow> lastApplied c' = lastApplied c"
  "RequestVote now a c = (c', r, es) \<Longrightarrow> lastApplied c' = lastApplied c"
  "AppendEntries now b c = Inr (c', q, es) \<Longrightarrow> lastApplied c' = lastApplied c"
  "runElectionTimer now t d c = (goes_on, c', es) \<Longrightarrow> lastApplied c' = lastApplied c"
  "voteReply now t v rep c = (c', v', es) \<Longrightarrow> lastApplied c' = lastApplied c"
  "aeReply now t p ni k ar c = (c', es) \<Longrightarrow> lastApplied c' = lastApplied c"
  "Submit cmd c = (c', i, es) \<Longrightarrow> lastApplied c' = lastApplied c"
  "lastApplied (Stop c) = lastApplied c"
proof -
  show "voteReply now t v rep c = (c', v', es) \<Longrightarrow> lastApplied c' = lastApplied c"
    using startLeader_frame(8) [of c]
    by (auto simp: voteReply_def becomeFollower_def Let_def split: if_splits prod.splits)
qed (auto simp: p3_ops AppendEntries_def aeReply_def Let_def raft_frame go_bind_eq_Inr
      split: if_splits prod.splits)

definition stream_ok :: "int \<Rightarrow> ('c ConsensusModule, 'c) cluster \<Rightarrow> bool" where
  "stream_ok n s \<longleftrightarrow> -1 \<le> lastApplied (nodes s n)
     \<and> map ce_Index (commits s n) = map int [0 ..< nat (lastApplied (nodes s n) + 1)]"

lemma commitChanSender_stream:
  assumes "commitChanSender c = Inr (c', out)" "-1 \<le> lastApplied c"
  shows "-1 \<le> lastApplied c'"
    and "map int [0 ..< nat (lastApplied c + 1)] @ map ce_Index out = map int [0 ..< nat (lastApplied c' + 1)]"
proof -
  show "-1 \<le> lastApplied c'"
    using assms by (auto simp: commitChanSender_def Let_def go_bind_eq_Inr split: if_splits)
  show "map int [0 ..< nat (lastApplied c + 1)] @ map ce_Index out = map int [0 ..< nat (lastApplied c' + 1)]"
  proof (cases "commitIndex c > lastApplied c")
    case True
    let ?a = "nat (lastApplied c + 1)" and ?b = "nat (commitIndex c + 1)"
    define entries where "entries = take (?b - ?a) (drop ?a (log c))"
    have e: "length entries = ?b - ?a" "lastApplied c' = commitIndex c"
      "out = map (\<lambda>(i, e). \<lparr>ce_Command = Command e, ce_Index = lastApplied c + int i + 1, ce_Term = currentTerm c\<rparr>)
               (List.enumerate 0 entries)"
      using True assms by (auto simp: entries_def commitChanSender_def Let_def go_bind_eq_Inr go_range_Inr)
    have "map ce_Index out = map (\<lambda>i. lastApplied c + int i + 1) [0 ..< ?b - ?a]"
      using e(1) by (simp add: e(3) list_eq_iff_nth_eq nth_enumerate_eq)
    also have "\<dots> = map int [?a ..< ?b]"
      using assms(2) by (auto simp: list_eq_iff_nth_eq)
    finally show ?thesis
      using True assms(2) e(2) upt_add_eq_append [of 0 ?a "?b - ?a"] by (simp flip: map_append)
  next
    case False
    then show ?thesis using assms by (auto simp: commitChanSender_def)
  qed
qed


lemma stream_step:
  assumes step: "cstep part3_impl ev s = Some (Inr s')" and ok: "stream_ok n s" and ev: "ev \<noteq> ERestart n"
  shows "stream_ok n s'"
proof (cases "ev = ECommit n")
  case True
  then obtain c out where "commitChanSender (nodes s n) = Inr (c, out)" "nodes s' n = c" "commits s' n = commits s n @ out"
    using step by (auto simp: go_bind_eq_Inr Let_def set_node_changes split: if_splits)
  then show ?thesis using commitChanSender_stream ok by (auto simp: stream_ok_def)
next
  case False
  have "lastApplied (nodes s' n) = lastApplied (nodes s n) \<and> commits s' n = commits s n"
  proof (cases ev)
    case (EVoteDeliver g now)
    then obtain m el p t a where g: "gos s g = Some (GVoteCall m el p t a)"
      using step by (auto split: option.splits goroutine.splits)
    obtain c r es where "RequestVote now a (nodes s p) = (c, r, es)" by (metis prod_cases3)
    then show ?thesis
      using step g EVoteDeliver p3_lastApplied(2) by (auto simp: Let_def set_node_changes)
  next
    case (ESendDeliver g now)
    then show ?thesis
      using step p3_lastApplied(3)
      by (fastforce simp: go_bind_eq_Inr Let_def set_node_changes split: option.splits goroutine.splits)
  qed (use step ev False p3_lastApplied in
      \<open>auto simp: go_bind_eq_Inr Let_def set_node_changes split: option.splits goroutine.splits prod.splits if_splits\<close>)
  then show ?thesis using ok by (auto simp: stream_ok_def)
qed

lemma stream_run:
  assumes "crun part3_impl evs s0 = Some (Inr s)" "ERestart n \<notin> set evs" "stream_ok n s0"
  shows "stream_ok n s"
  using assms
proof (induction evs arbitrary: s0)
  case (Cons ev evs)
  then show ?case using stream_step by (fastforce split: option.splits sum.splits)
qed simp

lemma stream_init: "stream_ok n (cluster_init part3_new ns)"
  by (simp add: stream_ok_def cluster_init_def part3_new_def)



end
