(* ===== verification/Raft2.thy ===== *)
theory Raft2
  imports Raft3Facts
begin

text \<open>
  The consensus module of \<^verbatim>\<open>src/raft/part2/raft.go\<close>: elections and log replication, without persistence
  and without the conflict reports of \<^verbatim>\<open>part3\<close>. The loops of its \<^verbatim>\<open>AppendEntries\<close> and of its commit rule
  are those of \<^verbatim>\<open>part3\<close> word for word, so \<open>insert_loop\<close>, \<open>prev_matches\<close> and \<open>majority\<close> are shared.

  The state of a \<^verbatim>\<open>part2\<close> server, seen as a \<^verbatim>\<open>part3\<close> server with an empty storage (\<open>abs2\<close>), moves as the
  \<^verbatim>\<open>part3\<close> server does, up to the storage; that simulation carries the contracts over.
\<close>

record 'c ConsensusModule2 =
  id2 :: int
  peerIds2 :: "int list"
  newCommitReadyChan2 :: nat
  currentTerm2 :: int
  votedFor2 :: int
  log2 :: "'c LogEntry list"
  commitIndex2 :: int
  lastApplied2 :: int
  state2 :: CMState
  electionResetEvent2 :: int
  nextIndex2 :: "int \<rightharpoonup> int"
  matchIndex2 :: "int \<rightharpoonup> int"

definition NewConsensusModule2 :: "int \<Rightarrow> int list \<Rightarrow> 'c ConsensusModule2" where
  "NewConsensusModule2 i peers =
     \<lparr>id2 = i, peerIds2 = peers, newCommitReadyChan2 = 0, currentTerm2 = 0, votedFor2 = -1, log2 = [],
      commitIndex2 = -1, lastApplied2 = -1, state2 = Follower, electionResetEvent2 = 0,
      nextIndex2 = Map.empty, matchIndex2 = Map.empty\<rparr>"

definition cm_ready2 :: "int \<Rightarrow> 'c ConsensusModule2 \<Rightarrow> 'c ConsensusModule2 \<times> effect list" where
  "cm_ready2 now cm = (cm\<lparr>electionResetEvent2 := now\<rparr>, [GoRunElectionTimer])"

definition Report2 :: "'c ConsensusModule2 \<Rightarrow> int \<times> int \<times> bool" where
  "Report2 cm = (id2 cm, currentTerm2 cm, state2 cm = Leader)"

text \<open>\<^verbatim>\<open>Submit\<close> tells whether the command was accepted; nothing is triggered.\<close>

definition Submit2 :: "'c \<Rightarrow> 'c ConsensusModule2 \<Rightarrow> 'c ConsensusModule2 \<times> bool" where
  "Submit2 command cm =
     (if state2 cm = Leader
      then (cm\<lparr>log2 := log2 cm @ [\<lparr>Command = command, Term = currentTerm2 cm\<rparr>]\<rparr>, True)
      else (cm, False))"

definition Stop2 :: "'c ConsensusModule2 \<Rightarrow> 'c ConsensusModule2" where
  "Stop2 cm = cm\<lparr>state2 := Dead\<rparr>"

definition lastLogIndexAndTerm2 :: "'c ConsensusModule2 \<Rightarrow> int \<times> int" where
  "lastLogIndexAndTerm2 cm =
     (if length (log2 cm) > 0
      then let lastIndex = length (log2 cm) - 1 in (int lastIndex, Term (log2 cm ! lastIndex))
      else (-1, -1))"

definition becomeFollower2 :: "int \<Rightarrow> int \<Rightarrow> 'c ConsensusModule2 \<Rightarrow> 'c ConsensusModule2 \<times> effect list" where
  "becomeFollower2 now t cm =
     (cm\<lparr>state2 := Follower, currentTerm2 := t, votedFor2 := -1, electionResetEvent2 := now\<rparr>,
      [GoRunElectionTimer])"

definition RequestVote2 ::
  "int \<Rightarrow> RequestVoteArgs \<Rightarrow> 'c ConsensusModule2 \<Rightarrow> 'c ConsensusModule2 \<times> RequestVoteReply \<times> effect list" where
  "RequestVote2 now args cm =
     (if state2 cm = Dead then (cm, \<lparr>rvr_Term = 0, rvr_VoteGranted = False\<rparr>, [])
      else
        let (lastLogIndex, lastLogTerm) = lastLogIndexAndTerm2 cm;
            (cm1, es) = (if rv_Term args > currentTerm2 cm
                         then becomeFollower2 now (rv_Term args) cm else (cm, []));
            grant = (currentTerm2 cm1 = rv_Term args
                     \<and> (votedFor2 cm1 = -1 \<or> votedFor2 cm1 = rv_CandidateId args)
                     \<and> (rv_LastLogTerm args > lastLogTerm
                        \<or> (rv_LastLogTerm args = lastLogTerm \<and> rv_LastLogIndex args \<ge> lastLogIndex)));
            cm2 = (if grant then cm1\<lparr>votedFor2 := rv_CandidateId args, electionResetEvent2 := now\<rparr> else cm1)
        in (cm2, \<lparr>rvr_Term = currentTerm2 cm2, rvr_VoteGranted = grant\<rparr>, es))"

definition append_accept2 :: "'c AppendEntriesArgs \<Rightarrow> 'c ConsensusModule2 \<Rightarrow> 'c ConsensusModule2" where
  "append_accept2 args cm =
     (let (li, ni) = insert_loop (log2 cm) (ae_Entries args) (nat (ae_PrevLogIndex args + 1)) 0;
          cm1 = (if ni < length (ae_Entries args)
                 then cm\<lparr>log2 := take li (log2 cm) @ drop ni (ae_Entries args)\<rparr> else cm)
      in if ae_LeaderCommit args > commitIndex2 cm1
         then cm1\<lparr>commitIndex2 := min (ae_LeaderCommit args) (int (length (log2 cm1)) - 1),
                  newCommitReadyChan2 := Suc (newCommitReadyChan2 cm1)\<rparr>
         else cm1)"

text \<open>The reply of \<^verbatim>\<open>part2\<close> has no conflict fields; they are zero here.\<close>

definition AppendEntries2 ::
  "int \<Rightarrow> 'c AppendEntriesArgs \<Rightarrow> 'c ConsensusModule2
     \<Rightarrow> ('c ConsensusModule2 \<times> AppendEntriesReply \<times> effect list) go" where
  "AppendEntries2 now args cm =
     (if state2 cm = Dead
      then Inr (cm, \<lparr>aer_Term = 0, aer_Success = False, aer_ConflictIndex = 0, aer_ConflictTerm = 0\<rparr>, [])
      else
        let (cm1, es1) = (if ae_Term args > currentTerm2 cm
                          then becomeFollower2 now (ae_Term args) cm else (cm, []))
        in if ae_Term args = currentTerm2 cm1
           then
             let (cm2, es2) = (if state2 cm1 \<noteq> Follower
                               then becomeFollower2 now (ae_Term args) cm1 else (cm1, []));
                 cm3 = cm2\<lparr>electionResetEvent2 := now\<rparr>
             in go_bind (prev_matches (log2 cm3) (ae_PrevLogIndex args) (ae_PrevLogTerm args)) (\<lambda>ok.
                  let cm4 = (if ok then append_accept2 args cm3 else cm3)
                  in Inr (cm4, \<lparr>aer_Term = currentTerm2 cm4, aer_Success = ok,
                                aer_ConflictIndex = 0, aer_ConflictTerm = 0\<rparr>, es1 @ es2))
           else Inr (cm1, \<lparr>aer_Term = currentTerm2 cm1, aer_Success = False,
                           aer_ConflictIndex = 0, aer_ConflictTerm = 0\<rparr>, es1))"

definition electionTimeout2 :: "bool \<Rightarrow> nat \<Rightarrow> nat \<Rightarrow> int" where
  "electionTimeout2 forced r3 r150 = (if forced \<and> r3 = 0 then 150 else 150 + int r150)"

definition startElection2 :: "int \<Rightarrow> 'c ConsensusModule2 \<Rightarrow> 'c ConsensusModule2 \<times> effect list" where
  "startElection2 now cm =
     (let cm1 = cm\<lparr>state2 := Candidate, currentTerm2 := currentTerm2 cm + 1,
                   electionResetEvent2 := now, votedFor2 := id2 cm\<rparr>;
          savedCurrentTerm = currentTerm2 cm1
      in (cm1, map (\<lambda>p. GoRequestVote p savedCurrentTerm) (peerIds2 cm1) @ [GoRunElectionTimer]))"

definition runElectionTimer2 ::
  "int \<Rightarrow> int \<Rightarrow> int \<Rightarrow> 'c ConsensusModule2 \<Rightarrow> bool \<times> 'c ConsensusModule2 \<times> effect list" where
  "runElectionTimer2 now termStarted timeoutDuration cm =
     (if state2 cm \<noteq> Candidate \<and> state2 cm \<noteq> Follower then (False, cm, [])
      else if termStarted \<noteq> currentTerm2 cm then (False, cm, [])
      else if now - electionResetEvent2 cm \<ge> timeoutDuration
      then let (cm1, es) = startElection2 now cm in (False, cm1, es)
      else (True, cm, []))"

definition voteArgs2 :: "int \<Rightarrow> 'c ConsensusModule2 \<Rightarrow> RequestVoteArgs" where
  "voteArgs2 savedCurrentTerm cm =
     (let (savedLastLogIndex, savedLastLogTerm) = lastLogIndexAndTerm2 cm
      in \<lparr>rv_Term = savedCurrentTerm, rv_CandidateId = id2 cm,
          rv_LastLogIndex = savedLastLogIndex, rv_LastLogTerm = savedLastLogTerm\<rparr>)"

definition startLeader2 :: "'c ConsensusModule2 \<Rightarrow> 'c ConsensusModule2 \<times> effect list" where
  "startLeader2 cm =
     (let cm1 = cm\<lparr>state2 := Leader\<rparr>
      in (fold (\<lambda>p c. c\<lparr>nextIndex2 := (nextIndex2 c)(p \<mapsto> int (length (log2 c))),
                       matchIndex2 := (matchIndex2 c)(p \<mapsto> -1)\<rparr>) (peerIds2 cm1) cm1,
          [GoLeaderLoop]))"

definition voteReply2 ::
  "int \<Rightarrow> int \<Rightarrow> int \<Rightarrow> RequestVoteReply \<Rightarrow> 'c ConsensusModule2 \<Rightarrow> 'c ConsensusModule2 \<times> int \<times> effect list" where
  "voteReply2 now savedCurrentTerm votesReceived reply cm =
     (if state2 cm \<noteq> Candidate then (cm, votesReceived, [])
      else if rvr_Term reply > savedCurrentTerm
      then let (cm1, es) = becomeFollower2 now (rvr_Term reply) cm in (cm1, votesReceived, es)
      else if rvr_Term reply = savedCurrentTerm \<and> rvr_VoteGranted reply
      then let votes = votesReceived + 1
           in if majority votes (peerIds2 cm)
              then let (cm1, es) = startLeader2 cm in (cm1, votes, es)
              else (cm, votes, [])
      else (cm, votesReceived, []))"

definition leaderSendHeartbeats2 :: "'c ConsensusModule2 \<Rightarrow> effect list" where
  "leaderSendHeartbeats2 cm =
     (if state2 cm \<noteq> Leader then [] else map (\<lambda>p. GoSendAE p (currentTerm2 cm)) (peerIds2 cm))"

definition aeArgs2 :: "int \<Rightarrow> int \<Rightarrow> 'c ConsensusModule2 \<Rightarrow> (int \<times> 'c AppendEntriesArgs) go" where
  "aeArgs2 savedCurrentTerm peerId cm =
     (let ni = go_get (nextIndex2 cm) peerId;
          prevLogIndex = ni - 1
      in go_bind (if prevLogIndex \<ge> 0 then go_bind (go_index (log2 cm) prevLogIndex) (\<lambda>e. Inr (Term e))
                  else Inr (-1)) (\<lambda>prevLogTerm.
         go_bind (go_from (log2 cm) ni) (\<lambda>entries.
           Inr (ni, \<lparr>ae_Term = savedCurrentTerm, ae_LeaderId = id2 cm,
                     ae_PrevLogIndex = prevLogIndex, ae_PrevLogTerm = prevLogTerm,
                     ae_Entries = entries, ae_LeaderCommit = commitIndex2 cm\<rparr>))))"

definition matchCount2 :: "'c ConsensusModule2 \<Rightarrow> int \<Rightarrow> int" where
  "matchCount2 cm i =
     1 + int (length (filter (\<lambda>p. go_get (matchIndex2 cm) p \<ge> i) (peerIds2 cm)))"

definition advance_commit2 :: "'c ConsensusModule2 \<Rightarrow> 'c ConsensusModule2" where
  "advance_commit2 cm =
     fold (\<lambda>i c. if Term (log2 c ! i) = currentTerm2 c \<and> majority (matchCount2 c (int i)) (peerIds2 c)
                then c\<lparr>commitIndex2 := int i\<rparr> else c)
       [nat (commitIndex2 cm + 1) ..< length (log2 cm)] cm"

definition aeReply2 ::
  "int \<Rightarrow> int \<Rightarrow> int \<Rightarrow> int \<Rightarrow> nat \<Rightarrow> AppendEntriesReply \<Rightarrow> 'c ConsensusModule2
     \<Rightarrow> 'c ConsensusModule2 \<times> effect list" where
  "aeReply2 now savedCurrentTerm peerId ni nEntries reply cm =
     (if aer_Term reply > currentTerm2 cm then becomeFollower2 now (aer_Term reply) cm
      else if state2 cm = Leader \<and> savedCurrentTerm = aer_Term reply
      then if aer_Success reply
           then let cm1 = cm\<lparr>nextIndex2 := (nextIndex2 cm)(peerId \<mapsto> ni + int nEntries),
                             matchIndex2 := (matchIndex2 cm)(peerId \<mapsto> ni + int nEntries - 1)\<rparr>;
                    savedCommitIndex = commitIndex2 cm1;
                    cm2 = advance_commit2 cm1
                in if commitIndex2 cm2 \<noteq> savedCommitIndex
                   then (cm2\<lparr>newCommitReadyChan2 := Suc (newCommitReadyChan2 cm2)\<rparr>, [])
                   else (cm2, [])
           else (cm\<lparr>nextIndex2 := (nextIndex2 cm)(peerId \<mapsto> ni - 1)\<rparr>, [])
      else (cm, []))"

definition commitChanSender2 ::
  "'c ConsensusModule2 \<Rightarrow> ('c ConsensusModule2 \<times> 'c CommitEntry list) go" where
  "commitChanSender2 cm =
     (let savedTerm = currentTerm2 cm;
          savedLastApplied = lastApplied2 cm;
          cm1 = cm\<lparr>newCommitReadyChan2 := newCommitReadyChan2 cm - 1\<rparr>
      in if commitIndex2 cm > lastApplied2 cm
         then go_bind (go_range (log2 cm) (lastApplied2 cm + 1) (commitIndex2 cm + 1)) (\<lambda>entries.
                Inr (cm1\<lparr>lastApplied2 := commitIndex2 cm\<rparr>,
                     map (\<lambda>(i, e). \<lparr>ce_Command = Command e, ce_Index = savedLastApplied + int i + 1,
                                    ce_Term = savedTerm\<rparr>) (List.enumerate 0 entries)))
         else Inr (cm1, []))"

section \<open>Simulation by part3\<close>

definition abs2 :: "'c ConsensusModule2 \<Rightarrow> 'c ConsensusModule" where
  "abs2 cm = \<lparr>cm_id = id2 cm, peerIds = peerIds2 cm, storage = NewMapStorage,
     newCommitReadyChan = newCommitReadyChan2 cm, currentTerm = currentTerm2 cm, votedFor = votedFor2 cm,
     log = log2 cm, commitIndex = commitIndex2 cm, lastApplied = lastApplied2 cm, state = state2 cm,
     electionResetEvent = electionResetEvent2 cm, nextIndex = nextIndex2 cm, matchIndex = matchIndex2 cm\<rparr>"

definition unstored :: "'c ConsensusModule \<Rightarrow> 'c ConsensusModule" where
  "unstored cm = cm\<lparr>storage := NewMapStorage\<rparr>"

lemma abs2_sel [simp]:
  "cm_id (abs2 c) = id2 c" "peerIds (abs2 c) = peerIds2 c" "newCommitReadyChan (abs2 c) = newCommitReadyChan2 c"
  "currentTerm (abs2 c) = currentTerm2 c" "votedFor (abs2 c) = votedFor2 c" "log (abs2 c) = log2 c"
  "commitIndex (abs2 c) = commitIndex2 c" "lastApplied (abs2 c) = lastApplied2 c" "state (abs2 c) = state2 c"
  "electionResetEvent (abs2 c) = electionResetEvent2 c" "nextIndex (abs2 c) = nextIndex2 c"
  "matchIndex (abs2 c) = matchIndex2 c"
  by (simp_all add: abs2_def)

lemma abs2_upd [simp]:
  "abs2 (c\<lparr>newCommitReadyChan2 := k\<rparr>) = (abs2 c)\<lparr>newCommitReadyChan := k\<rparr>"
  "abs2 (c\<lparr>currentTerm2 := i\<rparr>) = (abs2 c)\<lparr>currentTerm := i\<rparr>" "abs2 (c\<lparr>votedFor2 := i\<rparr>) = (abs2 c)\<lparr>votedFor := i\<rparr>"
  "abs2 (c\<lparr>log2 := l\<rparr>) = (abs2 c)\<lparr>log := l\<rparr>" "abs2 (c\<lparr>commitIndex2 := i\<rparr>) = (abs2 c)\<lparr>commitIndex := i\<rparr>"
  "abs2 (c\<lparr>lastApplied2 := i\<rparr>) = (abs2 c)\<lparr>lastApplied := i\<rparr>" "abs2 (c\<lparr>state2 := st\<rparr>) = (abs2 c)\<lparr>state := st\<rparr>"
  "abs2 (c\<lparr>electionResetEvent2 := i\<rparr>) = (abs2 c)\<lparr>electionResetEvent := i\<rparr>"
  "abs2 (c\<lparr>nextIndex2 := m\<rparr>) = (abs2 c)\<lparr>nextIndex := m\<rparr>" "abs2 (c\<lparr>matchIndex2 := m\<rparr>) = (abs2 c)\<lparr>matchIndex := m\<rparr>"
  by (simp_all add: abs2_def)

lemma unstored_persist [simp]: "unstored (persistToStorage cm) = unstored cm"
  by (simp add: unstored_def persistToStorage_def Let_def)

lemma unstored_abs2 [simp]:
  "unstored (abs2 c) = abs2 c" "unstored (cm\<lparr>electionResetEvent := i\<rparr>) = (unstored cm)\<lparr>electionResetEvent := i\<rparr>"
  "unstored (cm\<lparr>votedFor := i\<rparr>) = (unstored cm)\<lparr>votedFor := i\<rparr>" "unstored (cm\<lparr>state := st\<rparr>) = (unstored cm)\<lparr>state := st\<rparr>"
  "unstored (cm\<lparr>currentTerm := i\<rparr>) = (unstored cm)\<lparr>currentTerm := i\<rparr>"
  by (simp_all add: unstored_def abs2_def)

lemma lastLog2_sim [simp]: "lastLogIndexAndTerm (abs2 c) = lastLogIndexAndTerm2 c"
  by (simp add: lastLogIndexAndTerm_def lastLogIndexAndTerm2_def)

lemma becomeFollower2_sim:
  "becomeFollower now t (abs2 c) = (abs2 (fst (becomeFollower2 now t c)), snd (becomeFollower2 now t c))"
  by (simp add: becomeFollower_def becomeFollower2_def)

lemma startElection2_sim: "startElection now (abs2 c) = (abs2 (fst (startElection2 now c)), snd (startElection2 now c))"
  by (simp add: startElection_def startElection2_def Let_def)

lemma RequestVote2_sim:
  "RequestVote2 now a c = (c', r, es) \<Longrightarrow>
     \<exists>x. RequestVote now a (abs2 c) = (x, r, es) \<and> abs2 c' = unstored x"
proof -
  obtain i t where "lastLogIndexAndTerm2 c = (i, t)" by fastforce
  then show "RequestVote2 now a c = (c', r, es) \<Longrightarrow> ?thesis"
    by (cases "rv_Term a > currentTerm2 c")
      (auto simp: RequestVote_def RequestVote2_def becomeFollower_def becomeFollower2_def Let_def)
qed

lemma append_accept2_sim: "abs2 (append_accept2 b c) = append_accept b (abs2 c)"
  by (auto simp: append_accept_def append_accept2_def Let_def split: prod.splits)

lemma abs2_same_term:
  "(abs2 c)\<lparr>state := st, currentTerm := currentTerm2 c, votedFor := v, electionResetEvent := e\<rparr>
     = (abs2 c)\<lparr>state := st, votedFor := v, electionResetEvent := e\<rparr>"
  by (simp add: abs2_def)

lemma unstored_append [simp]: "unstored (append_accept b x) = append_accept b (unstored x)"
  by (auto simp: append_accept_def unstored_def Let_def split: prod.splits)

text \<open>The replies agree up to the conflict report.\<close>

lemma AppendEntries2_sim:
  assumes "AppendEntries2 now b c = Inr (c', r, es)"
  shows "\<exists>x ci ct. AppendEntries now b (abs2 c) = Inr (x, r\<lparr>aer_ConflictIndex := ci, aer_ConflictTerm := ct\<rparr>, es)
     \<and> abs2 c' = unstored x"
proof -
  obtain ci ct where ac: "append_conflict (log2 c) (ae_PrevLogIndex b) = (ci, ct)" by fastforce
  have zero: "r\<lparr>aer_ConflictIndex := 0, aer_ConflictTerm := 0\<rparr> = r"
    using assms by (auto simp: AppendEntries2_def Let_def go_bind_eq_Inr split: if_splits prod.splits)
  note defs = AppendEntries_def AppendEntries2_def becomeFollower_def becomeFollower2_def Let_def append_accept2_sim
    raft_frame abs2_same_term
  have tm: "currentTerm2 (append_accept2 b x) = currentTerm2 x" for x
    by (simp add: append_accept2_def Let_def split: prod.splits)
  show ?thesis
  proof (cases "prev_matches (log2 c) (ae_PrevLogIndex b) (ae_PrevLogTerm b)")
    case (Inl e)
    then show ?thesis
      using assms zero
      by (intro exI [of _ "fst (projr (AppendEntries now b (abs2 c)))"] exI [of _ 0])
        (cases "state2 c"; cases "ae_Term b > currentTerm2 c"; cases "ae_Term b = currentTerm2 c"; auto simp: defs)
  next
    case (Inr ok)
    show ?thesis
    proof (cases "\<not> ok \<and> ae_Term b \<ge> currentTerm2 c \<and> state2 c \<noteq> Dead")
      case True
      then show ?thesis
        using assms Inr ac
        by (intro exI [of _ "fst (projr (AppendEntries now b (abs2 c)))"] exI [of _ ci] exI [of _ ct])
          (cases "state2 c"; cases "ae_Term b > currentTerm2 c"; auto simp: defs tm)
    next
      case False
      then show ?thesis
        using assms Inr zero
        by (intro exI [of _ "fst (projr (AppendEntries now b (abs2 c)))"] exI [of _ 0])
          (cases "state2 c"; cases "ae_Term b > currentTerm2 c"; cases "ae_Term b = currentTerm2 c"; auto simp: defs tm)
    qed
  qed
qed

lemma abs2_fold:
  "(\<And>x c. abs2 (f x c) = g x (abs2 c)) \<Longrightarrow> abs2 (fold f xs c) = fold g xs (abs2 c)"
  by (induction xs arbitrary: c) simp_all

lemma startLeader2_sim: "startLeader (abs2 c) = (abs2 (fst (startLeader2 c)), snd (startLeader2 c))"
  unfolding startLeader_def startLeader2_def Let_def fst_conv snd_conv
  by (subst abs2_fold [where g = "\<lambda>p c. c\<lparr>nextIndex := (nextIndex c)(p \<mapsto> int (length (log c))),
                       matchIndex := (matchIndex c)(p \<mapsto> -1)\<rparr>"]) simp_all

lemma advance_commit2_sim: "abs2 (advance_commit2 c) = advance_commit (abs2 c)"
  unfolding advance_commit_def advance_commit2_def
  by (subst abs2_fold [where g = "\<lambda>i c. if Term (log c ! i) = currentTerm c \<and> majority (matchCount c (int i)) (peerIds c)
                then c\<lparr>commitIndex := int i\<rparr> else c"]) (simp_all add: matchCount_def matchCount2_def)

lemma voteReply2_sim:
  "voteReply2 now t v rep c = (c', v', es) \<Longrightarrow> voteReply now t v rep (abs2 c) = (abs2 c', v', es)"
  using startLeader2_sim [of c]
  by (auto simp: voteReply_def voteReply2_def becomeFollower2_sim Let_def split: if_splits prod.splits)

lemma runElectionTimer2_sim:
  "runElectionTimer2 now t d c = (goes_on, c', es) \<Longrightarrow> runElectionTimer now t d (abs2 c) = (goes_on, abs2 c', es)"
  using startElection2_sim [of now c]
  by (auto simp: runElectionTimer_def runElectionTimer2_def Let_def split: if_splits prod.splits)

lemma aeArgs2_sim: "aeArgs2 t p c = aeArgs t p (abs2 c)"
  unfolding aeArgs_def aeArgs2_def abs2_sel ..

lemma commitChanSender2_sim:
  "commitChanSender2 c = Inr (c', out) \<Longrightarrow> commitChanSender (abs2 c) = Inr (abs2 c', out)"
  by (auto simp: commitChanSender_def commitChanSender2_def Let_def go_bind_eq_Inr split: if_splits)

section \<open>Clusters\<close>

definition part2_impl :: "('c ConsensusModule2, 'c) raft_impl" where
  "part2_impl =
     \<lparr>im_id = id2, im_peers = peerIds2, im_term = currentTerm2, im_voted = votedFor2, im_role = state2, im_log = log2,
      im_ready = cm_ready2,
      im_RequestVote = (\<lambda>now a cm. let (cm', r, es) = RequestVote2 now a cm in (cm', Some r, es)),
      im_AppendEntries = (\<lambda>now a cm. go_bind (AppendEntries2 now a cm) (\<lambda>(cm', r, es). Inr (cm', Some r, es))),
      im_timer = runElectionTimer2, im_voteArgs = voteArgs2, im_voteReply = voteReply2,
      im_sendAEs = leaderSendHeartbeats2, im_aeArgs = aeArgs2, im_aeReply = aeReply2,
      im_Submit = (\<lambda>cmd cm. let (cm', ok) = Submit2 cmd cm in (cm', (if ok then int (length (log2 cm)) else -1), [])),
      im_Stop = Stop2, im_commit = commitChanSender2,
      im_restart = (\<lambda>cm. Inr (NewConsensusModule2 (id2 cm) (peerIds2 cm))), im_fresh = (\<lambda>t r cm. True)\<rparr>"

lemma part2_impl_sel [simp]:
  "im_id part2_impl = id2" "im_peers part2_impl = peerIds2" "im_term part2_impl = currentTerm2"
  "im_voted part2_impl = votedFor2" "im_role part2_impl = state2" "im_log part2_impl = log2"
  "im_ready part2_impl = cm_ready2" "im_timer part2_impl = runElectionTimer2" "im_voteArgs part2_impl = voteArgs2"
  "im_voteReply part2_impl = voteReply2" "im_sendAEs part2_impl = leaderSendHeartbeats2" "im_aeArgs part2_impl = aeArgs2"
  "im_aeReply part2_impl = aeReply2" "im_Stop part2_impl = Stop2" "im_commit part2_impl = commitChanSender2"
  "im_fresh part2_impl t r cm"
  "im_Submit part2_impl cmd cm = (let (cm', ok) = Submit2 cmd cm in (cm', (if ok then int (length (log2 cm)) else -1), []))"
  "im_restart part2_impl cm = Inr (NewConsensusModule2 (id2 cm) (peerIds2 cm))"
  "im_RequestVote part2_impl now a cm = (let (cm', r, es) = RequestVote2 now a cm in (cm', Some r, es))"
  "im_AppendEntries part2_impl now b cm =
     go_bind (AppendEntries2 now b cm) (\<lambda>(cm', r, es). Inr (cm', Some r, es))"
  by (simp_all add: part2_impl_def)

lemma keeps2: "keeps part2_impl c c' = keeps part3_impl (abs2 c) (abs2 c')"
  "same_vote part2_impl c c' = same_vote part3_impl (abs2 c) (abs2 c')"
  by (simp_all add: keeps_def same_vote_def)

lemma keeps_unstored [simp]: "keeps part3_impl c (unstored x) = keeps part3_impl c x"
  by (simp add: keeps_def unstored_def)

lemma unstored_sel:
  assumes "abs2 c' = unstored x"
  shows "id2 c' = cm_id x" "peerIds2 c' = peerIds x" "currentTerm2 c' = currentTerm x"
    "votedFor2 c' = votedFor x" "state2 c' = state x" "log2 c' = log x"
  using arg_cong [OF assms, of cm_id] arg_cong [OF assms, of currentTerm] arg_cong [OF assms, of votedFor]
    arg_cong [OF assms, of peerIds] arg_cong [OF assms, of state] arg_cong [OF assms, of log]
  by (simp_all add: unstored_def)

lemma advance2_frame:
  "id2 (advance_commit2 c) = id2 c" "peerIds2 (advance_commit2 c) = peerIds2 c"
  "currentTerm2 (advance_commit2 c) = currentTerm2 c" "votedFor2 (advance_commit2 c) = votedFor2 c"
  "log2 (advance_commit2 c) = log2 c" "state2 (advance_commit2 c) = state2 c"
  using advance_commit_frame [of "abs2 c"] unfolding advance_commit2_sim [symmetric] by simp_all

lemma RequestVote2_part3:
  assumes "im_RequestVote part2_impl now a c = (c', r, es)"
  obtains x where "im_RequestVote part3_impl now a (abs2 c) = (x, r, es)" "abs2 c' = unstored x"
proof -
  obtain y where "RequestVote2 now a c = (c', y, es)" "r = Some y" using assms by (auto split: prod.splits)
  then show thesis using RequestVote2_sim [of now a c c' y es] that by auto
qed

lemma AppendEntries2_part3:
  assumes "im_AppendEntries part2_impl now b c = Inr (c', q, es)"
  obtains x q' where "AppendEntries now b (abs2 c) = Inr (x, q', es)" "abs2 c' = unstored x"
proof -
  obtain y where "AppendEntries2 now b c = Inr (c', y, es)" using assms by (auto simp: go_bind_eq_Inr)
  then show thesis using AppendEntries2_sim [of now b c c' y es] that by blast
qed

interpretation p2: raft_node part2_impl
proof (standard, goal_cases)
  case (2 now a c c' r es)
  then obtain x where x: "im_RequestVote part3_impl now a (abs2 c) = (x, r, es)" "abs2 c' = unstored x"
    by (rule RequestVote2_part3)
  from p3.RequestVote_law [OF x(1)] show ?case using unstored_sel [OF x(2)] by (auto simp: keeps2 x(2))
next
  case (3 now b c c' q es)
  then obtain x q' where x: "AppendEntries now b (abs2 c) = Inr (x, q', es)" "abs2 c' = unstored x"
    by (rule AppendEntries2_part3)
  from AppendEntries_vote [OF x(1)] show ?case using unstored_sel [OF x(2)] by simp
next
  case (4 now t d c goes_on c' es)
  from p3.timer_law [of now t d "abs2 c" goes_on "abs2 c'" es] show ?case
    using runElectionTimer2_sim [of now t d c goes_on c' es] 4 by (auto simp: abs2_def)
next
  case (6 now t v rep c c' v' es)
  from voteReply_vote [OF voteReply2_sim [of now t v rep c c' v' es]] show ?case using 6 by (simp add: keeps2)
qed (auto simp: keeps2 p3_ops cm_ready2_def Submit2_def Stop2_def voteArgs2_def leaderSendHeartbeats2_def aeReply2_def
    becomeFollower2_def NewConsensusModule2_def aeArgs2_sim commitChanSender2_def Let_def keeps_def quiet_def
    advance2_frame go_bind_eq_Inr aeArgs_def split: if_splits prod.splits)

interpretation p2log: raft_log part2_impl
proof (standard, goal_cases)
  case (2 now a c c' r es)
  then obtain x where x: "im_RequestVote part3_impl now a (abs2 c) = (x, r, es)" "abs2 c' = unstored x"
    by (rule RequestVote2_part3)
  from p3log.RequestVote_log [OF x(1)] show ?case using unstored_sel [OF x(2)] by simp
next
  case (3 now b c c' q es)
  then obtain x q' where x: "AppendEntries now b (abs2 c) = Inr (x, q', es)" "abs2 c' = unstored x"
    by (rule AppendEntries2_part3)
  from AppendEntries_merges [OF x(1)] show ?case using unstored_sel [OF x(2)] by simp
next
  case (4 now t d c goes_on c' es)
  from p3log.timer_log [of now t d "abs2 c" goes_on "abs2 c'" es] show ?case
    using runElectionTimer2_sim [of now t d c goes_on c' es] 4 by simp
next
  case (5 now t v rep c c' v' es)
  from voteReply_log3 [OF voteReply2_sim [of now t v rep c c' v' es]] show ?case using 5 by simp
next
  case (6 t p c ni b)
  from p3log.aeArgs_log [of t p "abs2 c" ni b] show ?case using 6 by (simp add: aeArgs2_sim)
qed (auto simp: cm_ready2_def Submit2_def Stop2_def aeReply2_def becomeFollower2_def commitChanSender2_def Let_def
    advance2_frame go_bind_eq_Inr split: if_splits prod.splits)

interpretation p2c: raft_log_cluster part2_impl NewConsensusModule2
  by standard (simp_all add: NewConsensusModule2_def)

abbreviation part2_run :: "int list \<Rightarrow> 'c event list \<Rightarrow> ('c ConsensusModule2, 'c) cluster go option" where
  "part2_run ns evs \<equiv> crun part2_impl evs (cluster_init NewConsensusModule2 ns)"

abbreviation part2_timely :: "int list \<Rightarrow> 'c event list \<Rightarrow> bool" where
  "part2_timely ns evs \<equiv> timely_run part2_impl evs (cluster_init NewConsensusModule2 ns)"

lemmas p2_eval = net_eval NewConsensusModule2_def cm_ready2_def RequestVote2_def becomeFollower2_def
  runElectionTimer2_def startElection2_def voteArgs2_def leaderSendHeartbeats2_def Submit2_def Stop2_def
  lastLogIndexAndTerm2_def voteReply2_def startLeader2_def AppendEntries2_def prev_matches_def append_accept2_def
  insert_loop.simps aeArgs2_def aeReply2_def advance_commit2_def matchCount2_def commitChanSender2_def

lemma ex_commit2_run:
  "part2_timely [0, 1, 2] ex_commit"
  "ends_in (part2_run [0, 1, 2] ex_commit) (\<lambda>s. (1, 0) \<in> elected s \<and> log2 (nodes s 0) = [\<lparr>Command = 7, Term = 1\<rparr>]
     \<and> log2 (nodes s 1) = [\<lparr>Command = 7, Term = 1\<rparr>])"
  by (simp_all add: ex_commit_def p2_eval)

text \<open>
  C15: the RPC handlers of part2 refine those of part3. Whatever a part2 server answers and becomes, the
  part3 server with the same volatile state gives the same answer, starts the same goroutines and
  reaches the same volatile state; only the storage and the conflict report are missing.
\<close>

theorem part2_refines_part3:
  "(RequestVote2 now a c = (c', r, es) \<longrightarrow>
      (\<exists>x. RequestVote now a (abs2 c) = (x, r, es) \<and> abs2 c' = x\<lparr>storage := NewMapStorage\<rparr>))
   \<and> (AppendEntries2 now b c = Inr (d, q, fs) \<longrightarrow>
      (\<exists>x ci ct. AppendEntries now b (abs2 c) = Inr (x, q\<lparr>aer_ConflictIndex := ci, aer_ConflictTerm := ct\<rparr>, fs)
         \<and> abs2 d = x\<lparr>storage := NewMapStorage\<rparr>))"
  using RequestVote2_sim [of now a c c' r es] AppendEntries2_sim [of now b c d q fs] by (simp add: unstored_def)

theorem part2_refines_part3_witness:
  "\<exists>x. RequestVote 9 ex_vote (abs2 (NewConsensusModule2 0 [1, 2] :: int ConsensusModule2))
        = (x, \<lparr>rvr_Term = 3, rvr_VoteGranted = True\<rparr>, [GoRunElectionTimer]) \<and> votedFor x = 2"
proof -
  let ?c = "NewConsensusModule2 0 [1, 2] :: int ConsensusModule2"
  obtain c' where c': "RequestVote2 9 ex_vote ?c = (c', \<lparr>rvr_Term = 3, rvr_VoteGranted = True\<rparr>, [GoRunElectionTimer])"
    "votedFor2 c' = 2"
    by (simp add: ex_vote_def NewConsensusModule2_def RequestVote2_def becomeFollower2_def lastLogIndexAndTerm2_def)
  from part2_refines_part3 c'(1) obtain x where "RequestVote 9 ex_vote (abs2 ?c)
       = (x, \<lparr>rvr_Term = 3, rvr_VoteGranted = True\<rparr>, [GoRunElectionTimer])" "abs2 c' = x\<lparr>storage := NewMapStorage\<rparr>"
    by blast
  then show ?thesis using unstored_sel(4) [of c' x] c'(2) by (simp add: unstored_def)
qed

text \<open>
  C16: safety of the part2 cluster. In every run of timely events two servers that have been leader in
  a term are the same server, and two logs with the same term at an index agree up to that index.
\<close>

theorem part2_safety:
  assumes "good_config ns" "part2_timely ns evs" "part2_run ns evs = Some (Inr s)"
  shows "((t, m) \<in> elected s \<longrightarrow> (t, n) \<in> elected s \<longrightarrow> m = n)
     \<and> (i < length (log2 (nodes s p)) \<longrightarrow> i < length (log2 (nodes s q))
        \<longrightarrow> Term (log2 (nodes s p) ! i) = Term (log2 (nodes s q) ! i)
        \<longrightarrow> take (Suc i) (log2 (nodes s p)) = take (Suc i) (log2 (nodes s q)))"
  using p2c.one_leader_per_term [OF timely_run_reach [OF timely_reach.start assms(2,3)] assms(1), of t m n]
    p2c.logs_match [OF timely_run_reach [OF timely_reach.start assms(2,3)] assms(1), of i p q]
  by simp

theorem part2_safety_witness:
  "\<exists>s. part2_run [0, 1, 2] ex_commit = Some (Inr s) \<and> (1, 0) \<in> elected s \<and> (1, 1) \<notin> elected s
     \<and> log2 (nodes s 0) \<noteq> [] \<and> take (Suc 0) (log2 (nodes s 0)) = take (Suc 0) (log2 (nodes s 1))"
proof -
  obtain s where s: "part2_run [0, 1, 2] ex_commit = Some (Inr s)" "(1, 0) \<in> elected s"
      "log2 (nodes s 0) = [\<lparr>Command = 7, Term = 1\<rparr>]" "log2 (nodes s 1) = [\<lparr>Command = 7, Term = 1\<rparr>]"
    using ends_inD [OF ex_commit2_run(2)] by auto
  have cfg: "good_config [0, 1, 2]" by (simp add: good_config_def)
  from part2_safety [OF cfg ex_commit2_run(1) s(1), of 1 0 1 0 0 1] show ?thesis using s by auto
qed

end
