(* ===== verification/RaftServer.thy ===== *)
theory RaftServer
  imports Raft3Facts
begin

text \<open>
  The server that wraps a consensus module and connects it to its peers, \<^verbatim>\<open>src/raft/part3/server.go\<close>:
  listener, client connections, RPC proxy. Of \<^verbatim>\<open>net\<close> and \<^verbatim>\<open>net/rpc\<close> the model has what the file uses: a
  listener is a port number the system hands out and never uses again, dialling a port succeeds while
  something listens there, an open client connection is a number with the port at its other end, and
  a connection is served until its client closes it. Go maps with nil-able pointers are association
  lists into options. The mutex makes each method one step; the accept loop has no state of its own.
\<close>

section \<open>Listeners and connections\<close>

text \<open>\<open>can_listen\<close> is the answer of the system to \<^verbatim>\<open>net.Listen\<close>.\<close>

record network =
  can_listen :: bool
  ports :: "nat list"
  next_port :: nat
  conns :: "nat \<rightharpoonup> nat"
  next_conn :: nat

definition empty_network :: network where
  "empty_network = \<lparr>can_listen = True, ports = [], next_port = 0, conns = Map.empty, next_conn = 0\<rparr>"

definition net_Listen :: "network \<Rightarrow> (network \<times> nat) go" where
  "net_Listen w =
     (if can_listen w
      then Inr (w\<lparr>ports := next_port w # ports w, next_port := Suc (next_port w)\<rparr>, next_port w)
      else Inl (Fatal ''listen''))"

text \<open>\<open>None\<close> is the error that nothing listens at the port.\<close>

definition rpc_Dial :: "nat \<Rightarrow> network \<Rightarrow> (network \<times> nat) option" where
  "rpc_Dial p w =
     (if p \<in> set (ports w)
      then Some (w\<lparr>conns := (conns w)(next_conn w \<mapsto> p), next_conn := Suc (next_conn w)\<rparr>, next_conn w)
      else None)"

definition client_Close :: "nat \<Rightarrow> network \<Rightarrow> network \<times> bool" where
  "client_Close c w = (w\<lparr>conns := (conns w)(c := None)\<rparr>, conns w c \<noteq> None)"

section \<open>The server\<close>

text \<open>
  The fields \<^verbatim>\<open>cm\<close>, \<^verbatim>\<open>rpcProxy\<close> and \<^verbatim>\<open>listener\<close> are nil until \<^verbatim>\<open>Serve\<close>. The storage is a pointer that the
  consensus module shares, so after \<^verbatim>\<open>Serve\<close> its contents are those in the module. Of the proxy the
  field \<open>numCallsBeforeDrop\<close> is kept. \<open>quit\<close> says that the channel is closed.
\<close>

record 'c Server =
  serverId :: int
  srv_peerIds :: "int list"
  srv_storage :: "'c gob MapStorage"
  srv_cm :: "'c ConsensusModule option"
  numCallsBeforeDrop :: int
  listener :: "nat option"
  peerClients :: "(int \<times> nat option) list"
  quit :: bool

definition srv_NewServer :: "int \<Rightarrow> int list \<Rightarrow> 'c gob MapStorage \<Rightarrow> 'c Server" where
  "srv_NewServer i peers st =
     \<lparr>serverId = i, srv_peerIds = peers, srv_storage = st, srv_cm = None, numCallsBeforeDrop = 0,
      listener = None, peerClients = [], quit = False\<rparr>"

definition NewProxy :: int where
  "NewProxy = -1"

definition Serve :: "network \<Rightarrow> 'c Server \<Rightarrow> (network \<times> 'c Server) go" where
  "Serve w s =
     go_bind (NewConsensusModule (serverId s) (srv_peerIds s) (srv_storage s)) (\<lambda>cm.
     go_bind (net_Listen w) (\<lambda>(w', p).
       Inr (w', s\<lparr>srv_cm := Some cm, numCallsBeforeDrop := NewProxy, listener := Some p\<rparr>)))"

definition srv_Submit :: "'c \<Rightarrow> 'c Server \<Rightarrow> ('c Server \<times> int \<times> effect list) go" where
  "srv_Submit cmd s =
     (case srv_cm s of
        None \<Rightarrow> Inl nil_dereference
      | Some cm \<Rightarrow> let (cm', i, es) = Submit cmd cm in Inr (s\<lparr>srv_cm := Some cm'\<rparr>, i, es))"

text \<open>The map is iterated in an order the language leaves open; every order gives this result.\<close>

definition DisconnectAll :: "network \<Rightarrow> 'c Server \<Rightarrow> network \<times> 'c Server" where
  "DisconnectAll w s =
     (fold (\<lambda>(pid, c) w. case c of None \<Rightarrow> w | Some k \<Rightarrow> fst (client_Close k w)) (peerClients s) w,
      s\<lparr>peerClients := map (\<lambda>(pid, c). (pid, None)) (peerClients s)\<rparr>)"

text \<open>
  \<^verbatim>\<open>Shutdown\<close> waits for the accept loop, which ends because the listener is closed, and for the
  goroutines that serve open connections, which end when their clients close them. The value \<open>None\<close> is
  a wait that does not end unless somebody else closes a connection.
\<close>

definition Shutdown :: "network \<Rightarrow> 'c Server \<Rightarrow> (network \<times> 'c Server) go option" where
  "Shutdown w s =
     (case (srv_cm s, listener s) of
        (Some cm, Some p) \<Rightarrow>
          if quit s then Some (Inl (Explicit ''close of closed channel''))
          else let w' = w\<lparr>ports := removeAll p (ports w)\<rparr>;
                   s' = s\<lparr>srv_cm := Some (Stop cm), quit := True\<rparr>
               in if \<exists>c \<in> {..<next_conn w}. conns w c = Some p then None else Some (Inr (w', s'))
      | _ \<Rightarrow> Some (Inl nil_dereference))"

definition GetListenAddr :: "'c Server \<Rightarrow> nat go" where
  "GetListenAddr s = (case listener s of None \<Rightarrow> Inl nil_dereference | Some p \<Rightarrow> Inr p)"

text \<open>\<open>client s pid\<close> is \<^verbatim>\<open>s.peerClients[id]\<close>, which is nil for an absent key.\<close>

definition client :: "'c Server \<Rightarrow> int \<Rightarrow> nat option" where
  "client s pid = (case map_of (peerClients s) pid of Some c \<Rightarrow> c | None \<Rightarrow> None)"

text \<open>The last component says whether the returned error is nil.\<close>

definition ConnectToPeer :: "int \<Rightarrow> nat \<Rightarrow> network \<Rightarrow> 'c Server \<Rightarrow> network \<times> 'c Server \<times> bool" where
  "ConnectToPeer peerId addr w s =
     (if client s peerId = None
      then case rpc_Dial addr w of
             None \<Rightarrow> (w, s, False)
           | Some (w', c) \<Rightarrow> (w', s\<lparr>peerClients := AList.update peerId (Some c) (peerClients s)\<rparr>, True)
      else (w, s, True))"

definition srv_DisconnectPeer :: "int \<Rightarrow> network \<Rightarrow> 'c Server \<Rightarrow> network \<times> 'c Server \<times> bool" where
  "srv_DisconnectPeer peerId w s =
     (case client s peerId of
        None \<Rightarrow> (w, s, True)
      | Some c \<Rightarrow> let (w', ok) = client_Close c w
                  in (w', s\<lparr>peerClients := AList.update peerId None (peerClients s)\<rparr>, ok))"

section \<open>Calls\<close>

datatype call = CallClosed | CallDropped | CallShutdown | CallTo nat

text \<open>\<open>proxy_Call\<close> decides whether a call leaves the server; one that does goes to the port at the
  other end of the connection, or fails with \<^verbatim>\<open>rpc.ErrShutdown\<close> on a closed one.\<close>

definition proxy_Call :: "nat \<Rightarrow> network \<Rightarrow> 'c Server \<Rightarrow> 'c Server \<times> call" where
  "proxy_Call peer w s =
     (if numCallsBeforeDrop s = 0 then (s, CallDropped)
      else let s' = (if numCallsBeforeDrop s > 0 then s\<lparr>numCallsBeforeDrop := numCallsBeforeDrop s - 1\<rparr> else s)
           in (s', case conns w peer of None \<Rightarrow> CallShutdown | Some p \<Rightarrow> CallTo p))"

definition srv_Call :: "int \<Rightarrow> network \<Rightarrow> 'c Server \<Rightarrow> 'c Server \<times> call" where
  "srv_Call pid w s =
     (case client s pid of
        None \<Rightarrow> (s, CallClosed)
      | Some peer \<Rightarrow> proxy_Call peer w s)"

definition srv_IsLeader :: "'c Server \<Rightarrow> bool go" where
  "srv_IsLeader s =
     (case srv_cm s of
        None \<Rightarrow> Inl nil_dereference
      | Some cm \<Rightarrow> let (_, _, isLeader) = Report cm in Inr isLeader)"

definition DropCallsAfterN :: "int \<Rightarrow> 'c Server \<Rightarrow> 'c Server" where
  "DropCallsAfterN n s = s\<lparr>numCallsBeforeDrop := n\<rparr>"

definition DontDropCalls :: "'c Server \<Rightarrow> 'c Server" where
  "DontDropCalls s = s\<lparr>numCallsBeforeDrop := -1\<rparr>"

text \<open>
  The proxy in front of the handlers. \<open>unreliable\<close>: \<^verbatim>\<open>RAFT_UNRELIABLE_RPC\<close> is set; \<open>dice\<close> and \<open>r5\<close> are the
  random numbers below 10 and below 5. The result has the delay in milliseconds and, unless the call
  is dropped (\<open>None\<close>), what the handler does at the instant after the delay.
\<close>

definition proxy_delay :: "bool \<Rightarrow> nat \<Rightarrow> nat \<Rightarrow> int option" where
  "proxy_delay unreliable dice r5 =
     (if unreliable
      then if dice = 9 then None else if dice = 8 then Some 75 else Some 0
      else Some (1 + int r5))"

definition proxy_RequestVote ::
  "bool \<Rightarrow> nat \<Rightarrow> nat \<Rightarrow> int \<Rightarrow> RequestVoteArgs \<Rightarrow> 'c ConsensusModule
     \<Rightarrow> ('c ConsensusModule \<times> RequestVoteReply \<times> effect list) option" where
  "proxy_RequestVote unreliable dice r5 now args cm =
     (case proxy_delay unreliable dice r5 of
        None \<Rightarrow> None
      | Some d \<Rightarrow> Some (RequestVote (now + d) args cm))"

definition proxy_AppendEntries ::
  "bool \<Rightarrow> nat \<Rightarrow> nat \<Rightarrow> int \<Rightarrow> 'c AppendEntriesArgs \<Rightarrow> 'c ConsensusModule
     \<Rightarrow> ('c ConsensusModule \<times> AppendEntriesReply \<times> effect list) go option" where
  "proxy_AppendEntries unreliable dice r5 now args cm =
     (case proxy_delay unreliable dice r5 of
        None \<Rightarrow> None
      | Some d \<Rightarrow> Some (AppendEntries (now + d) args cm))"

section \<open>What the operations do to the connections\<close>

lemma client_simps [simp]:
  "client (s\<lparr>peerClients := AList.update k c (peerClients s)\<rparr>) pid = (if pid = k then c else client s pid)"
  "client (s\<lparr>srv_cm := x\<rparr>) pid = client s pid" "client (s\<lparr>numCallsBeforeDrop := y\<rparr>) pid = client s pid"
  "client (s\<lparr>listener := z\<rparr>) pid = client s pid" "client (s\<lparr>quit := b\<rparr>) pid = client s pid"
  "client (srv_NewServer i ps st) pid = None"
  by (auto simp: client_def update_conv' srv_NewServer_def)

lemma client_in: "client s pid = Some c \<Longrightarrow> (pid, Some c) \<in> set (peerClients s)"
  by (auto simp: client_def split: option.splits dest: map_of_SomeD)

lemma in_client: "distinct (map fst (peerClients s)) \<Longrightarrow> (pid, Some c) \<in> set (peerClients s) \<Longrightarrow> client s pid = Some c"
  by (simp add: client_def)

lemma close_fold:
  "fold (\<lambda>(pid, c) w. case c of None \<Rightarrow> w | Some k \<Rightarrow> fst (client_Close k w)) pcs w
     = w\<lparr>conns := (\<lambda>k. if \<exists>pid. (pid, Some k) \<in> set pcs then None else conns w k)\<rparr>"
proof (induction pcs arbitrary: w)
  case (Cons x pcs)
  obtain pid c where x: "x = (pid, c)" by fastforce
  show ?case
    by (cases c; rule network.equality) (auto simp: x Cons.IH client_Close_def fun_eq_iff)
qed (simp add: fun_eq_iff)

lemma DisconnectAll_eq:
  assumes "distinct (map fst (peerClients s))"
  shows "fst (DisconnectAll w s) = w\<lparr>conns := (\<lambda>k. if \<exists>pid. client s pid = Some k then None else conns w k)\<rparr>"
    and "client (snd (DisconnectAll w s)) pid = None"
    and "map fst (peerClients (snd (DisconnectAll w s))) = map fst (peerClients s)"
proof -
  have "(\<exists>pid. (pid, Some k) \<in> set (peerClients s)) \<longleftrightarrow> (\<exists>pid. client s pid = Some k)" for k
    using client_in in_client [OF assms] by metis
  then show "fst (DisconnectAll w s) = w\<lparr>conns := (\<lambda>k. if \<exists>pid. client s pid = Some k then None else conns w k)\<rparr>"
    by (simp add: DisconnectAll_def close_fold)
  show "client (snd (DisconnectAll w s)) pid = None"
    by (auto simp: DisconnectAll_def client_def split: option.splits dest: map_of_SomeD)
  show "map fst (peerClients (snd (DisconnectAll w s))) = map fst (peerClients s)"
    by (simp add: DisconnectAll_def case_prod_unfold)
qed

section \<open>Dropping calls\<close>

text \<open>A sequence of calls to peers on open connections.\<close>

fun calls_run :: "int list \<Rightarrow> network \<Rightarrow> 'c Server \<Rightarrow> 'c Server \<times> call list" where
  "calls_run [] w s = (s, [])"
| "calls_run (pid # pids) w s =
     (let (s1, r) = srv_Call pid w s; (s2, rs) = calls_run pids w s1 in (s2, r # rs))"


lemma proxy_drop:
  assumes "0 \<le> numCallsBeforeDrop s" "client s pid = Some c" "conns w c = Some p"
  shows "srv_Call pid w s =
    (if numCallsBeforeDrop s = 0 then (s, CallDropped) else (s\<lparr>numCallsBeforeDrop := numCallsBeforeDrop s - 1\<rparr>, CallTo p))"
  using assms by (simp add: srv_Call_def proxy_Call_def)

lemma length_calls_run: "length (snd (calls_run pids w s)) = length pids"
  by (induction pids arbitrary: s) (auto simp: case_prod_unfold Let_def)

lemma calls_run_drop:
  assumes "0 \<le> numCallsBeforeDrop s" "\<forall>pid \<in> set pids. \<exists>c p. client s pid = Some c \<and> conns w c = Some p"
    and "k < length pids"
  shows "snd (calls_run pids w s) ! k =
    (if int k < numCallsBeforeDrop s then CallTo (the (conns w (the (client s (pids ! k))))) else CallDropped)"
  using assms
proof (induction pids arbitrary: s k)
  case (Cons a pids)
  obtain c p where c: "client s a = Some c" "conns w c = Some p" using Cons.prems(2) by auto
  define s1 where "s1 = fst (srv_Call a w s)"
  define m where "m = numCallsBeforeDrop s"
  have r: "calls_run (a # pids) w s = (fst (calls_run pids w s1), snd (srv_Call a w s) # snd (calls_run pids w s1))"
    by (simp add: s1_def case_prod_unfold Let_def)
  have s1: "numCallsBeforeDrop s1 = (if m = 0 then 0 else m - 1)" "client s1 = client s"
    using proxy_drop [OF Cons.prems(1) c] by (auto simp: s1_def m_def fun_eq_iff)
  show ?case
  proof (cases k)
    case 0
    then show ?thesis using r proxy_drop [OF Cons.prems(1) c] Cons.prems(1) c by auto
  next
    case (Suc j)
    have "snd (calls_run pids w s1) ! j =
      (if int j < numCallsBeforeDrop s1 then CallTo (the (conns w (the (client s1 (pids ! j))))) else CallDropped)"
      using Cons.IH [of s1 j] Cons.prems s1 Suc by (auto simp: m_def)
    then show ?thesis using r s1 Suc Cons.prems(1) by (auto simp: m_def)
  qed
qed simp

text \<open>
  C36: fault injection is exact. After \<^verbatim>\<open>DropCallsAfterN(n)\<close> the next \<open>n\<close> calls to connected peers, whichever
  they are, reach the port at the other end of their connection, and every later one is dropped.
\<close>

theorem proxy_drops_after_n:
  assumes "0 \<le> n" "\<forall>pid \<in> set pids. \<exists>c p. client s pid = Some c \<and> conns w c = Some p"
    and "k < length pids"
  shows "snd (calls_run pids w (DropCallsAfterN n s)) ! k =
    (if int k < n then CallTo (the (conns w (the (client s (pids ! k))))) else CallDropped)"
  using calls_run_drop [of "DropCallsAfterN n s" pids w k] assms by (simp add: DropCallsAfterN_def)

theorem proxy_drops_after_n_witness:
  "\<exists>w s. snd (calls_run [5, 5, 5] w (DropCallsAfterN 2 (s :: int Server))) = [CallTo 9, CallTo 9, CallDropped]"
proof -
  let ?w = "empty_network\<lparr>ports := [9], conns := [0 \<mapsto> 9], next_conn := 1\<rparr>"
  let ?s = "(srv_NewServer 1 [5] NewMapStorage)\<lparr>peerClients := [(5, Some 0)]\<rparr> :: int Server"
  have ok: "\<forall>pid \<in> set [5, 5, 5]. \<exists>c p. client ?s pid = Some c \<and> conns ?w c = Some p"
    by (simp add: client_def)
  have "snd (calls_run [5, 5, 5] ?w (DropCallsAfterN 2 ?s)) = [CallTo 9, CallTo 9, CallDropped]"
  proof (rule nth_equalityI)
    fix k assume "k < length (snd (calls_run [5, 5, 5] ?w (DropCallsAfterN 2 ?s)))"
    then have k: "k < length [5 :: int, 5, 5]" by (simp only: length_calls_run)
    have "[5 :: int, 5, 5] ! k = 5" using k by (auto simp: less_Suc_eq numeral_eq_Suc)
    with proxy_drops_after_n [OF _ ok k, of 2]
    show "snd (calls_run [5, 5, 5] ?w (DropCallsAfterN 2 ?s)) ! k = [CallTo 9, CallTo 9, CallDropped] ! k"
      using k by (auto simp: client_def less_Suc_eq numeral_eq_Suc)
  qed (simp only: length_calls_run, simp)
  then show ?thesis by blast
qed

end
