(* ===== verification/RaftHarness.thy ===== *)
theory RaftHarness
  imports RaftServer
begin

text \<open>
  The test harness \<^verbatim>\<open>src/raft/part3/testharness.go\<close>: a cluster of servers that a test partitions,
  crashes and restarts, and the checks a test makes. A test is sequential, so each method is a
  function of the harness; a call of \<^verbatim>\<open>t.Fatal\<close> ends the test like a panic, a call of \<^verbatim>\<open>t.Errorf\<close>
  is recorded. The consensus modules run meanwhile: what \<^verbatim>\<open>Report\<close> answers at the instants at which
  a check asks is an argument. Server numbers are naturals; an index outside the slices panics.
\<close>

record 'c Harness =
  h_net :: network
  h_cluster :: "'c Server list"
  h_commits :: "'c CommitEntry list list"
  h_connected :: "bool list"
  h_alive :: "bool list"
  h_closed :: bool
  h_n :: nat

text \<open>\<open>h_closed\<close>: the commit channels are closed. The slice \<^verbatim>\<open>storage\<close> holds the pointers that the
  consensus modules have, so the contents of an entry are those in the module.\<close>

definition storage_of :: "'c Server \<Rightarrow> 'c gob MapStorage" where
  "storage_of s = (case srv_cm s of None \<Rightarrow> srv_storage s | Some cm \<Rightarrow> storage cm)"

definition put_server :: "nat \<Rightarrow> network \<Rightarrow> 'c Server \<Rightarrow> 'c Harness \<Rightarrow> 'c Harness" where
  "put_server i w s h = h\<lparr>h_net := w, h_cluster := (h_cluster h)[i := s]\<rparr>"

definition peers_of :: "nat \<Rightarrow> nat \<Rightarrow> int list" where
  "peers_of n i = map int (filter (\<lambda>p. p \<noteq> i) [0..<n])"

section \<open>Building a cluster\<close>

fun start_servers :: "nat \<Rightarrow> nat list \<Rightarrow> network \<Rightarrow> (network \<times> 'c Server list) go" where
  "start_servers n [] w = Inr (w, [])"
| "start_servers n (i # is) w =
     go_bind (Serve w (srv_NewServer (int i) (peers_of n i) NewMapStorage)) (\<lambda>(w1, s).
     go_bind (start_servers n is w1) (\<lambda>(w2, ss). Inr (w2, s # ss)))"

text \<open>\<^verbatim>\<open>h.cluster[i].ConnectToPeer(j, h.cluster[j].GetListenAddr())\<close>.\<close>

definition h_connect :: "nat \<Rightarrow> nat \<Rightarrow> 'c Harness \<Rightarrow> ('c Harness \<times> bool) go" where
  "h_connect i j h =
     go_bind (GetListenAddr (h_cluster h ! j)) (\<lambda>addr.
       let (w, s, ok) = ConnectToPeer (int j) addr (h_net h) (h_cluster h ! i)
       in Inr (put_server i w s h, ok))"

fun connect_all :: "(nat \<times> nat) list \<Rightarrow> 'c Harness \<Rightarrow> 'c Harness go" where
  "connect_all [] h = Inr h"
| "connect_all ((i, j) # ps) h =
     (if i \<noteq> j then go_bind (h_connect i j h) (\<lambda>(h', ok). connect_all ps h') else connect_all ps h)"

definition NewHarness :: "network \<Rightarrow> nat \<Rightarrow> 'c Harness go" where
  "NewHarness w n =
     go_bind (start_servers n [0..<n] w) (\<lambda>(w1, ss).
     go_bind (connect_all (List.product [0..<n] [0..<n])
        \<lparr>h_net = w1, h_cluster = ss, h_commits = replicate n [], h_connected = replicate n True,
         h_alive = replicate n True, h_closed = False, h_n = n\<rparr>)
       Inr)"

section \<open>Faults\<close>

definition disconnect_step :: "nat \<Rightarrow> nat \<Rightarrow> 'c Harness \<Rightarrow> 'c Harness" where
  "disconnect_step i j h =
     (if j \<noteq> i
      then let (w, s, ok) = srv_DisconnectPeer (int i) (h_net h) (h_cluster h ! j) in put_server j w s h
      else h)"

definition h_DisconnectPeer :: "nat \<Rightarrow> 'c Harness \<Rightarrow> 'c Harness go" where
  "h_DisconnectPeer i h =
     (if i < h_n h
      then let (w, s) = DisconnectAll (h_net h) (h_cluster h ! i);
               h1 = put_server i w s h;
               h2 = fold (disconnect_step i) [0..<h_n h] h1
           in Inr (h2\<lparr>h_connected := (h_connected h2)[i := False]\<rparr>)
      else Inl IndexOutOfRange)"

fun reconnect_loop :: "nat \<Rightarrow> nat list \<Rightarrow> 'c Harness \<Rightarrow> 'c Harness go" where
  "reconnect_loop i [] h = Inr h"
| "reconnect_loop i (j # js) h =
     (if j \<noteq> i \<and> h_alive h ! j
      then go_bind (h_connect i j h) (\<lambda>(h1, ok1).
             if \<not> ok1 then Inl (Fatal ''ConnectToPeer'')
             else go_bind (h_connect j i h1) (\<lambda>(h2, ok2).
                    if \<not> ok2 then Inl (Fatal ''ConnectToPeer'') else reconnect_loop i js h2))
      else reconnect_loop i js h)"

definition h_ReconnectPeer :: "nat \<Rightarrow> 'c Harness \<Rightarrow> 'c Harness go" where
  "h_ReconnectPeer i h =
     (if i < h_n h
      then go_bind (reconnect_loop i [0..<h_n h] h) (\<lambda>h1. Inr (h1\<lparr>h_connected := (h_connected h1)[i := True]\<rparr>))
      else Inl IndexOutOfRange)"

text \<open>The operations that wait return \<open>None\<close> for a wait that does not end.\<close>

definition h_CrashPeer :: "nat \<Rightarrow> 'c Harness \<Rightarrow> 'c Harness go option" where
  "h_CrashPeer i h =
     (case h_DisconnectPeer i h of
        Inl e \<Rightarrow> Some (Inl e)
      | Inr h1 \<Rightarrow>
          let h2 = h1\<lparr>h_alive := (h_alive h1)[i := False]\<rparr>
          in (case Shutdown (h_net h2) (h_cluster h2 ! i) of
                None \<Rightarrow> None
              | Some (Inl e) \<Rightarrow> Some (Inl e)
              | Some (Inr (w, s)) \<Rightarrow>
                  let h3 = put_server i w s h2 in Some (Inr (h3\<lparr>h_commits := (h_commits h3)[i := []]\<rparr>))))"

definition h_RestartPeer :: "nat \<Rightarrow> 'c Harness \<Rightarrow> 'c Harness go" where
  "h_RestartPeer i h =
     (if \<not> i < h_n h then Inl IndexOutOfRange
      else if h_alive h ! i then Inl (Fatal ''alive in RestartPeer'')
      else go_bind (Serve (h_net h) (srv_NewServer (int i) (peers_of (h_n h) i) (storage_of (h_cluster h ! i)))) (\<lambda>(w, s).
           go_bind (h_ReconnectPeer i (put_server i w s h)) (\<lambda>h1.
             Inr (h1\<lparr>h_alive := (h_alive h1)[i := True]\<rparr>))))"

definition h_PeerDropCallsAfterN :: "nat \<Rightarrow> int \<Rightarrow> 'c Harness \<Rightarrow> 'c Harness go" where
  "h_PeerDropCallsAfterN i n h =
     (if i < h_n h then Inr (put_server i (h_net h) (DropCallsAfterN n (h_cluster h ! i)) h) else Inl IndexOutOfRange)"

definition h_PeerDontDropCalls :: "nat \<Rightarrow> 'c Harness \<Rightarrow> 'c Harness go" where
  "h_PeerDontDropCalls i h =
     (if i < h_n h then Inr (put_server i (h_net h) (DontDropCalls (h_cluster h ! i)) h) else Inl IndexOutOfRange)"

definition h_SubmitToServer :: "nat \<Rightarrow> 'c \<Rightarrow> 'c Harness \<Rightarrow> ('c Harness \<times> int \<times> effect list) go" where
  "h_SubmitToServer i cmd h =
     (if i < h_n h
      then go_bind (srv_Submit cmd (h_cluster h ! i)) (\<lambda>(s, k, es). Inr (put_server i (h_net h) s h, k, es))
      else Inl IndexOutOfRange)"

definition collectCommits :: "nat \<Rightarrow> 'c CommitEntry \<Rightarrow> 'c Harness \<Rightarrow> 'c Harness" where
  "collectCommits i c h = h\<lparr>h_commits := (h_commits h)[i := h_commits h ! i @ [c]]\<rparr>"

definition detach_step :: "nat \<Rightarrow> 'c Harness \<Rightarrow> 'c Harness" where
  "detach_step i h =
     (let (w, s) = DisconnectAll (h_net h) (h_cluster h ! i); h1 = put_server i w s h
      in h1\<lparr>h_connected := (h_connected h1)[i := False]\<rparr>)"

fun shutdown_loop :: "nat list \<Rightarrow> 'c Harness \<Rightarrow> 'c Harness go option" where
  "shutdown_loop [] h = Some (Inr h)"
| "shutdown_loop (i # is) h =
     (if h_alive h ! i
      then let h1 = h\<lparr>h_alive := (h_alive h)[i := False]\<rparr>
           in (case Shutdown (h_net h1) (h_cluster h1 ! i) of
                 None \<Rightarrow> None
               | Some (Inl e) \<Rightarrow> Some (Inl e)
               | Some (Inr (w, s)) \<Rightarrow> shutdown_loop is (put_server i w s h1))
      else shutdown_loop is h)"

definition h_Shutdown :: "'c Harness \<Rightarrow> 'c Harness go option" where
  "h_Shutdown h =
     (case shutdown_loop [0..<h_n h] (fold detach_step [0..<h_n h] h) of
        None \<Rightarrow> None
      | Some (Inl e) \<Rightarrow> Some (Inl e)
      | Some (Inr h1) \<Rightarrow>
          if h_closed h1 \<and> 0 < h_n h1 then Some (Inl (Explicit ''close of closed channel''))
          else Some (Inr (h1\<lparr>h_closed := True\<rparr>)))"

section \<open>Checks\<close>

text \<open>The loop over the servers: the leader found so far, \<open>-1\<close> at first.\<close>

fun leader_loop :: "bool list \<Rightarrow> (nat \<Rightarrow> int \<times> int \<times> bool) \<Rightarrow> nat list \<Rightarrow> int \<times> int \<Rightarrow> (int \<times> int) go" where
  "leader_loop con report [] found = Inr found"
| "leader_loop con report (i # is) found =
     (if con ! i
      then let (_, t, isLeader) = report i
           in if isLeader
              then if fst found < 0 then leader_loop con report is (int i, t)
                   else Inl (Fatal ''both think they are leaders'')
              else leader_loop con report is found
      else leader_loop con report is found)"

text \<open>\<open>reports r i\<close> is what server \<open>i\<close> reports in round \<open>r\<close>; there are eight rounds.\<close>

fun leader_rounds ::
  "bool list \<Rightarrow> (nat \<Rightarrow> nat \<Rightarrow> int \<times> int \<times> bool) \<Rightarrow> nat \<Rightarrow> nat list \<Rightarrow> (int \<times> int) go" where
  "leader_rounds con reports n [] = Inl (Fatal ''leader not found'')"
| "leader_rounds con reports n (r # rs) =
     go_bind (leader_loop con (reports r) [0..<n] (-1, -1)) (\<lambda>found.
       if fst found \<ge> 0 then Inr found else leader_rounds con reports n rs)"

definition CheckSingleLeader :: "(nat \<Rightarrow> nat \<Rightarrow> int \<times> int \<times> bool) \<Rightarrow> 'c Harness \<Rightarrow> (int \<times> int) go" where
  "CheckSingleLeader reports h = leader_rounds (h_connected h) reports (h_n h) [0..<8]"

definition CheckNoLeader :: "(nat \<Rightarrow> int \<times> int \<times> bool) \<Rightarrow> 'c Harness \<Rightarrow> unit go" where
  "CheckNoLeader report h =
     (if \<exists>i \<in> set [0..<h_n h]. h_connected h ! i \<and> (case report i of (_, _, isLeader) \<Rightarrow> isLeader)
      then Inl (Fatal ''leader; want none'') else Inr ())"

datatype test_error = CommandMismatch nat nat | IndexMismatch nat nat | NotFound int
  | WrongCount int int | FoundCommand nat nat

fun length_loop :: "bool list \<Rightarrow> 'c CommitEntry list list \<Rightarrow> nat list \<Rightarrow> int \<Rightarrow> int go" where
  "length_loop con cs [] commitsLen = Inr commitsLen"
| "length_loop con cs (i # is) commitsLen =
     (if con ! i
      then if commitsLen \<ge> 0
           then if int (length (cs ! i)) \<noteq> commitsLen then Inl (Fatal ''commitsLen'')
                else length_loop con cs is commitsLen
           else length_loop con cs is (int (length (cs ! i)))
      else length_loop con cs is commitsLen)"

fun command_loop ::
  "bool list \<Rightarrow> int CommitEntry list list \<Rightarrow> nat \<Rightarrow> nat list \<Rightarrow> int \<Rightarrow> test_error list \<Rightarrow> int \<times> test_error list" where
  "command_loop con cs c [] cmdAtC errs = (cmdAtC, errs)"
| "command_loop con cs c (i # is) cmdAtC errs =
     (if con ! i
      then let cmdOfN = ce_Command (cs ! i ! c)
           in if cmdAtC \<ge> 0
              then command_loop con cs c is cmdAtC (if cmdOfN \<noteq> cmdAtC then errs @ [CommandMismatch i c] else errs)
              else command_loop con cs c is cmdOfN errs
      else command_loop con cs c is cmdAtC errs)"

fun index_loop ::
  "bool list \<Rightarrow> int CommitEntry list list \<Rightarrow> nat \<Rightarrow> nat list \<Rightarrow> int \<Rightarrow> int \<Rightarrow> test_error list \<Rightarrow> int \<times> int \<times> test_error list" where
  "index_loop con cs c [] index nc errs = (nc, index, errs)"
| "index_loop con cs c (i # is) index nc errs =
     (if con ! i
      then if index \<ge> 0 \<and> ce_Index (cs ! i ! c) \<noteq> index
           then index_loop con cs c is index (nc + 1) (errs @ [IndexMismatch i c])
           else index_loop con cs c is (ce_Index (cs ! i ! c)) (nc + 1) errs
      else index_loop con cs c is index nc errs)"

fun committed_loop ::
  "int \<Rightarrow> int Harness \<Rightarrow> nat list \<Rightarrow> test_error list \<Rightarrow> int \<times> int \<times> test_error list" where
  "committed_loop cmd h [] errs = (-1, -1, errs @ [NotFound cmd])"
| "committed_loop cmd h (c # cs) errs =
     (let (cmdAtC, errs1) = command_loop (h_connected h) (h_commits h) c [0..<h_n h] (-1) errs
      in if cmdAtC = cmd then index_loop (h_connected h) (h_commits h) c [0..<h_n h] (-1) 0 errs1
         else committed_loop cmd h cs errs1)"

definition CheckCommitted :: "int \<Rightarrow> int Harness \<Rightarrow> (int \<times> int \<times> test_error list) go" where
  "CheckCommitted cmd h =
     go_bind (length_loop (h_connected h) (h_commits h) [0..<h_n h] (-1)) (\<lambda>commitsLen.
       Inr (committed_loop cmd h [0..<nat commitsLen] []))"

definition CheckCommittedN :: "int \<Rightarrow> int \<Rightarrow> int Harness \<Rightarrow> test_error list go" where
  "CheckCommittedN cmd n h =
     go_bind (CheckCommitted cmd h) (\<lambda>(nc, _, errs). Inr (if nc \<noteq> n then errs @ [WrongCount nc n] else errs))"

definition CheckNotCommitted :: "int \<Rightarrow> int Harness \<Rightarrow> test_error list" where
  "CheckNotCommitted cmd h =
     concat (map (\<lambda>i. if h_connected h ! i
                      then map (FoundCommand i) (filter (\<lambda>c. ce_Command (h_commits h ! i ! c) = cmd) [0..<length (h_commits h ! i)])
                      else []) [0..<h_n h])"

end
