(* ===== verification/RaftHarnessFacts.thy ===== *)
theory RaftHarnessFacts
  imports RaftHarness
begin

text \<open>
  What the test harness guarantees about the cluster it runs: the connections are well formed in
  every state a test can bring about, no operation blocks or panics as long as the test only crashes
  live servers and restarts dead ones, and the faults change the links between the servers exactly
  as their names say.
\<close>

section \<open>Well-formed connections\<close>

text \<open>A server can be created from the storage.\<close>

definition restorable :: "'c gob MapStorage \<Rightarrow> bool" where
  "restorable st \<longleftrightarrow> (\<forall>i ps. \<exists>cm. NewConsensusModule i ps st = Inr cm)"

lemma restorable_new: "restorable NewMapStorage"
  by (simp add: restorable_def part3_new_eq)

lemma restorable_persist: "restorable (storage (persistToStorage cm))"
  by (simp add: restorable_def NewConsensusModule_def restoreFromStorage_def persisted_data)

definition server_ok :: "network \<Rightarrow> 'c Server \<Rightarrow> bool" where
  "server_ok w s \<longleftrightarrow> srv_cm s \<noteq> None \<and> restorable (storage_of s) \<and> distinct (map fst (peerClients s))
     \<and> (\<exists>p < next_port w. listener s = Some p \<and> (p \<in> set (ports w) \<longleftrightarrow> \<not> quit s))"

text \<open>\<open>owns h i k c\<close>: the connection \<open>c\<close> is the client of server \<open>i\<close> for peer \<open>k\<close>.\<close>

definition owns :: "'c Harness \<Rightarrow> nat \<Rightarrow> int \<Rightarrow> nat \<Rightarrow> bool" where
  "owns h i k c \<longleftrightarrow> i < h_n h \<and> client (h_cluster h ! i) k = Some c"

definition link_ok :: "'c Harness \<Rightarrow> nat \<Rightarrow> int \<Rightarrow> nat \<Rightarrow> bool" where
  "link_ok h i k c \<longleftrightarrow> (\<exists>j < h_n h. k = int j \<and> j \<noteq> i \<and> \<not> quit (h_cluster h ! i) \<and> \<not> quit (h_cluster h ! j)
     \<and> conns (h_net h) c = listener (h_cluster h ! j))"

text \<open>Every client is open and leads to the peer it is for, no connection has two owners, and none is
  left open without an owner.\<close>

definition net_ok :: "'c Harness \<Rightarrow> bool" where
  "net_ok h \<longleftrightarrow> can_listen (h_net h) \<and> length (h_cluster h) = h_n h
     \<and> (\<forall>i < h_n h. server_ok (h_net h) (h_cluster h ! i))
     \<and> (\<forall>i < h_n h. \<forall>j < h_n h. listener (h_cluster h ! i) = listener (h_cluster h ! j) \<longrightarrow> i = j)
     \<and> (\<forall>i k c. owns h i k c \<longrightarrow> link_ok h i k c)
     \<and> (\<forall>i j k l c. owns h i k c \<longrightarrow> owns h j l c \<longrightarrow> i = j \<and> k = l)
     \<and> (\<forall>c p. conns (h_net h) c = Some p \<longrightarrow> c < next_conn (h_net h) \<and> (\<exists>i k. owns h i k c))"

lemma net_okD:
  assumes "net_ok h"
  shows "can_listen (h_net h)" "length (h_cluster h) = h_n h"
    "i < h_n h \<Longrightarrow> server_ok (h_net h) (h_cluster h ! i)"
    "i < h_n h \<Longrightarrow> j < h_n h \<Longrightarrow> listener (h_cluster h ! i) = listener (h_cluster h ! j) \<Longrightarrow> i = j"
    "owns h i k c \<Longrightarrow> link_ok h i k c" "owns h i k c \<Longrightarrow> owns h j l c \<Longrightarrow> i = j \<and> k = l"
    "conns (h_net h) c = Some p \<Longrightarrow> c < next_conn (h_net h) \<and> (\<exists>i k. owns h i k c)"
  using assms unfolding net_ok_def by blast+

definition links :: "'c Harness \<Rightarrow> (nat \<times> nat) set" where
  "links h = {(i, j). \<exists>c. owns h i (int j) c}"

text \<open>The harness after a step that only changes clients and connections.\<close>

definition wires_only :: "'c Harness \<Rightarrow> 'c Harness \<Rightarrow> bool" where
  "wires_only h h' \<longleftrightarrow>
     (\<exists>w ss. h' = h\<lparr>h_net := w, h_cluster := ss\<rparr> \<and> length ss = length (h_cluster h)
        \<and> can_listen w = can_listen (h_net h) \<and> ports w = ports (h_net h) \<and> next_port w = next_port (h_net h)
        \<and> (\<forall>i < length ss. \<exists>pcs. ss ! i = (h_cluster h ! i)\<lparr>peerClients := pcs\<rparr>
             \<and> (distinct (map fst (peerClients (h_cluster h ! i))) \<longrightarrow> distinct (map fst pcs))))"

lemma wires_onlyD:
  assumes "wires_only h h'"
  shows "h_n h' = h_n h" "h_alive h' = h_alive h" "h_connected h' = h_connected h" "h_commits h' = h_commits h"
    "h_closed h' = h_closed h" "length (h_cluster h') = length (h_cluster h)"
    "i < length (h_cluster h) \<Longrightarrow> quit (h_cluster h' ! i) = quit (h_cluster h ! i)
       \<and> listener (h_cluster h' ! i) = listener (h_cluster h ! i) \<and> srv_cm (h_cluster h' ! i) = srv_cm (h_cluster h ! i)
       \<and> numCallsBeforeDrop (h_cluster h' ! i) = numCallsBeforeDrop (h_cluster h ! i)"
proof -
  obtain w ss where h': "h' = h\<lparr>h_net := w, h_cluster := ss\<rparr>" "length ss = length (h_cluster h)"
      "\<And>i. i < length ss \<Longrightarrow> \<exists>pcs. ss ! i = (h_cluster h ! i)\<lparr>peerClients := pcs\<rparr>"
    using assms unfolding wires_only_def by blast
  then show "h_n h' = h_n h" "h_alive h' = h_alive h" "h_connected h' = h_connected h" "h_commits h' = h_commits h"
    "h_closed h' = h_closed h" "length (h_cluster h') = length (h_cluster h)" by simp_all
  show "i < length (h_cluster h) \<Longrightarrow> quit (h_cluster h' ! i) = quit (h_cluster h ! i)
       \<and> listener (h_cluster h' ! i) = listener (h_cluster h ! i) \<and> srv_cm (h_cluster h' ! i) = srv_cm (h_cluster h ! i)
       \<and> numCallsBeforeDrop (h_cluster h' ! i) = numCallsBeforeDrop (h_cluster h ! i)"
    using h'(3) [of i] h'(1,2) by auto
qed

lemma wires_only_refl [simp]: "wires_only h h"
proof -
  have "\<exists>pcs. h_cluster h ! i = (h_cluster h ! i)\<lparr>peerClients := pcs\<rparr>
      \<and> (distinct (map fst (peerClients (h_cluster h ! i))) \<longrightarrow> distinct (map fst pcs))" for i
    by (rule exI [of _ "peerClients (h_cluster h ! i)"]) simp
  then show ?thesis
    unfolding wires_only_def by (intro exI [of _ "h_net h"] exI [of _ "h_cluster h"]) simp
qed

lemma wires_only_trans:
  assumes "wires_only h h1" "wires_only h1 h2"
  shows "wires_only h h2"
proof -
  obtain w ss where 1: "h1 = h\<lparr>h_net := w, h_cluster := ss\<rparr>" "length ss = length (h_cluster h)"
      "can_listen w = can_listen (h_net h)" "ports w = ports (h_net h)" "next_port w = next_port (h_net h)"
      "\<And>i. i < length ss \<Longrightarrow> \<exists>pcs. ss ! i = (h_cluster h ! i)\<lparr>peerClients := pcs\<rparr>
          \<and> (distinct (map fst (peerClients (h_cluster h ! i))) \<longrightarrow> distinct (map fst pcs))"
    using assms(1) unfolding wires_only_def by blast
  obtain w' ss' where 2: "h2 = h1\<lparr>h_net := w', h_cluster := ss'\<rparr>" "length ss' = length ss"
      "can_listen w' = can_listen w" "ports w' = ports w" "next_port w' = next_port w"
      "\<And>i. i < length ss' \<Longrightarrow> \<exists>pcs. ss' ! i = (ss ! i)\<lparr>peerClients := pcs\<rparr>
          \<and> (distinct (map fst (peerClients (ss ! i))) \<longrightarrow> distinct (map fst pcs))"
    using assms(2) 1(1) unfolding wires_only_def by auto
  have "\<exists>pcs. ss' ! i = (h_cluster h ! i)\<lparr>peerClients := pcs\<rparr>
          \<and> (distinct (map fst (peerClients (h_cluster h ! i))) \<longrightarrow> distinct (map fst pcs))" if "i < length ss'" for i
    using 1(6) [of i] 2(6) [OF that] 2(2) that by fastforce
  then show ?thesis
    unfolding wires_only_def using 1 2 by (intro exI [of _ w'] exI [of _ ss']) simp
qed

lemma wires_only_put:
  assumes "can_listen w = can_listen (h_net h)" "ports w = ports (h_net h)" "next_port w = next_port (h_net h)"
    and "distinct (map fst (peerClients (h_cluster h ! i))) \<Longrightarrow> distinct (map fst pcs)"
  shows "wires_only h (put_server i w ((h_cluster h ! i)\<lparr>peerClients := pcs\<rparr>) h)"
proof -
  have "\<exists>q. ((h_cluster h)[i := (h_cluster h ! i)\<lparr>peerClients := pcs\<rparr>]) ! j = (h_cluster h ! j)\<lparr>peerClients := q\<rparr>
      \<and> (distinct (map fst (peerClients (h_cluster h ! j))) \<longrightarrow> distinct (map fst q))" if "j < length (h_cluster h)" for j
    using assms(4) that by (cases "j = i") (auto intro: exI [of _ "peerClients (h_cluster h ! j)"])
  then show ?thesis
    unfolding wires_only_def put_server_def using assms(1-3)
    by (intro exI [of _ w] exI [of _ "(h_cluster h)[i := (h_cluster h ! i)\<lparr>peerClients := pcs\<rparr>]"]) simp
qed

lemma server_ok_wires:
  assumes "wires_only h h'" "i < length (h_cluster h)" "server_ok (h_net h) (h_cluster h ! i)"
  shows "server_ok (h_net h') (h_cluster h' ! i)"
proof -
  obtain w ss where h': "h' = h\<lparr>h_net := w, h_cluster := ss\<rparr>" "length ss = length (h_cluster h)"
      "ports w = ports (h_net h)" "next_port w = next_port (h_net h)"
    and pcs: "\<exists>pcs. ss ! i = (h_cluster h ! i)\<lparr>peerClients := pcs\<rparr>
          \<and> (distinct (map fst (peerClients (h_cluster h ! i))) \<longrightarrow> distinct (map fst pcs))"
    using assms(1,2) unfolding wires_only_def by auto
  then show ?thesis using assms(3) by (auto simp: server_ok_def storage_of_def)
qed

text \<open>Clients are removed together with their connections, and one client is added on a new one.\<close>

lemma net_ok_remove:
  assumes ok: "net_ok h" and w: "wires_only h h'"
    and own: "\<And>i k c. owns h' i k c \<longleftrightarrow> owns h i k c \<and> \<not> R i k"
    and con: "conns (h_net h') = (\<lambda>c. if \<exists>i k. owns h i k c \<and> R i k then None else conns (h_net h) c)"
    and nc: "next_conn (h_net h') = next_conn (h_net h)"
  shows "net_ok h'"
proof -
  note D = net_okD [OF ok] and W = wires_onlyD [OF w]
  have cl: "can_listen (h_net h')" using D(1) w unfolding wires_only_def by auto
  have so: "server_ok (h_net h') (h_cluster h' ! i)" if "i < h_n h" for i
    using server_ok_wires [OF w _ D(3) [OF that]] that D(2) by simp
  have lk: "link_ok h' i k c" if o: "owns h' i k c" for i k c
  proof -
    have o': "owns h i k c" "\<not> R i k" using own o by auto
    obtain j where j: "j < h_n h" "k = int j" "j \<noteq> i" "\<not> quit (h_cluster h ! i)" "\<not> quit (h_cluster h ! j)"
        "conns (h_net h) c = listener (h_cluster h ! j)" using D(5) [OF o'(1)] unfolding link_ok_def by blast
    have "\<not> (\<exists>i k. owns h i k c \<and> R i k)" using o' D(6) by metis
    moreover have "i < h_n h" using o'(1) by (simp add: owns_def)
    ultimately show ?thesis unfolding link_ok_def con using j W(1) W(7) D(2) by auto
  qed
  show ?thesis
    unfolding net_ok_def
  proof (intro conjI allI impI)
    show "\<And>i j. i < h_n h' \<Longrightarrow> j < h_n h' \<Longrightarrow> listener (h_cluster h' ! i) = listener (h_cluster h' ! j) \<Longrightarrow> i = j"
      using D(2,4) W(1,7) by auto
    show "\<And>c p. conns (h_net h') c = Some p \<Longrightarrow> c < next_conn (h_net h')" using D(7) nc con by (auto split: if_splits)
    show "\<And>c p. conns (h_net h') c = Some p \<Longrightarrow> \<exists>i k. owns h' i k c" using D(7) own con by (metis option.distinct(1))
  qed (use cl so lk W D(2) own D(6) in auto)
qed

lemma net_ok_add:
  assumes ok: "net_ok h" and w: "wires_only h h'" and ij: "i < h_n h" "j < h_n h" "j \<noteq> i"
    and up: "\<not> quit (h_cluster h ! i)" "\<not> quit (h_cluster h ! j)"
    and own: "\<And>a k c. owns h' a k c \<longleftrightarrow> owns h a k c \<or> (a = i \<and> k = int j \<and> c = next_conn (h_net h))"
    and con: "conns (h_net h') = (conns (h_net h))(next_conn (h_net h) := listener (h_cluster h ! j))"
    and nc: "next_conn (h_net h') = Suc (next_conn (h_net h))"
  shows "net_ok h'"
proof -
  note D = net_okD [OF ok] and W = wires_onlyD [OF w]
  let ?c = "next_conn (h_net h)"
  have new: "\<not> owns h a k ?c" for a k
  proof
    assume "owns h a k ?c"
    then obtain b where "b < h_n h" "conns (h_net h) ?c = listener (h_cluster h ! b)" using D(5) unfolding link_ok_def by blast
    then show False using D(3) [of b] D(7) [of ?c] unfolding server_ok_def by force
  qed
  have cl: "can_listen (h_net h')" using D(1) w unfolding wires_only_def by auto
  have so: "server_ok (h_net h') (h_cluster h' ! a)" if "a < h_n h" for a
    using server_ok_wires [OF w _ D(3) [OF that]] that D(2) by simp
  have lk: "link_ok h' a k c" if o: "owns h' a k c" for a k c
  proof (cases "owns h a k c")
    case True
    then have "c \<noteq> ?c" "a < h_n h" using new by (auto simp: owns_def)
    then show ?thesis
      using D(5) [OF True] W(1,7) D(2) unfolding link_ok_def con by auto
  next
    case False
    then have "a = i" "k = int j" "c = ?c" using own o by auto
    then show ?thesis using ij up W(1,7) D(2) unfolding link_ok_def con by auto
  qed
  have un: "a = b \<and> k = l" if "owns h' a k c" "owns h' b l c" for a b k l c
    using that own new D(6) by metis
  show ?thesis
    unfolding net_ok_def
  proof (intro conjI allI impI)
    show "\<And>i j. i < h_n h' \<Longrightarrow> j < h_n h' \<Longrightarrow> listener (h_cluster h' ! i) = listener (h_cluster h' ! j) \<Longrightarrow> i = j"
      using D(2,4) W(1,7) by auto
    show "\<And>c p. conns (h_net h') c = Some p \<Longrightarrow> c < next_conn (h_net h')" using D(7) nc con by (auto simp: less_Suc_eq split: if_splits)
    show "\<And>c p. conns (h_net h') c = Some p \<Longrightarrow> \<exists>i k. owns h' i k c" using D(7) own con by (metis fun_upd_apply)
  qed (use cl so lk un W D(2) in auto)
qed


section \<open>Connecting and disconnecting\<close>

lemma owns_put:
  "length (h_cluster h) = h_n h \<Longrightarrow> i < h_n h \<Longrightarrow>
     owns (put_server i w s h) a k c \<longleftrightarrow> (if a = i then client s k = Some c else owns h a k c)"
  by (auto simp: owns_def put_server_def nth_list_update)

lemma owner_clients:
  "net_ok h \<Longrightarrow> owns h a k c \<Longrightarrow> owns h b l c \<Longrightarrow> a = b \<and> k = l"
  by (rule net_okD(6))

lemma detach_ok:
  assumes ok: "net_ok h" and i: "i < h_n h" and d: "DisconnectAll (h_net h) (h_cluster h ! i) = (w, s)"
  shows "net_ok (put_server i w s h)" "wires_only h (put_server i w s h)"
    "links (put_server i w s h) = links h - {i} \<times> UNIV"
proof -
  note D = net_okD [OF ok]
  have dist: "distinct (map fst (peerClients (h_cluster h ! i)))" using D(3) [OF i] by (simp add: server_ok_def)
  have w: "w = (h_net h)\<lparr>conns := (\<lambda>c. if \<exists>k. client (h_cluster h ! i) k = Some c then None else conns (h_net h) c)\<rparr>"
    using DisconnectAll_eq(1) [OF dist, of "h_net h"] d by simp
  have s: "client s k = None" "s = (h_cluster h ! i)\<lparr>peerClients := map (\<lambda>(pid, c). (pid, None)) (peerClients (h_cluster h ! i))\<rparr>" for k
    using DisconnectAll_eq(2) [OF dist, of "h_net h" k] d by (auto simp: DisconnectAll_def)
  show wo: "wires_only h (put_server i w s h)"
    unfolding s(2) by (rule wires_only_put) (auto simp: w comp_def case_prod_unfold)
  have own: "owns (put_server i w s h) a k c \<longleftrightarrow> owns h a k c \<and> a \<noteq> i" for a k c
    using owns_put [OF D(2) i] s(1) by auto
  then show "links (put_server i w s h) = links h - {i} \<times> UNIV" by (auto simp: links_def)
  show "net_ok (put_server i w s h)"
    by (rule net_ok_remove [OF ok wo, of "\<lambda>a k. a = i"]) (use own i in \<open>auto simp: put_server_def w owns_def fun_eq_iff\<close>)
qed

lemma disconnect_step_ok:
  assumes ok: "net_ok h" and i: "i < h_n h" and j: "j < h_n h"
  shows "net_ok (disconnect_step i j h)" "wires_only h (disconnect_step i j h)"
    "links (disconnect_step i j h) = (if j = i then links h else links h - {(j, i)})"
proof -
  note D = net_okD [OF ok]
  let ?P = "net_ok (disconnect_step i j h) \<and> wires_only h (disconnect_step i j h)
    \<and> links (disconnect_step i j h) = (if j = i then links h else links h - {(j, i)})"
  have ?P
  proof (cases "j = i \<or> client (h_cluster h ! j) (int i) = None")
    case True
    then have "disconnect_step i j h = h"
      by (auto simp: disconnect_step_def srv_DisconnectPeer_def put_server_def)
    moreover have "(j, i) \<notin> links h" if "j \<noteq> i" using True that by (auto simp: links_def owns_def)
    ultimately show ?thesis using ok by simp
  next
    case False
    then obtain c0 where c0: "client (h_cluster h ! j) (int i) = Some c0" and ne: "j \<noteq> i" by auto
    let ?w = "(h_net h)\<lparr>conns := (conns (h_net h))(c0 := None)\<rparr>"
    let ?s = "(h_cluster h ! j)\<lparr>peerClients := AList.update (int i) None (peerClients (h_cluster h ! j))\<rparr>"
    have eq: "disconnect_step i j h = put_server j ?w ?s h"
      using c0 ne by (simp add: disconnect_step_def srv_DisconnectPeer_def client_Close_def)
    have wo: "wires_only h (put_server j ?w ?s h)" by (rule wires_only_put) (auto simp: distinct_update)
    have own: "owns (put_server j ?w ?s h) a k c \<longleftrightarrow> owns h a k c \<and> \<not> (a = j \<and> k = int i)" for a k c
      using owns_put [OF D(2) j, of ?w ?s] by (auto simp: owns_def j)
    have "(\<exists>a k. owns h a k c \<and> (a = j \<and> k = int i)) \<longleftrightarrow> c = c0" for c
      using c0 j by (auto simp: owns_def)
    then have "net_ok (put_server j ?w ?s h)"
      using net_ok_remove [OF ok wo own] by (simp add: put_server_def fun_upd_def)
    moreover have "links (put_server j ?w ?s h) = links h - {(j, i)}" using own by (auto simp: links_def)
    ultimately show ?thesis using wo ne by (simp add: eq)
  qed
  then show "net_ok (disconnect_step i j h)" "wires_only h (disconnect_step i j h)"
    "links (disconnect_step i j h) = (if j = i then links h else links h - {(j, i)})" by auto
qed

lemma disconnect_fold_ok:
  assumes "net_ok h" "i < h_n h" "\<forall>j \<in> set js. j < h_n h"
  shows "net_ok (fold (disconnect_step i) js h) \<and> wires_only h (fold (disconnect_step i) js h)
    \<and> links (fold (disconnect_step i) js h) = links h - {(j, i) |j. j \<in> set js \<and> j \<noteq> i}"
  using assms
proof (induction js arbitrary: h)
  case (Cons j js)
  let ?h = "disconnect_step i j h"
  note s = disconnect_step_ok [OF Cons.prems(1,2), of j]
  have j: "j < h_n h" "h_n ?h = h_n h" using Cons.prems(3) wires_onlyD(1) [OF s(2)] by auto
  have "net_ok (fold (disconnect_step i) js ?h) \<and> wires_only ?h (fold (disconnect_step i) js ?h)
    \<and> links (fold (disconnect_step i) js ?h) = links ?h - {(j, i) |j. j \<in> set js \<and> j \<noteq> i}"
    by (rule Cons.IH) (use s j Cons.prems in auto)
  then show ?case using s j wires_only_trans by (auto split: if_splits)
qed simp

lemma DisconnectPeer_ok:
  assumes ok: "net_ok h" and i: "i < h_n h"
  shows "\<exists>h'. wires_only h h' \<and> net_ok h' \<and> links h' = links h - {(a, b). a = i \<or> b = i}
    \<and> h_DisconnectPeer i h = Inr (h'\<lparr>h_connected := (h_connected h)[i := False]\<rparr>)"
proof -
  obtain w s where d: "DisconnectAll (h_net h) (h_cluster h ! i) = (w, s)" by fastforce
  note 1 = detach_ok [OF ok i d]
  let ?h1 = "put_server i w s h" let ?h2 = "fold (disconnect_step i) [0..<h_n h] ?h1"
  have n: "h_n ?h1 = h_n h" by (simp add: put_server_def)
  have 2: "net_ok ?h2 \<and> wires_only ?h1 ?h2 \<and> links ?h2 = links ?h1 - {(j, i) |j. j \<in> set [0..<h_n h] \<and> j \<noteq> i}"
    by (rule disconnect_fold_ok [OF 1(1)]) (use i n in auto)
  have w: "wires_only h ?h2" using wires_only_trans [OF 1(2)] 2 by blast
  have bound: "a < h_n h" if "(a, b) \<in> links h" for a b using that by (auto simp: links_def owns_def)
  have "links ?h2 = links h - {(a, b). a = i \<or> b = i}" using 2 1(3) bound by fastforce
  moreover have "h_DisconnectPeer i h = Inr (?h2\<lparr>h_connected := (h_connected h)[i := False]\<rparr>)"
    using i d n wires_onlyD(3) [OF w] by (simp add: h_DisconnectPeer_def)
  ultimately show ?thesis using 2 w by blast
qed

lemma h_connect_ok:
  assumes ok: "net_ok h" and ij: "i < h_n h" "j < h_n h" "j \<noteq> i"
    and up: "\<not> quit (h_cluster h ! i)" "\<not> quit (h_cluster h ! j)"
  shows "\<exists>h'. h_connect i j h = Inr (h', True) \<and> net_ok h' \<and> wires_only h h' \<and> links h' = insert (i, j) (links h)"
proof -
  note D = net_okD [OF ok]
  obtain p where p: "listener (h_cluster h ! j) = Some p" "p \<in> set (ports (h_net h))"
    using D(3) [OF ij(2)] up(2) by (auto simp: server_ok_def)
  show ?thesis
  proof (cases "client (h_cluster h ! i) (int j)")
    case (Some c)
    then have "h_connect i j h = Inr (h, True)" using p
      by (simp add: h_connect_def GetListenAddr_def ConnectToPeer_def put_server_def)
    moreover have "(i, j) \<in> links h" using Some ij(1) by (auto simp: links_def owns_def)
    ultimately show ?thesis using ok by (auto simp: insert_absorb)
  next
    case None
    let ?c = "next_conn (h_net h)"
    let ?w = "(h_net h)\<lparr>conns := (conns (h_net h))(?c \<mapsto> p), next_conn := Suc ?c\<rparr>"
    let ?s = "(h_cluster h ! i)\<lparr>peerClients := AList.update (int j) (Some ?c) (peerClients (h_cluster h ! i))\<rparr>"
    have eq: "h_connect i j h = Inr (put_server i ?w ?s h, True)"
      using None p by (simp add: h_connect_def GetListenAddr_def ConnectToPeer_def rpc_Dial_def)
    have wo: "wires_only h (put_server i ?w ?s h)" by (rule wires_only_put) (auto simp: distinct_update)
    have own: "owns (put_server i ?w ?s h) a k c \<longleftrightarrow> owns h a k c \<or> (a = i \<and> k = int j \<and> c = ?c)" for a k c
      using owns_put [OF D(2) ij(1), of ?w ?s] None by (auto simp: owns_def ij(1))
    have "net_ok (put_server i ?w ?s h)"
      by (rule net_ok_add [OF ok wo ij up own]) (simp_all add: put_server_def p)
    moreover have "links (put_server i ?w ?s h) = insert (i, j) (links h)" using own by (auto simp: links_def)
    ultimately show ?thesis using eq wo by blast
  qed
qed


lemma quit_wires: "wires_only h h' \<Longrightarrow> net_ok h \<Longrightarrow> i < h_n h \<Longrightarrow> quit (h_cluster h' ! i) = quit (h_cluster h ! i)"
  using wires_onlyD(7) [of h h' i] by (simp add: net_okD(2))

lemma reconnect_loop_ok:
  assumes "net_ok h" "i < h_n h" "\<not> quit (h_cluster h ! i)"
    and "\<forall>j \<in> set js. j < h_n h \<and> (h_alive h ! j \<longrightarrow> j \<noteq> i \<longrightarrow> \<not> quit (h_cluster h ! j))"
  shows "\<exists>h'. reconnect_loop i js h = Inr h' \<and> net_ok h' \<and> wires_only h h'
    \<and> links h' = links h \<union> {(a, b). \<exists>j \<in> set js. j \<noteq> i \<and> h_alive h ! j \<and> (a = i \<and> b = j \<or> a = j \<and> b = i)}"
  using assms
proof (induction js arbitrary: h)
  case (Cons j js)
  show ?case
  proof (cases "j \<noteq> i \<and> h_alive h ! j")
    case True
    then have j: "j < h_n h" "\<not> quit (h_cluster h ! j)" "j \<noteq> i" "i \<noteq> j" using Cons.prems(4) by auto
    obtain h1 where h1: "h_connect i j h = Inr (h1, True)" "net_ok h1" "wires_only h h1" "links h1 = insert (i, j) (links h)"
      using h_connect_ok [OF Cons.prems(1,2) j(1,3) Cons.prems(3) j(2)] by blast
    note W1 = wires_onlyD [OF h1(3)] and Q1 = quit_wires [OF h1(3) Cons.prems(1)]
    obtain h2 where h2: "h_connect j i h1 = Inr (h2, True)" "net_ok h2" "wires_only h1 h2" "links h2 = insert (j, i) (links h1)"
      using h_connect_ok [OF h1(2), of j i] Cons.prems(2,3) j W1(1) Q1 by auto
    note W2 = wires_onlyD [OF wires_only_trans [OF h1(3) h2(3)]] and Q2 = quit_wires [OF wires_only_trans [OF h1(3) h2(3)] Cons.prems(1)]
    have "\<exists>h'. reconnect_loop i js h2 = Inr h' \<and> net_ok h' \<and> wires_only h2 h'
      \<and> links h' = links h2 \<union> {(a, b). \<exists>j \<in> set js. j \<noteq> i \<and> h_alive h2 ! j \<and> (a = i \<and> b = j \<or> a = j \<and> b = i)}"
      by (rule Cons.IH [OF h2(2)]) (use Cons.prems W2 Q2 in auto)
    then obtain h' where h': "reconnect_loop i js h2 = Inr h'" "net_ok h'" "wires_only h2 h'"
      "links h' = links h2 \<union> {(a, b). \<exists>j \<in> set js. j \<noteq> i \<and> h_alive h2 ! j \<and> (a = i \<and> b = j \<or> a = j \<and> b = i)}" by blast
    have "wires_only h h'" using h1(3) h2(3) h'(3) wires_only_trans by blast
    moreover have "links h' = links h \<union> {(a, b). \<exists>j' \<in> set (j # js). j' \<noteq> i \<and> h_alive h ! j' \<and> (a = i \<and> b = j' \<or> a = j' \<and> b = i)}"
      unfolding h'(4) h2(4) h1(4) W2(2) using True by auto
    ultimately show ?thesis using True h1(1) h2(1) h'(1,2) by auto
  next
    case False
    then show ?thesis using Cons.IH [OF Cons.prems(1-3)] Cons.prems(4) by auto
  qed
qed simp

lemma ReconnectPeer_ok:
  assumes ok: "net_ok h" and i: "i < h_n h" "\<not> quit (h_cluster h ! i)"
    and al: "\<And>j. j < h_n h \<Longrightarrow> j \<noteq> i \<Longrightarrow> h_alive h ! j = (\<not> quit (h_cluster h ! j))"
  shows "\<exists>h'. wires_only h h' \<and> net_ok h'
    \<and> links h' = links h \<union> {(a, b). \<exists>j < h_n h. j \<noteq> i \<and> h_alive h ! j \<and> (a = i \<and> b = j \<or> a = j \<and> b = i)}
    \<and> h_ReconnectPeer i h = Inr (h'\<lparr>h_connected := (h_connected h)[i := True]\<rparr>)"
proof -
  have js: "\<forall>j \<in> set [0..<h_n h]. j < h_n h \<and> (h_alive h ! j \<longrightarrow> j \<noteq> i \<longrightarrow> \<not> quit (h_cluster h ! j))" using al by auto
  obtain h' where "reconnect_loop i [0..<h_n h] h = Inr h'" "net_ok h'" "wires_only h h'"
    "links h' = links h \<union> {(a, b). \<exists>j \<in> set [0..<h_n h]. j \<noteq> i \<and> h_alive h ! j \<and> (a = i \<and> b = j \<or> a = j \<and> b = i)}"
    using reconnect_loop_ok [OF ok i js] by blast
  then show ?thesis using i wires_onlyD(3) [of h h'] by (intro exI [of _ h']) (auto simp: h_ReconnectPeer_def)
qed

section \<open>Starting and stopping servers\<close>

lemma net_ok_fields [simp]:
  "net_ok (h\<lparr>h_connected := x\<rparr>) = net_ok h" "net_ok (h\<lparr>h_alive := y\<rparr>) = net_ok h" "net_ok (h\<lparr>h_commits := z\<rparr>) = net_ok h"
  "net_ok (h\<lparr>h_closed := b\<rparr>) = net_ok h"
  "links (h\<lparr>h_connected := x\<rparr>) = links h" "links (h\<lparr>h_alive := y\<rparr>) = links h" "links (h\<lparr>h_commits := z\<rparr>) = links h"
  "links (h\<lparr>h_closed := b\<rparr>) = links h"
  by (simp_all add: net_ok_def links_def owns_def link_ok_def)

text \<open>A server without clients is replaced; the others keep their ports.\<close>

lemma net_ok_replace:
  assumes ok: "net_ok h" and i: "i < h_n h" and apart: "\<And>b. (i, b) \<notin> links h" "\<And>a. (a, i) \<notin> links h"
    and w: "can_listen w = can_listen (h_net h)" "conns w = conns (h_net h)" "next_conn w = next_conn (h_net h)"
    and s: "server_ok w s" "\<And>k. client s k = None"
    and oth: "\<And>j. j < h_n h \<Longrightarrow> j \<noteq> i \<Longrightarrow> server_ok w (h_cluster h ! j) \<and> listener (h_cluster h ! j) \<noteq> listener s"
  shows "net_ok (put_server i w s h) \<and> links (put_server i w s h) = links h"
proof -
  note D = net_okD [OF ok]
  have no: "\<not> owns h i k c" for k c
  proof
    assume o: "owns h i k c"
    then obtain j where "k = int j" using D(5) unfolding link_ok_def by blast
    then show False using o apart(1) by (auto simp: links_def)
  qed
  have own: "owns (put_server i w s h) a k c \<longleftrightarrow> owns h a k c" for a k c
    using owns_put [OF D(2) i] s(2) no by auto
  have lk: "link_ok (put_server i w s h) a k c" if o: "owns h a k c" for a k c
  proof -
    obtain j where j: "j < h_n h" "k = int j" "j \<noteq> a" "\<not> quit (h_cluster h ! a)" "\<not> quit (h_cluster h ! j)"
      "conns (h_net h) c = listener (h_cluster h ! j)" using D(5) [OF o] unfolding link_ok_def by blast
    have "a \<noteq> i" "j \<noteq> i" using o no apart(2) j(2) by (auto simp: links_def)
    then show ?thesis using j w by (auto simp: link_ok_def put_server_def)
  qed
  have so: "server_ok w ((h_cluster h)[i := s] ! j)" if "j < h_n h" for j
    using oth [OF that] s(1) D(2) i by (cases "j = i") auto
  have li: "a = b" if "a < h_n h" "b < h_n h" "listener ((h_cluster h)[i := s] ! a) = listener ((h_cluster h)[i := s] ! b)" for a b
    using that oth D(2,4) i by (auto simp: nth_list_update split: if_splits)
  have "net_ok (put_server i w s h)"
    unfolding net_ok_def own
    using D lk so li w by (auto simp: put_server_def)
  then show ?thesis using own by (simp add: links_def)
qed

lemma net_ok_set_server:
  assumes ok: "net_ok h" and i: "i < h_n h"
    and s: "peerClients s = peerClients (h_cluster h ! i)" "quit s = quit (h_cluster h ! i)" "listener s = listener (h_cluster h ! i)"
      "srv_cm s \<noteq> None" "restorable (storage_of s)"
  shows "net_ok (put_server i (h_net h) s h) \<and> links (put_server i (h_net h) s h) = links h"
proof -
  note D = net_okD [OF ok]
  let ?h = "put_server i (h_net h) s h"
  have own: "owns ?h a k c \<longleftrightarrow> owns h a k c" for a k c
    using owns_put [OF D(2) i] i s(1) by (auto simp: owns_def client_def)
  have same: "quit (h_cluster ?h ! j) = quit (h_cluster h ! j) \<and> listener (h_cluster ?h ! j) = listener (h_cluster h ! j)
      \<and> server_ok (h_net h) (h_cluster ?h ! j)" if "j < h_n h" for j
    using D(2) D(3) [OF that] that s by (cases "j = i") (auto simp: put_server_def server_ok_def)
  have n: "h_n ?h = h_n h" "h_net ?h = h_net h" "length (h_cluster ?h) = h_n h" using D(2) by (simp_all add: put_server_def)
  have lk: "link_ok ?h a k c" if "owns h a k c" for a k c
  proof -
    have "a < h_n h" using that by (simp add: owns_def)
    then show ?thesis using D(5) [OF that] same n unfolding link_ok_def by metis
  qed
  have "net_ok ?h"
    unfolding net_ok_def own n using D lk same n by (auto simp: own)
  then show ?thesis using own by (simp add: links_def)
qed

lemma Shutdown_ok:
  assumes ok: "net_ok h" and i: "i < h_n h" and up: "\<not> quit (h_cluster h ! i)"
    and apart: "\<And>b. (i, b) \<notin> links h" "\<And>a. (a, i) \<notin> links h"
  shows "\<exists>w s. Shutdown (h_net h) (h_cluster h ! i) = Some (Inr (w, s)) \<and> quit s
    \<and> net_ok (put_server i w s h) \<and> links (put_server i w s h) = links h \<and> (set (ports w) = set (ports (h_net h)) - {the (listener (h_cluster h ! i))})
    \<and> conns w = conns (h_net h) \<and> listener s = listener (h_cluster h ! i)"
proof -
  note D = net_okD [OF ok]
  let ?s = "h_cluster h ! i"
  obtain cm where cm1: "srv_cm ?s = Some cm" using D(3) [OF i] by (auto simp: server_ok_def)
  obtain p where cm2: "listener ?s = Some p" "p < next_port (h_net h)" using D(3) [OF i] unfolding server_ok_def by blast
  have cm: "srv_cm ?s = Some cm" "listener ?s = Some p" "p < next_port (h_net h)" "restorable (storage cm)"
    "distinct (map fst (peerClients ?s))"
    using D(3) [OF i] cm1 cm2 by (auto simp: server_ok_def storage_of_def)
  have "conns (h_net h) c \<noteq> Some p" for c
  proof
    assume c: "conns (h_net h) c = Some p"
    then obtain a k where o: "owns h a k c" using D(7) by blast
    then obtain j where j: "j < h_n h" "k = int j" "conns (h_net h) c = listener (h_cluster h ! j)"
      using D(5) unfolding link_ok_def by blast
    have "listener (h_cluster h ! j) = listener ?s" using j(3) c cm(2) by metis
    then have "j = i" by (rule D(4) [OF j(1) i])
    then show False using o j(2) apart(2) by (auto simp: links_def)
  qed
  let ?w = "(h_net h)\<lparr>ports := removeAll p (ports (h_net h))\<rparr>" and ?s' = "?s\<lparr>srv_cm := Some (Stop cm), quit := True\<rparr>"
  have sh: "Shutdown (h_net h) ?s = Some (Inr (?w, ?s'))"
    using cm up \<open>\<And>c. conns (h_net h) c \<noteq> Some p\<close> by (simp add: Shutdown_def)
  have no: "client ?s k = None" for k
  proof (rule ccontr)
    assume "client ?s k \<noteq> None"
    then obtain c where "owns h i k c" using i by (auto simp: owns_def)
    moreover then obtain j where "k = int j" using D(5) unfolding link_ok_def by blast
    ultimately show False using apart(1) by (auto simp: links_def)
  qed
  have "net_ok (put_server i ?w ?s' h) \<and> links (put_server i ?w ?s' h) = links h"
  proof (rule net_ok_replace [OF ok i apart])
    show "server_ok ?w ?s'" using cm by (auto simp: server_ok_def storage_of_def Stop_def)
    fix j assume j: "j < h_n h" "j \<noteq> i"
    then have "listener (h_cluster h ! j) \<noteq> Some p" using D(4) [OF j(1) i] cm(2) by auto
    then show "server_ok ?w (h_cluster h ! j) \<and> listener (h_cluster h ! j) \<noteq> listener ?s'"
      using D(3) [OF j(1)] cm(2) by (auto simp: server_ok_def)
  qed (simp_all add: no)
  then show ?thesis using sh cm(2) by (intro exI [of _ ?w] exI [of _ ?s']) (auto simp: set_removeAll)
qed

lemma Serve_ok:
  assumes ok: "net_ok h" and i: "i < h_n h" and dead: "quit (h_cluster h ! i)"
    and st: "restorable st"
  shows "\<exists>w s. Serve (h_net h) (srv_NewServer (int i) ps st) = Inr (w, s) \<and> \<not> quit s
    \<and> net_ok (put_server i w s h) \<and> links (put_server i w s h) = links h
    \<and> ports w = next_port (h_net h) # ports (h_net h) \<and> listener s = Some (next_port (h_net h))"
proof -
  note D = net_okD [OF ok]
  have apart: "(i, b) \<notin> links h" "(a, i) \<notin> links h" for a b
    using D(5) dead by (fastforce simp: links_def link_ok_def)+
  obtain cm where cm: "NewConsensusModule (int i) ps st = Inr cm" "storage cm = st"
    using st NewConsensusModule_Inr unfolding restorable_def by metis
  let ?p = "next_port (h_net h)"
  let ?w = "(h_net h)\<lparr>ports := ?p # ports (h_net h), next_port := Suc ?p\<rparr>"
  let ?s = "(srv_NewServer (int i) ps st)\<lparr>srv_cm := Some cm, numCallsBeforeDrop := NewProxy, listener := Some ?p\<rparr>"
  have sv: "Serve (h_net h) (srv_NewServer (int i) ps st) = Inr (?w, ?s)"
    using cm(1) D(1) by (simp add: Serve_def srv_NewServer_def net_Listen_def)
  have "net_ok (put_server i ?w ?s h) \<and> links (put_server i ?w ?s h) = links h"
  proof (rule net_ok_replace [OF ok i apart])
    show "server_ok ?w ?s" using cm(2) st by (auto simp: server_ok_def storage_of_def srv_NewServer_def)
    fix j assume j: "j < h_n h" "j \<noteq> i"
    then show "server_ok ?w (h_cluster h ! j) \<and> listener (h_cluster h ! j) \<noteq> listener ?s"
      using D(3) [OF j(1)] by (auto simp: server_ok_def)
  qed simp_all
  then show ?thesis using sv by (intro exI [of _ ?w] exI [of _ ?s]) (simp add: srv_NewServer_def)
qed


section \<open>The invariant of a test\<close>

text \<open>No listener is left open without its server.\<close>

definition ports_ok :: "'c Harness \<Rightarrow> bool" where
  "ports_ok h \<longleftrightarrow> (\<forall>p \<in> set (ports (h_net h)). \<exists>i < h_n h. listener (h_cluster h ! i) = Some p)"

definition harness_ok :: "'c Harness \<Rightarrow> bool" where
  "harness_ok h \<longleftrightarrow> net_ok h \<and> ports_ok h \<and> sym (links h)
     \<and> length (h_alive h) = h_n h \<and> length (h_connected h) = h_n h \<and> length (h_commits h) = h_n h
     \<and> (\<forall>i < h_n h. h_alive h ! i = (\<not> quit (h_cluster h ! i)))"

lemma ports_ok_wires: "wires_only h h' \<Longrightarrow> net_ok h \<Longrightarrow> ports_ok h \<Longrightarrow> ports_ok h'"
  using wires_onlyD(1,7) [of h h'] net_okD(2) [of h] unfolding ports_ok_def wires_only_def by fastforce

lemma ports_ok_put:
  assumes "ports_ok h" "length (h_cluster h) = h_n h" "i < h_n h"
    and "\<And>p. p \<in> set (ports w) \<Longrightarrow> listener s = Some p \<or> (p \<in> set (ports (h_net h)) \<and> listener (h_cluster h ! i) \<noteq> Some p)"
  shows "ports_ok (put_server i w s h)"
  unfolding ports_ok_def
proof
  fix p assume "p \<in> set (ports (h_net (put_server i w s h)))"
  then have p: "p \<in> set (ports w)" by (simp add: put_server_def)
  show "\<exists>j < h_n (put_server i w s h). listener (h_cluster (put_server i w s h) ! j) = Some p"
  proof (cases "listener s = Some p")
    case True
    then show ?thesis using assms(2,3) by (intro exI [of _ i]) (simp add: put_server_def)
  next
    case False
    then obtain j where "j < h_n h" "listener (h_cluster h ! j) = Some p" "j \<noteq> i"
      using assms(1,4) p unfolding ports_ok_def by metis
    then show ?thesis by (intro exI [of _ j]) (simp add: put_server_def)
  qed
qed

lemma ports_ok_fields [simp]:
  "ports_ok (h\<lparr>h_connected := x\<rparr>) = ports_ok h" "ports_ok (h\<lparr>h_alive := y\<rparr>) = ports_ok h"
  "ports_ok (h\<lparr>h_commits := z\<rparr>) = ports_ok h" "ports_ok (h\<lparr>h_closed := b\<rparr>) = ports_ok h"
  by (simp_all add: ports_ok_def)

lemma harness_okD:
  assumes "harness_ok h"
  shows "net_ok h" "ports_ok h" "sym (links h)" "length (h_alive h) = h_n h" "length (h_connected h) = h_n h"
    "length (h_commits h) = h_n h" "i < h_n h \<Longrightarrow> h_alive h ! i = (\<not> quit (h_cluster h ! i))"
  using assms by (auto simp: harness_ok_def)

text \<open>The links after a fault at server \<open>i\<close>, and after its repair.\<close>

definition isolate :: "nat \<Rightarrow> (nat \<times> nat) set \<Rightarrow> (nat \<times> nat) set" where
  "isolate i E = E - {(a, b). a = i \<or> b = i}"

definition rejoin :: "nat \<Rightarrow> nat set \<Rightarrow> (nat \<times> nat) set \<Rightarrow> (nat \<times> nat) set" where
  "rejoin i A E = E \<union> {i} \<times> (A - {i}) \<union> (A - {i}) \<times> {i}"

definition living :: "'c Harness \<Rightarrow> nat set" where
  "living h = {j. j < h_n h \<and> h_alive h ! j}"

lemma sym_links: "sym E \<Longrightarrow> sym (isolate i E)" "sym E \<Longrightarrow> sym (rejoin i A E)"
  unfolding sym_def isolate_def rejoin_def by auto

lemma rejoin_eq:
  "E \<union> {(a, b). \<exists>j < h_n h. j \<noteq> i \<and> h_alive h ! j \<and> (a = i \<and> b = j \<or> a = j \<and> b = i)} = rejoin i (living h) E"
  unfolding rejoin_def living_def by auto

lemma harness_ok_wires:
  assumes hk: "harness_ok h" and w: "wires_only h h'" "net_ok h'" "sym (links h')"
    and h'': "h'' = h'\<lparr>h_connected := cs\<rparr>" "length cs = h_n h"
  shows "harness_ok h''"
proof -
  note K = harness_okD [OF hk] and W = wires_onlyD [OF w(1)]
  show ?thesis
    unfolding harness_ok_def h''(1)
    using K W w h''(2) ports_ok_wires [OF w(1) K(1,2)] quit_wires [OF w(1) K(1)] by simp
qed

lemma harness_disconnect:
  assumes hk: "harness_ok h" and i: "i < h_n h"
  shows "\<exists>h'. h_DisconnectPeer i h = Inr h' \<and> harness_ok h' \<and> links h' = isolate i (links h) \<and> h_n h' = h_n h \<and> h_alive h' = h_alive h
    \<and> h_connected h' = (h_connected h)[i := False]"
proof -
  note K = harness_okD [OF hk]
  obtain h' where h': "wires_only h h'" "net_ok h'" "links h' = isolate i (links h)"
      "h_DisconnectPeer i h = Inr (h'\<lparr>h_connected := (h_connected h)[i := False]\<rparr>)"
    using DisconnectPeer_ok [OF K(1) i] unfolding isolate_def by blast
  have "harness_ok (h'\<lparr>h_connected := (h_connected h)[i := False]\<rparr>)"
    by (rule harness_ok_wires [OF hk h'(1,2) _ refl]) (use K h'(3) sym_links in auto)
  moreover note wires_onlyD(1,2) [OF h'(1)]
  ultimately show ?thesis by (simp add: h'(3,4))
qed

lemma harness_reconnect:
  assumes hk: "harness_ok h" and i: "i < h_n h" "h_alive h ! i"
  shows "\<exists>h'. h_ReconnectPeer i h = Inr h' \<and> harness_ok h' \<and> links h' = rejoin i (living h) (links h) \<and> h_n h' = h_n h \<and> h_alive h' = h_alive h"
proof -
  note K = harness_okD [OF hk]
  have up: "\<not> quit (h_cluster h ! i)" using K(7) [OF i(1)] i(2) by simp
  obtain h' where h': "wires_only h h'" "net_ok h'" "links h' = rejoin i (living h) (links h)"
      "h_ReconnectPeer i h = Inr (h'\<lparr>h_connected := (h_connected h)[i := True]\<rparr>)"
    using ReconnectPeer_ok [OF K(1) i(1) up] K(7) unfolding rejoin_eq by blast
  have "harness_ok (h'\<lparr>h_connected := (h_connected h)[i := True]\<rparr>)"
    by (rule harness_ok_wires [OF hk h'(1,2) _ refl]) (use K h'(3) sym_links in auto)
  moreover note wires_onlyD(1,2) [OF h'(1)]
  ultimately show ?thesis by (simp add: h'(3,4))
qed

lemma harness_crash:
  assumes hk: "harness_ok h" and i: "i < h_n h" "h_alive h ! i"
  shows "\<exists>h'. h_CrashPeer i h = Some (Inr h') \<and> harness_ok h' \<and> links h' = isolate i (links h) \<and> h_n h' = h_n h
    \<and> h_alive h' = (h_alive h)[i := False]"
proof -
  obtain h1 where h1: "h_DisconnectPeer i h = Inr h1" "harness_ok h1" "links h1 = isolate i (links h)" "h_n h1 = h_n h"
      "h_alive h1 = h_alive h" using harness_disconnect [OF hk i(1)] by blast
  note K = harness_okD [OF h1(2)] and D = net_okD [OF harness_okD(1) [OF h1(2)]]
  have up: "\<not> quit (h_cluster h1 ! i)" using K(7) [of i] h1(4,5) i by simp
  have apart: "(i, b) \<notin> links h1" "(a, i) \<notin> links h1" for a b using h1(3) by (auto simp: isolate_def)
  obtain w s where sh: "Shutdown (h_net h1) (h_cluster h1 ! i) = Some (Inr (w, s))" "quit s" "net_ok (put_server i w s h1)"
      "links (put_server i w s h1) = links h1" "set (ports w) = set (ports (h_net h1)) - {the (listener (h_cluster h1 ! i))}"
    using Shutdown_ok [OF K(1) _ up apart] i(1) h1(4) by auto
  let ?h = "(put_server i w s h1)\<lparr>h_alive := (h_alive h)[i := False], h_commits := (h_commits h1)[i := []]\<rparr>"
  have eq: "h_CrashPeer i h = Some (Inr ?h)"
    using h1(1,5) sh(1) by (simp add: h_CrashPeer_def put_server_def)
  have "ports_ok (put_server i w s h1)"
  proof (rule ports_ok_put [OF K(2) D(2)])
    show "i < h_n h1" using i(1) h1(4) by simp
    fix p assume "p \<in> set (ports w)"
    then have "p \<in> set (ports (h_net h1))" "p \<noteq> the (listener (h_cluster h1 ! i))" unfolding sh(5) by simp_all
    then show "listener s = Some p \<or> (p \<in> set (ports (h_net h1)) \<and> listener (h_cluster h1 ! i) \<noteq> Some p)" by auto
  qed
  moreover have "h_alive ?h ! j = (\<not> quit (h_cluster ?h ! j))" if "j < h_n h" for j
    using that i(1) K(4,7) h1(4,5) sh(2) D(2) by (cases "j = i") (simp_all add: put_server_def)
  moreover have "length (h_alive ?h) = h_n h \<and> length (h_connected ?h) = h_n h \<and> length (h_commits ?h) = h_n h \<and> h_n ?h = h_n h"
    using K(4-6) h1(4,5) by (simp add: put_server_def)
  ultimately have "harness_ok ?h"
    unfolding harness_ok_def using sh(3,4) K(3) by (simp only: net_ok_fields ports_ok_fields) blast
  then show ?thesis using eq sh(4) h1(3,4) by (auto simp: put_server_def)
qed


lemma harness_restart:
  assumes hk: "harness_ok h" and i: "i < h_n h" "\<not> h_alive h ! i"
  shows "\<exists>h'. h_RestartPeer i h = Inr h' \<and> harness_ok h' \<and> links h' = rejoin i (living h) (links h) \<and> h_n h' = h_n h
    \<and> h_alive h' = (h_alive h)[i := True]"
proof -
  note K = harness_okD [OF hk] and D = net_okD [OF harness_okD(1) [OF hk]]
  have dead: "quit (h_cluster h ! i)" using K(7) [OF i(1)] i(2) by simp
  have st: "restorable (storage_of (h_cluster h ! i))" using D(3) [OF i(1)] by (simp add: server_ok_def)
  obtain w s where sv: "Serve (h_net h) (srv_NewServer (int i) (peers_of (h_n h) i) (storage_of (h_cluster h ! i))) = Inr (w, s)"
      "\<not> quit s" "net_ok (put_server i w s h)" "links (put_server i w s h) = links h"
      "ports w = next_port (h_net h) # ports (h_net h)" "listener s = Some (next_port (h_net h))"
    using Serve_ok [OF K(1) i(1) dead st] by blast
  let ?h1 = "put_server i w s h"
  have n1: "h_n ?h1 = h_n h" "h_alive ?h1 = h_alive h" "h_connected ?h1 = h_connected h" "h_commits ?h1 = h_commits h"
    by (simp_all add: put_server_def)
  have q1: "quit (h_cluster ?h1 ! j) = (if j = i then False else quit (h_cluster h ! j))" if "j < h_n h" for j
    using that D(2) i(1) sv(2) by (simp add: put_server_def)
  have p1: "ports_ok ?h1"
  proof (rule ports_ok_put [OF K(2) D(2) i(1)])
    fix p assume "p \<in> set (ports w)"
    moreover have "listener (h_cluster h ! i) \<noteq> Some p" if "p \<in> set (ports (h_net h))"
      using D(3) [OF i(1)] dead that by (auto simp: server_ok_def)
    ultimately show "listener s = Some p \<or> (p \<in> set (ports (h_net h)) \<and> listener (h_cluster h ! i) \<noteq> Some p)"
      using sv(5,6) by auto
  qed
  have al: "h_alive ?h1 ! j = (\<not> quit (h_cluster ?h1 ! j))" if "j < h_n ?h1" "j \<noteq> i" for j
    using K(7) [of j] that q1 [of j] n1 by simp
  have i1: "i < h_n ?h1" "\<not> quit (h_cluster ?h1 ! i)" using i(1) q1 n1(1) by simp_all
  obtain h2 where h2: "wires_only ?h1 h2" "net_ok h2" "links h2 = rejoin i (living ?h1) (links h)"
      "h_ReconnectPeer i ?h1 = Inr (h2\<lparr>h_connected := (h_connected ?h1)[i := True]\<rparr>)"
    using ReconnectPeer_ok [OF sv(3) i1 al] unfolding rejoin_eq sv(4) by blast
  note W = wires_onlyD [OF h2(1)] and Q = quit_wires [OF h2(1) sv(3)]
  let ?h = "h2\<lparr>h_connected := (h_connected h)[i := True], h_alive := (h_alive h)[i := True]\<rparr>"
  have eq: "h_RestartPeer i h = Inr ?h"
    using i sv(1) h2(4) n1 W(2) by (simp add: h_RestartPeer_def)
  have lk: "links h2 = rejoin i (living h) (links h)" using h2(3) n1 by (simp add: living_def)
  have "h_alive ?h ! j = (\<not> quit (h_cluster ?h ! j))" if "j < h_n h" for j
    using that i(1) K(4,7) Q [of j] q1 [OF that] n1 by (cases "j = i") simp_all
  moreover have "length (h_alive ?h) = h_n h \<and> length (h_connected ?h) = h_n h \<and> length (h_commits ?h) = h_n h \<and> h_n ?h = h_n h"
    using K(4-6) W n1 by simp
  moreover have "ports_ok h2" by (rule ports_ok_wires [OF h2(1) sv(3) p1])
  moreover have "sym (links h2)" unfolding lk by (rule sym_links(2) [OF K(3)])
  ultimately have "harness_ok ?h"
    unfolding harness_ok_def using h2(2) by (simp only: net_ok_fields ports_ok_fields) blast
  then show ?thesis using eq lk W(1) n1 by auto
qed

lemma harness_set_server:
  assumes hk: "harness_ok h" and i: "i < h_n h"
    and s: "peerClients s = peerClients (h_cluster h ! i)" "quit s = quit (h_cluster h ! i)" "listener s = listener (h_cluster h ! i)"
      "srv_cm s \<noteq> None" "restorable (storage_of s)"
  shows "harness_ok (put_server i (h_net h) s h) \<and> links (put_server i (h_net h) s h) = links h"
proof -
  note K = harness_okD [OF hk] and D = net_okD [OF harness_okD(1) [OF hk]]
  let ?h = "put_server i (h_net h) s h"
  note n = net_ok_set_server [OF K(1) i s]
  have same: "quit (h_cluster ?h ! j) = quit (h_cluster h ! j) \<and> listener (h_cluster ?h ! j) = listener (h_cluster h ! j)" if "j < h_n h" for j
    using that D(2) s by (cases "j = i") (auto simp: put_server_def)
  have f: "h_n ?h = h_n h" "h_net ?h = h_net h" "h_alive ?h = h_alive h" "h_connected ?h = h_connected h" "h_commits ?h = h_commits h"
    by (simp_all add: put_server_def)
  have "ports_ok ?h" using K(2) same unfolding ports_ok_def f by metis
  then show ?thesis
    unfolding harness_ok_def f using n K same by simp
qed

section \<open>A new harness\<close>

lemma start_servers_ok:
  assumes "can_listen w"
  shows "\<exists>w' (ss :: 'c Server list). start_servers n is w = Inr (w', ss) \<and> length ss = length is \<and> can_listen w' \<and> conns w' = conns w
    \<and> next_conn w' = next_conn w \<and> next_port w' = next_port w + length is
    \<and> set (ports w') = set (ports w) \<union> {next_port w ..< next_port w + length is}
    \<and> (\<forall>k < length is. srv_cm (ss ! k) \<noteq> None \<and> restorable (storage_of (ss ! k)) \<and> peerClients (ss ! k) = []
         \<and> \<not> quit (ss ! k) \<and> listener (ss ! k) = Some (next_port w + k))"
  using assms
proof (induction "is" arbitrary: w)
  case (Cons i "is")
  let ?w = "w\<lparr>ports := next_port w # ports w, next_port := Suc (next_port w)\<rparr>"
  let ?s = "(srv_NewServer (int i) (peers_of n i) NewMapStorage)
      \<lparr>srv_cm := Some (part3_new (int i) (peers_of n i)), numCallsBeforeDrop := NewProxy, listener := Some (next_port w)\<rparr> :: 'c Server"
  have sv: "Serve w (srv_NewServer (int i) (peers_of n i) NewMapStorage) = Inr (?w, ?s)"
    using Cons.prems by (simp add: Serve_def srv_NewServer_def net_Listen_def part3_new_eq)
  have cl: "can_listen ?w" using Cons.prems by simp
  obtain w' ss where IH: "start_servers n is ?w = Inr (w', ss :: 'c Server list)" "length ss = length is" "can_listen w'" "conns w' = conns ?w"
      "next_conn w' = next_conn ?w" "next_port w' = next_port ?w + length is"
      "set (ports w') = set (ports ?w) \<union> {next_port ?w ..< next_port ?w + length is}"
      "\<forall>k < length is. srv_cm (ss ! k) \<noteq> None \<and> restorable (storage_of (ss ! k)) \<and> peerClients (ss ! k) = []
         \<and> \<not> quit (ss ! k) \<and> listener (ss ! k) = Some (next_port ?w + k)"
    using Cons.IH [OF cl] by blast
  have first: "srv_cm ?s \<noteq> None" "restorable (storage_of ?s)" "peerClients ?s = []" "\<not> quit ?s"
    by (simp_all add: srv_NewServer_def storage_of_def part3_new_def restorable_new)
  have "\<forall>k < length (i # is). srv_cm ((?s # ss) ! k) \<noteq> None \<and> restorable (storage_of ((?s # ss) ! k)) \<and> peerClients ((?s # ss) ! k) = []
      \<and> \<not> quit ((?s # ss) ! k) \<and> listener ((?s # ss) ! k) = Some (next_port w + k)"
    using IH(8) first by (auto simp: less_Suc_eq_0_disj)
  moreover have "start_servers n (i # is) w = Inr (w', ?s # ss)" using sv IH(1) by simp
  moreover have "{next_port w ..< next_port w + Suc k} = insert (next_port w) {Suc (next_port w) ..< Suc (next_port w) + k}" for k
    by auto
  then have "set (ports w') = set (ports w) \<union> {next_port w ..< next_port w + length (i # is)}" unfolding IH(7) by simp
  ultimately show ?case using IH(2-6) by (intro exI [of _ w'] exI [of _ "?s # ss"]) simp
qed simp

lemma connect_all_ok:
  assumes "net_ok h" "\<forall>(i, j) \<in> set ps. i < h_n h \<and> j < h_n h" "\<forall>i < h_n h. \<not> quit (h_cluster h ! i)"
  shows "\<exists>h'. connect_all ps h = Inr h' \<and> net_ok h' \<and> wires_only h h' \<and> links h' = links h \<union> {(i, j) \<in> set ps. i \<noteq> j}"
  using assms
proof (induction ps arbitrary: h)
  case (Cons x ps)
  obtain i j where x: "x = (i, j)" by fastforce
  show ?case
  proof (cases "i = j")
    case True
    then show ?thesis using Cons.IH [of h] Cons.prems x by auto
  next
    case False
    obtain h1 where h1: "h_connect i j h = Inr (h1, True)" "net_ok h1" "wires_only h h1" "links h1 = insert (i, j) (links h)"
      using h_connect_ok [OF Cons.prems(1), of i j] Cons.prems(2,3) x False by auto
    obtain h' where "connect_all ps h1 = Inr h'" "net_ok h'" "wires_only h1 h'" "links h' = links h1 \<union> {(i, j) \<in> set ps. i \<noteq> j}"
      using Cons.IH [OF h1(2)] Cons.prems(2,3) wires_onlyD(1) [OF h1(3)] quit_wires [OF h1(3) Cons.prems(1)] by auto
    then show ?thesis using x False h1 wires_only_trans [OF h1(3)] by auto
  qed
qed simp

lemma NewHarness_ok:
  "\<exists>h :: 'c Harness. NewHarness empty_network n = Inr h \<and> harness_ok h \<and> h_n h = n \<and> links h = {(i, j). i < n \<and> j < n \<and> i \<noteq> j}
     \<and> h_alive h = replicate n True \<and> \<not> h_closed h"
proof -
  obtain w ss where ss: "start_servers n [0..<n] empty_network = Inr (w, ss :: 'c Server list)" "length ss = n" "can_listen w" "conns w = Map.empty"
      "next_port w = n" "set (ports w) = {0 ..< n}"
      "\<forall>k < n. srv_cm (ss ! k) \<noteq> None \<and> restorable (storage_of (ss ! k)) \<and> peerClients (ss ! k) = []
         \<and> \<not> quit (ss ! k) \<and> listener (ss ! k) = Some k"
    using start_servers_ok [of empty_network n "[0..<n]"] by (auto simp: empty_network_def)
  let ?h = "\<lparr>h_net = w, h_cluster = ss, h_commits = replicate n [], h_connected = replicate n True,
         h_alive = replicate n True, h_closed = False, h_n = n\<rparr>"
  have none: "\<not> owns ?h i k c" for i k c using ss(7) by (auto simp: owns_def client_def)
  have "net_ok ?h"
    unfolding net_ok_def using ss none by (auto simp: server_ok_def)
  then obtain h where h: "connect_all (List.product [0..<n] [0..<n]) ?h = Inr h" "net_ok h" "wires_only ?h h"
      "links h = links ?h \<union> {(i, j) \<in> set (List.product [0..<n] [0..<n]). i \<noteq> j}"
    using connect_all_ok [of ?h "List.product [0..<n] [0..<n]"] ss(7) by auto
  have l: "links h = {(i, j). i < n \<and> j < n \<and> i \<noteq> j}" using h(4) none by (auto simp: links_def)
  note W = wires_onlyD [OF h(3)] and Q = quit_wires [OF h(3) \<open>net_ok ?h\<close>]
  have "ports_ok ?h" using ss(6,7) by (auto simp: ports_ok_def)
  then have "harness_ok h"
    unfolding harness_ok_def
    using h(2) ports_ok_wires [OF h(3) \<open>net_ok ?h\<close>] W Q ss(7) by (auto simp: l sym_def)
  moreover have "NewHarness empty_network n = Inr h" using ss(1) h(1) by (simp add: NewHarness_def)
  ultimately show ?thesis using W l by auto
qed


section \<open>Shutting the harness down\<close>

lemma detach_fold_ok:
  assumes "net_ok h" "ports_ok h" "\<forall>i \<in> set is. i < h_n h"
  shows "net_ok (fold detach_step is h) \<and> ports_ok (fold detach_step is h)
    \<and> links (fold detach_step is h) = links h - set is \<times> UNIV \<and> h_n (fold detach_step is h) = h_n h
    \<and> h_alive (fold detach_step is h) = h_alive h \<and> h_closed (fold detach_step is h) = h_closed h
    \<and> (\<forall>j < h_n h. quit (h_cluster (fold detach_step is h) ! j) = quit (h_cluster h ! j))"
  using assms
proof (induction "is" arbitrary: h)
  case (Cons i "is")
  obtain w s where d: "DisconnectAll (h_net h) (h_cluster h ! i) = (w, s)" by fastforce
  let ?h1 = "put_server i w s h" let ?h = "detach_step i h"
  note 1 = detach_ok [OF Cons.prems(1) _ d]
  have i: "i < h_n h" using Cons.prems(3) by simp
  have h: "?h = ?h1\<lparr>h_connected := (h_connected ?h1)[i := False]\<rparr>" using d by (simp add: detach_step_def Let_def)
  have f: "h_n ?h = h_n h" "h_alive ?h = h_alive h" "h_closed ?h = h_closed h" by (simp_all add: h put_server_def)
  have q: "quit (h_cluster ?h ! j) = quit (h_cluster h ! j)" if "j < h_n h" for j
    using quit_wires [OF 1(2) [OF i] Cons.prems(1) that] by (simp add: h)
  have l: "links ?h = links h - {i} \<times> UNIV" using 1(3) [OF i] by (simp add: h)
  have "net_ok ?h" "ports_ok ?h"
    using 1(1) [OF i] ports_ok_wires [OF 1(2) [OF i] Cons.prems(1,2)] by (simp_all add: h)
  note IH = Cons.IH [OF this, unfolded f]
  have "fold detach_step (i # is) h = fold detach_step is ?h" by simp
  then show ?case using IH Cons.prems(3) q l by (simp only: f) auto
qed simp

lemma shutdown_loop_ok:
  assumes "net_ok h" "ports_ok h" "links h = {}" "\<forall>i \<in> set is. i < h_n h" "length (h_alive h) = h_n h"
    "\<forall>i < h_n h. h_alive h ! i = (\<not> quit (h_cluster h ! i))"
  shows "\<exists>h'. shutdown_loop is h = Some (Inr h') \<and> net_ok h' \<and> ports_ok h' \<and> links h' = {} \<and> h_n h' = h_n h \<and> h_closed h' = h_closed h
    \<and> (\<forall>i < h_n h. quit (h_cluster h' ! i) = (i \<in> set is \<or> quit (h_cluster h ! i)))"
  using assms
proof (induction "is" arbitrary: h)
  case (Cons i "is")
  note D = net_okD [OF Cons.prems(1)]
  have i: "i < h_n h" using Cons.prems(4) by simp
  show ?case
  proof (cases "h_alive h ! i")
    case True
    then have up: "\<not> quit (h_cluster h ! i)" using Cons.prems(6) i by simp
    obtain w s where sh: "Shutdown (h_net h) (h_cluster h ! i) = Some (Inr (w, s))" "quit s" "net_ok (put_server i w s h)"
        "links (put_server i w s h) = links h" "set (ports w) = set (ports (h_net h)) - {the (listener (h_cluster h ! i))}"
      using Shutdown_ok [OF Cons.prems(1) i up] Cons.prems(3) by auto
    let ?h = "put_server i w s (h\<lparr>h_alive := (h_alive h)[i := False]\<rparr>)"
    have h: "?h = (put_server i w s h)\<lparr>h_alive := (h_alive h)[i := False]\<rparr>" by (simp add: put_server_def)
    have n: "h_n ?h = h_n h" "h_alive ?h = (h_alive h)[i := False]" "h_closed ?h = h_closed h" by (simp_all add: put_server_def)
    have q: "quit (h_cluster ?h ! j) = (j = i \<or> quit (h_cluster h ! j))" if "j < h_n h" for j
      using that D(2) i sh(2) by (cases "j = i") (simp_all add: put_server_def)
    have pk: "ports_ok ?h"
    proof (unfold h, simp, rule ports_ok_put [OF Cons.prems(2) D(2) i])
      fix p assume "p \<in> set (ports w)"
      then have "p \<in> set (ports (h_net h))" "p \<noteq> the (listener (h_cluster h ! i))" unfolding sh(5) by simp_all
      then show "listener s = Some p \<or> (p \<in> set (ports (h_net h)) \<and> listener (h_cluster h ! i) \<noteq> Some p)" by auto
    qed
    have al: "\<forall>j < h_n ?h. h_alive ?h ! j = (\<not> quit (h_cluster ?h ! j))"
      unfolding n using q Cons.prems(5,6) i by (auto simp: nth_list_update split: if_splits)
    have "\<exists>h'. shutdown_loop is ?h = Some (Inr h') \<and> net_ok h' \<and> ports_ok h' \<and> links h' = {} \<and> h_n h' = h_n ?h \<and> h_closed h' = h_closed ?h
      \<and> (\<forall>i < h_n ?h. quit (h_cluster h' ! i) = (i \<in> set is \<or> quit (h_cluster ?h ! i)))"
    proof (rule Cons.IH [OF _ pk _ _ _ al])
      show "net_ok ?h" "links ?h = {}" using sh(3,4) Cons.prems(3) by (simp_all add: h)
    qed (use Cons.prems(4,5) n in simp_all)
    moreover have "shutdown_loop (i # is) h = shutdown_loop is ?h" using True sh(1) by simp
    ultimately show ?thesis using q unfolding n by auto
  next
    case False
    then have "quit (h_cluster h ! i)" using Cons.prems(6) i by simp
    then show ?thesis using False Cons.IH [OF Cons.prems(1-3) _ Cons.prems(5,6)] Cons.prems(4) by auto
  qed
qed simp

lemma harness_shutdown:
  assumes hk: "harness_ok h" "\<not> h_closed h"
  shows "\<exists>h'. h_Shutdown h = Some (Inr h') \<and> ports (h_net h') = [] \<and> conns (h_net h') = Map.empty \<and> (\<forall>i < h_n h'. quit (h_cluster h' ! i))"
proof -
  note K = harness_okD [OF hk(1)]
  let ?h = "fold detach_step [0..<h_n h] h"
  have 1: "net_ok ?h" "ports_ok ?h" "links ?h = links h - set [0..<h_n h] \<times> UNIV" "h_n ?h = h_n h" "h_alive ?h = h_alive h"
      "h_closed ?h = h_closed h" "\<forall>j < h_n h. quit (h_cluster ?h ! j) = quit (h_cluster h ! j)"
    using detach_fold_ok [OF K(1,2), of "[0..<h_n h]"] by auto
  have "links ?h = {}" using 1(3) by (auto simp: links_def owns_def)
  then obtain h1 where h1: "shutdown_loop [0..<h_n h] ?h = Some (Inr h1)" "net_ok h1" "ports_ok h1" "links h1 = {}" "h_n h1 = h_n h"
      "h_closed h1 = h_closed h" "\<forall>i < h_n h. quit (h_cluster h1 ! i)"
    using shutdown_loop_ok [OF 1(1,2), of "[0..<h_n h]"] K(4,7) 1(4-7) by auto
  note D = net_okD [OF h1(2)]
  have "conns (h_net h1) c = None" for c
  proof (rule ccontr)
    assume "conns (h_net h1) c \<noteq> None"
    then obtain i k where "owns h1 i k c" using D(7) by blast
    moreover then obtain j where "k = int j" using D(5) unfolding link_ok_def by blast
    ultimately show False using h1(4) by (auto simp: links_def)
  qed
  moreover have "p \<notin> set (ports (h_net h1))" for p
  proof
    assume p: "p \<in> set (ports (h_net h1))"
    then obtain i where "i < h_n h1" "listener (h_cluster h1 ! i) = Some p" using h1(3) unfolding ports_ok_def by blast
    then show False using D(3) [of i] h1(5,7) p by (auto simp: server_ok_def)
  qed
  then have "ports (h_net h1) = []" by (metis list.set_intros(1) neq_Nil_conv)
  moreover have "h_Shutdown h = Some (Inr (h1\<lparr>h_closed := True\<rparr>))"
    using h1(1,6) hk(2) by (simp add: h_Shutdown_def)
  ultimately show ?thesis using h1(5,7) by (auto simp: fun_eq_iff)
qed


section \<open>Tests as sequences of operations\<close>

text \<open>\<open>HMove i cm\<close>: the goroutines of server \<open>i\<close> bring its consensus module to the state \<open>cm\<close>.\<close>

datatype 'c hop = HDisconnect nat | HReconnect nat | HCrash nat | HRestart nat | HDrop nat int | HDontDrop nat
  | HSubmit nat 'c | HCollect nat "'c CommitEntry" | HMove nat "'c ConsensusModule"

fun hstep :: "'c hop \<Rightarrow> 'c Harness \<Rightarrow> 'c Harness go option" where
  "hstep (HDisconnect i) h = Some (h_DisconnectPeer i h)"
| "hstep (HReconnect i) h = Some (h_ReconnectPeer i h)"
| "hstep (HCrash i) h = h_CrashPeer i h"
| "hstep (HRestart i) h = Some (h_RestartPeer i h)"
| "hstep (HDrop i n) h = Some (h_PeerDropCallsAfterN i n h)"
| "hstep (HDontDrop i) h = Some (h_PeerDontDropCalls i h)"
| "hstep (HSubmit i cmd) h = Some (go_bind (h_SubmitToServer i cmd h) (\<lambda>(h', k, es). Inr h'))"
| "hstep (HCollect i c) h = Some (Inr (collectCommits i c h))"
| "hstep (HMove i cm) h = Some (Inr (put_server i (h_net h) ((h_cluster h ! i)\<lparr>srv_cm := Some cm\<rparr>) h))"

text \<open>What a test has to respect: crash and reconnect live servers, restart dead ones.\<close>

fun legal :: "'c hop \<Rightarrow> 'c Harness \<Rightarrow> bool" where
  "legal (HDisconnect i) h = (i < h_n h)"
| "legal (HReconnect i) h = (i < h_n h \<and> h_alive h ! i)"
| "legal (HCrash i) h = (i < h_n h \<and> h_alive h ! i)"
| "legal (HRestart i) h = (i < h_n h \<and> \<not> h_alive h ! i)"
| "legal (HDrop i n) h = (i < h_n h)"
| "legal (HDontDrop i) h = (i < h_n h)"
| "legal (HSubmit i cmd) h = (i < h_n h)"
| "legal (HCollect i c) h = (i < h_n h)"
| "legal (HMove i cm) h = (i < h_n h \<and> restorable (storage cm))"

fun hrun :: "'c hop list \<Rightarrow> 'c Harness \<Rightarrow> 'c Harness go option" where
  "hrun [] h = Some (Inr h)"
| "hrun (x # xs) h = (case hstep x h of Some (Inr h') \<Rightarrow> hrun xs h' | other \<Rightarrow> other)"

fun legal_run :: "'c hop list \<Rightarrow> 'c Harness \<Rightarrow> bool" where
  "legal_run [] h = True"
| "legal_run (x # xs) h = (legal x h \<and> (case hstep x h of Some (Inr h') \<Rightarrow> legal_run xs h' | _ \<Rightarrow> True))"

text \<open>The specification: which servers are alive and which pairs are linked.\<close>

fun link_step :: "'c hop \<Rightarrow> nat set \<times> (nat \<times> nat) set \<Rightarrow> nat set \<times> (nat \<times> nat) set" where
  "link_step (HDisconnect i) (A, E) = (A, isolate i E)"
| "link_step (HReconnect i) (A, E) = (A, rejoin i A E)"
| "link_step (HCrash i) (A, E) = (A - {i}, isolate i E)"
| "link_step (HRestart i) (A, E) = (insert i A, rejoin i A E)"
| "link_step x (A, E) = (A, E)"

lemma living_update:
  "length (h_alive h) = h_n h \<Longrightarrow> i < h_n h \<Longrightarrow> h_n h' = h_n h \<Longrightarrow> h_alive h' = (h_alive h)[i := b] \<Longrightarrow>
     living h' = (if b then insert i (living h) else living h - {i})"
  by (auto simp: living_def nth_list_update split: if_splits)

lemma h_connect_closed: "h_connect i j h = Inr (h', ok) \<Longrightarrow> h_closed h' = h_closed h"
  by (auto simp: h_connect_def go_bind_eq_Inr put_server_def Let_def case_prod_unfold)

lemma reconnect_closed: "reconnect_loop i js h = Inr h' \<Longrightarrow> h_closed h' = h_closed h"
proof (induction js arbitrary: h)
  case (Cons j js)
  then show ?case
    by (auto simp: go_bind_eq_Inr split: if_splits) (metis h_connect_closed)+
qed simp

lemma hstep_closed:
  assumes "hstep x h = Some (Inr h')"
  shows "h_closed h' = h_closed h"
proof -
  have fold: "h_closed (fold (disconnect_step i) js h) = h_closed h" for i js h
    by (induction js arbitrary: h) (auto simp: disconnect_step_def put_server_def split: prod.splits)
  have disc: "h_closed h2 = h_closed h1" if "h_DisconnectPeer i h1 = Inr h2" for i and h1 h2 :: "'a Harness"
    using that by (auto simp: h_DisconnectPeer_def fold put_server_def Let_def split: if_splits prod.splits)
  have rec: "h_closed h2 = h_closed h1" if "h_ReconnectPeer i h1 = Inr h2" for i and h1 h2 :: "'a Harness"
    using that reconnect_closed by (fastforce simp: h_ReconnectPeer_def go_bind_eq_Inr split: if_splits)
  show ?thesis
  proof (cases x)
    case (HCrash i)
    then show ?thesis using assms disc
      by (fastforce simp: h_CrashPeer_def Let_def put_server_def split: option.splits sum.splits)
  next
    case (HRestart i)
    then show ?thesis using assms rec
      by (fastforce simp: h_RestartPeer_def go_bind_eq_Inr put_server_def split: if_splits)
  qed (use assms disc rec in \<open>auto simp: h_PeerDropCallsAfterN_def h_PeerDontDropCalls_def h_SubmitToServer_def
      collectCommits_def put_server_def go_bind_eq_Inr split: if_splits\<close>)
qed

lemma Submit_restorable:
  "Submit cmd cm = (cm', k, es) \<Longrightarrow> restorable (storage cm) \<Longrightarrow> restorable (storage cm')"
  by (auto simp: Submit_def Let_def restorable_persist split: if_splits)

lemma put_server_same: "h_n (put_server i w s h) = h_n h" "h_alive (put_server i w s h) = h_alive h"
  by (simp_all add: put_server_def)

lemma hstep_set:
  assumes hk: "harness_ok h" and i: "i < h_n h"
    and s: "peerClients s = peerClients (h_cluster h ! i)" "quit s = quit (h_cluster h ! i)" "listener s = listener (h_cluster h ! i)"
      "srv_cm s \<noteq> None" "restorable (storage_of s)"
    and h': "h' = put_server i (h_net h) s h"
  shows "harness_ok h' \<and> (living h', links h') = (living h, links h)"
  using harness_set_server [OF hk i s] by (simp add: h' living_def put_server_same)

text \<open>Progress and preservation: a legal operation returns, keeps the harness well formed and does to
  the links what the specification says.\<close>

lemma hstep_ok:
  assumes hk: "harness_ok h" and lg: "legal x h"
  shows "\<exists>h'. hstep x h = Some (Inr h') \<and> harness_ok h' \<and> (living h', links h') = link_step x (living h, links h)"
proof -
  note K = harness_okD [OF hk]
  have sv: "srv_cm (h_cluster h ! i) \<noteq> None \<and> restorable (storage_of (h_cluster h ! i))" if "i < h_n h" for i
    using net_okD(3) [OF K(1) that] by (simp add: server_ok_def)
  show ?thesis
  proof (cases x)
    case (HDisconnect i)
    then show ?thesis using harness_disconnect [OF hk, of i] lg by (auto simp: living_def)
  next
    case (HReconnect i)
    then show ?thesis using harness_reconnect [OF hk, of i] lg by (auto simp: living_def)
  next
    case (HCrash i)
    then obtain h' where "h_CrashPeer i h = Some (Inr h')" "harness_ok h'" "links h' = isolate i (links h)" "h_n h' = h_n h"
        "h_alive h' = (h_alive h)[i := False]" using harness_crash [OF hk, of i] lg by auto
    then show ?thesis using HCrash lg living_update [OF K(4), of i h' False] by simp
  next
    case (HRestart i)
    then obtain h' where "h_RestartPeer i h = Inr h'" "harness_ok h'" "links h' = rejoin i (living h) (links h)" "h_n h' = h_n h"
        "h_alive h' = (h_alive h)[i := True]" using harness_restart [OF hk, of i] lg by auto
    then show ?thesis using HRestart lg living_update [OF K(4), of i h' True] by simp
  next
    case (HDrop i n)
    then show ?thesis
      using hstep_set [OF hk _ _ _ _ _ _ refl, of i "DropCallsAfterN n (h_cluster h ! i)"] lg sv [of i]
      by (auto simp: h_PeerDropCallsAfterN_def DropCallsAfterN_def storage_of_def)
  next
    case (HDontDrop i)
    then show ?thesis
      using hstep_set [OF hk _ _ _ _ _ _ refl, of i "DontDropCalls (h_cluster h ! i)"] lg sv [of i]
      by (auto simp: h_PeerDontDropCalls_def DontDropCalls_def storage_of_def)
  next
    case (HSubmit i cmd)
    then have i: "i < h_n h" using lg by simp
    obtain cm where cm: "srv_cm (h_cluster h ! i) = Some cm" using sv [OF i] by auto
    obtain cm' k es where sb: "Submit cmd cm = (cm', k, es)" by (metis prod_cases3)
    have "restorable (storage cm')" using Submit_restorable [OF sb] sv [OF i] cm by (simp add: storage_of_def)
    then show ?thesis
      using hstep_set [OF hk i _ _ _ _ _ refl, of "(h_cluster h ! i)\<lparr>srv_cm := Some cm'\<rparr>"] HSubmit i cm sb
      by (simp add: h_SubmitToServer_def srv_Submit_def storage_of_def)
  next
    case (HCollect i c)
    then show ?thesis using hk by (auto simp: collectCommits_def harness_ok_def living_def)
  next
    case (HMove i cm)
    then show ?thesis
      using hstep_set [OF hk _ _ _ _ _ _ refl, of i "(h_cluster h ! i)\<lparr>srv_cm := Some cm\<rparr>"] lg
      by (simp add: storage_of_def)
  qed
qed

lemma hrun_ok:
  assumes "harness_ok h" "legal_run xs h"
  shows "\<exists>h'. hrun xs h = Some (Inr h') \<and> harness_ok h' \<and> h_closed h' = h_closed h
    \<and> (living h', links h') = fold link_step xs (living h, links h)"
  using assms
proof (induction xs arbitrary: h)
  case (Cons x xs)
  obtain h1 where h1: "hstep x h = Some (Inr h1)" "harness_ok h1" "(living h1, links h1) = link_step x (living h, links h)"
    using hstep_ok [OF Cons.prems(1)] Cons.prems(2) by auto
  then show ?case using Cons.IH [OF h1(2)] Cons.prems(2) hstep_closed [OF h1(1)] by auto
qed simp


section \<open>What a test can rely on\<close>

text \<open>Calls follow the links.\<close>

lemma calls_follow_links:
  assumes hk: "harness_ok h" and ij: "i < h_n h" "j < h_n h" and nd: "numCallsBeforeDrop (h_cluster h ! i) \<noteq> 0"
  shows "snd (srv_Call (int j) (h_net h) (h_cluster h ! i)) =
    (if (i, j) \<in> links h then CallTo (the (listener (h_cluster h ! j))) else CallClosed)"
proof (cases "client (h_cluster h ! i) (int j)")
  case None
  then show ?thesis by (auto simp: srv_Call_def links_def owns_def)
next
  case (Some c)
  then have o: "owns h i (int j) c" using ij by (simp add: owns_def)
  then have "conns (h_net h) c = listener (h_cluster h ! j)"
    using net_okD(5) [OF harness_okD(1) [OF hk]] by (fastforce simp: link_ok_def)
  moreover obtain p where "listener (h_cluster h ! j) = Some p"
    using net_okD(3) [OF harness_okD(1) [OF hk] ij(2)] by (auto simp: server_ok_def)
  moreover have "(i, j) \<in> links h" using o by (auto simp: links_def)
  ultimately show ?thesis using Some nd by (simp add: srv_Call_def proxy_Call_def)
qed

text \<open>A test that partitions a server, crashes another, restarts it and drops calls.\<close>

definition ex_test :: "int hop list" where
  "ex_test = [HDisconnect 0, HCrash 1, HDrop 2 3, HReconnect 0, HRestart 1, HSubmit 2 7]"

lemma ex_test_legal:
  assumes "harness_ok h" "h_n h = 3" "h_alive h = replicate 3 True"
  shows "legal_run ex_test h"
proof -
  note set = h_PeerDropCallsAfterN_def put_server_same
  obtain h1 where h1: "h_DisconnectPeer 0 h = Inr h1" "harness_ok h1" "h_n h1 = 3" "h_alive h1 = replicate 3 True"
    using harness_disconnect [OF assms(1), of 0] assms(2,3) by auto
  obtain h2 where h2: "h_CrashPeer 1 h1 = Some (Inr h2)" "harness_ok h2" "h_n h2 = 3" "h_alive h2 = (replicate 3 True)[1 := False]"
    using harness_crash [OF h1(2), of 1] h1(3,4) by auto
  obtain h3 where h3: "hstep (HDrop 2 3) h2 = Some (Inr h3)" "harness_ok h3" using hstep_ok [OF h2(2), of "HDrop 2 3"] h2(3) by auto
  then have f3: "h_n h3 = 3" "h_alive h3 = (replicate 3 True)[1 := False]" using h2(3,4) by (auto simp: set)
  obtain h4 where h4: "h_ReconnectPeer 0 h3 = Inr h4" "harness_ok h4" "h_n h4 = 3" "h_alive h4 = (replicate 3 True)[1 := False]"
    using harness_reconnect [OF h3(2), of 0] f3 by auto
  obtain h5 where h5: "h_RestartPeer 1 h4 = Inr h5" "h_n h5 = 3" using harness_restart [OF h4(2), of 1] h4(3,4) by auto
  show ?thesis
    using assms(2) h1(1,3,4) h2(1,3,4) h3(1) f3 h4(1,3,4) h5 by (simp add: ex_test_def del: hstep.simps(5) split: option.splits sum.splits)
qed

text \<open>
  C33: the harness is sound. A new harness can always be created; then every sequence of operations that
  crashes and reconnects live servers only and restarts dead ones only runs to its end: no operation
  panics, fails the test or waits for ever. Afterwards the connections are well formed, and a final
  \<^verbatim>\<open>Shutdown\<close> returns with every server stopped and no listener and no connection left open.
\<close>

theorem harness_sound:
  "\<exists>h0 :: 'c Harness. NewHarness empty_network n = Inr h0
     \<and> (legal_run xs h0 \<longrightarrow>
          (\<exists>h. hrun xs h0 = Some (Inr h) \<and> harness_ok h
             \<and> (\<exists>h'. h_Shutdown h = Some (Inr h') \<and> ports (h_net h') = [] \<and> conns (h_net h') = Map.empty
                  \<and> (\<forall>i < h_n h'. quit (h_cluster h' ! i)))))"
proof -
  obtain h0 :: "'c Harness" where h0: "NewHarness empty_network n = Inr h0" "harness_ok h0" "\<not> h_closed h0"
    using NewHarness_ok by blast
  then show ?thesis using hrun_ok [OF h0(2), of xs] harness_shutdown by auto
qed

theorem harness_sound_witness:
  "\<exists>h0 h h'. NewHarness empty_network 3 = Inr h0 \<and> hrun ex_test h0 = Some (Inr h)
     \<and> h_Shutdown h = Some (Inr h') \<and> ports (h_net h') = []"
proof -
  obtain h0 :: "int Harness" where h0: "NewHarness empty_network 3 = Inr h0" "harness_ok h0" "h_n h0 = 3" "h_alive h0 = replicate 3 True"
    using NewHarness_ok [of 3] by blast
  then show ?thesis using harness_sound [of 3 ex_test] ex_test_legal [OF h0(2-4)] by auto
qed

text \<open>
  C34: faults do what they are called. A harness refines a graph of links between live servers, in which
  \<^verbatim>\<open>DisconnectPeer\<close> and \<^verbatim>\<open>CrashPeer\<close> remove every edge at the server, \<^verbatim>\<open>ReconnectPeer\<close> and \<^verbatim>\<open>RestartPeer\<close>
  add the edges to all live servers, and nothing else changes; and a call that the proxy does not drop
  reaches the current instance of the peer exactly when the graph has the edge.
\<close>

theorem harness_refines_links:
  assumes "NewHarness empty_network n = Inr h0" "legal_run xs h0" "hrun xs h0 = Some (Inr h)"
  shows "(living h, links h) = fold link_step xs ({0..<n}, {(i, j). i < n \<and> j < n \<and> i \<noteq> j})
    \<and> (\<forall>i < h_n h. \<forall>j < h_n h. numCallsBeforeDrop (h_cluster h ! i) \<noteq> 0 \<longrightarrow>
         snd (srv_Call (int j) (h_net h) (h_cluster h ! i)) =
           (if (i, j) \<in> links h then CallTo (the (listener (h_cluster h ! j))) else CallClosed))"
proof -
  obtain g :: "'a Harness" where "NewHarness empty_network n = Inr g" "harness_ok g" "h_n g = n" "h_alive g = replicate n True"
      "links g = {(i, j). i < n \<and> j < n \<and> i \<noteq> j}" using NewHarness_ok by blast
  then have h0: "harness_ok h0" "links h0 = {(i, j). i < n \<and> j < n \<and> i \<noteq> j}" "living h0 = {0..<n}"
    using assms(1) by (auto simp: living_def)
  from hrun_ok [OF h0(1) assms(2)] assms(3)
  have h: "harness_ok h" "(living h, links h) = fold link_step xs (living h0, links h0)" by auto
  then show ?thesis using calls_follow_links [OF h(1)] h0(2,3) by auto
qed

theorem harness_refines_links_witness:
  "\<exists>h0 h. NewHarness empty_network 3 = Inr h0 \<and> hrun ex_test h0 = Some (Inr h)
     \<and> (living h, links h) = ({0, 1, 2}, {(0, 1), (1, 0), (0, 2), (2, 0), (1, 2), (2, 1)})"
proof -
  obtain h0 :: "int Harness" where h0: "NewHarness empty_network 3 = Inr h0" "harness_ok h0" "h_n h0 = 3" "h_alive h0 = replicate 3 True"
    using NewHarness_ok [of 3] by blast
  note lg = ex_test_legal [OF h0(2-4)]
  obtain h where h: "hrun ex_test h0 = Some (Inr h)" using hrun_ok [OF h0(2) lg] by blast
  have A: "{0..<3} = {0, 1, 2 :: nat}" by auto
  have E: "{(i, j). i < 3 \<and> j < 3 \<and> i \<noteq> j} = {(0, 1), (1, 0), (0, 2), (2, 0), (1, 2), (2, 1 :: nat)}"
    by (auto simp: less_Suc_eq numeral_eq_Suc)
  have "isolate 0 {(0, 1), (1, 0), (0, 2), (2, 0), (1, 2), (2, 1)} = {(1, 2), (2, 1 :: nat)}"
    "isolate 1 {(1, 2), (2, 1 :: nat)} = {}" "rejoin 0 {0, 2} {} = {(0, 2), (2, 0 :: nat)}"
    "rejoin 1 {0, 2} {(0, 2), (2, 0)} = {(0, 1), (1, 0), (0, 2), (2, 0), (1, 2), (2, 1 :: nat)}"
    "{0, 1, 2} - {1} = {0, 2 :: nat}" "insert 1 {0, 2} = {0, 1, 2 :: nat}"
    by (auto simp: isolate_def rejoin_def)
  then have "fold link_step ex_test ({0, 1, 2}, {(0, 1), (1, 0), (0, 2), (2, 0), (1, 2), (2, 1)})
      = ({0, 1, 2}, {(0, 1), (1, 0), (0, 2), (2, 0), (1, 2), (2, 1)})"
    unfolding ex_test_def fold_simps link_step.simps comp_def id_def by (simp only:)
  then show ?thesis using harness_refines_links [OF h0(1) lg h] h0(1) h unfolding A E by auto
qed

text \<open>A server that is partitioned gets a link when another one is reconnected.\<close>

lemma reconnect_reaches_partitioned:
  assumes "NewHarness empty_network 3 = Inr (h0 :: 'c Harness)"
  shows "\<exists>h. hrun [HDisconnect 0, HDisconnect 1, HReconnect 1] h0 = Some (Inr h)
     \<and> \<not> h_connected h ! 0 \<and> (0, 1) \<in> links h \<and> (1, 0) \<in> links h"
proof -
  obtain h :: "'c Harness" where "NewHarness empty_network 3 = Inr h" "harness_ok h" "h_n h = 3" "h_alive h = replicate 3 True"
    using NewHarness_ok by blast
  then have h0: "harness_ok h0" "h_n h0 = 3" "h_alive h0 = replicate 3 True" using assms by auto
  obtain h1 where h1: "h_DisconnectPeer 0 h0 = Inr h1" "harness_ok h1" "h_n h1 = 3" "h_alive h1 = replicate 3 True"
      "h_connected h1 = (h_connected h0)[0 := False]"
    using harness_disconnect [OF h0(1), of 0] h0(2,3) by auto
  obtain h2 where h2: "h_DisconnectPeer 1 h1 = Inr h2" "harness_ok h2" "h_n h2 = 3" "h_alive h2 = replicate 3 True"
      "h_connected h2 = (h_connected h1)[1 := False]"
    using harness_disconnect [OF h1(2), of 1] h1(3,4) by auto
  have up: "\<not> quit (h_cluster h2 ! 1)" using harness_okD(7) [OF h2(2), of 1] h2(3,4) by simp
  obtain h3 where h3: "wires_only h2 h3" "links h3 = rejoin 1 (living h2) (links h2)"
      "h_ReconnectPeer 1 h2 = Inr (h3\<lparr>h_connected := (h_connected h2)[1 := True]\<rparr>)"
    using ReconnectPeer_ok [OF harness_okD(1) [OF h2(2)] _ up harness_okD(7) [OF h2(2)]] h2(3) unfolding rejoin_eq by auto
  have "0 \<in> living h2" using h2(3,4) by (simp add: living_def)
  moreover have "\<not> ((h_connected h2)[1 := True]) ! 0"
    using h2(5) h1(5) harness_okD(5) [OF h0(1)] h0(2) by simp
  ultimately show ?thesis using h1(1) h2(1) h3 by (auto simp: rejoin_def)
qed

end
