(* ===== verification/Craft.thy ===== *)
theory Craft
  imports Raft3Facts
begin

text \<open>
  The consensus module of \<^verbatim>\<open>src/craft\<close> (\<^verbatim>\<open>craft.go\<close>, \<^verbatim>\<open>types.go\<close>, \<^verbatim>\<open>storage.go\<close>), the same algorithm on a
  different RPC layer: requests and replies are Connect messages, entries are copied into and out of
  the messages of the generated package \<^verbatim>\<open>api\<close>, and a stopped server answers with an error instead of
  an empty reply. The structure \<^verbatim>\<open>ConsensusModule\<close> has the fields of the one in \<^verbatim>\<open>raft/part3\<close>, with \<^verbatim>\<open>int64\<close>
  for \<^verbatim>\<open>int\<close>, so the record is shared; commands are integers. The operations are translated from
  \<^verbatim>\<open>craft.go\<close> and proved equal to those of \<^verbatim>\<open>part3\<close>, which carries the safety theorems over.
\<close>

type_synonym craft_module = "int ConsensusModule"

section \<open>Persistence and life cycle\<close>

definition persistToStorage_c :: "craft_module \<Rightarrow> craft_module" where
  "persistToStorage_c cm =
     (let s1 = ms_Set (storage cm) ''currentTerm'' (GobInt (currentTerm cm));
          s2 = ms_Set s1 ''votedFor'' (GobInt (votedFor cm));
          s3 = ms_Set s2 ''log'' (GobLog (log cm))
      in cm\<lparr>storage := s3\<rparr>)"

definition restoreFromStorage_c :: "craft_module \<Rightarrow> craft_module go" where
  "restoreFromStorage_c cm =
     (case ms_Get (storage cm) ''currentTerm'' of
        None \<Rightarrow> Inl (Fatal ''currentTerm not found in storage'')
      | Some termData \<Rightarrow> go_bind (gob_decode_int termData) (\<lambda>t.
     (case ms_Get (storage cm) ''votedFor'' of
        None \<Rightarrow> Inl (Fatal ''votedFor not found in storage'')
      | Some votedData \<Rightarrow> go_bind (gob_decode_int votedData) (\<lambda>v.
     (case ms_Get (storage cm) ''log'' of
        None \<Rightarrow> Inl (Fatal ''log not found in storage'')
      | Some logData \<Rightarrow> go_bind (gob_decode_log logData) (\<lambda>l.
          Inr (cm\<lparr>currentTerm := t, votedFor := v, log := l\<rparr>)))))))"

definition NewConsensusModule_c :: "int \<Rightarrow> int list \<Rightarrow> int gob MapStorage \<Rightarrow> craft_module go" where
  "NewConsensusModule_c i peers st =
     (let cm = \<lparr>cm_id = i, peerIds = peers, storage = st, newCommitReadyChan = 0,
                currentTerm = 0, votedFor = -1, log = [], commitIndex = -1, lastApplied = -1,
                state = Follower, electionResetEvent = 0,
                nextIndex = Map.empty, matchIndex = Map.empty\<rparr>
      in if ms_HasData st then restoreFromStorage_c cm else Inr cm)"

definition cm_ready_c :: "int \<Rightarrow> craft_module \<Rightarrow> craft_module \<times> effect list" where
  "cm_ready_c now cm = (cm\<lparr>electionResetEvent := now\<rparr>, [GoRunElectionTimer])"

definition Report_c :: "craft_module \<Rightarrow> int \<times> int \<times> bool" where
  "Report_c cm = (cm_id cm, currentTerm cm, state cm = Leader)"

definition Submit_c :: "int \<Rightarrow> craft_module \<Rightarrow> craft_module \<times> int \<times> effect list" where
  "Submit_c command cm =
     (if state cm = Leader
      then let submitIndex = int (length (log cm));
               cm1 = cm\<lparr>log := log cm @ [\<lparr>Command = command, Term = currentTerm cm\<rparr>]\<rparr>
           in (persistToStorage_c cm1, submitIndex, [SendTriggerAE])
      else (cm, -1, []))"

definition Stop_c :: "craft_module \<Rightarrow> craft_module" where
  "Stop_c cm = cm\<lparr>state := Dead\<rparr>"

section \<open>The RPC handlers\<close>

text \<open>A handler returns the response, or \<open>None\<close> for \<^verbatim>\<open>connect.CodeUnavailable\<close> on a stopped server.\<close>

definition lastLogIndexAndTerm_c :: "craft_module \<Rightarrow> int \<times> int" where
  "lastLogIndexAndTerm_c cm =
     (if length (log cm) > 0
      then let lastIndex = length (log cm) - 1 in (int lastIndex, Term (log cm ! lastIndex))
      else (-1, -1))"

definition becomeFollower_c :: "int \<Rightarrow> int \<Rightarrow> craft_module \<Rightarrow> craft_module \<times> effect list" where
  "becomeFollower_c now t cm =
     (cm\<lparr>state := Follower, currentTerm := t, votedFor := -1, electionResetEvent := now\<rparr>,
      [GoRunElectionTimer])"

definition RequestVote_c ::
  "int \<Rightarrow> RequestVoteArgs \<Rightarrow> craft_module \<Rightarrow> craft_module \<times> RequestVoteReply option \<times> effect list" where
  "RequestVote_c now req cm =
     (if state cm = Dead then (cm, None, [])
      else
        let (lastLogIndex, lastLogTerm) = lastLogIndexAndTerm_c cm;
            (cm1, es) = (if rv_Term req > currentTerm cm
                         then becomeFollower_c now (rv_Term req) cm else (cm, []));
            reply = \<lparr>rvr_Term = currentTerm cm1, rvr_VoteGranted = False\<rparr>;
            (cm2, reply2) =
              (if currentTerm cm1 = rv_Term req
                  \<and> (votedFor cm1 = -1 \<or> votedFor cm1 = rv_CandidateId req)
                  \<and> (rv_LastLogTerm req > lastLogTerm
                     \<or> (rv_LastLogTerm req = lastLogTerm \<and> rv_LastLogIndex req \<ge> lastLogIndex))
               then (cm1\<lparr>votedFor := rv_CandidateId req, electionResetEvent := now\<rparr>, reply\<lparr>rvr_VoteGranted := True\<rparr>)
               else (cm1, reply))
        in (persistToStorage_c cm2, Some reply2, es))"

function insert_loop_c :: "int LogEntry list \<Rightarrow> int LogEntry list \<Rightarrow> nat \<Rightarrow> nat \<Rightarrow> nat \<times> nat" where
  "insert_loop_c lg es li ni =
     (if li \<ge> length lg \<or> ni \<ge> length es then (li, ni)
      else if Term (lg ! li) \<noteq> Term (es ! ni) then (li, ni)
      else insert_loop_c lg es (Suc li) (Suc ni))"
  by pat_completeness auto
termination
  by (relation "measure (\<lambda>(lg, es, li, ni). length es - ni)") auto

declare insert_loop_c.simps [simp del]

fun conflict_loop_c :: "int LogEntry list \<Rightarrow> int \<Rightarrow> nat \<Rightarrow> nat" where
  "conflict_loop_c lg t 0 = 0"
| "conflict_loop_c lg t (Suc i) = (if Term (lg ! i) \<noteq> t then Suc i else conflict_loop_c lg t i)"

text \<open>The entries of a message are copied field by field into new log entries, and back when sent.\<close>

definition copy_entries :: "int LogEntry list \<Rightarrow> int LogEntry list" where
  "copy_entries es = map (\<lambda>e. \<lparr>Command = Command e, Term = Term e\<rparr>) es"

definition append_accept_c :: "int AppendEntriesArgs \<Rightarrow> craft_module \<Rightarrow> craft_module" where
  "append_accept_c req cm =
     (let (li, ni) = insert_loop_c (log cm) (ae_Entries req) (nat (ae_PrevLogIndex req + 1)) 0;
          cm1 = (if ni < length (ae_Entries req)
                 then cm\<lparr>log := take li (log cm) @ copy_entries (drop ni (ae_Entries req))\<rparr> else cm)
      in if ae_LeaderCommit req > commitIndex cm1
         then cm1\<lparr>commitIndex := min (ae_LeaderCommit req) (int (length (log cm1)) - 1),
                  newCommitReadyChan := Suc (newCommitReadyChan cm1)\<rparr>
         else cm1)"

definition append_conflict_c :: "int LogEntry list \<Rightarrow> int \<Rightarrow> int \<times> int" where
  "append_conflict_c lg prevIndex =
     (if prevIndex \<ge> int (length lg) then (int (length lg), -1)
      else let ct = Term (lg ! nat prevIndex)
           in (int (conflict_loop_c lg ct (nat prevIndex)), ct))"

definition AppendEntries_c ::
  "int \<Rightarrow> int AppendEntriesArgs \<Rightarrow> craft_module
     \<Rightarrow> (craft_module \<times> AppendEntriesReply option \<times> effect list) go" where
  "AppendEntries_c now req cm =
     (if state cm = Dead then Inr (cm, None, [])
      else
        let (cm1, es1) = (if ae_Term req > currentTerm cm
                          then becomeFollower_c now (ae_Term req) cm else (cm, []));
            reply = \<lparr>aer_Term = currentTerm cm1, aer_Success = False, aer_ConflictIndex = 0, aer_ConflictTerm = 0\<rparr>
        in if ae_Term req = currentTerm cm1
           then
             let (cm2, es2) = (if state cm1 \<noteq> Follower
                               then becomeFollower_c now (ae_Term req) cm1 else (cm1, []));
                 cm3 = cm2\<lparr>electionResetEvent := now\<rparr>
             in go_bind (prev_matches (log cm3) (ae_PrevLogIndex req) (ae_PrevLogTerm req)) (\<lambda>ok.
                  if ok
                  then Inr (persistToStorage_c (append_accept_c req cm3),
                            Some (reply\<lparr>aer_Success := True\<rparr>), es1 @ es2)
                  else let (ci, ct) = append_conflict_c (log cm3) (ae_PrevLogIndex req)
                       in Inr (persistToStorage_c cm3,
                               Some (reply\<lparr>aer_ConflictIndex := ci, aer_ConflictTerm := ct\<rparr>), es1 @ es2))
           else Inr (persistToStorage_c cm1, Some reply, es1))"

section \<open>Elections\<close>

definition electionTimeout_c :: "bool \<Rightarrow> nat \<Rightarrow> nat \<Rightarrow> int" where
  "electionTimeout_c forced r3 r150 = (if forced \<and> r3 = 0 then 150 else 150 + int r150)"

definition startElection_c :: "int \<Rightarrow> craft_module \<Rightarrow> craft_module \<times> effect list" where
  "startElection_c now cm =
     (let cm1 = cm\<lparr>state := Candidate, currentTerm := currentTerm cm + 1,
                   electionResetEvent := now, votedFor := cm_id cm\<rparr>;
          savedCurrentTerm = currentTerm cm1
      in (cm1, map (\<lambda>p. GoRequestVote p savedCurrentTerm) (peerIds cm1) @ [GoRunElectionTimer]))"

definition runElectionTimer_c ::
  "int \<Rightarrow> int \<Rightarrow> int \<Rightarrow> craft_module \<Rightarrow> bool \<times> craft_module \<times> effect list" where
  "runElectionTimer_c now termStarted timeoutDuration cm =
     (if state cm \<noteq> Candidate \<and> state cm \<noteq> Follower then (False, cm, [])
      else if termStarted \<noteq> currentTerm cm then (False, cm, [])
      else if now - electionResetEvent cm \<ge> timeoutDuration
      then let (cm1, es) = startElection_c now cm in (False, cm1, es)
      else (True, cm, []))"

definition voteArgs_c :: "int \<Rightarrow> craft_module \<Rightarrow> RequestVoteArgs" where
  "voteArgs_c savedCurrentTerm cm =
     (let (savedLastLogIndex, savedLastLogTerm) = lastLogIndexAndTerm_c cm
      in \<lparr>rv_Term = savedCurrentTerm, rv_CandidateId = cm_id cm,
          rv_LastLogIndex = savedLastLogIndex, rv_LastLogTerm = savedLastLogTerm\<rparr>)"

definition startLeader_c :: "craft_module \<Rightarrow> craft_module \<times> effect list" where
  "startLeader_c cm =
     (let cm1 = cm\<lparr>state := Leader\<rparr>
      in (fold (\<lambda>p c. c\<lparr>nextIndex := (nextIndex c)(p \<mapsto> int (length (log c))),
                       matchIndex := (matchIndex c)(p \<mapsto> -1)\<rparr>) (peerIds cm1) cm1,
          [GoLeaderLoop]))"

definition voteReply_c ::
  "int \<Rightarrow> int \<Rightarrow> int \<Rightarrow> RequestVoteReply \<Rightarrow> craft_module \<Rightarrow> craft_module \<times> int \<times> effect list" where
  "voteReply_c now savedCurrentTerm votesReceived res cm =
     (if state cm \<noteq> Candidate then (cm, votesReceived, [])
      else if rvr_Term res > savedCurrentTerm
      then let (cm1, es) = becomeFollower_c now (rvr_Term res) cm in (cm1, votesReceived, es)
      else if rvr_Term res = savedCurrentTerm \<and> rvr_VoteGranted res
      then let votes = votesReceived + 1
           in if votes * 2 > int (length (peerIds cm)) + 1
              then let (cm1, es) = startLeader_c cm in (cm1, votes, es)
              else (cm, votes, [])
      else (cm, votesReceived, []))"

section \<open>Replication\<close>

definition leaderSendAEs_c :: "craft_module \<Rightarrow> effect list" where
  "leaderSendAEs_c cm =
     (if state cm \<noteq> Leader then [] else map (\<lambda>p. GoSendAE p (currentTerm cm)) (peerIds cm))"

definition aeArgs_c :: "int \<Rightarrow> int \<Rightarrow> craft_module \<Rightarrow> (int \<times> int AppendEntriesArgs) go" where
  "aeArgs_c savedCurrentTerm peerId cm =
     (let ni = go_get (nextIndex cm) peerId;
          prevLogIndex = ni - 1
      in go_bind (if prevLogIndex \<ge> 0 then go_bind (go_index (log cm) prevLogIndex) (\<lambda>e. Inr (Term e))
                  else Inr (-1)) (\<lambda>prevLogTerm.
         go_bind (go_from (log cm) ni) (\<lambda>logentries.
           Inr (ni, \<lparr>ae_Term = savedCurrentTerm, ae_LeaderId = cm_id cm,
                     ae_PrevLogIndex = prevLogIndex, ae_PrevLogTerm = prevLogTerm,
                     ae_Entries = copy_entries logentries, ae_LeaderCommit = commitIndex cm\<rparr>))))"

definition advance_commit_c :: "craft_module \<Rightarrow> craft_module" where
  "advance_commit_c cm =
     fold (\<lambda>i c. if Term (log c ! i) = currentTerm c
                \<and> (1 + int (length (filter (\<lambda>p. go_get (matchIndex c) p \<ge> int i) (peerIds c)))) * 2
                     > int (length (peerIds c)) + 1
                then c\<lparr>commitIndex := int i\<rparr> else c)
       [nat (commitIndex cm + 1) ..< length (log cm)] cm"

fun last_index_loop_c :: "int LogEntry list \<Rightarrow> int \<Rightarrow> nat \<Rightarrow> int" where
  "last_index_loop_c lg t 0 = -1"
| "last_index_loop_c lg t (Suc i) = (if Term (lg ! i) = t then int i else last_index_loop_c lg t i)"

definition aeReply_c ::
  "int \<Rightarrow> int \<Rightarrow> int \<Rightarrow> int \<Rightarrow> nat \<Rightarrow> AppendEntriesReply \<Rightarrow> craft_module \<Rightarrow> craft_module \<times> effect list" where
  "aeReply_c now savedCurrentTerm peerId ni nEntries res cm =
     (if aer_Term res > currentTerm cm then becomeFollower_c now (aer_Term res) cm
      else if state cm = Leader \<and> savedCurrentTerm = aer_Term res
      then if aer_Success res
           then let cm1 = cm\<lparr>nextIndex := (nextIndex cm)(peerId \<mapsto> ni + int nEntries),
                             matchIndex := (matchIndex cm)(peerId \<mapsto> ni + int nEntries - 1)\<rparr>;
                    savedCommitIndex = commitIndex cm1;
                    cm2 = advance_commit_c cm1
                in if commitIndex cm2 \<noteq> savedCommitIndex
                   then (cm2\<lparr>newCommitReadyChan := Suc (newCommitReadyChan cm2)\<rparr>, [SendTriggerAE])
                   else (cm2, [])
           else let newNext =
                      (if aer_ConflictTerm res \<ge> 0
                       then let lastIndexOfTerm =
                                  last_index_loop_c (log cm) (aer_ConflictTerm res) (length (log cm))
                            in if lastIndexOfTerm \<ge> 0 then lastIndexOfTerm + 1
                               else aer_ConflictIndex res
                       else aer_ConflictIndex res)
                in (cm\<lparr>nextIndex := (nextIndex cm)(peerId \<mapsto> newNext)\<rparr>, [])
      else (cm, []))"

definition commitChanSender_c :: "craft_module \<Rightarrow> (craft_module \<times> int CommitEntry list) go" where
  "commitChanSender_c cm =
     (let savedTerm = currentTerm cm;
          savedLastApplied = lastApplied cm;
          cm1 = cm\<lparr>newCommitReadyChan := newCommitReadyChan cm - 1\<rparr>
      in if commitIndex cm > lastApplied cm
         then go_bind (go_range (log cm) (lastApplied cm + 1) (commitIndex cm + 1)) (\<lambda>entries.
                Inr (cm1\<lparr>lastApplied := commitIndex cm\<rparr>,
                     map (\<lambda>i. \<lparr>ce_Command = Command (entries ! i), ce_Index = savedLastApplied + int i + 1,
                               ce_Term = savedTerm\<rparr>) [0 ..< length entries]))
         else Inr (cm1, []))"

section \<open>Equality with the part3 module\<close>

text \<open>Field by field, the operations are those of \<^verbatim>\<open>part3\<close>; only a stopped server answers differently.\<close>

lemma copy_entries_id: "copy_entries es = es"
  by (induction es) (simp_all add: copy_entries_def)

lemma insert_loop_c_eq: "insert_loop_c lg es li ni = insert_loop lg es li ni"
proof (induction lg es li ni rule: insert_loop.induct)
  case (1 lg es li ni)
  then show ?case by (simp add: insert_loop_c.simps [of lg es li ni] insert_loop.simps [of lg es li ni])
qed

lemma loops_c_eq:
  "conflict_loop_c lg t i = conflict_loop lg t i" "last_index_loop_c lg t i = last_index_loop lg t i"
  by (induction i) simp_all

lemma helpers_c_eq:
  "persistToStorage_c = persistToStorage" "restoreFromStorage_c = restoreFromStorage"
  "lastLogIndexAndTerm_c = lastLogIndexAndTerm" "becomeFollower_c = becomeFollower"
  "startElection_c = startElection" "startLeader_c = startLeader" "advance_commit_c = advance_commit"
  "append_accept_c = append_accept" "append_conflict_c = append_conflict"
  unfolding fun_eq_iff persistToStorage_c_def persistToStorage_def restoreFromStorage_c_def restoreFromStorage_def
      lastLogIndexAndTerm_c_def lastLogIndexAndTerm_def becomeFollower_c_def becomeFollower_def startElection_c_def
      startElection_def startLeader_c_def startLeader_def advance_commit_c_def advance_commit_def majority_def
      matchCount_def append_accept_c_def append_accept_def append_conflict_c_def append_conflict_def
      insert_loop_c_eq loops_c_eq copy_entries_id
  by (rule allI refl)+

lemma ops_c_eq:
  "NewConsensusModule_c = NewConsensusModule" "cm_ready_c = cm_ready" "Submit_c = Submit" "Stop_c = Stop"
  "runElectionTimer_c = runElectionTimer" "voteArgs_c = voteArgs" "voteReply_c = voteReply"
  "leaderSendAEs_c = leaderSendAEs" "aeArgs_c = aeArgs" "aeReply_c = aeReply"
  unfolding fun_eq_iff NewConsensusModule_c_def NewConsensusModule_def cm_ready_c_def cm_ready_def Submit_c_def
    Submit_def Stop_c_def Stop_def runElectionTimer_c_def runElectionTimer_def voteArgs_c_def voteArgs_def
    voteReply_c_def voteReply_def leaderSendAEs_c_def leaderSendAEs_def aeArgs_c_def aeArgs_def aeReply_c_def
    aeReply_def helpers_c_eq loops_c_eq majority_def copy_entries_id
  by (rule allI refl)+

lemma commit_entries_c_eq:
  "map (\<lambda>i. \<lparr>ce_Command = Command (es ! i), ce_Index = a + int i + 1, ce_Term = t\<rparr>) [0 ..< length es]
     = map (\<lambda>(i, e). \<lparr>ce_Command = Command e, ce_Index = a + int i + 1, ce_Term = t\<rparr>) (List.enumerate 0 es)"
  by (rule nth_equalityI) (simp_all add: nth_enumerate_eq)

lemma commitChanSender_c_eq: "commitChanSender_c = commitChanSender"
  unfolding fun_eq_iff commitChanSender_c_def commitChanSender_def commit_entries_c_eq by (rule allI refl)+

lemma RequestVote_c_eq:
  "RequestVote_c now req cm =
     (if state cm = Dead then (cm, None, [])
      else let (cm', r, es) = RequestVote now req cm in (cm', Some r, es))"
proof -
  obtain i t where "lastLogIndexAndTerm cm = (i, t)" by fastforce
  then show ?thesis
    by (cases "rv_Term req > currentTerm cm")
      (auto simp: RequestVote_c_def RequestVote_def helpers_c_eq becomeFollower_def Let_def)
qed

lemma AppendEntries_c_eq:
  "AppendEntries_c now req cm =
     (if state cm = Dead then Inr (cm, None, [])
      else go_bind (AppendEntries now req cm) (\<lambda>(cm', r, es). Inr (cm', Some r, es)))"
proof (cases "state cm = Dead")
  case False
  obtain ci ct where "append_conflict (log cm) (ae_PrevLogIndex req) = (ci, ct)" by fastforce
  with False show ?thesis
    by (cases "prev_matches (log cm) (ae_PrevLogIndex req) (ae_PrevLogTerm req)")
      (simp_all add: AppendEntries_c_def AppendEntries_def helpers_c_eq becomeFollower_def raft_frame Let_def)
qed (simp add: AppendEntries_c_def)

section \<open>Clusters of craft servers\<close>

definition craft_impl :: "(craft_module, int) raft_impl" where
  "craft_impl =
     \<lparr>im_id = cm_id, im_peers = peerIds, im_term = currentTerm, im_voted = votedFor, im_role = state, im_log = log,
      im_ready = cm_ready_c, im_RequestVote = RequestVote_c, im_AppendEntries = AppendEntries_c,
      im_timer = runElectionTimer_c, im_voteArgs = voteArgs_c, im_voteReply = voteReply_c,
      im_sendAEs = leaderSendAEs_c, im_aeArgs = aeArgs_c, im_aeReply = aeReply_c,
      im_Submit = Submit_c, im_Stop = Stop_c, im_commit = commitChanSender_c,
      im_restart = (\<lambda>cm. NewConsensusModule_c (cm_id cm) (peerIds cm) (storage cm)),
      im_fresh = (\<lambda>t r cm. True)\<rparr>"

lemma craft_impl_eq:
  "craft_impl = part3_impl\<lparr>im_RequestVote := RequestVote_c, im_AppendEntries := AppendEntries_c\<rparr>"
  by (simp add: craft_impl_def part3_impl_def ops_c_eq commitChanSender_c_eq)

lemma craft_impl_sel [simp]:
  "im_id craft_impl = cm_id" "im_peers craft_impl = peerIds" "im_term craft_impl = currentTerm"
  "im_voted craft_impl = votedFor" "im_role craft_impl = state" "im_log craft_impl = log"
  "im_ready craft_impl = cm_ready" "im_timer craft_impl = runElectionTimer" "im_voteArgs craft_impl = voteArgs"
  "im_voteReply craft_impl = voteReply" "im_sendAEs craft_impl = leaderSendAEs" "im_aeArgs craft_impl = aeArgs"
  "im_aeReply craft_impl = aeReply" "im_Submit craft_impl = Submit" "im_Stop craft_impl = Stop"
  "im_commit craft_impl = commitChanSender" "im_fresh craft_impl t r cm"
  "im_restart craft_impl cm = NewConsensusModule (cm_id cm) (peerIds cm) (storage cm)"
  "im_RequestVote craft_impl = RequestVote_c" "im_AppendEntries craft_impl = AppendEntries_c"
  by (simp_all add: craft_impl_eq)

lemma craft_keeps [simp]:
  "keeps craft_impl c c' = keeps part3_impl c c'" "same_vote craft_impl c c' = same_vote part3_impl c c'"
  by (simp_all add: keeps_def same_vote_def)

interpretation craft: raft_node craft_impl
proof (standard, goal_cases)
  case (2 now a c c' r es)
  show ?case
  proof (cases "state c = Dead")
    case True
    then show ?thesis using 2 by (auto simp: RequestVote_c_eq quiet_def keeps_def)
  next
    case False
    then have "im_RequestVote part3_impl now a c = (c', r, es)"
      using 2 by (simp add: RequestVote_c_eq)
    from p3.RequestVote_law [OF this] show ?thesis by auto
  qed
next
  case (3 now b c c' q es)
  show ?case
  proof (cases "state c = Dead")
    case True
    then show ?thesis using 3 by (auto simp: AppendEntries_c_eq quiet_def)
  next
    case False
    then obtain r where "AppendEntries now b c = Inr (c', r, es)"
      using 3 by (auto simp: AppendEntries_c_eq go_bind_eq_Inr)
    then show ?thesis using AppendEntries_vote by simp
  qed
qed (use p3.ready_law p3.timer_law p3.voteArgs_law p3.voteReply_law p3.sendAEs_law p3.aeArgs_law p3.aeReply_law
    p3.Submit_law p3.Stop_law p3.commit_law p3.restart_law in simp_all)

interpretation craft_log: raft_log craft_impl
proof (standard, goal_cases)
  case (2 now a c c' r es)
  show ?case
  proof (cases "state c = Dead")
    case True
    then show ?thesis using 2 by (simp add: RequestVote_c_eq)
  next
    case False
    then have "im_RequestVote part3_impl now a c = (c', r, es)"
      using 2 by (simp add: RequestVote_c_eq)
    from p3log.RequestVote_log [OF this] show ?thesis by simp
  qed
next
  case (3 now b c c' q es)
  show ?case
  proof (cases "state c = Dead")
    case True
    then show ?thesis using 3 by (auto simp: AppendEntries_c_eq)
  next
    case False
    then obtain r where "AppendEntries now b c = Inr (c', r, es)"
      using 3 by (auto simp: AppendEntries_c_eq go_bind_eq_Inr)
    then show ?thesis using AppendEntries_merges by simp
  qed
qed (use p3log.ready_log p3log.timer_log p3log.voteReply_log p3log.aeArgs_log p3log.aeReply_log
    p3log.Submit_log p3log.Stop_log p3log.commit_log in simp_all)

interpretation craft_cluster: raft_log_cluster craft_impl part3_new
  by standard (simp_all add: part3_new_def)

abbreviation craft_run :: "int list \<Rightarrow> int event list \<Rightarrow> (craft_module, int) cluster go option" where
  "craft_run ns evs \<equiv> crun craft_impl evs (cluster_init part3_new ns)"

abbreviation craft_timely :: "int list \<Rightarrow> int event list \<Rightarrow> bool" where
  "craft_timely ns evs \<equiv> timely_run craft_impl evs (cluster_init part3_new ns)"

lemmas craft_eval = p3_eval RequestVote_c_eq AppendEntries_c_eq

lemma craft_ex_commit_run:
  "craft_timely [0, 1, 2] ex_commit"
  "ends_in (craft_run [0, 1, 2] ex_commit) (\<lambda>s. (1, 0) \<in> elected s \<and> log (nodes s 0) = [\<lparr>Command = 7, Term = 1\<rparr>]
     \<and> log (nodes s 1) = [\<lparr>Command = 7, Term = 1\<rparr>])"
  by (simp_all add: ex_commit_def craft_eval)

text \<open>
  C12: the craft module is the part3 module on another transport. Every operation computes the same
  state, effects and results; the only difference is that a stopped server answers both RPCs with an
  error, where the part3 server returns an empty reply.
\<close>

theorem craft_is_part3:
  "craft_impl = part3_impl
     \<lparr>im_RequestVote := (\<lambda>now req cm. if state cm = Dead then (cm, None, []) else im_RequestVote part3_impl now req cm),
      im_AppendEntries := (\<lambda>now req cm. if state cm = Dead then Inr (cm, None, [])
                                       else im_AppendEntries part3_impl now req cm)\<rparr>"
  by (simp add: craft_impl_eq fun_eq_iff RequestVote_c_eq AppendEntries_c_eq)

text \<open>
  Safety of a cluster of craft servers. In every run of timely events two servers that have been
  leader in a term are the same server, and two logs with the same term at an index agree up to that index.
\<close>

theorem craft_safety:
  assumes "good_config ns" "craft_timely ns evs" "craft_run ns evs = Some (Inr s)"
  shows "((t, m) \<in> elected s \<longrightarrow> (t, n) \<in> elected s \<longrightarrow> m = n)
     \<and> (i < length (log (nodes s p)) \<longrightarrow> i < length (log (nodes s q))
        \<longrightarrow> Term (log (nodes s p) ! i) = Term (log (nodes s q) ! i)
        \<longrightarrow> take (Suc i) (log (nodes s p)) = take (Suc i) (log (nodes s q)))"
  using craft_cluster.one_leader_per_term [OF timely_run_reach [OF timely_reach.start assms(2,3)] assms(1), of t m n]
    craft_cluster.logs_match [OF timely_run_reach [OF timely_reach.start assms(2,3)] assms(1), of i p q]
  by simp

theorem craft_safety_witness:
  "\<exists>s. craft_run [0, 1, 2] ex_commit = Some (Inr s) \<and> (1, 0) \<in> elected s \<and> (1, 1) \<notin> elected s
     \<and> log (nodes s 0) \<noteq> [] \<and> take (Suc 0) (log (nodes s 0)) = take (Suc 0) (log (nodes s 1))"
proof -
  obtain s where s: "craft_run [0, 1, 2] ex_commit = Some (Inr s)" "(1, 0) \<in> elected s"
      "log (nodes s 0) = [\<lparr>Command = 7, Term = 1\<rparr>]" "log (nodes s 1) = [\<lparr>Command = 7, Term = 1\<rparr>]"
    using ends_inD [OF craft_ex_commit_run(2)] by auto
  have cfg: "good_config [0, 1, 2]" by (simp add: good_config_def)
  from craft_safety [OF cfg craft_ex_commit_run(1) s(1), of 1 0 1 0 0 1] show ?thesis using s by auto
qed

end
