(* ===== verification/RaftHistory.thy ===== *)
theory RaftHistory
  imports RaftLog "HOL-Library.Sublist"
begin

text \<open>
  Why committed entries stay: the argument for leader completeness, on a history of a cluster that
  is not part of its state. The history has the log with which the leader of each term started, the
  longest log it ever had, which server acknowledged which prefix of it, and the log with which a server
  voted. Nothing here depends on an implementation; the theory \<^verbatim>\<open>RaftCommit\<close> shows that every step keeps
  such a history.
\<close>

section \<open>Logs\<close>

text \<open>The index and the term of the last entry, and the comparison that \<^verbatim>\<open>RequestVote\<close> makes.\<close>

definition last_pos :: "'c LogEntry list \<Rightarrow> int \<times> int" where
  "last_pos L = (if L = [] then (-1, -1) else (int (length L) - 1, Term (last L)))"

definition up_to_date_pos :: "int \<times> int \<Rightarrow> 'c LogEntry list \<Rightarrow> bool" where
  "up_to_date_pos pos L \<longleftrightarrow> snd pos > snd (last_pos L) \<or> (snd pos = snd (last_pos L) \<and> fst pos \<ge> fst (last_pos L))"

text \<open>What a follower does with a call that it accepts: it keeps its log when it has all the entries, and
  otherwise replaces what follows the last entry that matches.\<close>

definition accepts :: "'c LogEntry list \<Rightarrow> 'c AppendEntriesArgs \<Rightarrow> 'c LogEntry list \<Rightarrow> bool" where
  "accepts lg b lg' \<longleftrightarrow>
     (let m = nat (ae_PrevLogIndex b + 1); E = ae_Entries b
      in -1 \<le> ae_PrevLogIndex b \<and> (0 \<le> ae_PrevLogIndex b \<longrightarrow> Term (lg ! nat (ae_PrevLogIndex b)) = ae_PrevLogTerm b)
         \<and> (\<exists>k \<le> length E. m + k \<le> length lg \<and> (\<forall>j < k. Term (lg ! (m + j)) = Term (E ! j))
              \<and> (if k = length E then lg' = lg
                 else (m + k = length lg \<or> Term (lg ! (m + k)) \<noteq> Term (E ! k)) \<and> lg' = take (m + k) lg @ drop k E)))"

lemma prefix_take_eq: "prefix X L \<Longrightarrow> i < length X \<Longrightarrow> X ! i = L ! i"
  by (auto simp: prefix_def nth_append)

lemma prefix_takeD: "prefix X L \<Longrightarrow> n \<le> length X \<Longrightarrow> take n X = take n L"
  by (auto simp: prefix_def)

lemma take_prefix_mono: "prefix L L' \<Longrightarrow> n \<le> length L \<Longrightarrow> take n L' = take n L"
  by (auto simp: prefix_def)

lemma accepts_source:
  assumes lm: "log_matching {lg, L}" and b: "from_log L b" and acc: "accepts lg b lg'"
  shows "prefix L lg'" and "prefix X lg \<Longrightarrow> prefix X L \<or> prefix L X \<Longrightarrow> prefix X lg'" and "lg' = lg \<or> lg' = L"
proof -
  define m where "m = nat (ae_PrevLogIndex b + 1)"
  have E: "ae_Entries b = drop m L" "m \<le> length L" using b by (auto simp: from_log_def m_def nat_le_iff)
  obtain k where k: "k \<le> length (ae_Entries b)" "m + k \<le> length lg" "\<forall>j < k. Term (lg ! (m + j)) = Term (ae_Entries b ! j)"
    and r: "if k = length (ae_Entries b) then lg' = lg
            else (m + k = length lg \<or> Term (lg ! (m + k)) \<noteq> Term (ae_Entries b ! k)) \<and> lg' = take (m + k) lg @ drop k (ae_Entries b)"
    using acc unfolding accepts_def Let_def m_def by blast
  have "merged lg b k (take (m + k) lg @ drop k (ae_Entries b))"
    using acc k by (auto simp: accepts_def merged_def Let_def m_def)
  then have src: "take (m + k) lg @ drop k (ae_Entries b) = L"
    by (rule merged_is_source [OF lm _ _ b, rotated 2]) auto
  have "prefix L lg' \<and> (prefix X lg \<longrightarrow> prefix X L \<or> prefix L X \<longrightarrow> prefix X lg') \<and> (lg' = lg \<or> lg' = L)"
  proof (cases "k = length (ae_Entries b)")
    case True
    then have "lg' = lg" "L = take (m + k) lg" using r src by simp_all
    then show ?thesis by (simp add: take_is_prefix)
  next
    case False
    then have lg': "lg' = L" and mis: "m + k = length lg \<or> Term (lg ! (m + k)) \<noteq> Term (ae_Entries b ! k)"
      using r src by simp_all
    have "m + k < length L" using False k(1) E by simp
    then have "prefix X L" if "prefix X lg" "prefix L X"
      using that mis E False k(1) prefix_take_eq [of L lg "m + k"] prefix_length_le [of L lg]
      by (auto dest: prefix_order.trans)
    then show ?thesis using lg' by blast
  qed
  then show "prefix L lg'" and "prefix X lg \<Longrightarrow> prefix X L \<or> prefix L X \<Longrightarrow> prefix X lg'" and "lg' = lg \<or> lg' = L"
    by blast+
qed

section \<open>The history\<close>

record 'c history =
  h_start :: "int \<Rightarrow> 'c LogEntry list"
  h_led :: "int \<Rightarrow> 'c LogEntry list"
  h_acks :: "(int \<times> int \<times> nat) set"
  h_ballots :: "(int \<times> int \<times> 'c LogEntry list) set"

text \<open>Every entry of \<open>L\<close> comes, with all entries before it, from the leader of its term.\<close>

definition of_leaders :: "(int \<times> int) set \<Rightarrow> 'c history \<Rightarrow> 'c LogEntry list \<Rightarrow> bool" where
  "of_leaders E H L \<longleftrightarrow>
     (\<forall>i < length L. Term (L ! i) \<in> fst ` E \<and> take (Suc i) L = take (Suc i) (h_led H (Term (L ! i))))"

text \<open>\<open>forgets E H t m u\<close>: the leader of some term between \<open>t\<close> and \<open>u\<close> started without the first \<open>m\<close> entries of the
  leader of \<open>t\<close>.\<close>

definition forgets :: "(int \<times> int) set \<Rightarrow> 'c history \<Rightarrow> int \<Rightarrow> nat \<Rightarrow> int \<Rightarrow> bool" where
  "forgets E H t m u \<longleftrightarrow> (\<exists>w \<in> fst ` E. t < w \<and> w < u \<and> \<not> prefix (take m (h_led H t)) (h_start H w))"

definition quorum :: "int list \<Rightarrow> int set \<Rightarrow> bool" where
  "quorum ns Q \<longleftrightarrow> Q \<subseteq> set ns \<and> 2 * card Q > card (set ns)"

definition leader_ok :: "(int \<times> int) set \<Rightarrow> 'c history \<Rightarrow> int list \<Rightarrow> int \<Rightarrow> bool" where
  "leader_ok E H ns t \<longleftrightarrow> 0 \<le> t \<and> prefix (h_start H t) (h_led H t) \<and> of_leaders E H (h_led H t)
     \<and> (\<forall>e \<in> set (h_start H t). Term e < t) \<and> (\<forall>e \<in> set (drop (length (h_start H t)) (h_led H t)). Term e = t)
     \<and> (\<exists>W. quorum ns W \<and> (\<forall>p \<in> W. \<exists>v. (p, t, v) \<in> h_ballots H \<and> up_to_date_pos (last_pos (h_start H t)) v))"

definition history_ok :: "(int \<times> int) set \<Rightarrow> 'c history \<Rightarrow> int list \<Rightarrow> bool" where
  "history_ok E H ns \<longleftrightarrow>
     (\<forall>t \<in> fst ` E. leader_ok E H ns t)
   \<and> (\<forall>(p, t, m) \<in> h_acks H. t \<in> fst ` E \<and> m \<le> length (h_led H t))
   \<and> (\<forall>(p, u, v) \<in> h_ballots H. of_leaders E H v
        \<and> (\<forall>t m. (p, t, m) \<in> h_acks H \<longrightarrow> t < u \<longrightarrow> prefix (take m (h_led H t)) v \<or> forgets E H t m u))"

lemma history_okD:
  assumes "history_ok E H ns"
  shows "t \<in> fst ` E \<Longrightarrow> leader_ok E H ns t"
    and "(p, t, m) \<in> h_acks H \<Longrightarrow> t \<in> fst ` E \<and> m \<le> length (h_led H t)"
    and "(p, u, v) \<in> h_ballots H \<Longrightarrow> of_leaders E H v"
    and "(p, u, v) \<in> h_ballots H \<Longrightarrow> (p, t, m) \<in> h_acks H \<Longrightarrow> t < u \<Longrightarrow> prefix (take m (h_led H t)) v \<or> forgets E H t m u"
  using assms unfolding history_ok_def by blast+

lemma of_leaders_take:
  "of_leaders E H L \<Longrightarrow> i < length L \<Longrightarrow> take (Suc i) L = take (Suc i) (h_led H (Term (L ! i))) \<and> Term (L ! i) \<in> fst ` E"
  by (simp add: of_leaders_def)

lemma of_leaders_prefix:
  assumes "of_leaders E H L" "prefix X L"
  shows "of_leaders E H X"
  unfolding of_leaders_def
proof (intro allI impI)
  fix i assume i: "i < length X"
  then have "take (Suc i) X = take (Suc i) L" "X ! i = L ! i" "i < length L"
    using assms(2) prefix_takeD [of X L "Suc i"] prefix_take_eq [of X L i] prefix_length_le [of X L] by auto
  then show "Term (X ! i) \<in> fst ` E \<and> take (Suc i) X = take (Suc i) (h_led H (Term (X ! i)))"
    using of_leaders_take [OF assms(1), of i] by simp
qed

lemma of_leaders_matching:
  assumes "of_leaders E H L" "of_leaders E H M"
  shows "log_matching {L, M}"
  using of_leaders_take [OF assms(1)] of_leaders_take [OF assms(2)] by (auto simp: log_matching_def)

text \<open>Entries of older terms come first.\<close>

lemma led_terms:
  assumes "leader_ok E H ns t" "i < length (h_led H t)"
  shows "Term (h_led H t ! i) \<le> t" and "length (h_start H t) \<le> i \<Longrightarrow> Term (h_led H t ! i) = t"
    and "Term (h_led H t ! i) = t \<Longrightarrow> length (h_start H t) \<le> i"
proof -
  let ?s = "h_start H t" and ?l = "h_led H t"
  have p: "prefix ?s ?l" and s: "\<forall>e \<in> set ?s. Term e < t" and d: "\<forall>e \<in> set (drop (length ?s) ?l). Term e = t"
    using assms(1) by (auto simp: leader_ok_def)
  have lo: "i < length ?s \<Longrightarrow> Term (?l ! i) < t" using prefix_take_eq [OF p, of i] s by (metis nth_mem)
  have hi: "Term (?l ! i) = t" if "length ?s \<le> i"
  proof -
    have "drop (length ?s) ?l ! (i - length ?s) \<in> set (drop (length ?s) ?l)"
      by (rule nth_mem) (use that assms(2) in simp)
    then show ?thesis using that d assms(2) by simp
  qed
  show "Term (?l ! i) \<le> t" "length ?s \<le> i \<Longrightarrow> Term (?l ! i) = t" "Term (?l ! i) = t \<Longrightarrow> length ?s \<le> i"
    using lo hi by (cases "i < length ?s"; force)+
qed

lemma of_leaders_sorted:
  assumes h: "history_ok E H ns" and L: "of_leaders E H L" and ij: "i \<le> j" "j < length L"
  shows "Term (L ! i) \<le> Term (L ! j)"
proof -
  let ?t = "Term (L ! j)"
  have t: "take (Suc j) L = take (Suc j) (h_led H ?t)" "?t \<in> fst ` E" using of_leaders_take [OF L ij(2)] by auto
  have "length (take (Suc j) L) = Suc j" using ij by simp
  then have len: "j < length (h_led H ?t)" unfolding t(1) by simp
  have "L ! i = h_led H ?t ! i" using t(1) ij by (metis le_imp_less_Suc nth_take)
  then show ?thesis using led_terms(1) [OF history_okD(1) [OF h t(2)], of i] ij len by simp
qed

lemma of_leaders_last:
  assumes "of_leaders E H L" "L \<noteq> []"
  shows "prefix L (h_led H (Term (last L)))" "Term (last L) \<in> fst ` E"
proof -
  have "last L = L ! (length L - 1)" "length L - 1 < length L" "Suc (length L - 1) = length L"
    using assms(2) by (simp_all add: last_conv_nth)
  then have "take (length L) L = take (length L) (h_led H (Term (last L))) \<and> Term (last L) \<in> fst ` E"
    using of_leaders_take [OF assms(1), of "length L - 1"] by metis
  then show "prefix L (h_led H (Term (last L)))" "Term (last L) \<in> fst ` E"
    by (metis order_refl take_all take_is_prefix)+
qed

section \<open>Committed entries\<close>

text \<open>Entry \<open>j\<close> of the leader of \<open>t\<close> is of its own term, and a quorum has acknowledged it.\<close>

definition committed :: "(int \<times> int) set \<Rightarrow> 'c history \<Rightarrow> int list \<Rightarrow> int \<Rightarrow> nat \<Rightarrow> bool" where
  "committed E H ns t j \<longleftrightarrow> t \<in> fst ` E \<and> j < length (h_led H t) \<and> Term (h_led H t ! j) = t
     \<and> (\<exists>Q. quorum ns Q \<and> (\<forall>p \<in> Q. (p, t, Suc j) \<in> h_acks H))"

lemma quorums_meet: "quorum ns Q \<Longrightarrow> quorum ns W \<Longrightarrow> \<exists>p. p \<in> Q \<and> p \<in> W"
  unfolding quorum_def using majorities_meet [of "set ns" Q W] by blast

text \<open>The log of a candidate that is up to date with the log of a voter has what the voter had of a committed
  prefix, if the leaders in between had it.\<close>

lemma winner_has_prefix:
  assumes h: "history_ok E H ns" and u: "leader_ok E H ns u" and v: "of_leaders E H v" "prefix X v"
    and up: "up_to_date_pos (last_pos (h_start H u)) v"
    and X: "X \<noteq> []" "Term (last X) = t" "0 \<le> t"
    and mid: "\<And>w. w \<in> fst ` E \<Longrightarrow> t < w \<Longrightarrow> w < u \<Longrightarrow> prefix X (h_start H w)"
  shows "prefix X (h_start H u)"
proof -
  let ?s = "h_start H u"
  have s: "of_leaders E H ?s" "\<forall>e \<in> set ?s. Term e < u"
    using u of_leaders_prefix by (auto simp: leader_ok_def)
  have vn: "v \<noteq> []" using X v(2) by auto
  have "Term (X ! (length X - 1)) \<le> Term (v ! (length v - 1))"
    using of_leaders_sorted [OF h v(1), of "length X - 1" "length v - 1"] prefix_length_le [OF v(2)] X(1) vn
      prefix_take_eq [OF v(2), of "length X - 1"] by (simp add: diff_le_mono)
  then have tv: "t \<le> Term (last v)" using X vn by (simp add: last_conv_nth)
  have sn: "?s \<noteq> []" using up tv X(3) vn by (auto simp: up_to_date_pos_def last_pos_def)
  have ts: "Term (last v) \<le> Term (last ?s)" "Term (last v) = Term (last ?s) \<Longrightarrow> length v \<le> length ?s"
    using up sn vn by (auto simp: up_to_date_pos_def last_pos_def)
  note ls = of_leaders_last [OF s(1) sn] and lv = of_leaders_last [OF v(1) vn]
  show ?thesis
  proof (cases "Term (last v) = Term (last ?s)")
    case True
    then have "prefix v ?s" using ls(1) lv(1) ts(2) prefix_length_prefix by metis
    then show ?thesis using v(2) prefix_order.trans by blast
  next
    case False
    let ?w = "Term (last ?s)"
    have w: "t < ?w" "?w < u" using False ts(1) tv s(2) last_in_set [OF sn] by auto
    have lw: "leader_ok E H ns ?w" using history_okD(1) [OF h ls(2)] .
    have i: "length ?s - 1 < length ?s" using sn by simp
    then have a: "length ?s - 1 < length (h_led H ?w)" using prefix_length_le [OF ls(1)] by linarith
    have b: "h_led H ?w ! (length ?s - 1) = last ?s" using prefix_take_eq [OF ls(1) i] sn by (simp add: last_conv_nth)
    have "length (h_start H ?w) \<le> length ?s - 1" by (rule led_terms(3) [OF lw a arg_cong [OF b, of Term]])
    then have "prefix (h_start H ?w) ?s"
      by (intro prefix_length_prefix [OF conjunct1 [OF conjunct2 [OF lw [unfolded leader_ok_def]]] ls(1)]) linarith
    then show ?thesis using mid [OF ls(2) w] prefix_order.trans by blast
  qed
qed

theorem leader_completeness:
  assumes h: "history_ok E H ns" and c: "committed E H ns t j" and u: "u \<in> fst ` E" "t < u"
  shows "prefix (take (Suc j) (h_led H t)) (h_start H u)"
  using u
proof (induction "nat u" arbitrary: u rule: less_induct)
  case less
  let ?X = "take (Suc j) (h_led H t)"
  have t: "t \<in> fst ` E" "j < length (h_led H t)" "Term (h_led H t ! j) = t" using c by (auto simp: committed_def)
  have lu: "leader_ok E H ns u" and lt: "leader_ok E H ns t" using history_okD(1) [OF h] less.prems t by auto
  have "0 \<le> t" using lt by (simp add: leader_ok_def)
  then have mid: "prefix ?X (h_start H w)" if "w \<in> fst ` E" "t < w" "w < u" for w
    using less.hyps [of w] that by simp
  obtain W where W: "quorum ns W" "\<forall>p \<in> W. \<exists>v. (p, u, v) \<in> h_ballots H \<and> up_to_date_pos (last_pos (h_start H u)) v"
    using lu by (auto simp: leader_ok_def)
  obtain Q where Q: "quorum ns Q" "\<forall>p \<in> Q. (p, t, Suc j) \<in> h_acks H" using c by (auto simp: committed_def)
  obtain p where "p \<in> Q" "p \<in> W" using quorums_meet [OF Q(1) W(1)] by blast
  then obtain v where v: "(p, u, v) \<in> h_ballots H" "up_to_date_pos (last_pos (h_start H u)) v" "(p, t, Suc j) \<in> h_acks H"
    using W(2) Q(2) by blast
  have "\<not> forgets E H t (Suc j) u" using mid by (auto simp: forgets_def)
  then have pv: "prefix ?X v" using history_okD(4) [OF h v(1,3) less.prems(2)] by blast
  have X: "?X \<noteq> []" "Term (last ?X) = t" using t by (auto simp: last_conv_nth take_Suc_conv_app_nth)
  show ?case
    by (rule winner_has_prefix [OF h lu history_okD(3) [OF h v(1)] pv v(2) X \<open>0 \<le> t\<close> mid])
qed

text \<open>\<open>safe E H ns T P\<close>: the list \<open>P\<close> is part of what was committed by a leader up to term \<open>T\<close>.\<close>

definition safe :: "(int \<times> int) set \<Rightarrow> 'c history \<Rightarrow> int list \<Rightarrow> int \<Rightarrow> 'c LogEntry list \<Rightarrow> bool" where
  "safe E H ns T P \<longleftrightarrow> P = [] \<or> (\<exists>t j. t \<le> T \<and> committed E H ns t j \<and> prefix P (take (Suc j) (h_led H t)))"

lemma safe_prefix: "safe E H ns T P \<Longrightarrow> prefix X P \<Longrightarrow> safe E H ns T X"
  unfolding safe_def using prefix_order.trans prefix_Nil by blast

lemma safe_mono: "safe E H ns T P \<Longrightarrow> T \<le> T' \<Longrightarrow> safe E H ns T' P"
  unfolding safe_def by fastforce

lemma safe_in_led:
  assumes h: "history_ok E H ns" and P: "safe E H ns T P" and t: "T \<le> t" "t \<in> fst ` E"
    and L: "prefix (h_start H t) L" "prefix L (h_led H t)"
  shows "prefix P L \<or> prefix L P"
proof (cases "P = []")
  case False
  then obtain s j where c: "s \<le> T" "committed E H ns s j" "prefix P (take (Suc j) (h_led H s))"
    using P by (auto simp: safe_def)
  show ?thesis
  proof (cases "s = t")
    case True
    then show ?thesis using L(2) c(3) prefix_same_cases by (metis prefix_order.trans take_is_prefix)
  next
    case False
    then have "prefix (take (Suc j) (h_led H s)) (h_start H t)"
      using leader_completeness [OF h c(2) t(2)] c(1) t(1) by simp
    then show ?thesis using c(3) L(1) by (meson prefix_order.trans)
  qed
qed simp

lemma safe_agree:
  assumes h: "history_ok E H ns" and P: "safe E H ns T P" and P': "safe E H ns T' P'"
  shows "prefix P P' \<or> prefix P' P"
proof (cases "P = [] \<or> P' = []")
  case False
  then obtain s j s' j' where c: "committed E H ns s j" "prefix P (take (Suc j) (h_led H s))"
      "committed E H ns s' j'" "prefix P' (take (Suc j') (h_led H s'))"
    using P P' by (auto simp: safe_def)
  have led: "prefix P (h_led H s)" "prefix P' (h_led H s')" using c by (meson prefix_order.trans take_is_prefix)+
  have e: "s \<in> fst ` E" "s' \<in> fst ` E" using c by (auto simp: committed_def)
  have st: "prefix (h_start H s) (h_led H s)" "prefix (h_start H s') (h_led H s')"
    using history_okD(1) [OF h] e by (auto simp: leader_ok_def)
  consider "s = s'" | "s < s'" | "s' < s" by linarith
  then show ?thesis
  proof cases
    case 1
    then show ?thesis using led prefix_same_cases by blast
  next
    case 2
    then have "prefix P (h_led H s')"
      using leader_completeness [OF h c(1) e(2)] c(2) st(2) by (meson prefix_order.trans)
    then show ?thesis using led(2) prefix_same_cases by blast
  next
    case 3
    then have "prefix P' (h_led H s)"
      using leader_completeness [OF h c(3) e(1)] c(4) st(1) by (meson prefix_order.trans)
    then show ?thesis using led(1) prefix_same_cases by blast
  qed
qed auto

section \<open>Longer histories\<close>

text \<open>A later history has more leaders, longer logs, more acknowledgements and more ballots.\<close>

definition extends :: "(int \<times> int) set \<Rightarrow> 'c history \<Rightarrow> (int \<times> int) set \<Rightarrow> 'c history \<Rightarrow> bool" where
  "extends E H E' H' \<longleftrightarrow> E \<subseteq> E' \<and> h_acks H \<subseteq> h_acks H' \<and> h_ballots H \<subseteq> h_ballots H'
     \<and> (\<forall>t \<in> fst ` E. h_start H' t = h_start H t \<and> prefix (h_led H t) (h_led H' t))"

lemma extends_refl [simp]: "extends E H E H"
  by (simp add: extends_def)

lemma extendsD:
  assumes "extends E H E' H'"
  shows "t \<in> fst ` E \<Longrightarrow> t \<in> fst ` E'" "x \<in> h_acks H \<Longrightarrow> x \<in> h_acks H'" "y \<in> h_ballots H \<Longrightarrow> y \<in> h_ballots H'"
    "t \<in> fst ` E \<Longrightarrow> h_start H' t = h_start H t" "t \<in> fst ` E \<Longrightarrow> prefix (h_led H t) (h_led H' t)"
  using assms unfolding extends_def by auto

lemma of_leaders_extends:
  assumes "extends E H E' H'" "of_leaders E H L"
  shows "of_leaders E' H' L"
  unfolding of_leaders_def
proof (intro allI impI)
  fix i assume i: "i < length L"
  note t = of_leaders_take [OF assms(2) i]
  have "length (take (Suc i) (h_led H (Term (L ! i)))) = Suc i" using t i by (metis Suc_leI length_take min.absorb2)
  then have "take (Suc i) (h_led H' (Term (L ! i))) = take (Suc i) (h_led H (Term (L ! i)))"
    by (intro take_prefix_mono extendsD(5) [OF assms(1)]) (use t in auto)
  then show "Term (L ! i) \<in> fst ` E' \<and> take (Suc i) L = take (Suc i) (h_led H' (Term (L ! i)))"
    using t extendsD(1) [OF assms(1)] by simp
qed

lemma acked_prefix_extends:
  assumes "extends E H E' H'" "t \<in> fst ` E" "m \<le> length (h_led H t)"
  shows "take m (h_led H' t) = take m (h_led H t)"
  using take_prefix_mono [OF extendsD(5) [OF assms(1,2)] assms(3)] .

lemma forgets_extends:
  assumes "extends E H E' H'" "t \<in> fst ` E" "m \<le> length (h_led H t)" "forgets E H t m u"
  shows "forgets E' H' t m u"
  using assms(4) extendsD(1,4) [OF assms(1)] acked_prefix_extends [OF assms(1-3)]
  unfolding forgets_def by metis

lemma committed_extends:
  assumes "extends E H E' H'" "committed E H ns t j"
  shows "committed E' H' ns t j"
proof -
  have t: "t \<in> fst ` E" "j < length (h_led H t)" using assms(2) by (auto simp: committed_def)
  have "prefix (h_led H t) (h_led H' t)" using extendsD(5) [OF assms(1) t(1)] .
  then have "j < length (h_led H' t)" "h_led H' t ! j = h_led H t ! j"
    using t(2) prefix_take_eq [of "h_led H t" "h_led H' t" j] prefix_length_le [of "h_led H t" "h_led H' t"] by auto
  then show ?thesis
    using assms(2) extendsD(1,2) [OF assms(1)] unfolding committed_def by metis
qed

lemma safe_extends:
  assumes "extends E H E' H'" "safe E H ns T P"
  shows "safe E' H' ns T P"
proof -
  have "take (Suc j) (h_led H' t) = take (Suc j) (h_led H t)" if "committed E H ns t j" for t j
    by (rule acked_prefix_extends [OF assms(1)]) (use that in \<open>auto simp: committed_def\<close>)
  then show ?thesis using assms(2) committed_extends [OF assms(1)] unfolding safe_def by metis
qed

lemma leader_ok_extends:
  assumes ex: "extends E H E' H'" and ok: "leader_ok E H ns t" and t: "t \<in> fst ` E" and led: "h_led H' t = h_led H t"
  shows "leader_ok E' H' ns t"
proof -
  obtain W where W: "quorum ns W" "\<forall>p \<in> W. \<exists>v. (p, t, v) \<in> h_ballots H \<and> up_to_date_pos (last_pos (h_start H t)) v"
    using ok by (auto simp: leader_ok_def)
  then have "\<exists>W. quorum ns W \<and> (\<forall>p \<in> W. \<exists>v. (p, t, v) \<in> h_ballots H' \<and> up_to_date_pos (last_pos (h_start H t)) v)"
    using extendsD(3) [OF ex] by blast
  then show ?thesis
    using ok led extendsD(4) [OF ex t] of_leaders_extends [OF ex] by (simp add: leader_ok_def)
qed

text \<open>A server that acknowledges is in the term of the leader, so its earlier ballots are older; a server that
  votes has, of what it acknowledged before, all that no leader in between has forgotten.\<close>

lemma history_ok_extends:
  assumes h: "history_ok E H ns" and ex: "extends E H E' H'"
    and ldr: "\<And>t. t \<in> fst ` E' \<Longrightarrow> leader_ok E' H' ns t"
    and acks: "\<And>p t m. (p, t, m) \<in> h_acks H' \<Longrightarrow> (p, t, m) \<in> h_acks H
      \<or> t \<in> fst ` E' \<and> m \<le> length (h_led H' t) \<and> (\<forall>u v. (p, u, v) \<in> h_ballots H' \<longrightarrow> u \<le> t)"
    and bals: "\<And>p u v. (p, u, v) \<in> h_ballots H' \<Longrightarrow> (p, u, v) \<in> h_ballots H
      \<or> of_leaders E' H' v
        \<and> (\<forall>t m. (p, t, m) \<in> h_acks H \<longrightarrow> t < u \<longrightarrow> prefix (take m (h_led H t)) v \<or> forgets E H t m u)"
  shows "history_ok E' H' ns"
proof -
  have a: "t \<in> fst ` E' \<and> m \<le> length (h_led H' t)" if "(p, t, m) \<in> h_acks H'" for p t m
    using acks [OF that]
  proof
    assume "(p, t, m) \<in> h_acks H"
    then have "t \<in> fst ` E" "m \<le> length (h_led H t)" using history_okD(2) [OF h] by blast+
    then show ?thesis using extendsD(1,5) [OF ex] prefix_length_le le_trans by metis
  qed blast
  have b: "of_leaders E' H' v" if "(p, u, v) \<in> h_ballots H'" for p u v
    using bals [OF that] history_okD(3) [OF h] of_leaders_extends [OF ex] by blast
  have k: "prefix (take m (h_led H' t)) v \<or> forgets E' H' t m u"
    if v: "(p, u, v) \<in> h_ballots H'" and m: "(p, t, m) \<in> h_acks H'" and tu: "t < u" for p u v t m
  proof -
    have old: "(p, t, m) \<in> h_acks H" using acks [OF m] v tu by force
    then have "prefix (take m (h_led H t)) v \<or> forgets E H t m u"
      using bals [OF v] history_okD(4) [OF h _ old tu] tu by blast
    then show ?thesis
      using history_okD(2) [OF h old] acked_prefix_extends [OF ex] forgets_extends [OF ex] by metis
  qed
  show ?thesis unfolding history_ok_def
  proof (intro conjI)
    show "\<forall>t \<in> fst ` E'. leader_ok E' H' ns t" using ldr by (rule ballI)
    show "\<forall>(p, t, m) \<in> h_acks H'. t \<in> fst ` E' \<and> m \<le> length (h_led H' t)" using a by fast
    show "\<forall>(p, u, v) \<in> h_ballots H'. of_leaders E' H' v
        \<and> (\<forall>t m. (p, t, m) \<in> h_acks H' \<longrightarrow> t < u \<longrightarrow> prefix (take m (h_led H' t)) v \<or> forgets E' H' t m u)"
    proof (clarify, intro conjI allI impI)
      fix p u v t m assume v: "(p, u, v) \<in> h_ballots H'"
      show "of_leaders E' H' v" by (rule b [OF v])
      assume "(p, t, m) \<in> h_acks H'" "t < u"
      then show "prefix (take m (h_led H' t)) v \<or> forgets E' H' t m u" by (rule k [OF v])
    qed
  qed
qed

lemma forgets_before: "forgets E H t m (u + 1) \<Longrightarrow> u \<notin> fst ` E \<Longrightarrow> forgets E H t m u"
  unfolding forgets_def by (metis less_le zle_add1_eq_le)

end
