(* ===== verification/RaftCommit.thy ===== *)
theory RaftCommit
  imports RaftHistory
begin

text \<open>
  State machine safety, proved once for every implementation that obeys the laws of the locale
  \<open>raft_commit\<close>: no two servers of a cluster ever deliver different commands for the same index. The proof
  keeps a history of the run (theory \<^verbatim>\<open>RaftHistory\<close>) along every step; leader completeness is then a
  property of the history.
\<close>

section \<open>The runs\<close>

text \<open>
  A \<open>prompt\<close> event is a timely one in which, further, a goroutine that replicates the log reads its
  arguments while its server still leads the term in which the goroutine was started, and a leader only
  takes replies to calls of its current term. The implementations check neither.
\<close>

definition prompt :: "('n, 'c) raft_impl \<Rightarrow> ('n, 'c) cluster \<Rightarrow> 'c event \<Rightarrow> bool" where
  "prompt im s ev \<longleftrightarrow> timely im s ev
     \<and> (case ev of
          ESend g \<Rightarrow>
            (case gos s g of
               Some (GSendStart n p t) \<Rightarrow> im_role im (nodes s n) = Leader \<and> im_term im (nodes s n) = t
             | _ \<Rightarrow> True)
        | ESendReply g now \<Rightarrow>
            (case gos s g of
               Some (GSendReply n p t ni k r) \<Rightarrow> im_role im (nodes s n) = Leader \<longrightarrow> im_term im (nodes s n) = t
             | _ \<Rightarrow> True)
        | _ \<Rightarrow> True)"

inductive prompt_reach :: "('n, 'c) raft_impl \<Rightarrow> ('n, 'c) cluster \<Rightarrow> ('n, 'c) cluster \<Rightarrow> bool"
  for im :: "('n, 'c) raft_impl" and s0 :: "('n, 'c) cluster" where
  start: "prompt_reach im s0 s0"
| step: "prompt_reach im s0 s \<Longrightarrow> prompt im s ev \<Longrightarrow> cstep im ev s = Some (Inr s')
         \<Longrightarrow> prompt_reach im s0 s'"

lemma prompt_timely: "prompt_reach im s0 s \<Longrightarrow> timely_reach im s0 s"
  by (induction rule: prompt_reach.induct) (auto simp: prompt_def intro: timely_reach.intros)

fun prompt_run :: "('n, 'c) raft_impl \<Rightarrow> 'c event list \<Rightarrow> ('n, 'c) cluster \<Rightarrow> bool" where
  "prompt_run im [] s = True"
| "prompt_run im (ev # evs) s =
     (prompt im s ev \<and> (case cstep im ev s of Some (Inr s') \<Rightarrow> prompt_run im evs s' | _ \<Rightarrow> True))"

lemma prompt_run_reach:
  "prompt_reach im s0 s \<Longrightarrow> prompt_run im evs s \<Longrightarrow> crun im evs s = Some (Inr s') \<Longrightarrow> prompt_reach im s0 s'"
proof (induction evs arbitrary: s)
  case (Cons ev evs)
  from Cons.prems(3) obtain t where t: "cstep im ev s = Some (Inr t)" "crun im evs t = Some (Inr s')"
    by (auto split: option.splits sum.splits)
  with Cons.prems have "prompt_reach im s0 t" "prompt_run im evs t" by (auto intro: prompt_reach.step)
  then show ?case using Cons.IH t(2) by blast
qed simp

section \<open>The contract of an implementation\<close>

text \<open>The commit index does not move, and a server that leads afterwards has the same match indices.\<close>

definition calm :: "('n, 'c) raft_impl \<Rightarrow> ('n \<Rightarrow> int) \<Rightarrow> ('n \<Rightarrow> int \<Rightarrow> int) \<Rightarrow> 'n \<Rightarrow> 'n \<Rightarrow> bool" where
  "calm im cidx mtch c c' \<longleftrightarrow> cidx c' = cidx c \<and> (im_role im c' = Leader \<longrightarrow> mtch c' = mtch c)"

locale raft_commit = raft_log im for im :: "('n, 'c) raft_impl" +
  fixes cidx :: "'n \<Rightarrow> int" and mtch :: "'n \<Rightarrow> int \<Rightarrow> int"
  assumes ready_calm: "im_ready im now c = (c', es) \<Longrightarrow> calm im cidx mtch c c'"
    and RequestVote_calm: "im_RequestVote im now a c = (c', r, es) \<Longrightarrow> calm im cidx mtch c c'"
    and RequestVote_up_to_date:
      "im_RequestVote im now a c = (c', Some reply, es) \<Longrightarrow> rvr_VoteGranted reply
         \<Longrightarrow> up_to_date_pos (rv_LastLogIndex a, rv_LastLogTerm a) (im_log im c)"
    and voteArgs_last:
      "(rv_LastLogIndex (im_voteArgs im t c), rv_LastLogTerm (im_voteArgs im t c)) = last_pos (im_log im c)"
    and AppendEntries_commit:
      "im_AppendEntries im now b c = Inr (c', q, es) \<Longrightarrow>
         (im_log im c' = im_log im c \<and> calm im cidx mtch c c' \<and> (\<forall>r. q = Some r \<longrightarrow> \<not> aer_Success r))
         \<or> (\<exists>r. q = Some r \<and> aer_Success r \<and> aer_Term r = ae_Term b \<and> im_term im c' = ae_Term b \<and> im_role im c' = Follower
              \<and> accepts (im_log im c) b (im_log im c')
              \<and> (cidx c' = cidx c \<or> cidx c < ae_LeaderCommit b
                   \<and> cidx c' = min (ae_LeaderCommit b) (int (length (im_log im c')) - 1)))"
    and timer_calm: "im_timer im now t d c = (goes_on, c', es) \<Longrightarrow> calm im cidx mtch c c'"
    and voteReply_commit:
      "im_voteReply im now t v rep c = (c', v', es) \<Longrightarrow>
         cidx c' = cidx c \<and> (im_role im c' = Leader \<longrightarrow>
           (if im_role im c = Leader then mtch c' = mtch c else \<forall>p \<in> set (im_peers im c'). mtch c' p = -1))"
    and aeArgs_commit:
      "im_aeArgs im t p c = Inr (ni, b) \<Longrightarrow> ni = ae_PrevLogIndex b + 1 \<and> ae_LeaderCommit b = cidx c"
    and aeReply_commit:
      "im_aeReply im now t p ni k ar c = (c', es) \<Longrightarrow>
         calm im cidx mtch c c'
         \<or> (im_role im c = Leader \<and> im_role im c' = Leader \<and> aer_Success ar \<and> aer_Term ar = t
            \<and> mtch c' = (mtch c)(p := ni + int k - 1)
            \<and> (cidx c' = cidx c
               \<or> 0 \<le> cidx c' \<and> cidx c' < int (length (im_log im c)) \<and> Term (im_log im c ! nat (cidx c')) = im_term im c
                 \<and> majority (1 + int (length (filter (\<lambda>q. mtch c' q \<ge> cidx c') (im_peers im c)))) (im_peers im c)))"
    and Submit_calm: "im_Submit im cmd c = (c', i, es) \<Longrightarrow> calm im cidx mtch c c'"
    and Stop_calm: "calm im cidx mtch c (im_Stop im c)"
    and commit_calm: "im_commit im c = Inr (c', out) \<Longrightarrow> calm im cidx mtch c c'"
    and commit_out:
      "im_commit im c = Inr (c', out) \<Longrightarrow> e \<in> set out \<Longrightarrow>
         \<exists>k. ce_Index e = int k \<and> int k \<le> cidx c \<and> k < length (im_log im c) \<and> ce_Command e = Command (im_log im c ! k)"
    and restart_commit: "im_restart im c = Inr c' \<Longrightarrow> cidx c' = -1"

section \<open>The invariant\<close>

definition leads :: "('n, 'c) raft_impl \<Rightarrow> ('n \<Rightarrow> int \<Rightarrow> int) \<Rightarrow> 'c history \<Rightarrow> int \<Rightarrow> 'n \<Rightarrow> bool" where
  "leads im mtch H n c \<longleftrightarrow> h_led H (im_term im c) = im_log im c
     \<and> (\<forall>m \<le> length (im_log im c). (n, im_term im c, m) \<in> h_acks H)
     \<and> (\<forall>p \<in> set (im_peers im c). \<forall>j. int j \<le> mtch c p \<longrightarrow> (p, im_term im c, Suc j) \<in> h_acks H)"

definition node_hist ::
  "('n, 'c) raft_impl \<Rightarrow> ('n \<Rightarrow> int) \<Rightarrow> ('n \<Rightarrow> int \<Rightarrow> int) \<Rightarrow> (int \<times> int) set \<Rightarrow> 'c history \<Rightarrow> int list \<Rightarrow> int \<Rightarrow> 'n \<Rightarrow> bool" where
  "node_hist im cidx mtch E H ns n c \<longleftrightarrow>
     of_leaders E H (im_log im c) \<and> (\<forall>e \<in> set (im_log im c). Term e \<le> im_term im c) \<and> 0 \<le> im_term im c
   \<and> (im_role im c = Leader \<longrightarrow> leads im mtch H n c)
   \<and> (\<forall>t m. (n, t, m) \<in> h_acks H \<longrightarrow> t \<le> im_term im c
        \<and> (prefix (take m (h_led H t)) (im_log im c) \<or> forgets E H t m (im_term im c + 1)))
   \<and> (\<forall>u v. (n, u, v) \<in> h_ballots H \<longrightarrow> u \<le> im_term im c)
   \<and> -1 \<le> cidx c \<and> cidx c < int (length (im_log im c))
   \<and> safe E H ns (im_term im c) (take (nat (cidx c + 1)) (im_log im c))"

fun go_hist :: "(int \<times> int) set \<Rightarrow> 'c history \<Rightarrow> int list \<Rightarrow> 'c goroutine \<Rightarrow> bool" where
  "go_hist E H ns (GSendCall n p t ni b) =
     (t \<in> fst ` E \<and> ni = ae_PrevLogIndex b + 1
      \<and> (\<exists>L. from_log L b \<and> prefix (h_start H t) L \<and> prefix L (h_led H t) \<and> ae_LeaderCommit b < int (length L)
           \<and> safe E H ns t (take (nat (ae_LeaderCommit b + 1)) L)))"
| "go_hist E H ns (GSendReply n p t ni k r) =
     (aer_Success r \<and> aer_Term r = t \<longrightarrow> (\<forall>j. int j < ni + int k \<longrightarrow> (p, t, Suc j) \<in> h_acks H))"
| "go_hist E H ns x = True"

definition has_ballot :: "'c history \<Rightarrow> int \<Rightarrow> int \<Rightarrow> 'c LogEntry list \<Rightarrow> bool" where
  "has_ballot H p t L \<longleftrightarrow> (\<exists>v. (p, t, v) \<in> h_ballots H \<and> up_to_date_pos (last_pos L) v)"

text \<open>What is known of the requests of a candidate \<open>n\<close> with log \<open>L\<close> in term \<open>t\<close>.\<close>

fun vote_hist :: "'c history \<Rightarrow> 'c LogEntry list \<Rightarrow> int \<Rightarrow> int \<Rightarrow> 'c goroutine \<Rightarrow> bool" where
  "vote_hist H L n t (GVoteCall m el p t' a) =
     (m = n \<and> t' = t \<longrightarrow> (rv_LastLogIndex a, rv_LastLogTerm a) = last_pos L)"
| "vote_hist H L n t (GVoteReply m el p t' r) =
     (m = n \<and> t' = t \<and> rvr_VoteGranted r \<and> rvr_Term r = t \<longrightarrow> has_ballot H p t L)"
| "vote_hist H L n t x = True"

definition cand_hist :: "('n, 'c) raft_impl \<Rightarrow> ('n, 'c) cluster \<Rightarrow> 'c history \<Rightarrow> int \<Rightarrow> bool" where
  "cand_hist im s H n \<longleftrightarrow>
     (let c = nodes s n; L = im_log im c; t = im_term im c
      in im_role im c = Candidate \<longrightarrow> t \<notin> fst ` elected s \<longrightarrow>
           (\<forall>g x. gos s g = Some x \<longrightarrow> vote_hist H L n t x)
         \<and> (\<forall>el < next_el s. el_of s el = (n, t) \<longrightarrow> (\<forall>p \<in> voters s el. has_ballot H p t L)))"

definition el_hist :: "('n, 'c) raft_impl \<Rightarrow> ('n, 'c) cluster \<Rightarrow> bool" where
  "el_hist im s \<longleftrightarrow> (\<forall>el < next_el s. snd (el_of s el) \<le> im_term im (nodes s (fst (el_of s el))))"

definition out_hist :: "('n, 'c) cluster \<Rightarrow> 'c history \<Rightarrow> int list \<Rightarrow> bool" where
  "out_hist s H ns \<longleftrightarrow>
     (\<forall>n. \<forall>e \<in> set (commits s n). \<exists>T P k. safe (elected s) H ns T P \<and> k < length P \<and> ce_Index e = int k \<and> ce_Command e = Command (P ! k))"

definition hist_inv ::
  "('n, 'c) raft_impl \<Rightarrow> ('n \<Rightarrow> int) \<Rightarrow> ('n \<Rightarrow> int \<Rightarrow> int) \<Rightarrow> int list \<Rightarrow> ('n, 'c) cluster \<Rightarrow> 'c history \<Rightarrow> bool" where
  "hist_inv im cidx mtch ns s H \<longleftrightarrow>
     history_ok (elected s) H ns \<and> (\<forall>n. node_hist im cidx mtch (elected s) H ns n (nodes s n))
   \<and> (\<forall>g x. gos s g = Some x \<longrightarrow> go_hist (elected s) H ns x)
   \<and> (\<forall>n. cand_hist im s H n) \<and> el_hist im s \<and> out_hist s H ns"

lemma hist_invD:
  assumes "hist_inv im cidx mtch ns s H"
  shows "history_ok (elected s) H ns" "node_hist im cidx mtch (elected s) H ns n (nodes s n)"
    "gos s g = Some x \<Longrightarrow> go_hist (elected s) H ns x" "cand_hist im s H n" "el_hist im s" "out_hist s H ns"
  using assms by (auto simp: hist_inv_def)

lemma node_histD:
  assumes "node_hist im cidx mtch E H ns n c"
  shows "of_leaders E H (im_log im c)" "e \<in> set (im_log im c) \<Longrightarrow> Term e \<le> im_term im c" "0 \<le> im_term im c"
    "im_role im c = Leader \<Longrightarrow> leads im mtch H n c"
    "(n, t, m) \<in> h_acks H \<Longrightarrow> t \<le> im_term im c"
    "(n, t, m) \<in> h_acks H \<Longrightarrow> prefix (take m (h_led H t)) (im_log im c) \<or> forgets E H t m (im_term im c + 1)"
    "(n, u, v) \<in> h_ballots H \<Longrightarrow> u \<le> im_term im c" "-1 \<le> cidx c" "cidx c < int (length (im_log im c))"
    "safe E H ns (im_term im c) (take (nat (cidx c + 1)) (im_log im c))"
  using assms unfolding node_hist_def by blast+

section \<open>Servers that do not move\<close>

lemma forgets_later: "forgets E H t m u \<Longrightarrow> u \<le> u' \<Longrightarrow> forgets E H t m u'"
  unfolding forgets_def by fastforce

text \<open>A server keeps its log and its commit index while its term grows.\<close>

lemma node_hist_keep:
  assumes "node_hist im cidx mtch E H ns n c"
    and "im_log im c' = im_log im c" "cidx c' = cidx c" "im_term im c \<le> im_term im c'"
    and "im_role im c' = Leader \<Longrightarrow> im_role im c = Leader \<and> im_term im c' = im_term im c \<and> mtch c' = mtch c \<and> im_peers im c' = im_peers im c"
  shows "node_hist im cidx mtch E H ns n c'"
  using assms forgets_later [of E H _ _ "im_term im c + 1" "im_term im c' + 1"]
  unfolding node_hist_def leads_def by (fastforce intro: safe_mono)

text \<open>The history grows elsewhere.\<close>

lemma node_hist_extends:
  assumes h: "history_ok E H ns" and ex: "extends E H E' H'" and nh: "node_hist im cidx mtch E H ns n c"
    and acks: "\<And>t m. (n, t, m) \<in> h_acks H' \<Longrightarrow> (n, t, m) \<in> h_acks H"
    and bals: "\<And>u v. (n, u, v) \<in> h_ballots H' \<Longrightarrow> (n, u, v) \<in> h_ballots H"
    and ldr: "im_role im c = Leader \<Longrightarrow> h_led H' (im_term im c) = h_led H (im_term im c)"
  shows "node_hist im cidx mtch E' H' ns n c"
proof -
  note D = nh [unfolded node_hist_def]
  have a: "t \<le> im_term im c \<and> (prefix (take m (h_led H' t)) (im_log im c) \<or> forgets E' H' t m (im_term im c + 1))"
    if "(n, t, m) \<in> h_acks H'" for t m
  proof -
    note o = acks [OF that] and s = history_okD(2) [OF h acks [OF that]]
    show ?thesis
      using D o acked_prefix_extends [OF ex, of t m] forgets_extends [OF ex, of t m] s by metis
  qed
  have l: "leads im mtch H' n c" if "im_role im c = Leader"
    using D that ldr [OF that] extendsD(2) [OF ex] unfolding leads_def by metis
  show ?thesis
    unfolding node_hist_def
    using D a l bals of_leaders_extends [OF ex] safe_extends [OF ex] by blast
qed

lemma go_hist_extends:
  assumes "extends E H E' H'" "go_hist E H ns x"
  shows "go_hist E' H' ns x"
proof (cases x)
  case (GSendCall n p t ni b)
  then obtain L where L: "t \<in> fst ` E" "ni = ae_PrevLogIndex b + 1" "from_log L b" "prefix (h_start H t) L" "prefix L (h_led H t)"
    "ae_LeaderCommit b < int (length L)" "safe E H ns t (take (nat (ae_LeaderCommit b + 1)) L)"
    using assms(2) by auto
  then show ?thesis
    using GSendCall extendsD(1,4,5) [OF assms(1) L(1)] safe_extends [OF assms(1) L(7)]
    by (auto intro!: exI [of _ L] dest: prefix_order.trans)
qed (use assms extendsD(2) [OF assms(1)] in auto)

lemma has_ballot_extends: "extends E H E' H' \<Longrightarrow> has_ballot H p t L \<Longrightarrow> has_ballot H' p t L"
  unfolding has_ballot_def using extendsD(3) by blast

lemma vote_hist_extends: "extends E H E' H' \<Longrightarrow> vote_hist H L n t x \<Longrightarrow> vote_hist H' L n t x"
  by (cases x) (auto intro: has_ballot_extends)

lemma out_hist_extends:
  assumes "extends (elected s) H (elected s') H'" "out_hist s H ns" "commits s' = commits s"
  shows "out_hist s' H' ns"
  using assms(2,3) safe_extends [OF assms(1)] unfolding out_hist_def by metis

section \<open>One server moves\<close>

text \<open>The parts of the invariant, put together after a step in which server \<open>n\<close> moved to \<open>c'\<close>.\<close>

lemma hist_move:
  assumes hi: "hist_inv im cidx mtch ns s H" and ex: "extends (elected s) H (elected s') H'"
    and h': "history_ok (elected s') H' ns"
    and nd: "nodes s' = (nodes s)(n := c')" and n': "node_hist im cidx mtch (elected s') H' ns n c'"
    and oth: "\<And>m t k. m \<noteq> n \<Longrightarrow> (m, t, k) \<in> h_acks H' \<Longrightarrow> (m, t, k) \<in> h_acks H"
      "\<And>m u v. m \<noteq> n \<Longrightarrow> (m, u, v) \<in> h_ballots H' \<Longrightarrow> (m, u, v) \<in> h_ballots H"
      "\<And>m. m \<noteq> n \<Longrightarrow> im_role im (nodes s m) = Leader \<Longrightarrow> h_led H' (im_term im (nodes s m)) = h_led H (im_term im (nodes s m))"
    and go: "\<And>g x. gos s' g = Some x \<Longrightarrow> gos s g = Some x \<or> go_hist (elected s') H' ns x"
    and cand: "\<And>m. cand_hist im s' H' m" and el: "el_hist im s'" and out: "out_hist s' H' ns"
  shows "hist_inv im cidx mtch ns s' H'"
proof -
  have "node_hist im cidx mtch (elected s') H' ns m (nodes s' m)" for m
    using n' nd node_hist_extends [OF hist_invD(1) [OF hi] ex hist_invD(2) [OF hi, of m]] oth [of m] by (cases "m = n") auto
  moreover have "go_hist (elected s') H' ns x" if "gos s' g = Some x" for g x
    using go [OF that] go_hist_extends [OF ex hist_invD(3) [OF hi]] by blast
  ultimately show ?thesis using h' cand el out unfolding hist_inv_def by blast
qed

text \<open>Candidates that go on with the same log.\<close>

lemma cand_hist_keep:
  assumes ch: "cand_hist im s H m" and ex: "extends (elected s) H (elected s') H'"
    and c: "im_role im (nodes s' m) = Candidate \<Longrightarrow> im_role im (nodes s m) = Candidate
              \<and> im_term im (nodes s' m) = im_term im (nodes s m) \<and> im_log im (nodes s' m) = im_log im (nodes s m)"
    and go: "\<And>g x. gos s' g = Some x \<Longrightarrow> im_role im (nodes s m) = Candidate \<Longrightarrow> im_term im (nodes s m) \<notin> fst ` elected s' \<Longrightarrow>
               gos s g = Some x \<or> vote_hist H' (im_log im (nodes s m)) m (im_term im (nodes s m)) x"
    and el: "\<And>el p. el < next_el s' \<Longrightarrow> el_of s' el = (m, im_term im (nodes s m)) \<Longrightarrow> p \<in> voters s' el \<Longrightarrow>
               im_role im (nodes s m) = Candidate \<Longrightarrow> im_term im (nodes s m) \<notin> fst ` elected s' \<Longrightarrow>
               (el < next_el s \<and> el_of s el = el_of s' el \<and> p \<in> voters s el) \<or> has_ballot H' p (im_term im (nodes s m)) (im_log im (nodes s m))"
  shows "cand_hist im s' H' m"
  unfolding cand_hist_def Let_def
proof (intro impI)
  assume r: "im_role im (nodes s' m) = Candidate" and ne: "im_term im (nodes s' m) \<notin> fst ` elected s'"
  let ?L = "im_log im (nodes s m)" and ?t = "im_term im (nodes s m)"
  have e: "im_term im (nodes s' m) = ?t" "im_log im (nodes s' m) = ?L" "im_role im (nodes s m) = Candidate" using c [OF r] by auto
  have "?t \<notin> fst ` elected s" using ne e extendsD(1) [OF ex] by metis
  then have old: "gos s g = Some x \<Longrightarrow> vote_hist H ?L m ?t x"
    "el < next_el s \<Longrightarrow> el_of s el = (m, ?t) \<Longrightarrow> p \<in> voters s el \<Longrightarrow> has_ballot H p ?t ?L" for g x el p
    using ch e unfolding cand_hist_def Let_def by blast+
  show "(\<forall>g x. gos s' g = Some x \<longrightarrow> vote_hist H' (im_log im (nodes s' m)) m (im_term im (nodes s' m)) x)
    \<and> (\<forall>el < next_el s'. el_of s' el = (m, im_term im (nodes s' m)) \<longrightarrow>
         (\<forall>p \<in> voters s' el. has_ballot H' p (im_term im (nodes s' m)) (im_log im (nodes s' m))))"
    unfolding e(1,2)
  proof (intro conjI allI impI ballI)
    fix g x assume "gos s' g = Some x"
    then show "vote_hist H' ?L m ?t x" using go [OF _ e(3)] ne e(1) vote_hist_extends [OF ex old(1)] by metis
  next
    fix el p assume a: "el < next_el s'" "el_of s' el = (m, ?t)" "p \<in> voters s' el"
    show "has_ballot H' p ?t ?L"
      using el [OF a e(3)] ne e(1) a(2) has_ballot_extends [OF ex old(2)] by metis
  qed
qed

text \<open>Goroutines about which nothing needs to be known.\<close>

fun plain :: "'c goroutine \<Rightarrow> bool" where
  "plain (GSendCall n p t ni b) = False"
| "plain (GSendReply n p t ni k r) = False"
| "plain (GVoteCall n el p t a) = False"
| "plain (GVoteReply n el p t r) = False"
| "plain x = True"

lemma plain_hist: "plain x \<Longrightarrow> go_hist E H ns x \<and> vote_hist H L n t x"
  by (cases x) auto

lemma plain_spawn: "gos (spawn n es s) g = Some x \<Longrightarrow> gos s g = Some x \<or> plain x"
proof -
  have "plain (goroutine_of n el e)" for el e by (cases e) auto
  then show "gos (spawn n es s) g = Some x \<Longrightarrow> gos s g = Some x \<or> plain x" using spawn_gos by metis
qed

lemma plain_other:
  "gos (finish h s) g = Some x \<Longrightarrow> gos s g = Some x"
  "gos (kill_node n s) g = Some x \<Longrightarrow> gos s g = Some x"
  "gos (become h y s) g = Some x \<Longrightarrow> gos s g = Some x \<or> x = y"
  "gos (launch y s) g = Some x \<Longrightarrow> gos s g = Some x \<or> x = y"
  by (auto simp: finish_def kill_node_def become_def launch_def split: if_splits option.splits)

text \<open>A step that neither changes the log nor the commit index nor the history of elections.\<close>

lemma hist_quiet:
  assumes hi: "hist_inv im cidx mtch ns s H"
    and same: "elected s' = elected s" "next_el s' = next_el s" "el_of s' = el_of s" "voters s' = voters s" "commits s' = commits s"
    and nd: "nodes s' = (nodes s)(n := c')" and lg: "im_log im c' = im_log im (nodes s n)"
    and cm: "calm im cidx mtch (nodes s n) c'" and tm: "im_term im (nodes s n) \<le> im_term im c'"
    and act: "active (im_role im c') \<Longrightarrow> im_role im c' = im_role im (nodes s n) \<and> im_term im c' = im_term im (nodes s n)
                \<and> im_peers im c' = im_peers im (nodes s n)"
    and go: "\<And>g x. gos s' g = Some x \<Longrightarrow> gos s g = Some x \<or> plain x"
  shows "hist_inv im cidx mtch ns s' H"
proof (rule hist_move [OF hi _ _ nd])
  show "node_hist im cidx mtch (elected s') H ns n c'"
    using node_hist_keep [OF hist_invD(2) [OF hi, of n] lg _ tm] cm act same(1) by (auto simp: calm_def active_def)
  show "cand_hist im s' H m" for m
  proof (rule cand_hist_keep [OF hist_invD(4) [OF hi]])
    show "gos s g = Some x \<or> vote_hist H (im_log im (nodes s m)) m (im_term im (nodes s m)) x" if "gos s' g = Some x" for g x
      using go [OF that] plain_hist by blast
  qed (use act lg same nd in \<open>auto simp: active_def split: if_splits\<close>)
  show "el_hist im s'" using hist_invD(5) [OF hi] tm same nd by (fastforce simp: el_hist_def)
  show "out_hist s' H ns" using hist_invD(6) [OF hi] same by (simp add: out_hist_def)
  show "gos s g = Some x \<or> go_hist (elected s') H ns x" if "gos s' g = Some x" for g x using go [OF that] plain_hist by blast
qed (use hist_invD(1) [OF hi] same in auto)

end
