(* ===== verification/RaftSafety.thy ===== *)
theory RaftSafety
  imports RaftCommit
begin

text \<open>
  Every prompt step of a cluster keeps a history (theory \<^verbatim>\<open>RaftCommit\<close>), event by event; state machine
  safety follows for every cluster whose servers obey the contract.
\<close>

section \<open>Steps without a new log entry\<close>

lemma elected_same:
  assumes "cluster_inv im ns s"
    and "im_role im c' = Leader \<Longrightarrow> im_role im (nodes s n) = Leader \<and> im_term im c' = im_term im (nodes s n)"
  shows "elected (set_node im n c' s) = elected s"
  using assms(2) core_inv_leader [OF cluster_invD(2) [OF assms(1)], of n] by (auto simp: set_node_changes)

lemma hist_still:
  assumes hi: "hist_inv im cidx mtch ns s H"
    and same: "nodes s' = nodes s" "elected s' = elected s" "next_el s' = next_el s" "el_of s' = el_of s" "voters s' = voters s"
      "commits s' = commits s"
    and go: "\<And>g x. gos s' g = Some x \<Longrightarrow> gos s g = Some x
               \<or> go_hist (elected s) H ns x
                 \<and> (\<forall>m. im_role im (nodes s m) = Candidate \<longrightarrow> im_term im (nodes s m) \<notin> fst ` elected s
                      \<longrightarrow> vote_hist H (im_log im (nodes s m)) m (im_term im (nodes s m)) x)"
  shows "hist_inv im cidx mtch ns s' H"
proof (rule hist_move [OF hi])
  show "nodes s' = (nodes s)(undefined := nodes s undefined)" using same by simp
  show "cand_hist im s' H m" for m
    by (rule cand_hist_keep [OF hist_invD(4) [OF hi]]) (use go same in auto)
  show "el_hist im s'" using hist_invD(5) [OF hi] same by (simp add: el_hist_def)
  show "out_hist s' H ns" using hist_invD(6) [OF hi] same by (simp add: out_hist_def)
qed (use hist_invD(1,2) [OF hi] same go in auto)

lemma cand_hist_plain:
  assumes "cand_hist im s H m" "extends (elected s) H (elected s') H'"
    and "im_role im (nodes s' m) = Candidate \<Longrightarrow> im_role im (nodes s m) = Candidate
           \<and> im_term im (nodes s' m) = im_term im (nodes s m) \<and> im_log im (nodes s' m) = im_log im (nodes s m)"
    and "\<And>g x. gos s' g = Some x \<Longrightarrow> gos s g = Some x \<or> plain x"
    and "\<And>el p. el < next_el s' \<Longrightarrow> el_of s' el = (m, im_term im (nodes s m)) \<Longrightarrow> p \<in> voters s' el \<Longrightarrow>
           el < next_el s \<and> el_of s el = el_of s' el \<and> p \<in> voters s el"
  shows "cand_hist im s' H' m"
  using assms plain_hist by (intro cand_hist_keep [OF assms(1,2)]) (blast+)

lemma cand_hist_commits: "cand_hist im (s\<lparr>commits := x\<rparr>) H m = cand_hist im s H m"
  by (simp add: cand_hist_def)

context raft_commit
begin

lemma keeps_quiet:
  assumes hi: "hist_inv im cidx mtch ns s H" and ci: "cluster_inv im ns s" and k: "keeps im (nodes s n) c'"
    and lg: "im_log im c' = im_log im (nodes s n)" and cm: "calm im cidx mtch (nodes s n) c'"
    and s1: "nodes s1 = nodes s" "elected s1 = elected s" "next_el s1 = next_el s" "el_of s1 = el_of s" "voters s1 = voters s"
      "commits s1 = commits s" "\<And>g x. gos s1 g = Some x \<Longrightarrow> gos s g = Some x \<or> plain x"
  shows "hist_inv im cidx mtch ns (spawn n es (set_node im n c' s1)) H"
proof (rule hist_quiet [OF hi, where n = n and c' = c'])
  have r: "im_role im c' = Leader \<Longrightarrow> im_role im (nodes s n) = Leader \<and> im_term im c' = im_term im (nodes s n)"
    using k by (auto simp: keeps_def)
  have "elected (set_node im n c' s1) = elected (set_node im n c' s)" using s1(2) by (simp add: set_node_changes)
  then show "elected (spawn n es (set_node im n c' s1)) = elected s" using elected_same [OF ci r] by simp
  show "gos s g = Some x \<or> plain x" if "gos (spawn n es (set_node im n c' s1)) g = Some x" for g x
    using plain_spawn [OF that] s1(7) by auto
qed (use k lg cm s1 in \<open>auto simp: keeps_def set_node_changes\<close>)

lemma hist_Ready:
  assumes hi: "hist_inv im cidx mtch ns s H" and ci: "cluster_inv im ns s" and step: "cstep im (EReady g now) s = Some (Inr s')"
  shows "hist_inv im cidx mtch ns s' H"
proof -
  from step obtain n c es where c: "im_ready im now (nodes s n) = (c, es)" "s' = spawn n es (set_node im n c (finish g s))"
    by (auto split: option.splits goroutine.splits prod.splits)
  show ?thesis unfolding c(2)
    by (rule keeps_quiet [OF hi ci]) (use ready_law [OF c(1)] ready_log [OF c(1)] ready_calm [OF c(1)] plain_other(1) in auto)
qed

lemma hist_Stop:
  assumes hi: "hist_inv im cidx mtch ns s H" and ci: "cluster_inv im ns s" and step: "cstep im (EStop n) s = Some (Inr s')"
  shows "hist_inv im cidx mtch ns s' H"
proof -
  from step have s': "s' = spawn n [] (set_node im n (im_Stop im (nodes s n)) s)" by (auto simp: spawn_Nil split: if_splits)
  show ?thesis unfolding s'
    by (rule keeps_quiet [OF hi ci]) (use Stop_law Stop_log Stop_calm in auto)
qed

lemma hist_plain:
  assumes hi: "hist_inv im cidx mtch ns s H" and step: "cstep im ev s = Some (Inr s')"
    and ev: "ev \<in> {ETimerNew g d, ELoopSend g, ELoopFire g, ELoopTrigger g h, EDrop g}"
  shows "hist_inv im cidx mtch ns s' H"
proof (rule hist_still [OF hi])
  show "nodes s' = nodes s" "elected s' = elected s" "next_el s' = next_el s" "el_of s' = el_of s" "voters s' = voters s"
      "commits s' = commits s"
    using step ev by (auto simp: Let_def split: option.splits goroutine.splits if_splits)
  fix f x assume "gos s' f = Some x"
  then have "gos s f = Some x \<or> plain x"
    using step ev
    by (auto simp: Let_def split: option.splits goroutine.splits if_splits dest!: plain_spawn plain_other)
  then show "gos s f = Some x
      \<or> go_hist (elected s) H ns x
        \<and> (\<forall>m. im_role im (nodes s m) = Candidate \<longrightarrow> im_term im (nodes s m) \<notin> fst ` elected s
              \<longrightarrow> vote_hist H (im_log im (nodes s m)) m (im_term im (nodes s m)) x)"
    using plain_hist by blast
qed

lemma hist_VoteSend:
  assumes hi: "hist_inv im cidx mtch ns s H" and ci: "cluster_inv im ns s" and step: "cstep im (EVoteSend g) s = Some (Inr s')"
  shows "hist_inv im cidx mtch ns s' H"
proof -
  from step obtain n el p t where s': "s' = become g (GVoteCall n el p t (im_voteArgs im t (nodes s n))) s"
    by (auto split: option.splits goroutine.splits)
  show ?thesis
  proof (rule hist_still [OF hi])
    fix f x assume "gos s' f = Some x"
    then show "gos s f = Some x
      \<or> go_hist (elected s) H ns x
        \<and> (\<forall>m. im_role im (nodes s m) = Candidate \<longrightarrow> im_term im (nodes s m) \<notin> fst ` elected s
              \<longrightarrow> vote_hist H (im_log im (nodes s m)) m (im_term im (nodes s m)) x)"
      unfolding s' using voteArgs_last by (auto dest!: plain_other(3))
  qed (simp_all add: s')
qed

lemma hist_Send:
  assumes hi: "hist_inv im cidx mtch ns s H" and ci: "cluster_inv im ns s"
    and pr: "prompt im s (ESend g)" and step: "cstep im (ESend g) s = Some (Inr s')"
  shows "hist_inv im cidx mtch ns s' H"
proof -
  from step obtain n p t ni b where g: "gos s g = Some (GSendStart n p t)" and b: "im_aeArgs im t p (nodes s n) = Inr (ni, b)"
    and s': "s' = become g (GSendCall n p t ni b) s"
    by (auto simp: go_bind_eq_Inr split: option.splits goroutine.splits)
  let ?c = "nodes s n"
  have r: "im_role im ?c = Leader" "im_term im ?c = t" using pr g by (auto simp: prompt_def)
  have e: "(t, n) \<in> elected s" using core_inv_leader [OF cluster_invD(2) [OF ci] r(1)] r(2) by simp
  note nh = hist_invD(2) [OF hi, of n, unfolded node_hist_def]
  have led: "h_led H t = im_log im ?c" using nh r by (auto simp: leads_def)
  have et: "t \<in> fst ` elected s" using e by force
  then have "leader_ok (elected s) H ns t" by (rule history_okD(1) [OF hist_invD(1) [OF hi]])
  then have st: "prefix (h_start H t) (im_log im ?c)" using led by (simp add: leader_ok_def)
  have go: "go_hist (elected s) H ns (GSendCall n p t ni b)"
    using et aeArgs_commit [OF b] aeArgs_log [OF b] st led nh r(2) by (auto intro!: exI [of _ "im_log im ?c"])
  show ?thesis
  proof (rule hist_still [OF hi])
    fix f x assume "gos s' f = Some x"
    then show "gos s f = Some x
      \<or> go_hist (elected s) H ns x
        \<and> (\<forall>m. im_role im (nodes s m) = Candidate \<longrightarrow> im_term im (nodes s m) \<notin> fst ` elected s
              \<longrightarrow> vote_hist H (im_log im (nodes s m)) m (im_term im (nodes s m)) x)"
      unfolding s' using go by (auto dest!: plain_other(3) simp del: go_hist.simps)
  qed (simp_all add: s')
qed

lemma hist_Commit:
  assumes hi: "hist_inv im cidx mtch ns s H" and ci: "cluster_inv im ns s" and step: "cstep im (ECommit n) s = Some (Inr s')"
  shows "hist_inv im cidx mtch ns s' H"
proof -
  from step obtain c out where c: "im_commit im (nodes s n) = Inr (c, out)"
    and s': "s' = (set_node im n c s)\<lparr>commits := (commits s)(n := commits s n @ out)\<rparr>"
    by (auto simp: go_bind_eq_Inr Let_def split: if_splits)
  define s1 where "s1 = spawn n [] (set_node im n c s)"
  have h1: "hist_inv im cidx mtch ns s1 H"
    unfolding s1_def by (rule keeps_quiet [OF hi ci]) (use commit_law [OF c] commit_log [OF c] commit_calm [OF c] in auto)
  have s1': "s' = s1\<lparr>commits := (commits s)(n := commits s n @ out)\<rparr>" "commits s1 = commits s"
    by (simp_all add: s' s1_def spawn_Nil)
  have el: "elected s1 = elected s"
    unfolding s1_def using elected_same [OF ci, of c n] commit_law [OF c] by (simp add: spawn_Nil keeps_def)
  note nh = hist_invD(2) [OF hi, of n, unfolded node_hist_def]
  have new: "\<exists>T P k. safe (elected s1) H ns T P \<and> k < length P \<and> ce_Index e = int k \<and> ce_Command e = Command (P ! k)"
    if e: "e \<in> set out" for e
  proof -
    obtain k where k: "ce_Index e = int k" "int k \<le> cidx (nodes s n)" "k < length (im_log im (nodes s n))"
      "ce_Command e = Command (im_log im (nodes s n) ! k)" using commit_out [OF c e] by blast
    let ?P = "take (nat (cidx (nodes s n) + 1)) (im_log im (nodes s n))"
    have "k < length ?P" "?P ! k = im_log im (nodes s n) ! k" using k by auto
    then show ?thesis using nh k el by metis
  qed
  have "out_hist s' H ns"
    using hist_invD(6) [OF h1] new s1' unfolding out_hist_def by (auto simp: s1')
  then show ?thesis
    using h1 unfolding s1' hist_inv_def by (auto simp: el_hist_def cand_hist_commits)
qed

lemma hist_Restart:
  assumes hi: "hist_inv im cidx mtch ns s H" and ci: "cluster_inv im ns s"
    and tl: "timely im s (ERestart n)" and step: "cstep im (ERestart n) s = Some (Inr s')"
  shows "hist_inv im cidx mtch ns s' H"
proof -
  from step obtain c where c: "im_restart im (nodes s n) = Inr c"
    and s': "s' = launch (GReady n) (set_node im n c (kill_node n s))"
    by (auto simp: go_bind_eq_Inr split: if_splits)
  have same: "im_term im c = im_term im (nodes s n)" "im_log im c = im_log im (nodes s n)" using tl c by auto
  have r: "\<not> active (im_role im c)" "im_role im c \<noteq> Leader" "im_role im c \<noteq> Candidate" "cidx c = -1"
    using restart_law [OF c] restart_commit [OF c] by auto
  have nd: "nodes s' = (nodes s)(n := c)" "elected s' = elected s" using r by (simp_all add: s' set_node_changes)
  have go: "gos s' g = Some x \<Longrightarrow> gos s g = Some x \<or> plain x" for g x
    unfolding s' by (auto dest!: plain_other(2,4))
  show ?thesis
  proof (rule hist_move [OF hi _ _ nd(1)])
    show "node_hist im cidx mtch (elected s') H ns n c"
      using hist_invD(2) [OF hi, of n] same r nd by (auto simp: node_hist_def safe_def)
    show "cand_hist im s' H m" for m
      by (rule cand_hist_plain [OF hist_invD(4) [OF hi] _ _ go])
        (use nd r in \<open>auto simp: s' split: if_splits\<close>)
    show "el_hist im s'" using hist_invD(5) [OF hi] same nd by (auto simp: el_hist_def s' set_node_changes)
    show "out_hist s' H ns" using hist_invD(6) [OF hi] nd by (simp add: out_hist_def s')
    show "gos s g = Some x \<or> go_hist (elected s') H ns x" if "gos s' g = Some x" for g x using go [OF that] plain_hist by blast
  qed (use hist_invD(1) [OF hi] nd in auto)
qed

lemma hist_TimerTick:
  assumes hi: "hist_inv im cidx mtch ns s H" and ci: "cluster_inv im ns s" and step: "cstep im (ETimerTick g now) s = Some (Inr s')"
  shows "hist_inv im cidx mtch ns s' H"
proof -
  from step obtain n t d where g: "gos s g = Some (GTimer n t d)"
    by (auto split: option.splits goroutine.splits)
  obtain goes_on c es where tm: "im_timer im now t d (nodes s n) = (goes_on, c, es)" by (metis prod_cases3)
  let ?c = "nodes s n"
  have law: "im_term im ?c \<le> im_term im c" "im_log im c = im_log im ?c" "calm im cidx mtch ?c c"
    "c = ?c \<or> im_role im c = Candidate \<and> im_term im c = im_term im ?c + 1"
    using timer_law [OF tm] timer_log [OF tm] timer_calm [OF tm] by auto
  have nd: "nodes s' = (nodes s)(n := c)" "next_el s' = Suc (next_el s)" "el_of s' = (el_of s)(next_el s := (n, im_term im c))"
    "voters s' = (voters s)(next_el s := {})" "commits s' = commits s"
    using step g tm by (auto simp: Let_def set_node_changes split: if_splits)
  have "elected s' = elected (set_node im n c s)"
    using step g tm by (auto simp: Let_def set_node_changes split: if_splits)
  moreover have "im_role im c = Leader \<Longrightarrow> im_role im ?c = Leader \<and> im_term im c = im_term im ?c" using law(4) by auto
  ultimately have E: "elected s' = elected s" using elected_same [OF ci, of c n] by simp
  have gs: "gos s' = gos (spawn n es (set_node im n c (if goes_on then s else finish g s)))"
    using step g tm by (auto simp: Let_def)
  have go: "gos s f = Some x \<or> plain x" if "gos s' f = Some x" for f x
    using plain_spawn [OF that [unfolded gs]] plain_other(1) [of g s f x] by (cases goes_on) auto
  have old: "snd (el_of s el) \<le> im_term im (nodes s (fst (el_of s el)))" if "el < next_el s" for el
    using hist_invD(5) [OF hi] that by (simp add: el_hist_def)
  show ?thesis
  proof (rule hist_move [OF hi _ _ nd(1)])
    show "node_hist im cidx mtch (elected s') H ns n c"
      unfolding E by (rule node_hist_keep [OF hist_invD(2) [OF hi]]) (use law in \<open>auto simp: calm_def\<close>)
    show "el_hist im s'" using old law(1) nd by (fastforce simp: el_hist_def less_Suc_eq)
    show "cand_hist im s' H m" for m
    proof (cases "m = n \<and> c \<noteq> ?c")
      case False
      then have "nodes s' m = nodes s m" using nd(1) by auto
      then show ?thesis
        by (intro cand_hist_plain [OF hist_invD(4) [OF hi] _ _ go])
          (use nd E in \<open>auto simp: less_Suc_eq split: if_splits\<close>)
    next
      case True
      then have u: "im_term im c = im_term im ?c + 1" "m = n" using law(4) by auto
      have "vote_hist H L n (im_term im c) x" if x: "gos s' g = Some x" for g x L
      proof (cases "plain x")
        case p: False
        then have "go_ok ns s x" using go [OF x] cluster_inv_go [OF ci] by blast
        then show ?thesis using old u(1) by (cases x) (fastforce simp: vote_ok_def)+
      qed (use plain_hist in blast)
      moreover have "voters s' el = {}" if "el < next_el s'" "el_of s' el = (n, im_term im c)" for el
        using that old [of el] u(1) nd by (auto simp: less_Suc_eq split: if_splits)
      ultimately show ?thesis using u(2) nd(1) by (simp add: cand_hist_def)
    qed
    show "out_hist s' H ns" using hist_invD(6) [OF hi] nd E by (simp add: out_hist_def)
    show "gos s g = Some x \<or> go_hist (elected s') H ns x" if "gos s' g = Some x" for g x using go [OF that] plain_hist by blast
  qed (use hist_invD(1) [OF hi] E in auto)
qed

end

section \<open>Steps that extend the history\<close>

lemma forgets_ballots [simp]: "forgets E (H\<lparr>h_ballots := B\<rparr>) t m u = forgets E H t m u"
  by (simp add: forgets_def)

lemma of_leaders_ballots [simp]: "of_leaders E (H\<lparr>h_ballots := B\<rparr>) L = of_leaders E H L"
  by (simp add: of_leaders_def)

text \<open>A server votes in a term that has no leader yet.\<close>

lemma hist_ballot:
  assumes hi: "hist_inv im cidx mtch ns s H" and t: "im_term im (nodes s p) = t" "t \<notin> fst ` elected s"
    and H': "H' = H\<lparr>h_ballots := insert (p, t, im_log im (nodes s p)) (h_ballots H)\<rparr>"
  shows "hist_inv im cidx mtch ns s H'"
proof -
  note nh = hist_invD(2) [OF hi, of p]
  have ex: "extends (elected s) H (elected s) H'" by (auto simp: extends_def H')
  have k: "prefix (take m (h_led H u)) (im_log im (nodes s p)) \<or> forgets (elected s) H u m t" if "(p, u, m) \<in> h_acks H" for u m
    using node_histD(6) [OF nh that] forgets_before [OF _ t(2)] t(1) by blast
  have h: "history_ok (elected s) H' ns"
  proof (rule history_ok_extends [OF hist_invD(1) [OF hi] ex])
    fix u assume "u \<in> fst ` elected s"
    then show "leader_ok (elected s) H' ns u"
      by (intro leader_ok_extends [OF ex history_okD(1) [OF hist_invD(1) [OF hi]]]) (simp_all add: H')
  next
    fix q u v assume "(q, u, v) \<in> h_ballots H'"
    then show "(q, u, v) \<in> h_ballots H \<or> of_leaders (elected s) H' v
        \<and> (\<forall>t m. (q, t, m) \<in> h_acks H \<longrightarrow> t < u \<longrightarrow> prefix (take m (h_led H t)) v \<or> forgets (elected s) H t m u)"
      using node_histD(1) [OF nh] k by (auto simp: H')
  qed (simp add: H')
  show ?thesis
  proof (rule hist_move [OF hi ex h, where n = p and c' = "nodes s p"])
    show "node_hist im cidx mtch (elected s) H' ns p (nodes s p)"
      using nh t safe_extends [OF ex] unfolding node_hist_def by (auto simp: H' leads_def)
    show "cand_hist im s H' m" for m by (rule cand_hist_plain [OF hist_invD(4) [OF hi] ex]) auto
    show "out_hist s H' ns" by (rule out_hist_extends [OF ex hist_invD(6) [OF hi]]) simp
  qed (use hist_invD(5) [OF hi] in \<open>auto simp: H'\<close>)
qed

context raft_commit
begin

lemma hist_VoteDeliver:
  assumes hi: "hist_inv im cidx mtch ns s H" and ci: "cluster_inv im ns s" and step: "cstep im (EVoteDeliver g now) s = Some (Inr s')"
  shows "\<exists>H'. hist_inv im cidx mtch ns s' H'"
proof -
  from step obtain n el p t a where g: "gos s g = Some (GVoteCall n el p t a)"
    by (auto split: option.splits goroutine.splits)
  obtain c r es where rv: "im_RequestVote im now a (nodes s p) = (c, r, es)" by (metis prod_cases3)
  define s1 where "s1 = spawn p es (set_node im p c s)"
  have h1: "hist_inv im cidx mtch ns s1 H"
    unfolding s1_def
    by (rule keeps_quiet [OF hi ci]) (use RequestVote_law [OF rv] RequestVote_log [OF rv] RequestVote_calm [OF rv] in auto)
  have ok: "p \<noteq> n" "rv_Term a = t" "rv_CandidateId a = n" using cluster_inv_go [OF ci g] by (auto simp: vote_ok_def)
  have nd: "nodes s1 p = c" "nodes s1 n = nodes s n" using ok by (simp_all add: s1_def set_node_changes)
  have E: "elected s1 = elected s"
    unfolding s1_def using elected_same [OF ci, of c p] RequestVote_law [OF rv] by (auto simp: keeps_def)
  have g1: "gos s1 f = Some x \<Longrightarrow> gos s f = Some x \<or> plain x" for f x
    using plain_spawn [of p es "set_node im p c s" f x] by (simp add: s1_def)
  show ?thesis
  proof (cases "\<exists>reply. r = Some reply \<and> rvr_VoteGranted reply \<and> t \<notin> fst ` elected s")
    case False
    have "hist_inv im cidx mtch ns s' H"
    proof (rule hist_still [OF h1])
      fix f x assume x: "gos s' f = Some x"
      have "gos s1 f = Some x \<or> (\<exists>reply. r = Some reply \<and> x = GVoteReply n el p t reply)"
        using step g rv x by (auto simp: Let_def s1_def split: option.splits if_splits dest!: plain_other(1,3))
      then show "gos s1 f = Some x \<or> go_hist (elected s1) H ns x
          \<and> (\<forall>m. im_role im (nodes s1 m) = Candidate \<longrightarrow> im_term im (nodes s1 m) \<notin> fst ` elected s1
                \<longrightarrow> vote_hist H (im_log im (nodes s1 m)) m (im_term im (nodes s1 m)) x)"
        using False E by auto
    qed (use step g rv in \<open>auto simp: Let_def s1_def split: option.splits if_splits\<close>)
    then show ?thesis by blast
  next
    case True
    then obtain reply where r: "r = Some reply" "rvr_VoteGranted reply" "t \<notin> fst ` elected s" by blast
    have c: "im_term im c = t" using RequestVote_law [OF rv] r ok by auto
    define H' where "H' = H\<lparr>h_ballots := insert (p, t, im_log im (nodes s1 p)) (h_ballots H)\<rparr>"
    have h2: "hist_inv im cidx mtch ns s1 H'"
      by (rule hist_ballot [OF h1 _ _ H'_def]) (use c nd E r in simp_all)
    have up: "up_to_date_pos (rv_LastLogIndex a, rv_LastLogTerm a) (im_log im (nodes s1 p))"
      using RequestVote_up_to_date [of now a "nodes s p" c reply es] rv r RequestVote_log [OF rv] nd by simp
    have bal: "has_ballot H' p t (im_log im (nodes s n))" if "im_role im (nodes s n) = Candidate" "im_term im (nodes s n) = t"
    proof -
      have "(rv_LastLogIndex a, rv_LastLogTerm a) = last_pos (im_log im (nodes s n))"
        using hist_invD(4) [OF hi, of n] that r(3) g by (force simp: cand_hist_def Let_def)
      then show ?thesis using up by (auto simp: has_ballot_def H'_def)
    qed
    have "hist_inv im cidx mtch ns s' H'"
    proof (rule hist_still [OF h2])
      fix f x assume x: "gos s' f = Some x"
      have "gos s1 f = Some x \<or> x = GVoteReply n el p t reply"
        using step g rv r x by (auto simp: Let_def s1_def split: if_splits dest!: plain_other(3))
      then show "gos s1 f = Some x \<or> go_hist (elected s1) H' ns x
          \<and> (\<forall>m. im_role im (nodes s1 m) = Candidate \<longrightarrow> im_term im (nodes s1 m) \<notin> fst ` elected s1
                \<longrightarrow> vote_hist H' (im_log im (nodes s1 m)) m (im_term im (nodes s1 m)) x)"
        using bal nd by auto
    qed (use step g rv r in \<open>auto simp: Let_def s1_def split: if_splits\<close>)
    then show ?thesis by blast
  qed
qed

end

text \<open>The leader of a term appends an entry to its log and thereby acknowledges it.\<close>

definition led_append :: "int \<Rightarrow> int \<Rightarrow> 'c LogEntry \<Rightarrow> 'c history \<Rightarrow> 'c history" where
  "led_append n t e H = H\<lparr>h_led := (h_led H)(t := h_led H t @ [e]),
     h_acks := h_acks H \<union> {(n, t, m) | m. m \<le> length (h_led H t @ [e])}\<rparr>"

lemma led_append_extends: "extends E H E (led_append n t e H)"
  by (auto simp: extends_def led_append_def)

lemma led_append_of_leaders:
  assumes L: "h_led H t = L" and ofl: "of_leaders E H L" and e: "Term e = t" "t \<in> fst ` E"
  shows "of_leaders E (led_append n t e H) (L @ [e])"
  unfolding of_leaders_def
proof (intro allI impI)
  let ?H = "led_append n t e H"
  fix i assume i: "i < length (L @ [e])"
  show "Term ((L @ [e]) ! i) \<in> fst ` E \<and> take (Suc i) (L @ [e]) = take (Suc i) (h_led ?H (Term ((L @ [e]) ! i)))"
  proof (cases "i < length L")
    case True
    then show ?thesis
      using of_leaders_take [OF of_leaders_extends [OF led_append_extends ofl], of i] by (simp add: nth_append)
  next
    case False
    then have "i = length L" using i by simp
    then show ?thesis using e L by (simp add: led_append_def)
  qed
qed

lemma led_append_ok:
  assumes h: "history_ok E H ns" and e: "Term e = t" "t \<in> fst ` E" and ofl: "of_leaders E H (h_led H t)"
    and bal: "\<And>u v. (n, u, v) \<in> h_ballots H \<Longrightarrow> u \<le> t"
  shows "history_ok E (led_append n t e H) ns"
proof (rule history_ok_extends [OF h led_append_extends])
  let ?H = "led_append n t e H"
  fix u assume u: "u \<in> fst ` E"
  show "leader_ok E ?H ns u"
  proof (cases "u = t")
    case True
    have lt: "leader_ok E H ns t" by (rule history_okD(1) [OF h e(2)])
    have "set (drop (length (h_start H t)) (h_led H t @ [e])) \<subseteq> set (drop (length (h_start H t)) (h_led H t)) \<union> {e}"
      by (auto dest: in_set_dropD)
    then have "\<forall>x \<in> set (drop (length (h_start H t)) (h_led H t @ [e])). Term x = t"
      using lt e(1) by (auto simp: leader_ok_def)
    then show ?thesis
      using lt led_append_of_leaders [OF refl ofl e, of n] True by (auto simp: leader_ok_def led_append_def)
  next
    case False
    then show ?thesis
      by (intro leader_ok_extends [OF led_append_extends history_okD(1) [OF h u] u]) (simp add: led_append_def)
  qed
qed (use bal e in \<open>auto simp: led_append_def\<close>)

lemma quorum_others:
  assumes "good_config ns" "n \<in> set ns" "X \<subseteq> set (others ns n)" "int (card X) \<ge> v - 1" "majority v (others ns n)"
  shows "quorum ns (insert n X)"
proof -
  have d: "distinct ns" using assms(1) by (simp add: good_config_def)
  have X: "n \<notin> X" "finite X" using assms(3) finite_subset [OF assms(3)] by (auto simp: others_def)
  have "int (card (set ns)) = int (length (others ns n)) + 1"
    using length_others [OF d assms(2)] distinct_card [OF d] by simp
  moreover have "int (card (insert n X)) = int (card X) + 1" using X by simp
  ultimately have "card (set ns) < 2 * card (insert n X)" using assms(4,5) unfolding majority_def by linarith
  then show ?thesis using assms(2,3) by (auto simp: quorum_def others_def)
qed

context raft_commit
begin

lemma hist_SendReply:
  assumes hi: "hist_inv im cidx mtch ns s H" and ci: "cluster_inv im ns s" and cfg: "good_config ns"
    and pr: "prompt im s (ESendReply g now)" and step: "cstep im (ESendReply g now) s = Some (Inr s')"
  shows "hist_inv im cidx mtch ns s' H"
proof -
  from step obtain n p t ni k r c es where g: "gos s g = Some (GSendReply n p t ni k r)"
    and ae: "im_aeReply im now t p ni k r (nodes s n) = (c, es)" and s': "s' = spawn n es (set_node im n c (finish g s))"
    by (auto split: option.splits goroutine.splits prod.splits)
  let ?c = "nodes s n"
  have fr: "im_fresh im t r ?c" "im_role im ?c = Leader \<longrightarrow> im_term im ?c = t" using pr g by (auto simp: prompt_def)
  have kp: "keeps im ?c c" using aeReply_law [OF ae fr(1)] by simp
  from aeReply_commit [OF ae] show ?thesis
  proof
    assume "calm im cidx mtch ?c c"
    then show ?thesis unfolding s'
      by (intro keeps_quiet [OF hi ci kp aeReply_log [OF ae]]) (use plain_other(1) in auto)
  next
    assume u: "im_role im ?c = Leader \<and> im_role im c = Leader \<and> aer_Success r \<and> aer_Term r = t
      \<and> mtch c = (mtch ?c)(p := ni + int k - 1)
      \<and> (cidx c = cidx ?c \<or> 0 \<le> cidx c \<and> cidx c < int (length (im_log im ?c)) \<and> Term (im_log im ?c ! nat (cidx c)) = im_term im ?c
           \<and> majority (1 + int (length (filter (\<lambda>q. mtch c q \<ge> cidx c) (im_peers im ?c)))) (im_peers im ?c))"
    note nh = hist_invD(2) [OF hi, of n]
    have lg: "im_log im c = im_log im ?c" by (rule aeReply_log [OF ae])
    have same: "im_term im c = im_term im ?c" "im_peers im c = im_peers im ?c" "im_term im ?c = t" "im_role im ?c = Leader"
      using kp u fr by (auto simp: keeps_def)
    have peers: "im_peers im ?c = others ns n" using core_inv_node [OF cluster_invD(2) [OF ci], of n] by (simp add: node_ok_def)
    have n: "n \<in> set ns" using cluster_inv_go [OF ci g] by simp
    have E: "elected s' = elected s" "nodes s' = (nodes s)(n := c)"
      using elected_same [OF ci, of c n] same u by (simp_all add: s' set_node_changes)
    have et: "t \<in> fst ` elected s"
      using core_inv_leader [OF cluster_invD(2) [OF ci] same(4)] same(3) by force
    have ld: "leads im mtch H n ?c" using node_histD(4) [OF nh same(4)] .
    have ack: "\<forall>j. int j < ni + int k \<longrightarrow> (p, t, Suc j) \<in> h_acks H" using hist_invD(3) [OF hi g] u by simp
    have ld': "leads im mtch H n c"
      using ld ack u same lg unfolding leads_def by (auto split: if_splits)
    have sf: "safe (elected s) H ns (im_term im c) (take (nat (cidx c + 1)) (im_log im c)) \<and> -1 \<le> cidx c \<and> cidx c < int (length (im_log im c))"
    proof (cases "cidx c = cidx ?c")
      case True
      then show ?thesis using node_histD(8-10) [OF nh] same lg by simp
    next
      case False
      with u have cc: "0 \<le> cidx c \<and> cidx c < int (length (im_log im ?c)) \<and> Term (im_log im ?c ! nat (cidx c)) = im_term im ?c"
        and "majority (1 + int (length (filter (\<lambda>q. mtch c q \<ge> cidx c) (im_peers im ?c)))) (im_peers im ?c)" by blast+
      then have mj: "majority (1 + int (length (filter (\<lambda>q. mtch c q \<ge> cidx c) (others ns n)))) (others ns n)"
        unfolding peers by simp
      let ?X = "set (filter (\<lambda>q. mtch c q \<ge> cidx c) (others ns n))"
      have "distinct (filter (\<lambda>q. mtch c q \<ge> cidx c) (others ns n))" using cfg by (simp add: good_config_def others_def)
      then have "card ?X = length (filter (\<lambda>q. mtch c q \<ge> cidx c) (others ns n))" by (rule distinct_card)
      then have Q: "quorum ns (insert n ?X)" by (intro quorum_others [OF cfg n _ _ mj]) auto
      have "(q, t, Suc (nat (cidx c))) \<in> h_acks H" if "q \<in> insert n ?X" for q
        using that ld' cc lg same peers unfolding leads_def by (auto simp: Suc_le_eq nat_less_iff)
      then have "committed (elected s) H ns t (nat (cidx c))"
        unfolding committed_def using et cc ld same lg Q by (auto simp: leads_def nat_less_iff)
      moreover have "take (nat (cidx c + 1)) (im_log im c) = take (Suc (nat (cidx c))) (h_led H t)"
        using cc ld same lg by (simp add: leads_def nat_add_distrib)
      ultimately have "safe (elected s) H ns t (take (nat (cidx c + 1)) (im_log im c))"
        unfolding safe_def by (metis order_refl prefix_order.refl)
      then show ?thesis using cc same lg by simp
    qed
    have go: "gos s f = Some x \<or> plain x" if "gos s' f = Some x" for f x
      using plain_spawn [OF that [unfolded s']] plain_other(1) [of g s f x] by auto
    show ?thesis
    proof (rule hist_move [OF hi _ _ E(2)])
      show "node_hist im cidx mtch (elected s') H ns n c"
        unfolding node_hist_def E using nh ld' sf same lg unfolding node_hist_def by simp
      show "cand_hist im s' H m" for m
        by (rule cand_hist_plain [OF hist_invD(4) [OF hi] _ _ go]) (use E u in \<open>auto simp: s' split: if_splits\<close>)
      show "el_hist im s'" using hist_invD(5) [OF hi] same E by (auto simp: el_hist_def s' set_node_changes)
      show "out_hist s' H ns" using hist_invD(6) [OF hi] E by (simp add: out_hist_def s')
      show "gos s f = Some x \<or> go_hist (elected s') H ns x" if "gos s' f = Some x" for f x using go [OF that] plain_hist by blast
    qed (use hist_invD(1) [OF hi] E in auto)
  qed
qed

lemma node_hist_append:
  assumes nh: "node_hist im cidx mtch E H ns n c0" and h: "history_ok E H ns"
    and c: "im_role im c0 = Leader" "im_term im c = im_term im c0" "im_log im c = im_log im c0 @ [e]" "cidx c = cidx c0"
      "im_role im c = Leader \<Longrightarrow> mtch c = mtch c0" "im_peers im c = im_peers im c0"
    and e: "Term e = im_term im c0" "im_term im c0 \<in> fst ` E"
    and H': "H' = led_append n (im_term im c0) e H"
  shows "node_hist im cidx mtch E H' ns n c"
proof -
  let ?t = "im_term im c0"
  have ld: "h_led H ?t = im_log im c0" "\<forall>p \<in> set (im_peers im c0). \<forall>j. int j \<le> mtch c0 p \<longrightarrow> (p, ?t, Suc j) \<in> h_acks H"
    using node_histD(4) [OF nh c(1)] by (auto simp: leads_def)
  have f: "h_led H' ?t = im_log im c" "h_acks H' = h_acks H \<union> {(n, ?t, m) | m. m \<le> length (im_log im c)}" "h_ballots H' = h_ballots H"
    using ld(1) c(3) by (simp_all add: H' led_append_def)
  note ex = led_append_extends [of E H n ?t e, folded H']
  note ofl = led_append_of_leaders [OF ld(1) node_histD(1) [OF nh] e, of n, folded H', folded c(3)]
  show ?thesis
    unfolding node_hist_def c(2)
  proof (intro conjI allI impI ballI)
    show "Term x \<le> ?t" if "x \<in> set (im_log im c)" for x using node_histD(2) [OF nh] that c(3) e(1) by auto
    show "leads im mtch H' n c" if "im_role im c = Leader"
      using ld(2) c(2,5,6) that f(1) unfolding leads_def f(2) by auto
    show "u \<le> ?t" if "(n, u, m) \<in> h_acks H'" for u m using node_histD(5) [OF nh] that f(2) by auto
    show "prefix (take m (h_led H' u)) (im_log im c) \<or> forgets E H' u m (?t + 1)" if "(n, u, m) \<in> h_acks H'" for u m
    proof (cases "u = ?t")
      case False
      then have o: "(n, u, m) \<in> h_acks H" using that f(2) by auto
      have st: "u \<in> fst ` E" "m \<le> length (h_led H u)" using history_okD(2) [OF h o] by auto
      show ?thesis
        using node_histD(6) [OF nh o] acked_prefix_extends [OF ex st] forgets_extends [OF ex st] c(3)
        by (metis prefix_append)
    qed (simp add: f(1) take_is_prefix)
    show "u \<le> ?t" if "(n, u, v) \<in> h_ballots H'" for u v using node_histD(7) [OF nh] that f(3) by auto
    show "safe E H' ns ?t (take (nat (cidx c + 1)) (im_log im c))"
      using safe_extends [OF ex node_histD(10) [OF nh]] node_histD(8,9) [OF nh] c(3,4) by (simp add: nat_le_iff)
  qed (use node_histD(3,8,9) [OF nh] c ofl in auto)
qed

lemma hist_Submit_leader:
  assumes hi: "hist_inv im cidx mtch ns s H" and ci: "cluster_inv im ns s"
    and sb: "im_Submit im cmd (nodes s n) = (c, i, es)" and s': "s' = spawn n es (set_node im n c s)"
    and r: "im_role im (nodes s n) = Leader" and tm: "im_term im c = im_term im (nodes s n)"
    and lg: "im_log im c = im_log im (nodes s n) @ [e]" and e: "Term e = im_term im (nodes s n)"
  shows "hist_inv im cidx mtch ns s' (led_append n (im_term im (nodes s n)) e H)"
proof -
  let ?c = "nodes s n" and ?t = "im_term im (nodes s n)" and ?H = "led_append n (im_term im (nodes s n)) e H"
  have kp: "keeps im ?c c" using Submit_law [OF sb] by simp
  note nh = hist_invD(2) [OF hi, of n] and h = hist_invD(1) [OF hi]
  have ld: "h_led H ?t = im_log im ?c" using node_histD(4) [OF nh r] by (auto simp: leads_def)
  have el: "(?t, n) \<in> elected s" using core_inv_leader [OF cluster_invD(2) [OF ci] r] .
  then have et: "?t \<in> fst ` elected s" by force
  have cm: "cidx c = cidx ?c" "im_role im c = Leader \<Longrightarrow> mtch c = mtch ?c" "im_peers im c = im_peers im ?c"
    using Submit_calm [OF sb] kp by (auto simp: calm_def keeps_def)
  have E: "elected s' = elected s" "nodes s' = (nodes s)(n := c)"
    using elected_same [OF ci, of c n] r tm by (simp_all add: s' set_node_changes)
  note ex = led_append_extends [of "elected s" H n ?t e]
  show ?thesis
  proof (rule hist_move [OF hi _ _ E(2)])
    show "history_ok (elected s') ?H ns"
      unfolding E(1) by (rule led_append_ok [OF h e et]) (use ld node_histD(1,7) [OF nh] in auto)
    show "node_hist im cidx mtch (elected s') ?H ns n c"
      unfolding E(1) by (rule node_hist_append [OF nh h r tm lg cm e et refl])
    show "cand_hist im s' ?H m" for m
      by (rule cand_hist_plain [OF hist_invD(4) [OF hi]])
        (use E ex kp r in \<open>auto simp: s' keeps_def set_node_changes split: if_splits dest!: plain_spawn\<close>)
    show "el_hist im s'" using hist_invD(5) [OF hi] tm E by (auto simp: el_hist_def s' set_node_changes)
    show "out_hist s' ?H ns" by (rule out_hist_extends [OF _ hist_invD(6) [OF hi]]) (use ex E in \<open>auto simp: s'\<close>)
    show "gos s g = Some x \<or> go_hist (elected s') ?H ns x" if "gos s' g = Some x" for g x
    proof -
      have "gos s g = Some x \<or> plain x" using plain_spawn [OF that [unfolded s']] by simp
      then show ?thesis using plain_hist by blast
    qed
    show "h_led ?H (im_term im (nodes s m)) = h_led H (im_term im (nodes s m))"
      if "m \<noteq> n" "im_role im (nodes s m) = Leader" for m
    proof -
      have "(im_term im (nodes s m), m) \<in> elected s" using core_inv_leader [OF cluster_invD(2) [OF ci] that(2)] .
      then have "im_term im (nodes s m) \<noteq> ?t" using core_inv_elect_fun [OF cluster_invD(2) [OF ci], of ?t m n] el that(1) by auto
      then show ?thesis by (simp add: led_append_def)
    qed
  qed (use ex E in \<open>auto simp: led_append_def\<close>)
qed

lemma hist_Submit:
  assumes hi: "hist_inv im cidx mtch ns s H" and ci: "cluster_inv im ns s"
    and step: "cstep im (ESubmit n cmd) s = Some (Inr s')"
  shows "\<exists>H'. hist_inv im cidx mtch ns s' H'"
proof -
  from step obtain c i es where sb: "im_Submit im cmd (nodes s n) = (c, i, es)" and s': "s' = spawn n es (set_node im n c s)"
    by (auto split: if_splits prod.splits)
  have kp: "keeps im (nodes s n) c" using Submit_law [OF sb] by simp
  from Submit_log [OF sb] show ?thesis
  proof
    assume "im_log im c = im_log im (nodes s n)"
    then have "hist_inv im cidx mtch ns s' H"
      unfolding s' by (intro keeps_quiet [OF hi ci kp _ Submit_calm [OF sb]]) auto
    then show ?thesis by blast
  next
    assume "im_role im (nodes s n) = Leader \<and> im_term im c = im_term im (nodes s n)
      \<and> im_log im c = im_log im (nodes s n) @ [\<lparr>Command = cmd, Term = im_term im (nodes s n)\<rparr>]"
    then show ?thesis using hist_Submit_leader [OF hi ci sb s'] by fastforce
  qed
qed

end

text \<open>A follower that accepts entries of the leader of term \<open>t\<close> keeps what it acknowledged and what it
  knows to be committed.\<close>

lemma prefix_terms:
  assumes lt: "leader_ok E H ns t" and L: "prefix L (h_led H t)" and e: "e \<in> set L"
  shows "Term e \<le> t"
proof -
  obtain i where i: "i < length L" "L ! i = e" using e by (metis in_set_conv_nth)
  then have "i < length (h_led H t)" "h_led H t ! i = e"
    using prefix_length_le [OF L] prefix_take_eq [OF L] by auto
  then show ?thesis using led_terms(1) [OF lt, of i] by simp
qed

lemma acks_accepted:
  assumes old: "prefix (take m (h_led H u)) lg \<or> forgets E H u m (t0 + 1)" and u: "u \<le> t" and t0: "t0 \<le> t" and t: "t \<in> fst ` E"
    and L: "prefix (h_start H t) L" "prefix L (h_led H t)"
    and src: "\<And>X. prefix X lg \<Longrightarrow> prefix X L \<or> prefix L X \<Longrightarrow> prefix X lg'"
  shows "prefix (take m (h_led H u)) lg' \<or> forgets E H u m (t + 1)"
  using old
proof
  let ?X = "take m (h_led H u)"
  assume X: "prefix ?X lg"
  consider "u = t" | "u < t" "prefix ?X (h_start H t)" | "u < t" "\<not> prefix ?X (h_start H t)" using u by fastforce
  then show ?thesis
  proof cases
    case 1
    then have "prefix ?X L \<or> prefix L ?X" using L(2) prefix_same_cases take_is_prefix by metis
    then show ?thesis using src [OF X] by blast
  next
    case 2
    then have "prefix ?X L" using L(1) by (blast intro: prefix_order.trans)
    then show ?thesis using src [OF X] by blast
  next
    case 3
    then have "forgets E H u m (t + 1)" unfolding forgets_def using t by (intro bexI [of _ t]) auto
    then show ?thesis by blast
  qed
next
  assume "forgets E H u m (t0 + 1)"
  then show ?thesis using forgets_later t0 by (metis add_le_cancel_right)
qed

lemma commit_accepted:
  assumes h: "history_ok E H ns" and P: "safe E H ns t (take (nat (i + 1)) lg)" and i: "-1 \<le> i" "i < int (length lg)"
    and t: "t \<in> fst ` E" and L: "prefix (h_start H t) L" "prefix L (h_led H t)" "k < int (length L)" "safe E H ns t (take (nat (k + 1)) L)"
    and src: "prefix L lg'" "\<And>X. prefix X lg \<Longrightarrow> prefix X L \<or> prefix L X \<Longrightarrow> prefix X lg'"
    and cc: "i' = i \<or> i < k \<and> i' = min k (int (length lg') - 1)"
  shows "-1 \<le> i' \<and> i' < int (length lg') \<and> safe E H ns t (take (nat (i' + 1)) lg')"
  using cc
proof
  assume same: "i' = i"
  let ?P = "take (nat (i + 1)) lg"
  have "prefix ?P L \<or> prefix L ?P" by (rule safe_in_led [OF h P order_refl t L(1,2)])
  then have pc: "prefix ?P lg'" using src(2) take_is_prefix by blast
  have len: "length ?P = nat (i + 1)" using i(2) by simp
  then have "take (nat (i' + 1)) lg' = ?P" using pc same by (metis append_eq_conv_conj prefix_def)
  then show ?thesis using P pc len same i prefix_length_le [OF pc] by (auto simp: nat_le_iff)
next
  assume new: "i < k \<and> i' = min k (int (length lg') - 1)"
  then have k: "i' = k" "0 \<le> k" using L(3) prefix_length_le [OF src(1)] i(1) by auto
  have "take (nat (i' + 1)) lg' = take (nat (k + 1)) L"
    using k L(3) take_prefix_mono [OF src(1)] by (simp add: nat_le_iff)
  then show ?thesis using k L(3,4) prefix_length_le [OF src(1)] by simp
qed

context raft_commit
begin

lemma node_hist_accept:
  assumes nh: "node_hist im cidx mtch E H ns p c0" and h: "history_ok E H ns"
    and c: "im_role im c = Follower" "im_term im c = t" "im_term im c0 \<le> t"
    and cc: "cidx c = cidx c0 \<or> cidx c0 < k \<and> cidx c = min k (int (length (im_log im c)) - 1)"
    and t: "t \<in> fst ` E" and ofL: "of_leaders E H L"
    and src: "prefix L (im_log im c)" "\<And>X. prefix X (im_log im c0) \<Longrightarrow> prefix X L \<or> prefix L X \<Longrightarrow> prefix X (im_log im c)"
      "im_log im c = im_log im c0 \<or> im_log im c = L"
    and L: "prefix (h_start H t) L" "prefix L (h_led H t)" "k < int (length L)" "safe E H ns t (take (nat (k + 1)) L)"
    and H': "H' = H\<lparr>h_acks := h_acks H \<union> {(p, t, m) | m. m \<le> length L}\<rparr>"
  shows "node_hist im cidx mtch E H' ns p c"
  unfolding node_hist_def c(2)
proof (intro conjI allI impI ballI)
  have ex: "extends E H E H'" by (auto simp: extends_def H')
  show "of_leaders E H' (im_log im c)"
    using of_leaders_extends [OF ex] node_histD(1) [OF nh] ofL src(3) by metis
  show "Term e \<le> t" if "e \<in> set (im_log im c)" for e
    using src(3)
  proof
    assume "im_log im c = im_log im c0"
    then show ?thesis using node_histD(2) [OF nh, of e] that c(3) by simp
  next
    assume "im_log im c = L"
    then show ?thesis using prefix_terms [OF history_okD(1) [OF h t] L(2)] that by simp
  qed
  show "u \<le> t" if "(p, u, m) \<in> h_acks H'" for u m
    using that node_histD(5) [OF nh, of u m] c(3) by (auto simp: H')
  show "prefix (take m (h_led H' u)) (im_log im c) \<or> forgets E H' u m (t + 1)" if a: "(p, u, m) \<in> h_acks H'" for u m
  proof (cases "(p, u, m) \<in> h_acks H")
    case True
    have "prefix (take m (h_led H u)) (im_log im c) \<or> forgets E H u m (t + 1)"
      by (rule acks_accepted [OF node_histD(6) [OF nh True] _ c(3) t L(1,2) src(2)])
         (use node_histD(5) [OF nh True] c(3) in auto)
    then show ?thesis by (simp add: H' forgets_def)
  next
    case False
    then have "u = t" "m \<le> length L" using a by (auto simp: H')
    then have "prefix (take m (h_led H u)) L" using take_prefix_mono [OF L(2)] take_is_prefix by metis
    then show ?thesis using src(1) prefix_order.trans by (auto simp: H')
  qed
  show "u \<le> t" if "(p, u, v) \<in> h_ballots H'" for u v
    using that node_histD(7) [OF nh, of u v] c(3) by (auto simp: H')
  have "-1 \<le> cidx c \<and> cidx c < int (length (im_log im c)) \<and> safe E H ns t (take (nat (cidx c + 1)) (im_log im c))"
    by (rule commit_accepted [OF h _ node_histD(8,9) [OF nh] t L src(1,2) cc])
       (use node_histD(10) [OF nh] c(3) safe_mono in blast)
  then show "-1 \<le> cidx c" "cidx c < int (length (im_log im c))" "safe E H' ns t (take (nat (cidx c + 1)) (im_log im c))"
    using safe_extends [OF ex] by auto
qed (use c(1) node_histD(3) [OF nh] c(3) in auto)

lemma hist_accept:
  assumes hi: "hist_inv im cidx mtch ns s H" and E: "elected s1 = elected s" "nodes s1 = (nodes s)(p := c)"
    and s1: "el_of s1 = el_of s" "next_el s1 = next_el s" "voters s1 = voters s" "commits s1 = commits s"
    and g1: "\<And>f x. gos s1 f = Some x \<Longrightarrow> gos s f = Some x \<or> plain x"
    and c: "im_role im c = Follower" "im_term im c = t" "im_term im (nodes s p) \<le> t"
    and nh': "node_hist im cidx mtch (elected s) H' ns p c"
    and t: "t \<in> fst ` elected s" and L: "prefix L (h_led H t)"
    and H': "H' = H\<lparr>h_acks := h_acks H \<union> {(p, t, m) | m. m \<le> length L}\<rparr>"
  shows "hist_inv im cidx mtch ns s1 H'"
proof -
  note h = hist_invD(1) [OF hi] and nh = hist_invD(2) [OF hi, of p]
  have ex: "extends (elected s) H (elected s) H'" by (auto simp: extends_def H')
  have bl: "u \<le> t" if "(p, u, v) \<in> h_ballots H" for u v using node_histD(7) [OF nh that] c(3) by simp
  have len: "m \<le> length (h_led H t)" if "m \<le> length L" for m using prefix_length_le [OF L] that by simp
  have h': "history_ok (elected s) H' ns"
  proof (rule history_ok_extends [OF h ex])
    show "leader_ok (elected s) H' ns u" if "u \<in> fst ` elected s" for u
      by (rule leader_ok_extends [OF ex history_okD(1) [OF h that] that]) (simp add: H')
  qed (use t len bl in \<open>auto simp: H'\<close>)
  show ?thesis
  proof (rule hist_move [OF hi _ _ E(2)])
    show "cand_hist im s1 H' m" for m
      by (rule cand_hist_plain [OF hist_invD(4) [OF hi] _ _ g1]) (use E ex c(1) s1 in \<open>auto split: if_splits\<close>)
    show "el_hist im s1" using hist_invD(5) [OF hi] c(2,3) E s1 by (fastforce simp: el_hist_def)
    show "out_hist s1 H' ns" by (rule out_hist_extends [OF _ hist_invD(6) [OF hi]]) (use ex E s1 in auto)
    show "gos s f = Some x \<or> go_hist (elected s1) H' ns x" if "gos s1 f = Some x" for f x
      using g1 [OF that] plain_hist by blast
  qed (use ex h' nh' E in \<open>auto simp: H'\<close>)
qed

lemma hist_SendDeliver:
  assumes hi: "hist_inv im cidx mtch ns s H" and ci: "cluster_inv im ns s"
    and step: "cstep im (ESendDeliver g now) s = Some (Inr s')"
  shows "\<exists>H'. hist_inv im cidx mtch ns s' H'"
proof -
  from step obtain n p t ni b where g: "gos s g = Some (GSendCall n p t ni b)"
    by (auto split: option.splits goroutine.splits)
  with step obtain c q es where ae: "im_AppendEntries im now b (nodes s p) = Inr (c, q, es)"
    and s': "s' = (case q of None \<Rightarrow> finish g (spawn p es (set_node im p c s))
       | Some reply \<Rightarrow> become g (GSendReply n p t ni (length (ae_Entries b)) reply) (spawn p es (set_node im p c s)))"
    by (auto simp: go_bind_eq_Inr Let_def split: option.splits)
  let ?c = "nodes s p"
  note law = AppendEntries_law [OF ae]
  have act: "active (im_role im c) \<Longrightarrow> im_role im c = im_role im ?c \<and> im_term im c = im_term im ?c \<and> im_peers im c = im_peers im ?c"
    and tmle: "im_term im ?c \<le> im_term im c" using law by auto
  define s1 where "s1 = spawn p es (set_node im p c s)"
  have E: "elected s1 = elected s" "nodes s1 = (nodes s)(p := c)"
    unfolding s1_def using elected_same [OF ci, of c p] act by (auto simp: set_node_changes)
  have g1: "gos s1 f = Some x \<Longrightarrow> gos s f = Some x \<or> plain x" for f x
    using plain_spawn [of p es "set_node im p c s" f x] by (simp add: s1_def)
  have replied: "\<exists>H'. hist_inv im cidx mtch ns s' H'"
    if h1: "hist_inv im cidx mtch ns s1 H1"
      and ok: "\<And>r. q = Some r \<Longrightarrow> go_hist (elected s) H1 ns (GSendReply n p t ni (length (ae_Entries b)) r)" for H1
  proof -
    have "hist_inv im cidx mtch ns s' H1"
    proof (rule hist_still [OF h1])
      fix f x assume x: "gos s' f = Some x"
      have "gos s1 f = Some x \<or> (\<exists>r. q = Some r \<and> x = GSendReply n p t ni (length (ae_Entries b)) r)"
        using x unfolding s' s1_def [symmetric] by (auto split: option.splits dest!: plain_other(1,3))
      then show "gos s1 f = Some x \<or> go_hist (elected s1) H1 ns x
          \<and> (\<forall>m. im_role im (nodes s1 m) = Candidate \<longrightarrow> im_term im (nodes s1 m) \<notin> fst ` elected s1
                \<longrightarrow> vote_hist H1 (im_log im (nodes s1 m)) m (im_term im (nodes s1 m)) x)"
        using ok E(1) by auto
    qed (auto simp: s' s1_def split: option.splits)
    then show ?thesis by blast
  qed
  from AppendEntries_commit [OF ae] show ?thesis
  proof
    assume a: "im_log im c = im_log im ?c \<and> calm im cidx mtch ?c c \<and> (\<forall>r. q = Some r \<longrightarrow> \<not> aer_Success r)"
    have "hist_inv im cidx mtch ns s1 H"
      by (rule hist_quiet [OF hi _ _ _ _ _ E(2)]) (use a tmle act g1 E in \<open>auto simp: s1_def\<close>)
    then show ?thesis by (rule replied) (use a in auto)
  next
    assume "\<exists>r. q = Some r \<and> aer_Success r \<and> aer_Term r = ae_Term b \<and> im_term im c = ae_Term b \<and> im_role im c = Follower
      \<and> accepts (im_log im ?c) b (im_log im c)
      \<and> (cidx c = cidx ?c \<or> cidx ?c < ae_LeaderCommit b \<and> cidx c = min (ae_LeaderCommit b) (int (length (im_log im c)) - 1))"
    then have acc: "accepts (im_log im ?c) b (im_log im c)" and tm: "im_term im c = ae_Term b" and role: "im_role im c = Follower"
      and cc: "cidx c = cidx ?c \<or> cidx ?c < ae_LeaderCommit b \<and> cidx c = min (ae_LeaderCommit b) (int (length (im_log im c)) - 1)"
      by blast+
    have t: "ae_Term b = t" using cluster_inv_go [OF ci g] by simp
    obtain L where L: "t \<in> fst ` elected s" "ni = ae_PrevLogIndex b + 1" "from_log L b" "prefix (h_start H t) L" "prefix L (h_led H t)"
      "ae_LeaderCommit b < int (length L)" "safe (elected s) H ns t (take (nat (ae_LeaderCommit b + 1)) L)"
      using hist_invD(3) [OF hi g] by auto
    note h = hist_invD(1) [OF hi] and nh = hist_invD(2) [OF hi, of p]
    have ofL: "of_leaders (elected s) H L" using history_okD(1) [OF h L(1)] L(5) of_leaders_prefix by (auto simp: leader_ok_def)
    note src = accepts_source [OF of_leaders_matching [OF node_histD(1) [OF nh] ofL] L(3) acc]
    have c: "im_role im c = Follower" "im_term im c = t" "im_term im ?c \<le> t" using role tm tmle t by simp_all
    define H' where "H' = H\<lparr>h_acks := h_acks H \<union> {(p, t, m) | m. m \<le> length L}\<rparr>"
    note nh' = node_hist_accept [OF nh h c cc L(1) ofL src L(4-7) H'_def]
    have "hist_inv im cidx mtch ns s1 H'"
      by (rule hist_accept [OF hi E _ _ _ _ g1 c nh' L(1,5) H'_def]) (simp_all add: s1_def)
    moreover have "ni + int (length (ae_Entries b)) = int (length L)" using L(2,3) by (auto simp: from_log_def)
    ultimately show ?thesis by (intro replied) (auto simp: H'_def)
  qed
qed

end

context raft_commit
begin

text \<open>A candidate that has the votes of a quorum becomes the leader of a new term of the history.\<close>

lemma hist_wins:
  assumes hi: "hist_inv im cidx mtch ns s H" and ci: "cluster_inv im ns s" and ci': "cluster_inv im ns s'"
    and nd: "nodes s' = (nodes s)(n := c)" and role: "im_role im (nodes s n) = Candidate" "im_role im c = Leader"
    and tm: "im_term im (nodes s n) = t" "im_term im c = t" and lg: "im_log im c = im_log im (nodes s n)" and cx: "cidx c = cidx (nodes s n)"
    and mt: "\<forall>p \<in> set (im_peers im c). mtch c p = -1"
    and E: "elected s' = insert (t, n) (elected s)"
    and W: "quorum ns (insert n X)" "\<And>q. q \<in> X \<Longrightarrow> has_ballot H q t (im_log im c)"
    and go: "\<And>f x. gos s' f = Some x \<Longrightarrow> gos s f = Some x \<or> plain x"
    and same: "next_el s' = next_el s" "el_of s' = el_of s" "commits s' = commits s" "\<And>el. el_of s el \<noteq> (n, t) \<Longrightarrow> voters s' el = voters s el"
  shows "\<exists>H'. hist_inv im cidx mtch ns s' H'"
proof -
  let ?L = "im_log im c"
  define H' where "H' = \<lparr>h_start = (h_start H)(t := ?L), h_led = (h_led H)(t := ?L),
    h_acks = h_acks H \<union> {(n, t, m) | m. m \<le> length ?L}, h_ballots = insert (n, t, ?L) (h_ballots H)\<rparr>"
  note h = hist_invD(1) [OF hi] and nh = hist_invD(2) [OF hi, of n]
  have fresh: "t \<notin> fst ` elected s"
  proof
    assume "t \<in> fst ` elected s"
    then obtain m where m: "(t, m) \<in> elected s" by force
    then have "m = n" using core_inv_elect_fun [OF cluster_invD(2) [OF ci'], of t m n] E by auto
    then show False using core_inv_elect [OF cluster_invD(2) [OF ci] m] role tm by (simp add: elect_ok_def)
  qed
  have ex: "extends (elected s) H (elected s') H'" using fresh E by (auto simp: extends_def H'_def)
  have ofl: "of_leaders (elected s') H' ?L" using of_leaders_extends [OF ex node_histD(1) [OF nh]] lg by simp
  have old: "\<forall>e \<in> set ?L. Term e < t"
  proof
    fix e assume e: "e \<in> set ?L"
    then obtain i where "i < length ?L" "?L ! i = e" by (metis in_set_conv_nth)
    then have "Term e \<in> fst ` elected s" using of_leaders_take [OF node_histD(1) [OF nh], of i] lg by auto
    then show "Term e < t" using node_histD(2) [OF nh, of e] e lg tm fresh by (metis order_le_less)
  qed
  have bal: "\<exists>v. (q, t, v) \<in> h_ballots H' \<and> up_to_date_pos (last_pos ?L) v" if "q \<in> insert n X" for q
    using that W(2) by (auto simp: H'_def has_ballot_def up_to_date_pos_def)
  have lt: "leader_ok (elected s') H' ns t"
    unfolding leader_ok_def using node_histD(3) [OF nh] tm ofl old W(1) bal by (auto simp: H'_def)
  have lo: "leader_ok (elected s') H' ns u" if "u \<in> fst ` elected s'" for u
  proof (cases "u = t")
    case False
    then have u: "u \<in> fst ` elected s" using that E by auto
    show ?thesis by (rule leader_ok_extends [OF ex history_okD(1) [OF h u] u]) (use False in \<open>simp add: H'_def\<close>)
  qed (use lt in simp)
  have k: "prefix (take m (h_led H u)) ?L \<or> forgets (elected s) H u m t" if "(n, u, m) \<in> h_acks H" for u m
    using node_histD(6) [OF nh that] forgets_before [OF _ fresh] tm(1) lg by auto
  have bl: "u \<le> t" if "(n, u, v) \<in> h_ballots H" for u v using node_histD(7) [OF nh that] tm by simp
  have h': "history_ok (elected s') H' ns"
    by (rule history_ok_extends [OF h ex lo]) (use E ofl k bl in \<open>auto simp: H'_def image_iff\<close>)
  have tn: "\<And>m. m \<noteq> n \<Longrightarrow> im_role im (nodes s m) = Leader \<Longrightarrow> im_term im (nodes s m) \<noteq> t"
    using core_inv_leader [OF cluster_invD(2) [OF ci]] fresh by force
  have "hist_inv im cidx mtch ns s' H'"
  proof (rule hist_move [OF hi ex h' nd])
    show "node_hist im cidx mtch (elected s') H' ns n c"
      unfolding node_hist_def tm(2)
    proof (intro conjI allI impI ballI)
      show "leads im mtch H' n c" using mt tm unfolding leads_def by (auto simp: H'_def)
      show "u \<le> t" if "(n, u, m) \<in> h_acks H'" for u m
        using that node_histD(5) [OF nh, of u m] tm by (auto simp: H'_def)
      show "prefix (take m (h_led H' u)) ?L \<or> forgets (elected s') H' u m (t + 1)" if a: "(n, u, m) \<in> h_acks H'" for u m
      proof (cases "(n, u, m) \<in> h_acks H")
        case True
        note st = history_okD(2) [OF h True]
        have "prefix (take m (h_led H' u)) ?L \<or> forgets (elected s') H' u m t"
          using k [OF True] st acked_prefix_extends [OF ex, of u m] forgets_extends [OF ex, of u m] by metis
        then show ?thesis using forgets_later [of _ _ u m t "t + 1"] by auto
      next
        case False
        then show ?thesis using a by (auto simp: H'_def take_is_prefix)
      qed
      show "u \<le> t" if "(n, u, v) \<in> h_ballots H'" for u v using that bl by (auto simp: H'_def)
      show "safe (elected s') H' ns t (take (nat (cidx c + 1)) ?L)"
        using safe_extends [OF ex node_histD(10) [OF nh]] cx lg tm by simp
    qed (use ofl node_histD(2,3,8,9) [OF nh] cx lg tm in auto)
    show "cand_hist im s' H' m" for m
    proof (rule cand_hist_keep [OF hist_invD(4) [OF hi] ex])
      show "gos s f = Some x \<or> vote_hist H' (im_log im (nodes s m)) m (im_term im (nodes s m)) x" if "gos s' f = Some x" for f x
        using go [OF that] plain_hist by blast
    qed (use nd role same tm E in \<open>auto split: if_splits\<close>)
    show "el_hist im s'" using hist_invD(5) [OF hi] same tm nd by (auto simp: el_hist_def)
    show "out_hist s' H' ns" by (rule out_hist_extends [OF ex hist_invD(6) [OF hi] same(3)])
    show "gos s f = Some x \<or> go_hist (elected s') H' ns x" if "gos s' f = Some x" for f x
      using go [OF that] plain_hist by blast
  qed (use tn in \<open>auto simp: H'_def\<close>)
  then show ?thesis by blast
qed

lemma hist_VoteReply:
  assumes hi: "hist_inv im cidx mtch ns s H" and ci: "cluster_inv im ns s" "cluster_inv im ns s'" and cfg: "good_config ns"
    and tl: "timely im s (EVoteReply g now)" and step: "cstep im (EVoteReply g now) s = Some (Inr s')"
  shows "\<exists>H'. hist_inv im cidx mtch ns s' H'"
proof -
  from step obtain n el p t r where g: "gos s g = Some (GVoteReply n el p t r)"
    by (auto split: option.splits goroutine.splits)
  obtain c v es where vr: "im_voteReply im now t (votes s el) r (nodes s n) = (c, v, es)" by (metis prod_cases3)
  let ?c = "nodes s n"
  have tm: "im_role im ?c = Candidate \<longrightarrow> im_term im ?c = t" using tl g by simp
  have gs: "gos s' = gos (spawn n es (set_node im n c (finish g s)))" using step g vr by (auto simp: Let_def)
  have go: "gos s f = Some x \<or> plain x" if "gos s' f = Some x" for f x
    using plain_spawn [OF that [unfolded gs]] plain_other(1) [of g s f x] by auto
  have nd: "nodes s' = (nodes s)(n := c)" "elected s' = elected (set_node im n c s)" "next_el s' = next_el s" "el_of s' = el_of s"
    "commits s' = commits s" "votes s' el = v"
    "voters s' = (voters s)(el := (if v = votes s el then voters s el else insert p (voters s el)))"
    using step g vr by (auto simp: Let_def set_node_changes)
  note lg = voteReply_log [OF vr] and vc = voteReply_commit [OF vr]
  from voteReply_law [OF vr tm] show ?thesis
  proof
    assume a: "keeps im ?c c \<and> v = votes s el \<and> quiet es"
    have E: "elected s' = elected s" using nd(2) elected_same [OF ci(1), of c n] a by (auto simp: keeps_def)
    have "hist_inv im cidx mtch ns s' H"
      by (rule hist_quiet [OF hi E nd(3,4) _ nd(5,1) lg _ _ _ go])
        (use a nd(7) vc in \<open>auto simp: keeps_def calm_def\<close>)
    then show ?thesis by blast
  next
    assume a: "im_role im ?c = Candidate \<and> rvr_VoteGranted r \<and> rvr_Term r = t \<and> v = votes s el + 1 \<and> same_vote im ?c c
      \<and> (im_role im c = Candidate \<and> es = [] \<or> im_role im c = Leader \<and> majority v (im_peers im ?c) \<and> es = [GoLeaderLoop])"
    then have role: "im_role im ?c = Candidate" and tms: "im_term im ?c = t" "im_term im c = t" and ps: "im_peers im c = im_peers im ?c"
      and vs: "voters s' el = insert p (voters s el)"
      using tm nd(7) by (auto simp: same_vote_def)
    have ok: "el < next_el s" "el_of s el = (n, t)" "n \<in> set ns" using cluster_inv_go [OF ci(1) g] by (auto simp: vote_ok_def)
    have bal: "has_ballot H q t (im_log im ?c)" if "q \<in> voters s' el" "t \<notin> fst ` elected s" for q
    proof -
      note ch = hist_invD(4) [OF hi, of n, unfolded cand_hist_def Let_def, rule_format, OF role]
      have "has_ballot H p t (im_log im ?c)" using ch g a tms that(2) by force
      moreover have "has_ballot H q t (im_log im ?c)" if "q \<in> voters s el" using ch ok tms \<open>t \<notin> _\<close> that by blast
      ultimately show ?thesis using that(1) vs by auto
    qed
    show ?thesis
    proof (cases "im_role im c = Leader")
      case False
      then have rc: "im_role im c = Candidate" using a by blast
      then have E: "elected s' = elected s" using nd(2) by (simp add: set_node_changes)
      have "hist_inv im cidx mtch ns s' H"
      proof (rule hist_move [OF hi _ _ nd(1)])
        show "node_hist im cidx mtch (elected s') H ns n c"
          unfolding E by (rule node_hist_keep [OF hist_invD(2) [OF hi] lg]) (use vc tms rc in auto)
        show "cand_hist im s' H m" for m
        proof (rule cand_hist_keep [OF hist_invD(4) [OF hi]])
          show "gos s f = Some x \<or> vote_hist H (im_log im (nodes s m)) m (im_term im (nodes s m)) x" if "gos s' f = Some x" for f x
            using go [OF that] plain_hist by blast
          show "e < next_el s \<and> el_of s e = el_of s' e \<and> q \<in> voters s e \<or> has_ballot H q (im_term im (nodes s m)) (im_log im (nodes s m))"
            if e: "e < next_el s'" "el_of s' e = (m, im_term im (nodes s m))" "q \<in> voters s' e" "im_term im (nodes s m) \<notin> fst ` elected s'" for e q
          proof (cases "e = el")
            case True
            then have "m = n" using e(2) ok nd(4) by auto
            then show ?thesis using bal [of q] e True E tms by simp
          qed (use e nd in auto)
        qed (use nd E role lg tms in auto)
        show "el_hist im s'" using hist_invD(5) [OF hi] tms nd by (auto simp: el_hist_def)
        show "out_hist s' H ns" using hist_invD(6) [OF hi] E nd by (simp add: out_hist_def)
        show "gos s f = Some x \<or> go_hist (elected s') H ns x" if "gos s' f = Some x" for f x
          using go [OF that] plain_hist by blast
      qed (use hist_invD(1) [OF hi] E in auto)
      then show ?thesis by blast
    next
      case True
      then have E: "elected s' = insert (t, n) (elected s)" using nd(2) tms by (simp add: set_node_changes)
      have fresh: "t \<notin> fst ` elected s"
      proof
        assume "t \<in> fst ` elected s"
        then obtain m where m: "(t, m) \<in> elected s" by force
        then have "m = n" using core_inv_elect_fun [OF cluster_invD(2) [OF ci(2)], of t m n] E by auto
        then show False using core_inv_elect [OF cluster_invD(2) [OF ci(1)] m] role tms by (simp add: elect_ok_def)
      qed
      have peers: "im_peers im ?c = others ns n" using core_inv_node [OF cluster_invD(2) [OF ci(1)], of n] by (simp add: node_ok_def)
      have el': "votes s' el = 1 + int (card (voters s' el))" "voters s' el \<subseteq> {q. (q, t, n) \<in> granted s'}"
        using cluster_invD(4) [OF ci(2), unfolded el_inv_def, rule_format, of el] ok nd(3,4) by auto
      have "voters s' el \<subseteq> set (others ns n)"
        using el'(2) core_inv_grant [OF cluster_invD(2) [OF ci(2)], of _ t n] by (force simp: grant_ok_def others_def)
      then have Q: "quorum ns (insert n (voters s' el))"
        using el'(1) nd(6) a True peers by (intro quorum_others [OF cfg ok(3), where v = v]) auto
      show ?thesis
      proof (rule hist_wins [OF hi ci nd(1) role True tms lg _ _ E Q _ go nd(3,4,5)])
        show "has_ballot H q t (im_log im c)" if "q \<in> voters s' el" for q using bal [OF that fresh] lg by simp
        show "voters s' e = voters s e" if "el_of s e \<noteq> (n, t)" for e using that ok(2) nd(7) by auto
      qed (use vc True role in auto)
    qed
  qed
qed

lemma hist_step:
  assumes hi: "hist_inv im cidx mtch ns s H" and ci: "cluster_inv im ns s" "cluster_inv im ns s'" and cfg: "good_config ns"
    and pr: "prompt im s ev" and step: "cstep im ev s = Some (Inr s')"
  shows "\<exists>H'. hist_inv im cidx mtch ns s' H'"
proof -
  have tl: "timely im s ev" using pr by (simp add: prompt_def)
  show ?thesis
  proof (cases ev)
    case (EReady g now)
    then show ?thesis using hist_Ready [OF hi ci(1)] step pr tl by blast
  next
    case (ETimerTick g now)
    then show ?thesis using hist_TimerTick [OF hi ci(1)] step pr tl by blast
  next
    case (EVoteSend g)
    then show ?thesis using hist_VoteSend [OF hi ci(1)] step pr tl by blast
  next
    case (EVoteDeliver g now)
    then show ?thesis using hist_VoteDeliver [OF hi ci(1)] step pr tl by blast
  next
    case (EVoteReply g now)
    then show ?thesis using hist_VoteReply [OF hi ci cfg] step pr tl by blast
  next
    case (ESend g)
    then show ?thesis using hist_Send [OF hi ci(1)] step pr tl by blast
  next
    case (ESendDeliver g now)
    then show ?thesis using hist_SendDeliver [OF hi ci(1)] step pr tl by blast
  next
    case (ESendReply g now)
    then show ?thesis using hist_SendReply [OF hi ci(1) cfg] step pr tl by blast
  next
    case (ESubmit n cmd)
    then show ?thesis using hist_Submit [OF hi ci(1)] step pr tl by blast
  next
    case (EStop n)
    then show ?thesis using hist_Stop [OF hi ci(1)] step pr tl by blast
  next
    case (ECommit n)
    then show ?thesis using hist_Commit [OF hi ci(1)] step pr tl by blast
  next
    case (ERestart n)
    then show ?thesis using hist_Restart [OF hi ci(1)] step pr tl by blast
  qed (use hist_plain [OF hi step] in blast)+
qed

end

section \<open>State machine safety\<close>

locale raft_commit_cluster = raft_commit im cidx mtch + raft_log_cluster im mk
  for im :: "('n, 'c) raft_impl" and cidx :: "'n \<Rightarrow> int" and mtch :: "'n \<Rightarrow> int \<Rightarrow> int" and mk :: "int \<Rightarrow> int list \<Rightarrow> 'n" +
  assumes mk_commit: "im_term im (mk n ps) = 0" "cidx (mk n ps) = -1"
begin

lemma hist_init:
  "hist_inv im cidx mtch ns (cluster_init mk ns) \<lparr>h_start = \<lambda>t. [], h_led = \<lambda>t. [], h_acks = {}, h_ballots = {}\<rparr>"
  by (auto simp: hist_inv_def history_ok_def node_hist_def of_leaders_def safe_def cand_hist_def el_hist_def out_hist_def
      cluster_init_def mk_law mk_commit split: if_splits)

lemma hist_reach:
  assumes "prompt_reach im (cluster_init mk ns) s" "good_config ns"
  shows "\<exists>H. hist_inv im cidx mtch ns s H"
  using assms
proof (induction rule: prompt_reach.induct)
  case start
  show ?case using hist_init by blast
next
  case (step s ev s')
  then obtain H where H: "hist_inv im cidx mtch ns s H" by blast
  have "timely_reach im (cluster_init mk ns) s" "timely_reach im (cluster_init mk ns) s'"
    using prompt_timely prompt_reach.step [OF step(1-3)] step(1) by blast+
  then show ?case using hist_step [OF H] inv_reach step by blast
qed

text \<open>Two entries that servers delivered for the same index carry the same command.\<close>

lemma commits_agree:
  assumes "prompt_reach im (cluster_init mk ns) s" "good_config ns"
    and e: "e \<in> set (commits s m)" "e' \<in> set (commits s n)" "ce_Index e = ce_Index e'"
  shows "ce_Command e = ce_Command e'"
proof -
  obtain H where H: "hist_inv im cidx mtch ns s H" using hist_reach [OF assms(1,2)] by blast
  note out = hist_invD(6) [OF H, unfolded out_hist_def, rule_format]
  obtain T P k where P: "safe (elected s) H ns T P" "k < length P" "ce_Index e = int k" "ce_Command e = Command (P ! k)"
    using out [OF e(1)] by blast
  obtain T' P' k' where P': "safe (elected s) H ns T' P'" "k' < length P'" "ce_Index e' = int k'" "ce_Command e' = Command (P' ! k')"
    using out [OF e(2)] by blast
  have "k' = k" using P(3) P'(3) e(3) by simp
  then show ?thesis
    using safe_agree [OF hist_invD(1) [OF H] P(1) P'(1)] P(2,4) P'(2,4) prefix_take_eq [of P P' k] prefix_take_eq [of P' P k] by auto
qed

text \<open>What a server has committed is in the log of every leader of a later term.\<close>

lemma committed_in_later_leaders:
  assumes "prompt_reach im (cluster_init mk ns) s" "good_config ns"
    and l: "im_role im (nodes s n) = Leader" and t: "im_term im (nodes s m) \<le> im_term im (nodes s n)"
  shows "int k \<le> cidx (nodes s m) \<Longrightarrow> k < length (im_log im (nodes s n)) \<and> im_log im (nodes s n) ! k = im_log im (nodes s m) ! k"
proof -
  assume k: "int k \<le> cidx (nodes s m)"
  obtain H where H: "hist_inv im cidx mtch ns s H" using hist_reach [OF assms(1,2)] by blast
  have ci: "cluster_inv im ns s" using inv_reach [OF prompt_timely [OF assms(1)] assms(2)] .
  note nm = hist_invD(2) [OF H, of m] and nn = hist_invD(2) [OF H, of n]
  let ?L = "im_log im (nodes s n)" and ?P = "take (nat (cidx (nodes s m) + 1)) (im_log im (nodes s m))"
  have et: "im_term im (nodes s n) \<in> fst ` elected s" using core_inv_leader [OF cluster_invD(2) [OF ci] l] by force
  have led: "h_led H (im_term im (nodes s n)) = ?L" using node_histD(4) [OF nn l] by (simp add: leads_def)
  have P: "k < length ?P" "?P ! k = im_log im (nodes s m) ! k" using k node_histD(9) [OF nm] by auto
  obtain u j where u: "u \<le> im_term im (nodes s m)" "committed (elected s) H ns u j" "prefix ?P (take (Suc j) (h_led H u))"
    using node_histD(10) [OF nm] P(1) by (auto simp: safe_def)
  have "prefix ?P ?L"
  proof (cases "u = im_term im (nodes s n)")
    case True
    then show ?thesis using u(3) led take_is_prefix prefix_order.trans by metis
  next
    case False
    then have "prefix (take (Suc j) (h_led H u)) (h_start H (im_term im (nodes s n)))"
      using leader_completeness [OF hist_invD(1) [OF H] u(2) et] u(1) t by simp
    moreover have "prefix (h_start H (im_term im (nodes s n))) ?L"
      using history_okD(1) [OF hist_invD(1) [OF H] et] led by (auto simp: leader_ok_def)
    ultimately show ?thesis using u(3) by (meson prefix_order.trans)
  qed
  then show ?thesis using P prefix_take_eq [of ?P ?L k] prefix_length_le [of ?P ?L] by auto
qed

end

end
