(* ===== verification/Raft3Safety.thy ===== *)
theory Raft3Safety
  imports Craft RaftSafety
begin

text \<open>
  State machine safety and leader completeness of the clusters of \<^verbatim>\<open>src/raft/part3\<close> and \<^verbatim>\<open>src/craft\<close>: the
  laws of \<open>raft_commit\<close> are proved for the two consensus modules, with the field \<open>commitIndex\<close> as the
  commit index and \<open>matchIndex\<close> as what the leader knows of its peers.
\<close>

section \<open>The laws\<close>

abbreviation matches :: "'c ConsensusModule \<Rightarrow> int \<Rightarrow> int" where
  "matches c \<equiv> go_get (matchIndex c)"

lemma lastLog_pos: "lastLogIndexAndTerm c = last_pos (log c)"
  by (cases "log c" rule: rev_cases) (simp_all add: lastLogIndexAndTerm_def last_pos_def Let_def)

lemma RequestVote_commit:
  assumes "RequestVote now a c = (c', r, es)"
  shows "commitIndex c' = commitIndex c" "matchIndex c' = matchIndex c"
    and "rvr_VoteGranted r \<Longrightarrow> up_to_date_pos (rv_LastLogIndex a, rv_LastLogTerm a) (log c)"
  using assms
  by (auto simp: RequestVote_def becomeFollower_def Let_def raft_frame lastLog_pos up_to_date_pos_def
      split: if_splits prod.splits)

lemma append_accept_accepts:
  assumes "prev_matches (log c) (ae_PrevLogIndex b) (ae_PrevLogTerm b) = Inr True"
  shows "accepts (log c) b (log (append_accept b c))"
proof -
  let ?m = "nat (ae_PrevLogIndex b + 1)"
  have pi: "-1 \<le> ae_PrevLogIndex b" "ae_PrevLogIndex b < int (length (log c))"
    "0 \<le> ae_PrevLogIndex b \<Longrightarrow> Term (log c ! nat (ae_PrevLogIndex b)) = ae_PrevLogTerm b"
    using assms by (auto simp: prev_matches_Inr)
  obtain k where k: "k \<le> length (ae_Entries b)" "?m + k \<le> length (log c)"
    "\<And>j. j < k \<Longrightarrow> Term (log c ! (?m + j)) = Term (ae_Entries b ! j)"
    "?m + k < length (log c) \<Longrightarrow> k < length (ae_Entries b) \<Longrightarrow> Term (log c ! (?m + k)) \<noteq> Term (ae_Entries b ! k)"
    "log (append_accept b c) =
       (if k < length (ae_Entries b) then take (?m + k) (log c) @ drop k (ae_Entries b) else log c)"
    using append_accept_log [OF pi(1,2)] by metis
  then show ?thesis
    unfolding accepts_def Let_def using pi by (intro conjI exI [of _ k]) auto
qed

lemma AppendEntries_commit3:
  assumes "AppendEntries now b c = Inr (c', r, es)"
  shows "(log c' = log c \<and> commitIndex c' = commitIndex c \<and> matchIndex c' = matchIndex c \<and> \<not> aer_Success r)
     \<or> (aer_Success r \<and> aer_Term r = ae_Term b \<and> currentTerm c' = ae_Term b \<and> state c' = Follower
        \<and> accepts (log c) b (log c')
        \<and> (commitIndex c' = commitIndex c \<or> commitIndex c < ae_LeaderCommit b
             \<and> commitIndex c' = min (ae_LeaderCommit b) (int (length (log c')) - 1)))"
proof (cases "aer_Success r")
  case True
  define c3 where "c3 = (if ae_Term b > currentTerm c \<or> state c \<noteq> Follower then fst (becomeFollower now (ae_Term b) c) else c)
    \<lparr>electionResetEvent := now\<rparr>"
  have c3: "log c3 = log c" "commitIndex c3 = commitIndex c" "state c3 = Follower"
    by (auto simp: c3_def becomeFollower_def)
  have "c' = persistToStorage (append_accept b c3) \<and> aer_Term r = ae_Term b \<and> currentTerm c3 = ae_Term b
      \<and> prev_matches (log c) (ae_PrevLogIndex b) (ae_PrevLogTerm b) = Inr True"
    using assms True unfolding c3_def
    by (auto simp: AppendEntries_def becomeFollower_def Let_def go_bind_eq_Inr raft_frame split: if_splits prod.splits)
  then show ?thesis
    using True append_accept_accepts [of c3 b] c3 by (auto simp: raft_frame append_accept_commit)
next
  case False
  then show ?thesis
    using assms by (auto simp: AppendEntries_def becomeFollower_def Let_def go_bind_eq_Inr raft_frame split: if_splits prod.splits)
qed

lemma startLeader_fold:
  "matchIndex (fold (\<lambda>p c. c\<lparr>nextIndex := (nextIndex c)(p \<mapsto> int (length (log c))),
              matchIndex := (matchIndex c)(p \<mapsto> -1)\<rparr>) ps cm) p = (if p \<in> set ps then Some (-1) else matchIndex cm p)"
  by (induction ps arbitrary: cm) auto

lemma startLeader_matches: "p \<in> set (peerIds cm) \<Longrightarrow> matches (fst (startLeader cm)) p = -1"
  by (simp add: startLeader_def Let_def startLeader_fold go_get_def)

lemma voteReply_commit3:
  assumes "voteReply now t v rep c = (c', v', es)"
  shows "commitIndex c' = commitIndex c \<and> (state c' = Leader \<longrightarrow>
           (if state c = Leader then matches c' = matches c else \<forall>p \<in> set (peerIds c'). matches c' p = -1))"
  using assms startLeader_matches [of _ c] startLeader_frame(2,7) [of c]
  by (auto simp: voteReply_def becomeFollower_def Let_def split: if_splits prod.splits)

lemma advance_commit_result:
  "commitIndex (advance_commit c) = commitIndex c
   \<or> (\<exists>i < length (log c). commitIndex (advance_commit c) = int i \<and> Term (log c ! i) = currentTerm c
        \<and> majority (matchCount c (int i)) (peerIds c))"
proof -
  let ?P = "\<lambda>i. Term (log c ! i) = currentTerm c \<and> majority (matchCount c (int i)) (peerIds c)"
  let ?is = "filter ?P [nat (commitIndex c + 1) ..< length (log c)]"
  show ?thesis
  proof (cases ?is)
    case Nil
    then show ?thesis unfolding advance_commit_def advance_commit_fold by simp
  next
    case (Cons j js)
    have "last (j # js) \<in> set ?is" using last_in_set [of ?is] unfolding Cons by simp
    then have "last (j # js) < length (log c)" "?P (last (j # js))" by auto
    moreover have "commitIndex (advance_commit c) = int (last (j # js))"
      unfolding advance_commit_def advance_commit_fold Cons by simp
    ultimately show ?thesis by blast
  qed
qed

lemma aeReply_commit3:
  assumes "aeReply now t p ni k ar c = (c', es)"
  shows "(commitIndex c' = commitIndex c \<and> matches c' = matches c)
     \<or> (state c = Leader \<and> state c' = Leader \<and> aer_Success ar \<and> aer_Term ar = t
        \<and> matches c' = (matches c)(p := ni + int k - 1)
        \<and> (commitIndex c' = commitIndex c
           \<or> 0 \<le> commitIndex c' \<and> commitIndex c' < int (length (log c)) \<and> Term (log c ! nat (commitIndex c')) = currentTerm c
             \<and> majority (1 + int (length (filter (\<lambda>q. matches c' q \<ge> commitIndex c') (peerIds c)))) (peerIds c)))"
proof (cases "aer_Term ar \<le> currentTerm c \<and> state c = Leader \<and> t = aer_Term ar \<and> aer_Success ar")
  case True
  define c1 where "c1 = c\<lparr>nextIndex := (nextIndex c)(p \<mapsto> ni + int k), matchIndex := (matchIndex c)(p \<mapsto> ni + int k - 1)\<rparr>"
  have c': "commitIndex c' = commitIndex (advance_commit c1)" "matchIndex c' = matchIndex c1" "state c' = Leader"
    using True assms unfolding c1_def by (auto simp: aeReply_def Let_def raft_frame split: if_splits)
  have m: "matches c' = (matches c)(p := ni + int k - 1)" 
    by (rule ext) (simp add: c'(2) c1_def)
  have mc: "matchCount c1 i = 1 + int (length (filter (\<lambda>q. matches c' q \<ge> i) (peerIds c)))" for i
    unfolding matchCount_def c'(2) by (simp add: c1_def)
  have f1: "log c1 = log c" "currentTerm c1 = currentTerm c" "peerIds c1 = peerIds c" "commitIndex c1 = commitIndex c"
    by (simp_all add: c1_def)
  consider "commitIndex c' = commitIndex c"
    | i where "i < length (log c)" "commitIndex c' = int i" "Term (log c ! i) = currentTerm c" "majority (matchCount c1 (int i)) (peerIds c)"
    using advance_commit_result [of c1] c'(1) f1 by auto
  then show ?thesis
  proof cases
    case 1
    then show ?thesis using True c'(3) m by blast
  next
    case 2
    then have "Term (log c ! nat (commitIndex c')) = currentTerm c" "0 \<le> commitIndex c'" "commitIndex c' < int (length (log c))"
      by simp_all
    then show ?thesis using True c'(3) m 2(4) unfolding mc 2(2) by blast
  qed
next
  case False
  then show ?thesis
    using assms by (auto simp: aeReply_def becomeFollower_def Let_def split: if_splits)
qed

lemma commitChanSender_out:
  assumes "commitChanSender c = Inr (c', out)" "e \<in> set out"
  shows "\<exists>k. ce_Index e = int k \<and> int k \<le> commitIndex c \<and> k < length (log c) \<and> ce_Command e = Command (log c ! k)"
proof -
  let ?a = "nat (lastApplied c + 1)" and ?b = "nat (commitIndex c + 1)"
  define entries where "entries = take (?b - ?a) (drop ?a (log c))"
  have b: "-1 \<le> lastApplied c" "lastApplied c < commitIndex c" "commitIndex c < int (length (log c))"
    and out: "out = map (\<lambda>(i, e). \<lparr>ce_Command = Command e, ce_Index = lastApplied c + int i + 1, ce_Term = currentTerm c\<rparr>)
             (List.enumerate 0 entries)"
    using assms by (auto simp: entries_def commitChanSender_def Let_def go_bind_eq_Inr go_range_Inr split: if_splits)
  have len: "length entries = ?b - ?a" using b by (simp add: entries_def)
  from assms(2) obtain i where i: "i < length entries" "ce_Index e = lastApplied c + int i + 1" "ce_Command e = Command (entries ! i)"
    by (auto simp: out in_set_conv_nth nth_enumerate_eq)
  then show ?thesis
    using b len by (intro exI [of _ "?a + i"]) (auto simp: entries_def)
qed

lemma p3_calm:
  "cm_ready now c = (c', es) \<Longrightarrow> calm part3_impl commitIndex matches c c'"
  "runElectionTimer now t d c = (goes_on, c', es) \<Longrightarrow> calm part3_impl commitIndex matches c c'"
  "Submit cmd c = (c', i, es) \<Longrightarrow> calm part3_impl commitIndex matches c c'"
  "calm part3_impl commitIndex matches c (Stop c)"
  "commitChanSender c = Inr (c', out) \<Longrightarrow> calm part3_impl commitIndex matches c c'"
  by (auto simp: calm_def p3_ops commitChanSender_def Let_def raft_frame go_bind_eq_Inr split: if_splits)

lemma voteArgs_pos: "(rv_LastLogIndex (voteArgs t c), rv_LastLogTerm (voteArgs t c)) = last_pos (log c)"
  by (simp add: voteArgs_def lastLog_pos split: prod.splits)

lemma aeArgs_commit3: "aeArgs t p c = Inr (ni, b) \<Longrightarrow> ni = ae_PrevLogIndex b + 1 \<and> ae_LeaderCommit b = commitIndex c"
  by (auto simp: aeArgs_def Let_def go_bind_eq_Inr split: if_splits)

section \<open>Clusters of part3 servers\<close>

interpretation p3s: raft_commit part3_impl commitIndex matches
proof (standard, goal_cases)
  case (2 now a c c' r es)
  then show ?case using RequestVote_commit(1,2) [of now a c] by (auto simp: calm_def split: prod.splits)
next
  case (3 now a c c' reply es)
  then show ?case using RequestVote_commit(3) [of now a c] by (auto split: prod.splits)
next
  case (5 now b c c' q es)
  then obtain r where r: "AppendEntries now b c = Inr (c', r, es)" "q = Some r" by (auto simp: go_bind_eq_Inr)
  show ?case using AppendEntries_commit3 [OF r(1)] r(2) by (auto simp: calm_def)
next
  case (7 now t v rep c c' v' es)
  then show ?case unfolding part3_impl_sel by (rule voteReply_commit3)
next
  case (9 now t p ni k ar c c' es)
  then show ?case using aeReply_commit3 [of now t p ni k ar c c' es]
    unfolding calm_def part3_impl_sel by blast
next
  case (13 c c' out e)
  then show ?case using commitChanSender_out by simp
next
  case (14 c c')
  then show ?case by (auto dest: NewConsensusModule_Inr)
qed (use p3_calm voteArgs_pos aeArgs_commit3 in simp_all)

interpretation p3sc: raft_commit_cluster part3_impl commitIndex matches part3_new
  by standard (simp_all add: part3_new_def)


abbreviation part3_prompt :: "int list \<Rightarrow> 'c event list \<Rightarrow> bool" where
  "part3_prompt ns evs \<equiv> prompt_run part3_impl evs (cluster_init part3_new ns)"

text \<open>The run \<open>ex_commit\<close> followed by a second round of heartbeats, with which server 1 learns that
  the entry is committed and delivers it too.\<close>

definition ex_learn :: "int event list" where
  "ex_learn = ex_commit @ [ELoopFire 8, ELoopSend 8, ESend 13, ESendDeliver 13 260, ECommit 1]"

lemma ex_learn_run:
  "part3_prompt [0, 1, 2] ex_learn"
  "ends_in (part3_run [0, 1, 2] ex_learn) (\<lambda>s. \<lparr>ce_Command = 7, ce_Index = 0, ce_Term = 1\<rparr> \<in> set (commits s 0)
     \<and> \<lparr>ce_Command = 7, ce_Index = 0, ce_Term = 1\<rparr> \<in> set (commits s 1))"
  "ends_in (part3_run [0, 1, 2] ex_learn) (\<lambda>s. state (nodes s 0) = Leader \<and> currentTerm (nodes s 1) = currentTerm (nodes s 0)
     \<and> commitIndex (nodes s 1) = 0)"
  by (simp_all add: ex_learn_def ex_commit_def prompt_def p3_eval)


text \<open>
  C1: state machine safety of the part3 cluster. In every run of prompt events, whatever servers
  deliver to their clients for an index, now or earlier, restarted or not, is the same command.
\<close>

theorem part3_state_machine_safety:
  assumes "good_config ns" "part3_prompt ns evs" "part3_run ns evs = Some (Inr s)"
    and "e \<in> set (commits s m)" "e' \<in> set (commits s n)" "ce_Index e = ce_Index e'"
  shows "ce_Command e = ce_Command e'"
  using p3sc.commits_agree [OF prompt_run_reach [OF prompt_reach.start assms(2,3)] assms(1,4-6)] .

theorem part3_state_machine_safety_witness:
  "\<exists>s. part3_run [0, 1, 2] ex_learn = Some (Inr s) \<and> commits s 1 \<noteq> []
     \<and> (\<forall>e \<in> set (commits s 1). ce_Index e = 0 \<longrightarrow> ce_Command e = 7)"
proof -
  let ?e = "\<lparr>ce_Command = 7 :: int, ce_Index = 0, ce_Term = 1\<rparr>"
  obtain s where s: "part3_run [0, 1, 2] ex_learn = Some (Inr s)" "?e \<in> set (commits s 0)" "?e \<in> set (commits s 1)"
    using ends_inD [OF ex_learn_run(2)] by auto
  have cfg: "good_config [0, 1, 2]" by (simp add: good_config_def)
  have "ce_Command e = 7" if "e \<in> set (commits s 1)" "ce_Index e = 0" for e
    using part3_state_machine_safety [OF cfg ex_learn_run(1) s(1,2) that(1)] that(2) by simp
  then show ?thesis using s by (intro exI [of _ s]) auto
qed

text \<open>
  C2: leader completeness of the part3 cluster. In every run of prompt events, what any server has
  committed is, at the same index, in the log of every server that leads in the same or a later term.
\<close>

theorem part3_leader_completeness:
  assumes "good_config ns" "part3_prompt ns evs" "part3_run ns evs = Some (Inr s)"
    and "state (nodes s n) = Leader" "currentTerm (nodes s m) \<le> currentTerm (nodes s n)"
    and "int k \<le> commitIndex (nodes s m)"
  shows "k < length (log (nodes s n)) \<and> log (nodes s n) ! k = log (nodes s m) ! k"
  using p3sc.committed_in_later_leaders [OF prompt_run_reach [OF prompt_reach.start assms(2,3)] assms(1), of n m k] assms(4-6)
  by simp

theorem part3_leader_completeness_witness:
  "\<exists>s. part3_run [0, 1, 2] ex_learn = Some (Inr s) \<and> log (nodes s 0) ! 0 = log (nodes s 1) ! 0"
proof -
  obtain s where s: "part3_run [0, 1, 2] ex_learn = Some (Inr s)" "state (nodes s 0) = Leader"
      "currentTerm (nodes s 1) \<le> currentTerm (nodes s 0)" "int 0 \<le> commitIndex (nodes s 1)"
    using ends_inD [OF ex_learn_run(3)] by auto
  have cfg: "good_config [0, 1, 2]" by (simp add: good_config_def)
  show ?thesis using part3_leader_completeness [OF cfg ex_learn_run(1) s] s(1) by blast
qed

section \<open>Streams of committed commands\<close>

lemma commit_index:
  assumes "part3_run ns evs = Some (Inr s)" "ERestart p \<notin> set evs" "i < length (commits s p)"
  shows "ce_Index (commits s p ! i) = int i"
proof -
  from stream_run [OF assms(1,2) stream_init]
  have st: "map ce_Index (commits s p) = map int [0 ..< nat (lastApplied (nodes s p) + 1)]" by (simp add: stream_ok_def)
  then have "length (commits s p) = nat (lastApplied (nodes s p) + 1)" by (metis diff_zero length_map length_upt)
  then show ?thesis using arg_cong [OF st, of "\<lambda>l. l ! i"] assms(3) by simp
qed

text \<open>On servers that were not restarted, the commands delivered by one are a prefix of those
  delivered by the other.\<close>

lemma streams_agree:
  assumes "good_config ns" "part3_prompt ns evs" "part3_run ns evs = Some (Inr s)"
    and up: "ERestart m \<notin> set evs" "ERestart n \<notin> set evs" and len: "length (commits s m) \<le> length (commits s n)"
  shows "map ce_Command (commits s m) = map ce_Command (take (length (commits s m)) (commits s n))"
proof (rule nth_equalityI)
  show "length (map ce_Command (commits s m)) = length (map ce_Command (take (length (commits s m)) (commits s n)))"
    using len by simp
  fix i assume "i < length (map ce_Command (commits s m))"
  then have i: "i < length (commits s m)" "i < length (commits s n)" using len by auto
  have "ce_Command (commits s m ! i) = ce_Command (commits s n ! i)"
    by (rule p3sc.commits_agree [OF prompt_run_reach [OF prompt_reach.start assms(2,3)] assms(1), where m = m and n = n])
      (use i commit_index [OF assms(3)] up in auto)
  then show "map ce_Command (commits s m) ! i = map ce_Command (take (length (commits s m)) (commits s n)) ! i"
    using i by simp
qed

section \<open>Where the prompt runs end\<close>

text \<open>
  Five servers. Server 0 leads term 1 and appends two entries, which server 1 stores; the reply of
  server 1 is delayed. Server 2 leads term 2 and overwrites the logs of all servers with its entry 20.
  Server 0 leads term 3 with the log of server 2, appends the entry 30 and replicates it to server 3
  only. Now the reply of term 1 arrives: it says that server 1 has the first two entries, server 0
  counts three servers for index 1 and commits. Server 2, which server 1 and server 4 elect in term 4,
  replicates another entry for index 1 and commits it.
\<close>

definition ex_stale_ack :: "int event list" where
  "ex_stale_ack =
     [EReady 0 0, ETimerNew 5 150, ETimerTick 5 200, EVoteSend 6, EVoteDeliver 6 201, EVoteReply 6 202,
      EVoteSend 7, EVoteDeliver 7 201, EVoteReply 7 202, ESubmit 0 11, ESubmit 0 12, ELoopSend 13,
      ESend 16, ESendDeliver 16 203]
   @ [ETimerNew 12 150, ETimerTick 12 400, EVoteSend 22, EVoteDeliver 22 401, EVoteReply 22 402, EVoteSend 23,
      EVoteDeliver 23 401, EVoteReply 23 402, ESubmit 2 20, ELoopSend 27, ESend 29, ESendDeliver 29 403,
      ESend 30, ESendDeliver 30 403, ESend 31, ESendDeliver 31 403, ESend 32, ESendDeliver 32 403]
   @ [ETimerNew 33 150, ETimerTick 33 700, EVoteSend 36, EVoteDeliver 36 701, EVoteReply 36 702, EVoteSend 37,
      EVoteDeliver 37 701, EVoteReply 37 702, ESubmit 0 30, ELoopSend 42, ESend 46, ESendDeliver 46 703,
      ESendReply 46 704, ESendReply 16 705, ECommit 0]
   @ [ETimerNew 40 150, ETimerTick 40 1000, EVoteSend 50, EVoteDeliver 50 1001, EVoteReply 50 1002, EVoteSend 52,
      EVoteDeliver 52 1001, EVoteReply 52 1002, ESubmit 2 40, ELoopSend 56, ESend 59, ESendDeliver 59 1003,
      ESendReply 59 1004, ESend 61, ESendDeliver 61 1003, ESendReply 61 1004, ECommit 2]"

lemma cluster_init5:
  "cluster_init mk [a, b, c, d, e] =
     \<lparr>members = [a, b, c, d, e], nodes = (\<lambda>n. mk n (others [a, b, c, d, e] n)),
      gos = [0 \<mapsto> GReady a, 1 \<mapsto> GReady b, 2 \<mapsto> GReady c, 3 \<mapsto> GReady d, 4 \<mapsto> GReady e], next_go = 5,
      votes = (\<lambda>_. 0), next_el = 0, el_of = (\<lambda>_. (0, 0)), voters = (\<lambda>_. {}), granted = {}, elected = {},
      logs = {[]}, commits = (\<lambda>_. [])\<rparr>"
  by (auto simp: cluster_init_def fun_eq_iff nth_Cons' eval_nat_numeral)

lemma Let_uminus [simp]: "Let (- numeral k) f = f (- numeral k)" "Let (- 1) f = f (- 1)"
  by (simp_all add: Let_def)

lemma ex_stale_ack_timely: "part3_timely [0, 1, 2, 3, 4] ex_stale_ack"
  by (simp add: ex_stale_ack_def p3_eval cluster_init5)

lemma ex_stale_ack_commits:
  "ends_in (part3_run [0, 1, 2, 3, 4] ex_stale_ack)
     (\<lambda>s. map (\<lambda>e. (ce_Index e, ce_Command e)) (commits s 0) = [(0, 20), (1, 30)]
        \<and> map (\<lambda>e. (ce_Index e, ce_Command e)) (commits s 2) = [(0, 20), (1, 40)])"
  by (simp add: ex_stale_ack_def p3_eval cluster_init5)


section \<open>Clusters of craft servers\<close>

lemma craft_calm: "calm craft_impl cidx mtch c c' = calm part3_impl cidx mtch c c'"
  by (simp add: calm_def)

interpretation crafts: raft_commit craft_impl commitIndex matches
proof (standard, goal_cases)
  case (2 now a c c' r es)
  then show ?case
    using RequestVote_commit(1,2) [of now a c] by (auto simp: calm_def RequestVote_c_eq split: prod.splits if_splits)
next
  case (3 now a c c' reply es)
  then show ?case using RequestVote_commit(3) [of now a c] by (auto simp: RequestVote_c_eq split: prod.splits if_splits)
next
  case (5 now b c c' q es)
  show ?case
  proof (cases "state c = Dead")
    case True
    then show ?thesis using 5 by (simp add: AppendEntries_c_eq calm_def)
  next
    case False
    then obtain r where r: "AppendEntries now b c = Inr (c', r, es)" "q = Some r"
      using 5 by (auto simp: AppendEntries_c_eq go_bind_eq_Inr)
    show ?thesis using AppendEntries_commit3 [OF r(1)] r(2) by (auto simp: calm_def)
  qed
next
  case (7 now t v rep c c' v' es)
  then show ?case unfolding craft_impl_sel by (rule voteReply_commit3)
next
  case (9 now t p ni k ar c c' es)
  then show ?case using aeReply_commit3 [of now t p ni k ar c c' es]
    unfolding calm_def craft_impl_sel by blast
next
  case (13 c c' out e)
  then show ?case using commitChanSender_out by simp
next
  case (14 c c')
  then show ?case by (auto dest: NewConsensusModule_Inr)
qed (use p3_calm voteArgs_pos aeArgs_commit3 in \<open>simp_all add: craft_calm\<close>)

interpretation craftsc: raft_commit_cluster craft_impl commitIndex matches part3_new
  by standard (simp_all add: part3_new_def)

abbreviation craft_prompt :: "int list \<Rightarrow> int event list \<Rightarrow> bool" where
  "craft_prompt ns evs \<equiv> prompt_run craft_impl evs (cluster_init part3_new ns)"

lemma craft_learn_run:
  "craft_prompt [0, 1, 2] ex_learn"
  "ends_in (craft_run [0, 1, 2] ex_learn) (\<lambda>s. \<lparr>ce_Command = 7, ce_Index = 0, ce_Term = 1\<rparr> \<in> set (commits s 0)
     \<and> \<lparr>ce_Command = 7, ce_Index = 0, ce_Term = 1\<rparr> \<in> set (commits s 1))"
  by (simp_all add: ex_learn_def ex_commit_def prompt_def craft_eval)

text \<open>
  C13: state machine safety of a cluster of craft servers, in every run of prompt events.
\<close>

theorem craft_state_machine_safety:
  assumes "good_config ns" "craft_prompt ns evs" "craft_run ns evs = Some (Inr s)"
    and "e \<in> set (commits s m)" "e' \<in> set (commits s n)" "ce_Index e = ce_Index e'"
  shows "ce_Command e = ce_Command e'"
  using craftsc.commits_agree [OF prompt_run_reach [OF prompt_reach.start assms(2,3)] assms(1,4-6)] .

theorem craft_state_machine_safety_witness:
  "\<exists>s. craft_run [0, 1, 2] ex_learn = Some (Inr s) \<and> commits s 1 \<noteq> []
     \<and> (\<forall>e \<in> set (commits s 1). ce_Index e = 0 \<longrightarrow> ce_Command e = 7)"
proof -
  let ?e = "\<lparr>ce_Command = 7 :: int, ce_Index = 0, ce_Term = 1\<rparr>"
  obtain s where s: "craft_run [0, 1, 2] ex_learn = Some (Inr s)" "?e \<in> set (commits s 0)" "?e \<in> set (commits s 1)"
    using ends_inD [OF craft_learn_run(2)] by auto
  have cfg: "good_config [0, 1, 2]" by (simp add: good_config_def)
  have "ce_Command e = 7" if "e \<in> set (commits s 1)" "ce_Index e = 0" for e
    using craft_state_machine_safety [OF cfg craft_learn_run(1) s(1,2) that(1)] that(2) by simp
  then show ?thesis using s by (intro exI [of _ s]) auto
qed

end
