(* ===== verification/CraftServer.thy ===== *)
theory CraftServer
  imports Craft RaftHarnessFacts
begin

text \<open>
  The server of \<^verbatim>\<open>src/craft\<close> (\<^verbatim>\<open>server.go\<close>, \<^verbatim>\<open>rpcproxy.go\<close>) and its test harness (\<^verbatim>\<open>testharness.go\<close>). Here a client is an
  HTTP client with the address of the peer and no connection of its own: creating one does not dial,
  a request reaches whatever serves the address at that moment. The HTTP server stops serving when it
  is shut down. The checks of the harness are those of \<^verbatim>\<open>raft/part3\<close> on 64-bit integers.
\<close>

section \<open>The server\<close>

text \<open>An address is \<open>None\<close> for the empty string it is before \<^verbatim>\<open>Serve\<close>; a \<^verbatim>\<open>Connection\<close> is the address it was
  made for. \<open>cs_once\<close>: the body of \<^verbatim>\<open>Shutdown\<close> has run.\<close>

record CraftServer =
  cs_serverID :: int
  cs_peerIDs :: "int list"
  cs_storage :: "int gob MapStorage"
  cs_cm :: "craft_module option"
  cs_numCallsBeforeDrop :: int
  cs_addr :: "nat option"
  cs_peerClients :: "(int \<times> nat option option) list"
  cs_quit :: bool
  cs_once :: bool

definition cs_NewServer :: "int \<Rightarrow> int list \<Rightarrow> int gob MapStorage \<Rightarrow> CraftServer" where
  "cs_NewServer i peers st =
     \<lparr>cs_serverID = i, cs_peerIDs = peers, cs_storage = st, cs_cm = None, cs_numCallsBeforeDrop = 0,
      cs_addr = None, cs_peerClients = [], cs_quit = False, cs_once = False\<rparr>"

text \<open>The proxy is made by a composite literal, so its counter starts at zero.\<close>

definition cs_Serve :: "network \<Rightarrow> CraftServer \<Rightarrow> (network \<times> CraftServer) go" where
  "cs_Serve w s =
     go_bind (NewConsensusModule_c (cs_serverID s) (cs_peerIDs s) (cs_storage s)) (\<lambda>cm.
     go_bind (net_Listen w) (\<lambda>(w', p).
       Inr (w', s\<lparr>cs_cm := Some cm, cs_numCallsBeforeDrop := 0, cs_addr := Some p\<rparr>)))"

definition cs_Submit :: "int \<Rightarrow> CraftServer \<Rightarrow> (CraftServer \<times> int \<times> effect list) go" where
  "cs_Submit cmd s =
     (case cs_cm s of
        None \<Rightarrow> Inl nil_dereference
      | Some cm \<Rightarrow> let (cm', i, es) = Submit_c cmd cm in Inr (s\<lparr>cs_cm := Some cm'\<rparr>, i, es))"

definition cs_Shutdown :: "network \<Rightarrow> CraftServer \<Rightarrow> (network \<times> CraftServer) go" where
  "cs_Shutdown w s =
     (if cs_once s then Inr (w, s)
      else case cs_cm s of
        None \<Rightarrow> Inl nil_dereference
      | Some cm \<Rightarrow>
          let s1 = s\<lparr>cs_cm := Some (Stop_c cm), cs_quit := True, cs_once := True\<rparr>
          in (case cs_addr s of
                None \<Rightarrow> Inl nil_dereference
              | Some p \<Rightarrow> Inr (w\<lparr>ports := removeAll p (ports w)\<rparr>, s1)))"

definition cs_GetListenAddr :: "CraftServer \<Rightarrow> nat option" where
  "cs_GetListenAddr s = cs_addr s"

text \<open>The pair of the value and of its presence, as one option: a present nil is \<open>Some None\<close>.\<close>

definition cs_GetPeerClient :: "int \<Rightarrow> CraftServer \<Rightarrow> nat option option option" where
  "cs_GetPeerClient k s = map_of (cs_peerClients s) k"

definition cs_client :: "CraftServer \<Rightarrow> int \<Rightarrow> nat option option" where
  "cs_client s k = (case map_of (cs_peerClients s) k of Some c \<Rightarrow> c | None \<Rightarrow> None)"

definition cs_ConnectToPeer :: "int \<Rightarrow> nat option \<Rightarrow> CraftServer \<Rightarrow> CraftServer" where
  "cs_ConnectToPeer k addr s =
     (if cs_client s k = None then s\<lparr>cs_peerClients := AList.update k (Some addr) (cs_peerClients s)\<rparr> else s)"

definition cs_DisconnectPeer :: "int \<Rightarrow> CraftServer \<Rightarrow> CraftServer" where
  "cs_DisconnectPeer k s =
     (case map_of (cs_peerClients s) k of
        Some (Some conn) \<Rightarrow> s\<lparr>cs_peerClients := AList.update k None (cs_peerClients s)\<rparr>
      | _ \<Rightarrow> s)"

definition cs_DisconnectAll :: "CraftServer \<Rightarrow> CraftServer" where
  "cs_DisconnectAll s = s\<lparr>cs_peerClients := map (\<lambda>(k, c). (k, None)) (cs_peerClients s)\<rparr>"

definition cs_IsLeader :: "CraftServer \<Rightarrow> bool go" where
  "cs_IsLeader s =
     (case cs_cm s of
        None \<Rightarrow> Inl nil_dereference
      | Some cm \<Rightarrow> let (_, _, isLeader) = Report_c cm in Inr isLeader)"

text \<open>How \<^verbatim>\<open>craft.go\<close> calls a peer: the port that serves the request, or \<open>None\<close> when there is no client or
  nothing serves its address. The proxy has no part in it.\<close>

definition cs_Call :: "int \<Rightarrow> network \<Rightarrow> CraftServer \<Rightarrow> nat option" where
  "cs_Call k w s =
     (case cs_GetPeerClient k s of
        Some (Some (Some p)) \<Rightarrow> if p \<in> set (ports w) then Some p else None
      | _ \<Rightarrow> None)"

definition cs_DropCallsAfterN :: "int \<Rightarrow> CraftServer \<Rightarrow> CraftServer" where
  "cs_DropCallsAfterN n s = s\<lparr>cs_numCallsBeforeDrop := n\<rparr>"

definition cs_DontDropCalls :: "CraftServer \<Rightarrow> CraftServer" where
  "cs_DontDropCalls s = s\<lparr>cs_numCallsBeforeDrop := -1\<rparr>"

section \<open>The harness\<close>

record CraftHarness =
  ch_net :: network
  ch_cluster :: "CraftServer list"
  ch_commits :: "int CommitEntry list list"
  ch_connected :: "bool list"
  ch_alive :: "bool list"
  ch_closed :: bool
  ch_n :: nat

definition cs_storage_of :: "CraftServer \<Rightarrow> int gob MapStorage" where
  "cs_storage_of s = (case cs_cm s of None \<Rightarrow> cs_storage s | Some cm \<Rightarrow> storage cm)"

definition ch_put :: "nat \<Rightarrow> network \<Rightarrow> CraftServer \<Rightarrow> CraftHarness \<Rightarrow> CraftHarness" where
  "ch_put i w s h = h\<lparr>ch_net := w, ch_cluster := (ch_cluster h)[i := s]\<rparr>"

definition ch_peers :: "nat \<Rightarrow> nat \<Rightarrow> int list" where
  "ch_peers n i = map int (filter (\<lambda>p. p \<noteq> i) [0..<n])"

fun ch_start :: "nat \<Rightarrow> nat list \<Rightarrow> network \<Rightarrow> (network \<times> CraftServer list) go" where
  "ch_start n [] w = Inr (w, [])"
| "ch_start n (i # is) w =
     go_bind (cs_Serve w (cs_NewServer (int i) (ch_peers n i) NewMapStorage)) (\<lambda>(w1, s).
     go_bind (ch_start n is w1) (\<lambda>(w2, ss). Inr (w2, s # ss)))"

definition ch_connect :: "nat \<Rightarrow> nat \<Rightarrow> CraftHarness \<Rightarrow> CraftHarness" where
  "ch_connect i j h =
     ch_put i (ch_net h) (cs_ConnectToPeer (int j) (cs_GetListenAddr (ch_cluster h ! j)) (ch_cluster h ! i)) h"

definition ch_NewHarness :: "network \<Rightarrow> nat \<Rightarrow> CraftHarness go" where
  "ch_NewHarness w n =
     go_bind (ch_start n [0..<n] w) (\<lambda>(w1, ss).
       Inr (fold (\<lambda>(i, j) h. if i \<noteq> j then ch_connect i j h else h) (List.product [0..<n] [0..<n])
         \<lparr>ch_net = w1, ch_cluster = ss, ch_commits = replicate n [], ch_connected = replicate n True,
          ch_alive = replicate n True, ch_closed = False, ch_n = n\<rparr>))"

definition ch_DisconnectPeer :: "nat \<Rightarrow> CraftHarness \<Rightarrow> CraftHarness go" where
  "ch_DisconnectPeer i h =
     (if i < ch_n h
      then let h1 = ch_put i (ch_net h) (cs_DisconnectAll (ch_cluster h ! i)) h;
               h2 = fold (\<lambda>j h. if j \<noteq> i then ch_put j (ch_net h) (cs_DisconnectPeer (int i) (ch_cluster h ! j)) h else h)
                      [0..<ch_n h] h1
           in Inr (h2\<lparr>ch_connected := (ch_connected h2)[i := False]\<rparr>)
      else Inl IndexOutOfRange)"

text \<open>\<^verbatim>\<open>ConnectToPeer\<close> always returns nil, so the calls of \<^verbatim>\<open>t.Fatal\<close> are not reached.\<close>

definition ch_ReconnectPeer :: "nat \<Rightarrow> CraftHarness \<Rightarrow> CraftHarness go" where
  "ch_ReconnectPeer i h =
     (if i < ch_n h
      then let h1 = fold (\<lambda>j h. if j \<noteq> i \<and> ch_alive h ! j then ch_connect j i (ch_connect i j h) else h) [0..<ch_n h] h
           in Inr (h1\<lparr>ch_connected := (ch_connected h1)[i := True]\<rparr>)
      else Inl IndexOutOfRange)"

definition ch_CrashPeer :: "nat \<Rightarrow> CraftHarness \<Rightarrow> CraftHarness go" where
  "ch_CrashPeer i h =
     go_bind (ch_DisconnectPeer i h) (\<lambda>h1.
       let h2 = h1\<lparr>ch_alive := (ch_alive h1)[i := False]\<rparr>
       in go_bind (cs_Shutdown (ch_net h2) (ch_cluster h2 ! i)) (\<lambda>(w, s).
            let h3 = ch_put i w s h2 in Inr (h3\<lparr>ch_commits := (ch_commits h3)[i := []]\<rparr>)))"

definition ch_RestartPeer :: "nat \<Rightarrow> CraftHarness \<Rightarrow> CraftHarness go" where
  "ch_RestartPeer i h =
     (if \<not> i < ch_n h then Inl IndexOutOfRange
      else if ch_alive h ! i then Inl (Fatal ''alive in RestartPeer'')
      else go_bind (cs_Serve (ch_net h) (cs_NewServer (int i) (ch_peers (ch_n h) i) (cs_storage_of (ch_cluster h ! i)))) (\<lambda>(w, s).
           go_bind (ch_ReconnectPeer i (ch_put i w s h)) (\<lambda>h1.
             Inr (h1\<lparr>ch_alive := (ch_alive h1)[i := True]\<rparr>))))"

definition ch_PeerDropCallsAfterN :: "nat \<Rightarrow> int \<Rightarrow> CraftHarness \<Rightarrow> CraftHarness go" where
  "ch_PeerDropCallsAfterN i n h =
     (if i < ch_n h then Inr (ch_put i (ch_net h) (cs_DropCallsAfterN n (ch_cluster h ! i)) h) else Inl IndexOutOfRange)"

definition ch_PeerDontDropCalls :: "nat \<Rightarrow> CraftHarness \<Rightarrow> CraftHarness go" where
  "ch_PeerDontDropCalls i h =
     (if i < ch_n h then Inr (ch_put i (ch_net h) (cs_DontDropCalls (ch_cluster h ! i)) h) else Inl IndexOutOfRange)"

definition ch_SubmitToServer :: "nat \<Rightarrow> int \<Rightarrow> CraftHarness \<Rightarrow> (CraftHarness \<times> int \<times> effect list) go" where
  "ch_SubmitToServer i cmd h =
     (if i < ch_n h
      then go_bind (cs_Submit cmd (ch_cluster h ! i)) (\<lambda>(s, k, es). Inr (ch_put i (ch_net h) s h, k, es))
      else Inl IndexOutOfRange)"

definition ch_collectCommits :: "nat \<Rightarrow> int CommitEntry \<Rightarrow> CraftHarness \<Rightarrow> CraftHarness" where
  "ch_collectCommits i c h = h\<lparr>ch_commits := (ch_commits h)[i := ch_commits h ! i @ [c]]\<rparr>"

fun ch_shutdown_loop :: "nat list \<Rightarrow> CraftHarness \<Rightarrow> CraftHarness go" where
  "ch_shutdown_loop [] h = Inr h"
| "ch_shutdown_loop (i # is) h =
     (if ch_alive h ! i
      then let h1 = h\<lparr>ch_alive := (ch_alive h)[i := False]\<rparr>
           in go_bind (cs_Shutdown (ch_net h1) (ch_cluster h1 ! i)) (\<lambda>(w, s). ch_shutdown_loop is (ch_put i w s h1))
      else ch_shutdown_loop is h)"

definition ch_Shutdown :: "CraftHarness \<Rightarrow> CraftHarness go" where
  "ch_Shutdown h =
     (let h1 = fold (\<lambda>i h. let h' = ch_put i (ch_net h) (cs_DisconnectAll (ch_cluster h ! i)) h
                          in h'\<lparr>ch_connected := (ch_connected h')[i := False]\<rparr>) [0..<ch_n h] h
      in go_bind (ch_shutdown_loop [0..<ch_n h] h1) (\<lambda>h2.
           if ch_closed h2 \<and> 0 < ch_n h2 then Inl (Explicit ''close of closed channel'')
           else Inr (h2\<lparr>ch_closed := True\<rparr>)))"

section \<open>Checks\<close>

fun leader_loop_c :: "bool list \<Rightarrow> (nat \<Rightarrow> int \<times> int \<times> bool) \<Rightarrow> nat list \<Rightarrow> int \<times> int \<Rightarrow> (int \<times> int) go" where
  "leader_loop_c con report [] found = Inr found"
| "leader_loop_c con report (i # is) found =
     (if con ! i
      then let (_, t, isLeader) = report i
           in if isLeader
              then if fst found < 0 then leader_loop_c con report is (int i, t)
                   else Inl (Fatal ''both think they are leaders'')
              else leader_loop_c con report is found
      else leader_loop_c con report is found)"

fun leader_rounds_c ::
  "bool list \<Rightarrow> (nat \<Rightarrow> nat \<Rightarrow> int \<times> int \<times> bool) \<Rightarrow> nat \<Rightarrow> nat list \<Rightarrow> (int \<times> int) go" where
  "leader_rounds_c con reports n [] = Inl (Fatal ''leader not found'')"
| "leader_rounds_c con reports n (r # rs) =
     go_bind (leader_loop_c con (reports r) [0..<n] (-1, -1)) (\<lambda>found.
       if fst found \<ge> 0 then Inr found else leader_rounds_c con reports n rs)"

definition ch_CheckSingleLeader :: "(nat \<Rightarrow> nat \<Rightarrow> int \<times> int \<times> bool) \<Rightarrow> CraftHarness \<Rightarrow> (int \<times> int) go" where
  "ch_CheckSingleLeader reports h = leader_rounds_c (ch_connected h) reports (ch_n h) [0..<8]"

definition ch_CheckNoLeader :: "(nat \<Rightarrow> int \<times> int \<times> bool) \<Rightarrow> CraftHarness \<Rightarrow> unit go" where
  "ch_CheckNoLeader report h =
     (if \<exists>i \<in> set [0..<ch_n h]. ch_connected h ! i \<and> (case report i of (_, _, isLeader) \<Rightarrow> isLeader)
      then Inl (Fatal ''leader; want none'') else Inr ())"

fun length_loop_c :: "bool list \<Rightarrow> int CommitEntry list list \<Rightarrow> nat list \<Rightarrow> int \<Rightarrow> int go" where
  "length_loop_c con cs [] commitsLen = Inr commitsLen"
| "length_loop_c con cs (i # is) commitsLen =
     (if con ! i
      then if commitsLen \<ge> 0
           then if int (length (cs ! i)) \<noteq> commitsLen then Inl (Fatal ''commitsLen'')
                else length_loop_c con cs is commitsLen
           else length_loop_c con cs is (int (length (cs ! i)))
      else length_loop_c con cs is commitsLen)"

fun command_loop_c ::
  "bool list \<Rightarrow> int CommitEntry list list \<Rightarrow> nat \<Rightarrow> nat list \<Rightarrow> int \<Rightarrow> test_error list \<Rightarrow> int \<times> test_error list" where
  "command_loop_c con cs c [] cmdAtC errs = (cmdAtC, errs)"
| "command_loop_c con cs c (i # is) cmdAtC errs =
     (if con ! i
      then let cmdOfN = ce_Command (cs ! i ! c)
           in if cmdAtC \<ge> 0
              then command_loop_c con cs c is cmdAtC (if cmdOfN \<noteq> cmdAtC then errs @ [CommandMismatch i c] else errs)
              else command_loop_c con cs c is cmdOfN errs
      else command_loop_c con cs c is cmdAtC errs)"

fun index_loop_c ::
  "bool list \<Rightarrow> int CommitEntry list list \<Rightarrow> nat \<Rightarrow> nat list \<Rightarrow> int \<Rightarrow> int \<Rightarrow> test_error list \<Rightarrow> int \<times> int \<times> test_error list" where
  "index_loop_c con cs c [] index nc errs = (nc, index, errs)"
| "index_loop_c con cs c (i # is) index nc errs =
     (if con ! i
      then if index \<ge> 0 \<and> ce_Index (cs ! i ! c) \<noteq> index
           then index_loop_c con cs c is index (nc + 1) (errs @ [IndexMismatch i c])
           else index_loop_c con cs c is (ce_Index (cs ! i ! c)) (nc + 1) errs
      else index_loop_c con cs c is index nc errs)"

fun committed_loop_c ::
  "int \<Rightarrow> CraftHarness \<Rightarrow> nat list \<Rightarrow> test_error list \<Rightarrow> int \<times> int \<times> test_error list" where
  "committed_loop_c cmd h [] errs = (-1, -1, errs @ [NotFound cmd])"
| "committed_loop_c cmd h (c # cs) errs =
     (let (cmdAtC, errs1) = command_loop_c (ch_connected h) (ch_commits h) c [0..<ch_n h] (-1) errs
      in if cmdAtC = cmd then index_loop_c (ch_connected h) (ch_commits h) c [0..<ch_n h] (-1) 0 errs1
         else committed_loop_c cmd h cs errs1)"

definition ch_CheckCommitted :: "int \<Rightarrow> CraftHarness \<Rightarrow> (int \<times> int \<times> test_error list) go" where
  "ch_CheckCommitted cmd h =
     go_bind (length_loop_c (ch_connected h) (ch_commits h) [0..<ch_n h] (-1)) (\<lambda>commitsLen.
       Inr (committed_loop_c cmd h [0..<nat commitsLen] []))"

definition ch_CheckCommittedN :: "int \<Rightarrow> int \<Rightarrow> CraftHarness \<Rightarrow> test_error list go" where
  "ch_CheckCommittedN cmd n h =
     go_bind (ch_CheckCommitted cmd h) (\<lambda>(nc, _, errs). Inr (if nc \<noteq> n then errs @ [WrongCount nc n] else errs))"

definition ch_CheckNotCommitted :: "int \<Rightarrow> CraftHarness \<Rightarrow> test_error list" where
  "ch_CheckNotCommitted cmd h =
     concat (map (\<lambda>i. if ch_connected h ! i
                      then map (FoundCommand i) (filter (\<lambda>c. ce_Command (ch_commits h ! i ! c) = cmd) [0..<length (ch_commits h ! i)])
                      else []) [0..<ch_n h])"

text \<open>The loops are those of \<^verbatim>\<open>raft/part3\<close>.\<close>

lemma leader_loop_c_eq: "leader_loop_c con report is found = leader_loop con report is found"
  by (induction "is" arbitrary: found) (auto simp: case_prod_unfold Let_def)

lemma leader_rounds_c_eq: "leader_rounds_c con reports n rs = leader_rounds con reports n rs"
  by (induction rs) (simp_all add: leader_loop_c_eq cong: if_cong)

lemma length_loop_c_eq: "length_loop_c con cs is l = length_loop con cs is l"
  by (induction "is" arbitrary: l) auto

lemma command_loop_c_eq: "command_loop_c con cs c is x errs = command_loop con cs c is x errs"
  by (induction "is" arbitrary: x errs) (auto simp: Let_def)

lemma index_loop_c_eq: "index_loop_c con cs c is x n errs = index_loop con cs c is x n errs"
  by (induction "is" arbitrary: x n errs) auto

lemmas check_loops_eq = leader_loop_c_eq leader_rounds_c_eq length_loop_c_eq command_loop_c_eq index_loop_c_eq

end
