(* ===== verification/CraftHarness.thy ===== *)
theory CraftHarness
  imports CraftServer
begin

text \<open>
  The harness of \<^verbatim>\<open>src/craft\<close> implements the same graph of links as that of \<^verbatim>\<open>raft/part3\<close>, although
  its clients hold addresses and not connections: a client of a live server always has the address
  its peer listens at now. Its proxy counts, but no call consults it.
\<close>

section \<open>Well-formed clients\<close>

definition c_client :: "CraftHarness \<Rightarrow> nat \<Rightarrow> int \<Rightarrow> nat option option" where
  "c_client h i k = cs_client (ch_cluster h ! i) k"

definition c_up :: "CraftHarness \<Rightarrow> nat \<Rightarrow> bool" where
  "c_up h i \<longleftrightarrow> \<not> cs_once (ch_cluster h ! i)"

definition c_addr :: "CraftHarness \<Rightarrow> nat \<Rightarrow> nat option" where
  "c_addr h i = cs_addr (ch_cluster h ! i)"

definition c_server_ok :: "network \<Rightarrow> CraftServer \<Rightarrow> bool" where
  "c_server_ok w s \<longleftrightarrow> cs_cm s \<noteq> None \<and> restorable (cs_storage_of s)
     \<and> (\<exists>p < next_port w. cs_addr s = Some p \<and> (p \<in> set (ports w) \<longleftrightarrow> \<not> cs_once s))"

definition c_link_ok :: "CraftHarness \<Rightarrow> nat \<Rightarrow> int \<Rightarrow> nat option \<Rightarrow> bool" where
  "c_link_ok h i k a \<longleftrightarrow> (\<exists>j < ch_n h. k = int j \<and> j \<noteq> i \<and> c_up h i \<and> c_up h j \<and> a = c_addr h j)"

definition c_net_ok :: "CraftHarness \<Rightarrow> bool" where
  "c_net_ok h \<longleftrightarrow> can_listen (ch_net h) \<and> length (ch_cluster h) = ch_n h
     \<and> (\<forall>i < ch_n h. c_server_ok (ch_net h) (ch_cluster h ! i))
     \<and> (\<forall>i < ch_n h. \<forall>k a. c_client h i k = Some a \<longrightarrow> c_link_ok h i k a)"

lemma c_net_okD:
  assumes "c_net_ok h"
  shows "can_listen (ch_net h)" "length (ch_cluster h) = ch_n h"
    "i < ch_n h \<Longrightarrow> c_server_ok (ch_net h) (ch_cluster h ! i)"
    "i < ch_n h \<Longrightarrow> c_client h i k = Some a \<Longrightarrow> c_link_ok h i k a"
  using assms unfolding c_net_ok_def by blast+

definition c_links :: "CraftHarness \<Rightarrow> (nat \<times> nat) set" where
  "c_links h = {(i, j). i < ch_n h \<and> c_client h i (int j) \<noteq> None}"

text \<open>A step that changes nothing but clients.\<close>

definition rewires :: "CraftHarness \<Rightarrow> CraftHarness \<Rightarrow> bool" where
  "rewires h h' \<longleftrightarrow>
     (\<exists>ss. h' = h\<lparr>ch_cluster := ss\<rparr> \<and> length ss = length (ch_cluster h)
        \<and> (\<forall>i < length ss. \<exists>pcs. ss ! i = (ch_cluster h ! i)\<lparr>cs_peerClients := pcs\<rparr>))"

lemma rewiresD:
  assumes "rewires h h'"
  shows "ch_net h' = ch_net h" "ch_n h' = ch_n h" "ch_alive h' = ch_alive h" "ch_connected h' = ch_connected h"
    "ch_commits h' = ch_commits h" "ch_closed h' = ch_closed h" "length (ch_cluster h') = length (ch_cluster h)"
    "i < length (ch_cluster h) \<Longrightarrow> c_up h' i = c_up h i \<and> c_addr h' i = c_addr h i
       \<and> c_server_ok w (ch_cluster h' ! i) = c_server_ok w (ch_cluster h ! i)"
  using assms unfolding rewires_def by (auto simp: c_up_def c_addr_def c_server_ok_def cs_storage_of_def)

lemma rewires_refl [simp]: "rewires h h"
proof -
  have "\<exists>pcs. ch_cluster h ! i = (ch_cluster h ! i)\<lparr>cs_peerClients := pcs\<rparr>" for i
    by (rule exI [of _ "cs_peerClients (ch_cluster h ! i)"]) simp
  then show ?thesis unfolding rewires_def by (intro exI [of _ "ch_cluster h"]) simp
qed

lemma rewires_trans:
  assumes "rewires h h1" "rewires h1 h2"
  shows "rewires h h2"
proof -
  obtain ss where 1: "h1 = h\<lparr>ch_cluster := ss\<rparr>" "length ss = length (ch_cluster h)"
      "\<And>i. i < length ss \<Longrightarrow> \<exists>pcs. ss ! i = (ch_cluster h ! i)\<lparr>cs_peerClients := pcs\<rparr>"
    using assms(1) unfolding rewires_def by blast
  obtain tt where 2: "h2 = h1\<lparr>ch_cluster := tt\<rparr>" "length tt = length ss"
      "\<And>i. i < length tt \<Longrightarrow> \<exists>pcs. tt ! i = (ss ! i)\<lparr>cs_peerClients := pcs\<rparr>"
    using assms(2) 1(1) unfolding rewires_def by auto
  have "\<exists>pcs. tt ! i = (ch_cluster h ! i)\<lparr>cs_peerClients := pcs\<rparr>" if "i < length tt" for i
    using 1(3) [of i] 2(3) [OF that] 2(2) that by auto
  then show ?thesis unfolding rewires_def using 1 2 by (intro exI [of _ tt]) simp
qed

lemma rewires_put: "rewires h (ch_put i (ch_net h) ((ch_cluster h ! i)\<lparr>cs_peerClients := pcs\<rparr>) h)"
proof -
  have "\<exists>q. ((ch_cluster h)[i := (ch_cluster h ! i)\<lparr>cs_peerClients := pcs\<rparr>]) ! j = (ch_cluster h ! j)\<lparr>cs_peerClients := q\<rparr>"
    if "j < length (ch_cluster h)" for j
    using that by (cases "j = i") (auto intro: exI [of _ "cs_peerClients (ch_cluster h ! j)"])
  then show ?thesis
    unfolding rewires_def ch_put_def
    by (intro exI [of _ "(ch_cluster h)[i := (ch_cluster h ! i)\<lparr>cs_peerClients := pcs\<rparr>]"]) simp
qed

lemma ch_put_same [simp]: "ch_put i (ch_net h) (ch_cluster h ! i) h = h"
  by (simp add: ch_put_def)

lemma c_net_ok_rewires:
  assumes ok: "c_net_ok h" and w: "rewires h h'"
    and cl: "\<And>i k a. i < ch_n h \<Longrightarrow> c_client h' i k = Some a \<Longrightarrow> c_client h i k = Some a \<or> c_link_ok h i k a"
  shows "c_net_ok h'"
proof -
  note D = c_net_okD [OF ok] and W = rewiresD [OF w]
  have "c_link_ok h' i k a" if "i < ch_n h" "c_client h' i k = Some a" for i k a
  proof -
    have "c_link_ok h i k a" using cl [OF that] D(4) [OF that(1)] by blast
    then show ?thesis using that(1) W(2,8) D(2) unfolding c_link_ok_def by auto
  qed
  then show ?thesis unfolding c_net_ok_def using D W by simp
qed

section \<open>The operations on the links\<close>

lemma c_client_put:
  "length (ch_cluster h) = ch_n h \<Longrightarrow> i < ch_n h \<Longrightarrow> c_client (ch_put i w s h) a k = (if a = i then cs_client s k else c_client h a k)"
  by (auto simp: c_client_def ch_put_def)

lemma cs_client_update: "cs_client (s\<lparr>cs_peerClients := AList.update l c (cs_peerClients s)\<rparr>) k = (if k = l then c else cs_client s k)"
  by (simp add: cs_client_def update_conv)

lemma cs_client_none: "cs_client (cs_DisconnectAll s) k = None"
proof -
  have "map_of (map (\<lambda>(k, c). (k, None :: nat option option)) xs) k = map_option (\<lambda>_. None) (map_of xs k)" for xs :: "(int \<times> nat option option) list"
    by (induction xs) auto
  then show ?thesis by (auto simp: cs_client_def cs_DisconnectAll_def split: option.splits)
qed

lemma ch_connect_ok:
  assumes ok: "c_net_ok h" and ij: "i < ch_n h" "j < ch_n h" "j \<noteq> i" and up: "c_up h i" "c_up h j"
  shows "c_net_ok (ch_connect i j h) \<and> rewires h (ch_connect i j h) \<and> c_links (ch_connect i j h) = insert (i, j) (c_links h)"
proof -
  note D = c_net_okD [OF ok]
  let ?h = "ch_connect i j h"
  have w: "rewires h ?h"
    by (simp add: ch_connect_def cs_ConnectToPeer_def rewires_put)
  have cl: "c_client ?h a k = (if a = i \<and> k = int j \<and> c_client h a k = None then Some (c_addr h j) else c_client h a k)" for a k
    using c_client_put [OF D(2) ij(1)]
    by (auto simp: ch_connect_def cs_ConnectToPeer_def cs_client_update cs_GetListenAddr_def c_client_def c_addr_def)
  have "c_net_ok ?h"
    by (rule c_net_ok_rewires [OF ok w]) (use ij up in \<open>auto simp: cl c_link_ok_def split: if_splits\<close>)
  then show ?thesis using w rewiresD(2) [OF w] ij by (auto simp: c_links_def cl)
qed

lemma ch_remove_ok:
  assumes ok: "c_net_ok h" and w: "rewires h h'" and cl: "\<And>a k. a < ch_n h \<Longrightarrow> c_client h' a k = (if R a k then None else c_client h a k)"
  shows "c_net_ok h' \<and> c_links h' = {(a, b) \<in> c_links h. \<not> R a (int b)}"
proof
  show "c_net_ok h'" by (rule c_net_ok_rewires [OF ok w]) (auto simp: cl split: if_splits)
  show "c_links h' = {(a, b) \<in> c_links h. \<not> R a (int b)}" using rewiresD(2) [OF w] by (auto simp: c_links_def cl split: if_splits)
qed

lemma c_disconnect_fold:
  fixes i :: nat
  assumes "c_net_ok h" "\<forall>j \<in> set js. j < ch_n h"
  defines "f \<equiv> \<lambda>j h. if j \<noteq> i then ch_put j (ch_net h) (cs_DisconnectPeer (int i) (ch_cluster h ! j)) h else h"
  shows "c_net_ok (fold f js h) \<and> rewires h (fold f js h)
    \<and> c_links (fold f js h) = c_links h - {(j, i) |j. j \<in> set js \<and> j \<noteq> i}"
  using assms(1,2)
proof (induction js arbitrary: h)
  case (Cons j js)
  note D = c_net_okD [OF Cons.prems(1)]
  have j: "j < ch_n h" using Cons.prems(2) by simp
  have w: "rewires h (f j h)"
    by (auto simp: f_def cs_DisconnectPeer_def rewires_put split: option.splits)
  have cl: "c_client (f j h) a k = (if a = j \<and> j \<noteq> i \<and> k = int i then None else c_client h a k)" for a k
    using c_client_put [OF D(2) j]
    by (auto simp: f_def cs_DisconnectPeer_def cs_client_update c_client_def cs_client_def update_conv split: option.splits)
  have s: "c_net_ok (f j h) \<and> c_links (f j h) = {(a, b) \<in> c_links h. \<not> (a = j \<and> j \<noteq> i \<and> int b = int i)}"
    by (rule ch_remove_ok [OF Cons.prems(1) w cl])
  have "c_net_ok (fold f js (f j h)) \<and> rewires (f j h) (fold f js (f j h))
    \<and> c_links (fold f js (f j h)) = c_links (f j h) - {(j, i) |j. j \<in> set js \<and> j \<noteq> i}"
    by (rule Cons.IH) (use s Cons.prems(2) rewiresD(2) [OF w] in auto)
  then show ?case using s rewires_trans [OF w] by auto
qed simp

lemma c_detach:
  assumes ok: "c_net_ok h" and i: "i < ch_n h"
  defines "h' \<equiv> ch_put i (ch_net h) (cs_DisconnectAll (ch_cluster h ! i)) h"
  shows "c_net_ok h'" "rewires h h'" "c_links h' = c_links h - {i} \<times> UNIV"
proof -
  note D = c_net_okD [OF ok]
  show w: "rewires h h'" unfolding h'_def cs_DisconnectAll_def by (rule rewires_put)
  have "c_client h' a k = (if a = i then None else c_client h a k)" for a k
    unfolding h'_def using c_client_put [OF D(2) i] by (simp add: cs_client_none)
  then have "c_net_ok h' \<and> c_links h' = {(a, b) \<in> c_links h. \<not> a = i}" by (rule ch_remove_ok [OF ok w])
  then show "c_net_ok h'" "c_links h' = c_links h - {i} \<times> UNIV" by auto
qed

lemma c_DisconnectPeer:
  assumes ok: "c_net_ok h" and i: "i < ch_n h"
  shows "\<exists>h'. rewires h h' \<and> c_net_ok h' \<and> c_links h' = isolate i (c_links h)
    \<and> ch_DisconnectPeer i h = Inr (h'\<lparr>ch_connected := (ch_connected h)[i := False]\<rparr>)"
proof -
  let ?h1 = "ch_put i (ch_net h) (cs_DisconnectAll (ch_cluster h ! i)) h"
  let ?h2 = "fold (\<lambda>j h. if j \<noteq> i then ch_put j (ch_net h) (cs_DisconnectPeer (int i) (ch_cluster h ! j)) h else h) [0..<ch_n h] ?h1"
  note 1 = c_detach [OF ok i]
  have js: "\<forall>j \<in> set [0..<ch_n h]. j < ch_n ?h1" using rewiresD(2) [OF 1(2)] by simp
  note 2 = c_disconnect_fold [OF 1(1) js, of i]
  have w: "rewires h ?h2" using 2 rewires_trans [OF 1(2)] by blast
  have "c_links ?h2 = isolate i (c_links h)"
    using 2 1(3) unfolding isolate_def by (auto simp: c_links_def)
  then show ?thesis
    using 2 w i rewiresD(4) [OF w] by (intro exI [of _ ?h2]) (simp add: ch_DisconnectPeer_def Let_def)
qed

lemma c_reconnect_fold:
  assumes "c_net_ok h" "i < ch_n h" "c_up h i" "\<forall>j \<in> set js. j < ch_n h \<and> (ch_alive h ! j \<longrightarrow> j \<noteq> i \<longrightarrow> c_up h j)"
  defines "f \<equiv> \<lambda>j h. if j \<noteq> i \<and> ch_alive h ! j then ch_connect j i (ch_connect i j h) else h"
  shows "c_net_ok (fold f js h) \<and> rewires h (fold f js h)
    \<and> c_links (fold f js h) = c_links h \<union> {(a, b). \<exists>j \<in> set js. j \<noteq> i \<and> ch_alive h ! j \<and> (a = i \<and> b = j \<or> a = j \<and> b = i)}"
  using assms(1-4)
proof (induction js arbitrary: h)
  case (Cons j js)
  note D = c_net_okD [OF Cons.prems(1)]
  have s: "c_net_ok (f j h) \<and> rewires h (f j h)
      \<and> c_links (f j h) = c_links h \<union> {(a, b). j \<noteq> i \<and> ch_alive h ! j \<and> (a = i \<and> b = j \<or> a = j \<and> b = i)}"
  proof (cases "j \<noteq> i \<and> ch_alive h ! j")
    case True
    then have j: "j < ch_n h" "c_up h j" "j \<noteq> i" "i \<noteq> j" using Cons.prems(4) by auto
    note 1 = ch_connect_ok [OF Cons.prems(1,2) j(1,3) Cons.prems(3) j(2)]
    note W = rewiresD [OF conjunct1 [OF conjunct2 [OF 1]]]
    note 2 = ch_connect_ok [OF conjunct1 [OF 1], of j i]
    have u: "c_up (ch_connect i j h) i" "c_up (ch_connect i j h) j" using W(8) D(2) Cons.prems(2,3) j by auto
    show ?thesis using 2 u 1 W(2) j Cons.prems(2) True rewires_trans by (auto simp: f_def)
  next
    case False
    then show ?thesis using Cons.prems(1) by (auto simp: f_def)
  qed
  then have w: "rewires h (f j h)" by blast
  note W = rewiresD [OF w]
  have "c_net_ok (fold f js (f j h)) \<and> rewires (f j h) (fold f js (f j h))
    \<and> c_links (fold f js (f j h)) = c_links (f j h) \<union> {(a, b). \<exists>l \<in> set js. l \<noteq> i \<and> ch_alive (f j h) ! l \<and> (a = i \<and> b = l \<or> a = l \<and> b = i)}"
    by (rule Cons.IH) (use s Cons.prems W D(2) in auto)
  then show ?case using s W(3) rewires_trans [OF w] by auto
qed simp

definition c_living :: "CraftHarness \<Rightarrow> nat set" where
  "c_living h = {j. j < ch_n h \<and> ch_alive h ! j}"

lemma c_ReconnectPeer:
  assumes ok: "c_net_ok h" and i: "i < ch_n h" "c_up h i"
    and al: "\<And>j. j < ch_n h \<Longrightarrow> j \<noteq> i \<Longrightarrow> ch_alive h ! j = c_up h j"
  shows "\<exists>h'. rewires h h' \<and> c_net_ok h' \<and> c_links h' = rejoin i (c_living h) (c_links h)
    \<and> ch_ReconnectPeer i h = Inr (h'\<lparr>ch_connected := (ch_connected h)[i := True]\<rparr>)"
proof -
  let ?h = "fold (\<lambda>j h. if j \<noteq> i \<and> ch_alive h ! j then ch_connect j i (ch_connect i j h) else h) [0..<ch_n h] h"
  have js: "\<forall>j \<in> set [0..<ch_n h]. j < ch_n h \<and> (ch_alive h ! j \<longrightarrow> j \<noteq> i \<longrightarrow> c_up h j)" using al by auto
  note 1 = c_reconnect_fold [OF ok i js]
  have "c_links ?h = rejoin i (c_living h) (c_links h)" using 1 unfolding rejoin_def c_living_def by auto
  then show ?thesis
    using 1 i(1) rewiresD(4) [of h ?h] by (intro exI [of _ ?h]) (simp add: ch_ReconnectPeer_def Let_def)
qed

section \<open>Starting and stopping servers\<close>

definition ch_ok :: "CraftHarness \<Rightarrow> bool" where
  "ch_ok h \<longleftrightarrow> c_net_ok h \<and> length (ch_alive h) = ch_n h \<and> length (ch_connected h) = ch_n h \<and> length (ch_commits h) = ch_n h
     \<and> (\<forall>i < ch_n h. ch_alive h ! i = c_up h i)"

lemma ch_okD:
  assumes "ch_ok h"
  shows "c_net_ok h" "length (ch_alive h) = ch_n h" "length (ch_connected h) = ch_n h" "length (ch_commits h) = ch_n h"
    "i < ch_n h \<Longrightarrow> ch_alive h ! i = c_up h i"
  using assms by (auto simp: ch_ok_def)

lemma c_net_ok_fields [simp]:
  "c_net_ok (h\<lparr>ch_connected := x\<rparr>) = c_net_ok h" "c_net_ok (h\<lparr>ch_alive := y\<rparr>) = c_net_ok h" "c_net_ok (h\<lparr>ch_commits := z\<rparr>) = c_net_ok h"
  "c_links (h\<lparr>ch_connected := x\<rparr>) = c_links h" "c_links (h\<lparr>ch_alive := y\<rparr>) = c_links h" "c_links (h\<lparr>ch_commits := z\<rparr>) = c_links h"
  "c_up (h\<lparr>ch_connected := x\<rparr>) i = c_up h i" "c_up (h\<lparr>ch_alive := y\<rparr>) i = c_up h i" "c_up (h\<lparr>ch_commits := z\<rparr>) i = c_up h i"
  by (simp_all add: c_net_ok_def c_links_def c_link_ok_def c_client_def c_up_def c_addr_def)

text \<open>A server is replaced: either it has no clients and nobody is a client of it, or it keeps its
  clients, its address and its state of being up.\<close>

lemma c_net_ok_replace:
  assumes ok: "c_net_ok h" and i: "i < ch_n h" and w: "can_listen w"
    and s: "c_server_ok w s" and oth: "\<And>j. j < ch_n h \<Longrightarrow> j \<noteq> i \<Longrightarrow> c_server_ok w (ch_cluster h ! j)"
    and cl: "\<And>k. cs_client s k = c_client h i k"
    and same: "(\<forall>b. (i, b) \<notin> c_links h \<and> (b, i) \<notin> c_links h) \<or> cs_addr s = c_addr h i \<and> cs_once s = (\<not> c_up h i)"
  shows "c_net_ok (ch_put i w s h) \<and> c_links (ch_put i w s h) = c_links h"
proof -
  note D = c_net_okD [OF ok]
  let ?h = "ch_put i w s h"
  have c: "c_client ?h a k = c_client h a k" for a k using c_client_put [OF D(2) i] cl by simp
  have n: "ch_n ?h = ch_n h" "ch_net ?h = w" "length (ch_cluster ?h) = ch_n h" using D(2) by (simp_all add: ch_put_def)
  have o: "c_up ?h a = c_up h a \<and> c_addr ?h a = c_addr h a" if "a \<noteq> i" for a
    using that by (simp add: ch_put_def c_up_def c_addr_def)
  have at: "c_up ?h i = (\<not> cs_once s) \<and> c_addr ?h i = cs_addr s" using i D(2) by (simp add: ch_put_def c_up_def c_addr_def)
  have "c_link_ok ?h a k x" if ak: "a < ch_n h" "c_client h a k = Some x" for a k x
  proof -
    obtain j where j: "j < ch_n h" "k = int j" "j \<noteq> a" "c_up h a" "c_up h j" "x = c_addr h j"
      using D(4) [OF ak] unfolding c_link_ok_def by blast
    have "(a, j) \<in> c_links h" using ak j(2) by (simp add: c_links_def)
    then have "c_up ?h b = c_up h b \<and> c_addr ?h b = c_addr h b" if "b = a \<or> b = j" for b
      using same o at that by (cases "b = i") auto
    then show ?thesis unfolding c_link_ok_def n using j by auto
  qed
  moreover have "c_server_ok w (ch_cluster ?h ! j)" if "j < ch_n h" for j
    using oth [OF that] s D(2) i by (cases "j = i") (auto simp: ch_put_def)
  ultimately show ?thesis using w by (simp add: c_net_ok_def c_links_def n c)
qed

text \<open>Two live servers never have the same address.\<close>

definition c_apart :: "CraftHarness \<Rightarrow> bool" where
  "c_apart h \<longleftrightarrow> (\<forall>i < ch_n h. \<forall>j < ch_n h. c_addr h i = c_addr h j \<longrightarrow> i = j)"

lemma c_apart_rewires: "rewires h h' \<Longrightarrow> c_net_ok h \<Longrightarrow> c_apart h \<Longrightarrow> c_apart h'"
  using rewiresD(2,8) [of h h'] c_net_okD(2) [of h] unfolding c_apart_def by metis

lemma c_apart_fields [simp]:
  "c_apart (h\<lparr>ch_connected := x\<rparr>) = c_apart h" "c_apart (h\<lparr>ch_alive := y\<rparr>) = c_apart h" "c_apart (h\<lparr>ch_commits := z\<rparr>) = c_apart h"
  by (simp_all add: c_apart_def c_addr_def)

lemma c_Shutdown:
  assumes ok: "c_net_ok h" and ap: "c_apart h" and i: "i < ch_n h" "c_up h i"
    and none: "\<And>b. (i, b) \<notin> c_links h \<and> (b, i) \<notin> c_links h"
  shows "\<exists>w s. cs_Shutdown (ch_net h) (ch_cluster h ! i) = Inr (w, s) \<and> cs_once s \<and> cs_addr s = c_addr h i
    \<and> c_net_ok (ch_put i w s h) \<and> c_links (ch_put i w s h) = c_links h"
proof -
  note D = c_net_okD [OF ok]
  let ?s = "ch_cluster h ! i"
  obtain cm where cm1: "cs_cm ?s = Some cm" using D(3) [OF i(1)] by (auto simp: c_server_ok_def)
  obtain p where p: "cs_addr ?s = Some p" "p < next_port (ch_net h)" using D(3) [OF i(1)] unfolding c_server_ok_def by blast
  have cm: "cs_cm ?s = Some cm" "cs_addr ?s = Some p" "p < next_port (ch_net h)" "restorable (storage cm)"
    using D(3) [OF i(1)] cm1 p by (auto simp: c_server_ok_def cs_storage_of_def)
  let ?w = "(ch_net h)\<lparr>ports := removeAll p (ports (ch_net h))\<rparr>"
  let ?t = "?s\<lparr>cs_cm := Some (Stop_c cm), cs_quit := True, cs_once := True\<rparr>"
  have sh: "cs_Shutdown (ch_net h) ?s = Inr (?w, ?t)" using cm i(2) by (simp add: cs_Shutdown_def c_up_def)
  have "c_net_ok (ch_put i ?w ?t h) \<and> c_links (ch_put i ?w ?t h) = c_links h"
  proof (rule c_net_ok_replace [OF ok i(1)])
    show "c_server_ok ?w ?t" using cm by (auto simp: c_server_ok_def cs_storage_of_def ops_c_eq Stop_def)
    show "c_server_ok ?w (ch_cluster h ! j)" if "j < ch_n h" "j \<noteq> i" for j
      using D(3) [OF that(1)] ap that i(1) cm(2) by (auto simp: c_server_ok_def c_apart_def c_addr_def)
    show "\<And>k. cs_client ?t k = c_client h i k" by (simp add: c_client_def cs_client_def)
  qed (use D(1) none in auto)
  then show ?thesis using sh cm(2) by (intro exI [of _ ?w] exI [of _ ?t]) (simp add: c_addr_def)
qed

lemma c_Serve:
  assumes ok: "c_net_ok h" and i: "i < ch_n h" and dead: "\<not> c_up h i" and st: "restorable st"
  shows "\<exists>w s. cs_Serve (ch_net h) (cs_NewServer (int i) ps st) = Inr (w, s) \<and> \<not> cs_once s \<and> cs_addr s = Some (next_port (ch_net h))
    \<and> c_net_ok (ch_put i w s h) \<and> c_links (ch_put i w s h) = c_links h"
proof -
  note D = c_net_okD [OF ok]
  have none: "(i, b) \<notin> c_links h \<and> (b, i) \<notin> c_links h" for b
    using D(4) dead by (fastforce simp: c_links_def c_link_ok_def)
  have no: "c_client h i k = None" for k using D(4) [OF i] dead by (cases "c_client h i k") (auto simp: c_link_ok_def)
  obtain cm where cm: "NewConsensusModule (int i) ps st = Inr cm" "storage cm = st"
    using st NewConsensusModule_Inr unfolding restorable_def by metis
  let ?p = "next_port (ch_net h)"
  let ?w = "(ch_net h)\<lparr>ports := ?p # ports (ch_net h), next_port := Suc ?p\<rparr>"
  let ?s = "(cs_NewServer (int i) ps st)\<lparr>cs_cm := Some cm, cs_numCallsBeforeDrop := 0, cs_addr := Some ?p\<rparr>"
  have sv: "cs_Serve (ch_net h) (cs_NewServer (int i) ps st) = Inr (?w, ?s)"
    using cm(1) D(1) by (simp add: cs_Serve_def cs_NewServer_def net_Listen_def ops_c_eq)
  have "c_net_ok (ch_put i ?w ?s h) \<and> c_links (ch_put i ?w ?s h) = c_links h"
  proof (rule c_net_ok_replace [OF ok i])
    show "c_server_ok ?w ?s" using cm(2) st by (auto simp: c_server_ok_def cs_storage_of_def cs_NewServer_def)
    show "c_server_ok ?w (ch_cluster h ! j)" if "j < ch_n h" "j \<noteq> i" for j
      using D(3) [OF that(1)] by (auto simp: c_server_ok_def)
    show "\<And>k. cs_client ?s k = c_client h i k" by (simp add: no cs_client_def cs_NewServer_def)
  qed (use D(1) none in auto)
  then show ?thesis using sv by (intro exI [of _ ?w] exI [of _ ?s]) (simp add: cs_NewServer_def)
qed

text \<open>Addresses are below the next port, so a new one is new.\<close>

lemma c_apart_put:
  assumes ok: "c_net_ok h" and ap: "c_apart h" and i: "i < ch_n h"
    and s: "cs_addr s = c_addr h i \<or> cs_addr s = Some (next_port (ch_net h))"
  shows "c_apart (ch_put i w s h)"
proof -
  note D = c_net_okD [OF ok]
  have a: "c_addr (ch_put i w s h) j = (if j = i then cs_addr s else c_addr h j)" for j
    using i D(2) by (simp add: ch_put_def c_addr_def)
  have ne: "c_addr h j \<noteq> cs_addr s" if "j < ch_n h" "j \<noteq> i" for j
    using s D(3) [OF that(1)] ap that i by (auto simp: c_server_ok_def c_addr_def c_apart_def)
  have "ch_n (ch_put i w s h) = ch_n h" by (simp add: ch_put_def)
  then show ?thesis
    using ap unfolding c_apart_def a by (metis ne)
qed

section \<open>Faults and repairs\<close>

definition craft_ok :: "CraftHarness \<Rightarrow> bool" where
  "craft_ok h \<longleftrightarrow> ch_ok h \<and> c_apart h"

lemma craft_ok_rewires:
  assumes "craft_ok h" "rewires h h'" "c_net_ok h'" "length cs = ch_n h"
  shows "craft_ok (h'\<lparr>ch_connected := cs\<rparr>)"
proof -
  have ok: "ch_ok h" "c_apart h" using assms(1) by (auto simp: craft_ok_def)
  note K = ch_okD [OF ok(1)] and W = rewiresD [OF assms(2)]
  have "c_up h' i = c_up h i" if "i < ch_n h" for i using W(8) c_net_okD(2) [OF K(1)] that by simp
  then have "ch_ok (h'\<lparr>ch_connected := cs\<rparr>)" unfolding ch_ok_def using K W assms(3,4) by simp
  then show ?thesis using c_apart_rewires [OF assms(2) K(1) ok(2)] by (simp add: craft_ok_def)
qed

lemma craft_disconnect:
  assumes hk: "craft_ok h" and i: "i < ch_n h"
  shows "\<exists>h'. ch_DisconnectPeer i h = Inr h' \<and> craft_ok h' \<and> c_links h' = isolate i (c_links h) \<and> ch_n h' = ch_n h \<and> ch_alive h' = ch_alive h"
proof -
  have K: "c_net_ok h" "length (ch_connected h) = ch_n h" using hk ch_okD by (auto simp: craft_ok_def)
  obtain h' where h': "rewires h h'" "c_net_ok h'" "c_links h' = isolate i (c_links h)"
      "ch_DisconnectPeer i h = Inr (h'\<lparr>ch_connected := (ch_connected h)[i := False]\<rparr>)"
    using c_DisconnectPeer [OF K(1) i] by blast
  then show ?thesis
    using craft_ok_rewires [OF hk h'(1,2), of "(ch_connected h)[i := False]"] K(2) rewiresD(2,3) [OF h'(1)] by simp
qed

lemma craft_reconnect:
  assumes hk: "craft_ok h" and i: "i < ch_n h" "ch_alive h ! i"
  shows "\<exists>h'. ch_ReconnectPeer i h = Inr h' \<and> craft_ok h' \<and> c_links h' = rejoin i (c_living h) (c_links h) \<and> ch_n h' = ch_n h \<and> ch_alive h' = ch_alive h"
proof -
  have ok: "ch_ok h" using hk by (simp add: craft_ok_def)
  note K = ch_okD [OF ok]
  have up: "c_up h i" using K(5) [OF i(1)] i(2) by simp
  obtain h' where h': "rewires h h'" "c_net_ok h'" "c_links h' = rejoin i (c_living h) (c_links h)"
      "ch_ReconnectPeer i h = Inr (h'\<lparr>ch_connected := (ch_connected h)[i := True]\<rparr>)"
    using c_ReconnectPeer [OF K(1) i(1) up] K(5) by blast
  then show ?thesis
    using craft_ok_rewires [OF hk h'(1,2), of "(ch_connected h)[i := True]"] K(3) rewiresD(2,3) [OF h'(1)] by simp
qed

lemma craft_crash:
  assumes hk: "craft_ok h" and i: "i < ch_n h" "ch_alive h ! i"
  shows "\<exists>h'. ch_CrashPeer i h = Inr h' \<and> craft_ok h' \<and> c_links h' = isolate i (c_links h) \<and> ch_n h' = ch_n h
    \<and> ch_alive h' = (ch_alive h)[i := False]"
proof -
  obtain h1 where h1: "ch_DisconnectPeer i h = Inr h1" "craft_ok h1" "c_links h1 = isolate i (c_links h)" "ch_n h1 = ch_n h"
      "ch_alive h1 = ch_alive h" using craft_disconnect [OF hk i(1)] by blast
  have ok: "ch_ok h1" "c_apart h1" using h1(2) by (auto simp: craft_ok_def)
  note K = ch_okD [OF ok(1)] and D = c_net_okD [OF ch_okD(1) [OF ok(1)]]
  have i1: "i < ch_n h1" "c_up h1 i" using K(5) [of i] h1(4,5) i by auto
  have none: "(i, b) \<notin> c_links h1 \<and> (b, i) \<notin> c_links h1" for b using h1(3) by (auto simp: isolate_def)
  obtain w s where sh: "cs_Shutdown (ch_net h1) (ch_cluster h1 ! i) = Inr (w, s)" "cs_once s" "cs_addr s = c_addr h1 i"
      "c_net_ok (ch_put i w s h1)" "c_links (ch_put i w s h1) = c_links h1"
    using c_Shutdown [OF K(1) ok(2) i1 none] by blast
  let ?h = "(ch_put i w s h1)\<lparr>ch_alive := (ch_alive h)[i := False], ch_commits := (ch_commits h1)[i := []]\<rparr>"
  have eq: "ch_CrashPeer i h = Inr ?h" using h1(1,5) sh(1) by (simp add: ch_CrashPeer_def ch_put_def)
  have "ch_alive ?h ! j = c_up ?h j" if "j < ch_n h" for j
    using that i(1) K(2,5) h1(4,5) sh(2) D(2) by (cases "j = i") (simp_all add: ch_put_def c_up_def)
  moreover have "length (ch_alive ?h) = ch_n h \<and> length (ch_connected ?h) = ch_n h \<and> length (ch_commits ?h) = ch_n h \<and> ch_n ?h = ch_n h"
    using K(2-4) h1(4,5) by (simp add: ch_put_def)
  ultimately have "ch_ok ?h" unfolding ch_ok_def using sh(4) by (simp only: c_net_ok_fields) blast
  moreover have "c_apart ?h" using c_apart_put [OF K(1) ok(2) i1(1)] sh(3) by simp
  ultimately show ?thesis using eq sh(5) h1(3,4) by (auto simp: ch_put_def craft_ok_def)
qed

lemma craft_restart:
  assumes hk: "craft_ok h" and i: "i < ch_n h" "\<not> ch_alive h ! i"
  shows "\<exists>h'. ch_RestartPeer i h = Inr h' \<and> craft_ok h' \<and> c_links h' = rejoin i (c_living h) (c_links h) \<and> ch_n h' = ch_n h
    \<and> ch_alive h' = (ch_alive h)[i := True]"
proof -
  have ok: "ch_ok h" "c_apart h" using hk by (auto simp: craft_ok_def)
  note K = ch_okD [OF ok(1)] and D = c_net_okD [OF ch_okD(1) [OF ok(1)]]
  have dead: "\<not> c_up h i" using K(5) [OF i(1)] i(2) by simp
  have st: "restorable (cs_storage_of (ch_cluster h ! i))" using D(3) [OF i(1)] by (simp add: c_server_ok_def)
  obtain w s where sv: "cs_Serve (ch_net h) (cs_NewServer (int i) (ch_peers (ch_n h) i) (cs_storage_of (ch_cluster h ! i))) = Inr (w, s)"
      "\<not> cs_once s" "cs_addr s = Some (next_port (ch_net h))" "c_net_ok (ch_put i w s h)" "c_links (ch_put i w s h) = c_links h"
    using c_Serve [OF K(1) i(1) dead st] by blast
  let ?h1 = "ch_put i w s h"
  have n1: "ch_n ?h1 = ch_n h" "ch_alive ?h1 = ch_alive h" "ch_connected ?h1 = ch_connected h" "ch_commits ?h1 = ch_commits h"
    "c_living ?h1 = c_living h" by (simp_all add: ch_put_def c_living_def)
  have u1: "c_up ?h1 j = (j = i \<or> c_up h j)" for j using D(2) i(1) sv(2) by (cases "j = i") (simp_all add: ch_put_def c_up_def)
  have al: "ch_alive ?h1 ! j = c_up ?h1 j" if "j < ch_n ?h1" "j \<noteq> i" for j using K(5) [of j] that u1 n1 by simp
  have i1: "i < ch_n ?h1" "c_up ?h1 i" using i(1) u1 n1(1) by auto
  obtain h2 where h2: "rewires ?h1 h2" "c_net_ok h2" "c_links h2 = rejoin i (c_living h) (c_links h)"
      "ch_ReconnectPeer i ?h1 = Inr (h2\<lparr>ch_connected := (ch_connected h)[i := True]\<rparr>)"
    using c_ReconnectPeer [OF sv(4) i1 al] unfolding n1 sv(5) by blast
  note W = rewiresD [OF h2(1)]
  let ?h = "h2\<lparr>ch_connected := (ch_connected h)[i := True], ch_alive := (ch_alive h)[i := True]\<rparr>"
  have eq: "ch_RestartPeer i h = Inr ?h" using i sv(1) h2(4) n1 W(3) by (simp add: ch_RestartPeer_def)
  have "ch_alive ?h ! j = c_up ?h j" if "j < ch_n h" for j
    using that i(1) K(2,5) W(8) [of j] u1 n1(1) c_net_okD(2) [OF sv(4)] by (cases "j = i") simp_all
  moreover have "length (ch_alive ?h) = ch_n h \<and> length (ch_connected ?h) = ch_n h \<and> length (ch_commits ?h) = ch_n h \<and> ch_n ?h = ch_n h"
    using K(2-4) W n1 by simp
  ultimately have "ch_ok ?h" unfolding ch_ok_def using h2(2) by (simp only: c_net_ok_fields) blast
  moreover have "c_apart h2" by (rule c_apart_rewires [OF h2(1) sv(4) c_apart_put [OF K(1) ok(2) i(1)]]) (use sv(3) in simp)
  ultimately show ?thesis using eq h2(3) W(2) n1 by (auto simp: craft_ok_def)
qed

lemma craft_set_server:
  assumes hk: "craft_ok h" and i: "i < ch_n h"
    and s: "cs_peerClients s = cs_peerClients (ch_cluster h ! i)" "cs_once s = cs_once (ch_cluster h ! i)"
      "cs_addr s = cs_addr (ch_cluster h ! i)" "cs_cm s \<noteq> None" "restorable (cs_storage_of s)"
  shows "craft_ok (ch_put i (ch_net h) s h) \<and> (c_living (ch_put i (ch_net h) s h), c_links (ch_put i (ch_net h) s h)) = (c_living h, c_links h)"
proof -
  have ok: "ch_ok h" "c_apart h" using hk by (auto simp: craft_ok_def)
  note K = ch_okD [OF ok(1)] and D = c_net_okD [OF ch_okD(1) [OF ok(1)]]
  let ?h = "ch_put i (ch_net h) s h"
  have "c_net_ok ?h \<and> c_links ?h = c_links h"
  proof (rule c_net_ok_replace [OF K(1) i D(1)])
    show "c_server_ok (ch_net h) s" using D(3) [OF i] s by (simp add: c_server_ok_def)
  qed (use D(3) s in \<open>auto simp: c_client_def cs_client_def c_addr_def c_up_def\<close>)
  moreover have "c_up ?h j = c_up h j" for j using s(2) i D(2) by (cases "j = i") (auto simp: ch_put_def c_up_def)
  ultimately show ?thesis
    using c_apart_put [OF K(1) ok(2) i, of s "ch_net h"] s(3) K unfolding craft_ok_def ch_ok_def
    by (simp add: ch_put_def c_addr_def c_living_def)
qed

section \<open>A new harness\<close>

lemma ch_start_ok:
  assumes "can_listen w"
  shows "\<exists>w' ss. ch_start n is w = Inr (w', ss) \<and> length ss = length is \<and> can_listen w'
    \<and> next_port w' = next_port w + length is \<and> set (ports w') = set (ports w) \<union> {next_port w ..< next_port w + length is}
    \<and> (\<forall>k < length is. cs_cm (ss ! k) \<noteq> None \<and> restorable (cs_storage_of (ss ! k)) \<and> cs_peerClients (ss ! k) = []
         \<and> \<not> cs_once (ss ! k) \<and> cs_addr (ss ! k) = Some (next_port w + k))"
  using assms
proof (induction "is" arbitrary: w)
  case (Cons i "is")
  let ?w = "w\<lparr>ports := next_port w # ports w, next_port := Suc (next_port w)\<rparr>"
  let ?s = "(cs_NewServer (int i) (ch_peers n i) NewMapStorage)
      \<lparr>cs_cm := Some (part3_new (int i) (ch_peers n i)), cs_numCallsBeforeDrop := 0, cs_addr := Some (next_port w)\<rparr>"
  have sv: "cs_Serve w (cs_NewServer (int i) (ch_peers n i) NewMapStorage) = Inr (?w, ?s)"
    using Cons.prems by (simp add: cs_Serve_def cs_NewServer_def net_Listen_def ops_c_eq part3_new_eq)
  have cl: "can_listen ?w" using Cons.prems by simp
  obtain w' ss where IH: "ch_start n is ?w = Inr (w', ss)" "length ss = length is" "can_listen w'"
      "next_port w' = next_port ?w + length is" "set (ports w') = set (ports ?w) \<union> {next_port ?w ..< next_port ?w + length is}"
      "\<forall>k < length is. cs_cm (ss ! k) \<noteq> None \<and> restorable (cs_storage_of (ss ! k)) \<and> cs_peerClients (ss ! k) = []
         \<and> \<not> cs_once (ss ! k) \<and> cs_addr (ss ! k) = Some (next_port ?w + k)"
    using Cons.IH [OF cl] by blast
  have first: "cs_cm ?s \<noteq> None" "restorable (cs_storage_of ?s)" "cs_peerClients ?s = []" "\<not> cs_once ?s"
    by (simp_all add: cs_NewServer_def cs_storage_of_def part3_new_def restorable_new)
  have "\<forall>k < length (i # is). cs_cm ((?s # ss) ! k) \<noteq> None \<and> restorable (cs_storage_of ((?s # ss) ! k)) \<and> cs_peerClients ((?s # ss) ! k) = []
      \<and> \<not> cs_once ((?s # ss) ! k) \<and> cs_addr ((?s # ss) ! k) = Some (next_port w + k)"
    using IH(6) first by (auto simp: less_Suc_eq_0_disj)
  moreover have "ch_start n (i # is) w = Inr (w', ?s # ss)" using sv IH(1) by simp
  moreover have "{next_port w ..< next_port w + Suc k} = insert (next_port w) {Suc (next_port w) ..< Suc (next_port w) + k}" for k
    by auto
  then have "set (ports w') = set (ports w) \<union> {next_port w ..< next_port w + length (i # is)}" unfolding IH(5) by simp
  ultimately show ?case using IH(2-4) by (intro exI [of _ w'] exI [of _ "?s # ss"]) simp
qed simp

lemma c_connect_fold:
  assumes "c_net_ok h" "\<forall>(i, j) \<in> set ps. i < ch_n h \<and> j < ch_n h" "\<forall>i < ch_n h. c_up h i"
  defines "f \<equiv> \<lambda>(i, j) h. if i \<noteq> j then ch_connect i j h else h"
  shows "c_net_ok (fold f ps h) \<and> rewires h (fold f ps h) \<and> c_links (fold f ps h) = c_links h \<union> {(i, j) \<in> set ps. i \<noteq> j}"
  using assms(1-3)
proof (induction ps arbitrary: h)
  case (Cons x ps)
  obtain i j where x: "x = (i, j)" by fastforce
  have s: "c_net_ok (f x h) \<and> rewires h (f x h) \<and> c_links (f x h) = c_links h \<union> {(a, b). (a, b) = x \<and> a \<noteq> b}"
    using ch_connect_ok [OF Cons.prems(1), of i j] Cons.prems x by (auto simp: f_def)
  then have w: "rewires h (f x h)" by blast
  have "c_net_ok (fold f ps (f x h)) \<and> rewires (f x h) (fold f ps (f x h))
      \<and> c_links (fold f ps (f x h)) = c_links (f x h) \<union> {(i, j) \<in> set ps. i \<noteq> j}"
    by (rule Cons.IH) (use s Cons.prems rewiresD(2,8) [OF w] c_net_okD(2) [OF Cons.prems(1)] in auto)
  then show ?case using s rewires_trans [OF w] by auto
qed simp

lemma craft_new:
  "\<exists>h. ch_NewHarness empty_network n = Inr h \<and> craft_ok h \<and> ch_n h = n
     \<and> (c_living h, c_links h) = ({..<n}, {(i, j). i < n \<and> j < n \<and> i \<noteq> j})"
proof -
  obtain w ss where ss: "ch_start n [0..<n] empty_network = Inr (w, ss)" "length ss = n" "can_listen w"
      "next_port w = n" "set (ports w) = {0 ..< n}"
      "\<forall>k < n. cs_cm (ss ! k) \<noteq> None \<and> restorable (cs_storage_of (ss ! k)) \<and> cs_peerClients (ss ! k) = []
         \<and> \<not> cs_once (ss ! k) \<and> cs_addr (ss ! k) = Some k"
    using ch_start_ok [of empty_network n "[0..<n]"] by (auto simp: empty_network_def)
  let ?h = "\<lparr>ch_net = w, ch_cluster = ss, ch_commits = replicate n [], ch_connected = replicate n True,
         ch_alive = replicate n True, ch_closed = False, ch_n = n\<rparr>"
  let ?g = "fold (\<lambda>(i, j) h. if i \<noteq> j then ch_connect i j h else h) (List.product [0..<n] [0..<n]) ?h"
  have none: "i < n \<Longrightarrow> c_client ?h i k = None" for i k using ss(6) by (simp add: c_client_def cs_client_def)
  have net: "c_net_ok ?h" unfolding c_net_ok_def using ss none by (auto simp: c_server_ok_def)
  have up: "i < n \<Longrightarrow> c_up ?h i" for i using ss(6) by (simp add: c_up_def)
  have g: "c_net_ok ?g \<and> rewires ?h ?g \<and> c_links ?g = c_links ?h \<union> {(i, j) \<in> set (List.product [0..<n] [0..<n]). i \<noteq> j}"
    by (rule c_connect_fold [OF net]) (use up in auto)
  have ok: "craft_ok ?h"
    unfolding craft_ok_def ch_ok_def using net up ss(6) by (auto simp: c_apart_def c_addr_def)
  have "craft_ok (?g\<lparr>ch_connected := ch_connected ?g\<rparr>)"
    by (rule craft_ok_rewires [OF ok]) (use g rewiresD(4) [of ?h ?g] in auto)
  moreover have "c_links ?g = {(i, j). i < n \<and> j < n \<and> i \<noteq> j}" using g none by (auto simp: c_links_def)
  moreover have "ch_n ?g = n" "ch_alive ?g = replicate n True" using rewiresD(2,3) [of ?h ?g] g by auto
  ultimately show ?thesis using ss(1) by (intro exI [of _ ?g]) (auto simp: ch_NewHarness_def c_living_def)
qed

section \<open>Tests\<close>

text \<open>The operations of a test are those of \<^verbatim>\<open>raft/part3\<close>, and so is the specification \<open>link_step\<close>.\<close>

fun ch_step :: "int hop \<Rightarrow> CraftHarness \<Rightarrow> CraftHarness go" where
  "ch_step (HDisconnect i) h = ch_DisconnectPeer i h"
| "ch_step (HReconnect i) h = ch_ReconnectPeer i h"
| "ch_step (HCrash i) h = ch_CrashPeer i h"
| "ch_step (HRestart i) h = ch_RestartPeer i h"
| "ch_step (HDrop i n) h = ch_PeerDropCallsAfterN i n h"
| "ch_step (HDontDrop i) h = ch_PeerDontDropCalls i h"
| "ch_step (HSubmit i cmd) h = go_bind (ch_SubmitToServer i cmd h) (\<lambda>(h', k, es). Inr h')"
| "ch_step (HCollect i c) h = Inr (ch_collectCommits i c h)"
| "ch_step (HMove i cm) h = Inr (ch_put i (ch_net h) ((ch_cluster h ! i)\<lparr>cs_cm := Some cm\<rparr>) h)"

text \<open>What a test has to respect, as a condition on the number of servers and on which are alive.\<close>

fun legal_in :: "nat \<Rightarrow> nat set \<Rightarrow> 'c hop \<Rightarrow> bool" where
  "legal_in n A (HDisconnect i) = (i < n)"
| "legal_in n A (HReconnect i) = (i \<in> A)"
| "legal_in n A (HCrash i) = (i \<in> A)"
| "legal_in n A (HRestart i) = (i < n \<and> i \<notin> A)"
| "legal_in n A (HMove i cm) = (i < n \<and> restorable (storage cm))"
| "legal_in n A (HDrop i k) = (i < n)"
| "legal_in n A (HDontDrop i) = (i < n)"
| "legal_in n A (HSubmit i cmd) = (i < n)"
| "legal_in n A (HCollect i c) = (i < n)"

lemma c_living_update:
  "length (ch_alive h) = ch_n h \<Longrightarrow> i < ch_n h \<Longrightarrow> ch_n h' = ch_n h \<Longrightarrow> ch_alive h' = (ch_alive h)[i := b] \<Longrightarrow>
     c_living h' = (if b then insert i (c_living h) else c_living h - {i})"
  by (auto simp: c_living_def nth_list_update split: if_splits)

lemma ch_step_ok:
  assumes hk: "craft_ok h" and lg: "legal_in (ch_n h) (c_living h) x"
  shows "\<exists>h'. ch_step x h = Inr h' \<and> craft_ok h' \<and> ch_n h' = ch_n h \<and> (c_living h', c_links h') = link_step x (c_living h, c_links h)"
proof -
  have ok: "ch_ok h" using hk by (simp add: craft_ok_def)
  note K = ch_okD [OF ok]
  have sv: "cs_cm (ch_cluster h ! i) \<noteq> None \<and> restorable (cs_storage_of (ch_cluster h ! i))" if "i < ch_n h" for i
    using c_net_okD(3) [OF K(1) that] by (simp add: c_server_ok_def)
  have put_n: "ch_n (ch_put i w s h) = ch_n h" for i w s by (simp add: ch_put_def)
  show ?thesis
  proof (cases x)
    case (HDisconnect i)
    then show ?thesis using craft_disconnect [OF hk, of i] lg by (auto simp: c_living_def)
  next
    case (HReconnect i)
    then show ?thesis using craft_reconnect [OF hk, of i] lg by (auto simp: c_living_def)
  next
    case (HCrash i)
    then have i: "i < ch_n h" "ch_alive h ! i" using lg by (auto simp: c_living_def)
    then obtain h' where "ch_CrashPeer i h = Inr h'" "craft_ok h'" "c_links h' = isolate i (c_links h)" "ch_n h' = ch_n h"
        "ch_alive h' = (ch_alive h)[i := False]" using craft_crash [OF hk i] by auto
    then show ?thesis using HCrash c_living_update [OF K(2) i(1), of h' False] by simp
  next
    case (HRestart i)
    then have i: "i < ch_n h" "\<not> ch_alive h ! i" using lg by (auto simp: c_living_def)
    then obtain h' where "ch_RestartPeer i h = Inr h'" "craft_ok h'" "c_links h' = rejoin i (c_living h) (c_links h)" "ch_n h' = ch_n h"
        "ch_alive h' = (ch_alive h)[i := True]" using craft_restart [OF hk i] by auto
    then show ?thesis using HRestart c_living_update [OF K(2) i(1), of h' True] by simp
  next
    case (HDrop i n)
    then show ?thesis
      using craft_set_server [OF hk, of i "cs_DropCallsAfterN n (ch_cluster h ! i)"] lg sv [of i]
      by (auto simp: ch_PeerDropCallsAfterN_def cs_DropCallsAfterN_def cs_storage_of_def put_n)
  next
    case (HDontDrop i)
    then show ?thesis
      using craft_set_server [OF hk, of i "cs_DontDropCalls (ch_cluster h ! i)"] lg sv [of i]
      by (auto simp: ch_PeerDontDropCalls_def cs_DontDropCalls_def cs_storage_of_def put_n)
  next
    case (HSubmit i cmd)
    then have i: "i < ch_n h" using lg by simp
    obtain cm where cm: "cs_cm (ch_cluster h ! i) = Some cm" using sv [OF i] by auto
    obtain cm' k es where sb: "Submit cmd cm = (cm', k, es)" by (metis prod_cases3)
    have "restorable (storage cm')" using Submit_restorable [OF sb] sv [OF i] cm by (simp add: cs_storage_of_def)
    then show ?thesis
      using craft_set_server [OF hk i, of "(ch_cluster h ! i)\<lparr>cs_cm := Some cm'\<rparr>"] HSubmit i cm sb
      by (simp add: ch_SubmitToServer_def cs_Submit_def cs_storage_of_def ops_c_eq put_n)
  next
    case (HCollect i c)
    then show ?thesis using hk by (auto simp: ch_collectCommits_def craft_ok_def ch_ok_def c_living_def)
  next
    case (HMove i cm)
    then show ?thesis
      using craft_set_server [OF hk, of i "(ch_cluster h ! i)\<lparr>cs_cm := Some cm\<rparr>"] lg
      by (simp add: cs_storage_of_def put_n)
  qed
qed

fun ch_run :: "int hop list \<Rightarrow> CraftHarness \<Rightarrow> CraftHarness go" where
  "ch_run [] h = Inr h"
| "ch_run (x # xs) h = go_bind (ch_step x h) (ch_run xs)"

fun legal_plan :: "nat \<Rightarrow> 'c hop list \<Rightarrow> nat set \<times> (nat \<times> nat) set \<Rightarrow> bool" where
  "legal_plan n [] g = True"
| "legal_plan n (x # xs) g = (legal_in n (fst g) x \<and> legal_plan n xs (link_step x g))"

lemma ch_run_ok:
  assumes "craft_ok h" "legal_plan (ch_n h) xs (c_living h, c_links h)"
  shows "\<exists>h'. ch_run xs h = Inr h' \<and> craft_ok h' \<and> ch_n h' = ch_n h \<and> (c_living h', c_links h') = fold link_step xs (c_living h, c_links h)"
  using assms
proof (induction xs arbitrary: h)
  case (Cons x xs)
  obtain h1 where h1: "ch_step x h = Inr h1" "craft_ok h1" "ch_n h1 = ch_n h" "(c_living h1, c_links h1) = link_step x (c_living h, c_links h)"
    using ch_step_ok [OF Cons.prems(1)] Cons.prems(2) by auto
  then show ?case using Cons.IH [OF h1(2)] Cons.prems(2) by auto
qed simp

lemma craft_calls_follow_links:
  assumes hk: "craft_ok h" and ij: "i < ch_n h" "j < ch_n h"
  shows "cs_Call (int j) (ch_net h) (ch_cluster h ! i) = (if (i, j) \<in> c_links h then c_addr h j else None)"
proof (cases "c_client h i (int j)")
  case None
  then show ?thesis
    by (auto simp: cs_Call_def cs_GetPeerClient_def c_links_def c_client_def cs_client_def split: option.splits)
next
  case (Some a)
  have net: "c_net_ok h" using hk by (simp add: craft_ok_def ch_ok_def)
  note D = c_net_okD [OF net]
  have "(i, j) \<in> c_links h" "map_of (cs_peerClients (ch_cluster h ! i)) (int j) = Some (Some a)"
    using Some ij by (auto simp: c_links_def c_client_def cs_client_def split: option.splits)
  moreover have "a = c_addr h j" "c_up h j" using D(4) [OF ij(1) Some] by (auto simp: c_link_ok_def)
  moreover obtain p where "c_addr h j = Some p" "p \<in> set (ports (ch_net h)) \<longleftrightarrow> c_up h j"
    using D(3) [OF ij(2)] unfolding c_server_ok_def c_addr_def c_up_def by blast
  ultimately show ?thesis by (simp add: cs_Call_def cs_GetPeerClient_def)
qed

text \<open>C37: A test of the craft harness that crashes and reconnects only live servers and restarts only
  dead ones runs to its end without a panic or a failure of the test, its live servers and the links
  between them are those of the same specification \<open>link_step\<close> that the harness of
  \<^verbatim>\<open>raft/part3\<close> implements, and a call between two servers reaches the address the peer listens at
  now exactly when they are linked, whatever \<^verbatim>\<open>DropCallsAfterN\<close> was asked for on the way.\<close>

theorem craft_harness_refines_links:
  assumes "legal_plan n xs ({..<n}, {(i, j). i < n \<and> j < n \<and> i \<noteq> j})"
  shows "\<exists>h0 h. ch_NewHarness empty_network n = Inr h0 \<and> ch_run xs h0 = Inr h
     \<and> (c_living h, c_links h) = fold link_step xs ({..<n}, {(i, j). i < n \<and> j < n \<and> i \<noteq> j})
     \<and> (\<forall>i < n. \<forall>j < n. cs_Call (int j) (ch_net h) (ch_cluster h ! i)
           = (if (i, j) \<in> c_links h then cs_GetListenAddr (ch_cluster h ! j) else None))"
proof -
  obtain h0 where h0: "ch_NewHarness empty_network n = Inr h0" "craft_ok h0" "ch_n h0 = n"
      "(c_living h0, c_links h0) = ({..<n}, {(i, j). i < n \<and> j < n \<and> i \<noteq> j})" using craft_new by blast
  then obtain h where h: "ch_run xs h0 = Inr h" "craft_ok h" "ch_n h = n" "(c_living h, c_links h) = fold link_step xs (c_living h0, c_links h0)"
    using ch_run_ok [OF h0(2), of xs] assms by auto
  then show ?thesis
    using h0 craft_calls_follow_links [OF h(2)] by (auto simp: c_addr_def cs_GetListenAddr_def)
qed

theorem craft_harness_refines_links_witness:
  "\<exists>h0 h. ch_NewHarness empty_network 3 = Inr h0
     \<and> ch_run [HCrash 1, HDrop 0 0, HRestart 1, HDisconnect 2] h0 = Inr h
     \<and> cs_Call 1 (ch_net h) (ch_cluster h ! 0) = cs_GetListenAddr (ch_cluster h ! 1)
     \<and> cs_Call 2 (ch_net h) (ch_cluster h ! 0) = None"
proof -
  let ?xs = "[HCrash 1, HDrop 0 0, HRestart 1, HDisconnect 2] :: int hop list"
  let ?E = "{(i, j). i < (3::nat) \<and> j < 3 \<and> i \<noteq> j}"
  have "legal_plan 3 ?xs ({..<3}, ?E)" by simp
  from craft_harness_refines_links [OF this]
  obtain h0 h where h: "ch_NewHarness empty_network 3 = Inr h0" "ch_run ?xs h0 = Inr h"
      "(c_living h, c_links h) = fold link_step ?xs ({..<3}, ?E)"
      "\<forall>i < 3. \<forall>j < 3. cs_Call (int j) (ch_net h) (ch_cluster h ! i)
           = (if (i, j) \<in> c_links h then cs_GetListenAddr (ch_cluster h ! j) else None)" by blast
  have "(0, 1) \<in> c_links h" "(0, 2) \<notin> c_links h" using h(3) by (auto simp: isolate_def rejoin_def)
  moreover have "cs_Call (int 1) (ch_net h) (ch_cluster h ! 0) = (if (0, 1) \<in> c_links h then cs_GetListenAddr (ch_cluster h ! 1) else None)"
      "cs_Call (int 2) (ch_net h) (ch_cluster h ! 0) = (if (0, 2) \<in> c_links h then cs_GetListenAddr (ch_cluster h ! 2) else None)"
    using spec [OF h(4), of 0] by (simp_all del: of_nat_1 of_nat_numeral One_nat_def)
  ultimately show ?thesis using h(1,2) by (intro exI [of _ h0] exI [of _ h]) simp
qed

end
