(* ===== verification/KVService.thy ===== *)
theory KVService
  imports Raft3Facts
begin

text \<open>
  The key-value service with request deduplication, \<^verbatim>\<open>src/raft/part5kv\<close>: commands and responses
  (\<^verbatim>\<open>kvservice/command.go\<close>, \<^verbatim>\<open>api/api.go\<close>), the data store (\<^verbatim>\<open>kvservice/datastore.go\<close>) and the service
  (\<^verbatim>\<open>kvservice/kvservice.go\<close>) on top of the consensus module of \<^verbatim>\<open>raft/part3\<close>.

  A handler submits a command to Raft and then waits on a channel for the entry that is committed at
  its index, so it is split at the wait: \<open>handlePut\<close> up to the wait, \<open>reply_to\<close> from the value
  received to the response, which is the same code in the four handlers. A channel is a number; \<open>runUpdater\<close> says what is sent on which channel.
  Reading the JSON body of a request is the argument \<open>Some\<close> request, or \<open>None\<close> when it fails. Strings are
  character lists; \<^verbatim>\<open>kvlog\<close> only prints.
\<close>

section \<open>Commands and responses\<close>

datatype CommandKind = CommandInvalid | CommandGet | CommandPut | CommandAppend | CommandCAS

fun CommandKind_String :: "CommandKind \<Rightarrow> string" where
  "CommandKind_String CommandInvalid = ''invalid''"
| "CommandKind_String CommandGet = ''get''"
| "CommandKind_String CommandPut = ''put''"
| "CommandKind_String CommandAppend = ''append''"
| "CommandKind_String CommandCAS = ''cas''"

record KVCommand =
  Kind :: CommandKind
  Key :: string
  Value :: string
  CompareValue :: string
  ResultValue :: string
  ResultFound :: bool
  ServiceID :: int
  ClientID :: int
  RequestID :: int
  IsDuplicate :: bool

definition zero_command :: KVCommand where
  "zero_command = \<lparr>Kind = CommandInvalid, Key = [], Value = [], CompareValue = [], ResultValue = [],
     ResultFound = False, ServiceID = 0, ClientID = 0, RequestID = 0, IsDuplicate = False\<rparr>"

datatype ResponseStatus = StatusInvalid | StatusOK | StatusNotLeader | StatusFailedCommit | StatusDuplicateRequest

fun ResponseStatus_String :: "ResponseStatus \<Rightarrow> string" where
  "ResponseStatus_String StatusInvalid = ''invalid''"
| "ResponseStatus_String StatusOK = ''OK''"
| "ResponseStatus_String StatusNotLeader = ''NotLeader''"
| "ResponseStatus_String StatusFailedCommit = ''FailedCommit''"
| "ResponseStatus_String StatusDuplicateRequest = ''DuplicateRequest''"

record PutRequest =
  put_Key :: string
  put_Value :: string
  put_ClientID :: int
  put_RequestID :: int

record AppendRequest =
  app_Key :: string
  app_Value :: string
  app_ClientID :: int
  app_RequestID :: int

record GetRequest =
  get_Key :: string
  get_ClientID :: int
  get_RequestID :: int

record CASRequest =
  cas_Key :: string
  cas_CompareValue :: string
  cas_Value :: string
  cas_ClientID :: int
  cas_RequestID :: int

text \<open>The four response structures have the same three fields; the field of \<^verbatim>\<open>GetResponse\<close> that the others
  call \<^verbatim>\<open>PrevValue\<close> is \<^verbatim>\<open>Value\<close>.\<close>

record KVResponse =
  RespStatus :: ResponseStatus
  KeyFound :: bool
  PrevValue :: string

definition status_only :: "ResponseStatus \<Rightarrow> KVResponse" where
  "status_only st = \<lparr>RespStatus = st, KeyFound = False, PrevValue = []\<rparr>"

section \<open>The data store\<close>

record DataStore =
  ds_data :: "string \<rightharpoonup> string"

definition NewDataStore :: DataStore where
  "NewDataStore = \<lparr>ds_data = Map.empty\<rparr>"

text \<open>Reading an absent key of a Go map of strings gives the empty string and \<^verbatim>\<open>false\<close>.\<close>

definition ds_Get :: "DataStore \<Rightarrow> string \<Rightarrow> string \<times> bool" where
  "ds_Get ds key = (case ds_data ds key of None \<Rightarrow> ([], False) | Some v \<Rightarrow> (v, True))"

definition ds_Put :: "DataStore \<Rightarrow> string \<Rightarrow> string \<Rightarrow> DataStore \<times> string \<times> bool" where
  "ds_Put ds key v = (let (old, ok) = ds_Get ds key in (ds\<lparr>ds_data := (ds_data ds)(key \<mapsto> v)\<rparr>, old, ok))"

definition ds_Append :: "DataStore \<Rightarrow> string \<Rightarrow> string \<Rightarrow> DataStore \<times> string \<times> bool" where
  "ds_Append ds key v =
     (let (old, ok) = ds_Get ds key in (ds\<lparr>ds_data := (ds_data ds)(key \<mapsto> old @ v)\<rparr>, old, ok))"

definition ds_CAS :: "DataStore \<Rightarrow> string \<Rightarrow> string \<Rightarrow> string \<Rightarrow> DataStore \<times> string \<times> bool" where
  "ds_CAS ds key compare v =
     (let (prevValue, ok) = ds_Get ds key
      in (if ok \<and> prevValue = compare then ds\<lparr>ds_data := (ds_data ds)(key \<mapsto> v)\<rparr> else ds, prevValue, ok))"

section \<open>The service\<close>

record KVServiceState =
  kv_id :: int
  commitSubs :: "int \<rightharpoonup> nat"
  next_chan :: nat
  kv_ds :: DataStore
  lastRequestIDPerClient :: "int \<rightharpoonup> int"
  delayNextHTTPResponse :: bool

definition kv_New :: "int \<Rightarrow> KVServiceState" where
  "kv_New i = \<lparr>kv_id = i, commitSubs = Map.empty, next_chan = 0, kv_ds = NewDataStore,
     lastRequestIDPerClient = Map.empty, delayNextHTTPResponse = False\<rparr>"

definition DelayNextHTTPResponse :: "KVServiceState \<Rightarrow> KVServiceState" where
  "DelayNextHTTPResponse kvs = kvs\<lparr>delayNextHTTPResponse := True\<rparr>"

text \<open>The response is sent in any case; the flag only delays it once.\<close>

definition sendHTTPResponse :: "KVResponse \<Rightarrow> KVServiceState \<Rightarrow> KVServiceState \<times> KVResponse" where
  "sendHTTPResponse v kvs =
     ((if delayNextHTTPResponse kvs then kvs\<lparr>delayNextHTTPResponse := False\<rparr> else kvs), v)"

definition createCommitSubscription :: "int \<Rightarrow> KVServiceState \<Rightarrow> (KVServiceState \<times> nat) go" where
  "createCommitSubscription logIndex kvs =
     (if commitSubs kvs logIndex \<noteq> None then Inl (Explicit ''duplicate commit subscription'')
      else Inr (kvs\<lparr>commitSubs := (commitSubs kvs)(logIndex \<mapsto> next_chan kvs), next_chan := Suc (next_chan kvs)\<rparr>,
                next_chan kvs))"

definition popCommitSubscription :: "int \<Rightarrow> KVServiceState \<Rightarrow> KVServiceState \<times> nat option" where
  "popCommitSubscription logIndex kvs =
     (kvs\<lparr>commitSubs := (commitSubs kvs)(logIndex := None)\<rparr>, commitSubs kvs logIndex)"

text \<open>The switch of the updater.\<close>

definition apply_command :: "KVCommand \<Rightarrow> DataStore \<Rightarrow> (DataStore \<times> KVCommand) go" where
  "apply_command cmd ds =
     (case Kind cmd of
        CommandGet \<Rightarrow>
          (let (v, ok) = ds_Get ds (Key cmd) in Inr (ds, cmd\<lparr>ResultValue := v, ResultFound := ok\<rparr>))
      | CommandPut \<Rightarrow>
          (let (ds', v, ok) = ds_Put ds (Key cmd) (Value cmd) in Inr (ds', cmd\<lparr>ResultValue := v, ResultFound := ok\<rparr>))
      | CommandAppend \<Rightarrow>
          (let (ds', v, ok) = ds_Append ds (Key cmd) (Value cmd)
           in Inr (ds', cmd\<lparr>ResultValue := v, ResultFound := ok\<rparr>))
      | CommandCAS \<Rightarrow>
          (let (ds', v, ok) = ds_CAS ds (Key cmd) (CompareValue cmd) (Value cmd)
           in Inr (ds', cmd\<lparr>ResultValue := v, ResultFound := ok\<rparr>))
      | CommandInvalid \<Rightarrow> Inl (Explicit ''unexpected command''))"

text \<open>One round of the updater: the new state, and what it sends on which channel.\<close>

definition is_duplicate :: "KVCommand \<Rightarrow> (int \<rightharpoonup> int) \<Rightarrow> bool" where
  "is_duplicate cmd lastReq =
     (case lastReq (ClientID cmd) of None \<Rightarrow> False | Some lastReqID \<Rightarrow> lastReqID \<ge> RequestID cmd)"

definition runUpdater ::
  "KVCommand CommitEntry \<Rightarrow> KVServiceState \<Rightarrow> (KVServiceState \<times> (nat \<times> KVCommand) option) go" where
  "runUpdater entry kvs =
     (let cmd = ce_Command entry
      in go_bind
           (if is_duplicate cmd (lastRequestIDPerClient kvs)
            then Inr (kvs, zero_command\<lparr>Kind := Kind cmd, IsDuplicate := True\<rparr>)
            else let kvs1 = kvs\<lparr>lastRequestIDPerClient := (lastRequestIDPerClient kvs)(ClientID cmd \<mapsto> RequestID cmd)\<rparr>
                 in go_bind (apply_command cmd (kv_ds kvs1)) (\<lambda>(ds, cmd'). Inr (kvs1\<lparr>kv_ds := ds\<rparr>, cmd')))
           (\<lambda>(kvs2, cmd2).
              let (kvs3, sub) = popCommitSubscription (ce_Index entry) kvs2
              in Inr (kvs3, case sub of None \<Rightarrow> None | Some ch \<Rightarrow> Some (ch, cmd2))))"

section \<open>The handlers\<close>

text \<open>Where a handler stands after its first part: it has answered with HTTP status 400, it has sent a
  response, or it waits on a channel.\<close>

datatype phase = BadRequest | Responded KVResponse | WaitsOn nat

definition submit_and_wait ::
  "KVCommand \<Rightarrow> KVServiceState \<Rightarrow> KVCommand ConsensusModule
     \<Rightarrow> (KVServiceState \<times> KVCommand ConsensusModule \<times> effect list \<times> phase) go" where
  "submit_and_wait cmd kvs cm =
     (let (cm1, logIndex, es) = Submit cmd cm
      in if logIndex < 0
         then let (kvs1, r) = sendHTTPResponse (status_only StatusNotLeader) kvs in Inr (kvs1, cm1, es, Responded r)
         else go_bind (createCommitSubscription logIndex kvs) (\<lambda>(kvs1, sub). Inr (kvs1, cm1, es, WaitsOn sub)))"

definition reply_to :: "KVCommand \<Rightarrow> KVServiceState \<Rightarrow> KVServiceState \<times> KVResponse" where
  "reply_to commitCmd kvs =
     (if ServiceID commitCmd = kv_id kvs
      then if IsDuplicate commitCmd
           then sendHTTPResponse (status_only StatusDuplicateRequest) kvs
           else sendHTTPResponse \<lparr>RespStatus = StatusOK, KeyFound = ResultFound commitCmd,
                                  PrevValue = ResultValue commitCmd\<rparr> kvs
      else sendHTTPResponse (status_only StatusFailedCommit) kvs)"

definition handlePut ::
  "PutRequest option \<Rightarrow> KVServiceState \<Rightarrow> KVCommand ConsensusModule
     \<Rightarrow> (KVServiceState \<times> KVCommand ConsensusModule \<times> effect list \<times> phase) go" where
  "handlePut req kvs cm =
     (case req of
        None \<Rightarrow> Inr (kvs, cm, [], BadRequest)
      | Some pr \<Rightarrow>
          submit_and_wait (zero_command\<lparr>Kind := CommandPut, Key := put_Key pr, Value := put_Value pr,
            ServiceID := kv_id kvs, ClientID := put_ClientID pr, RequestID := put_RequestID pr\<rparr>) kvs cm)"

definition handleAppend ::
  "AppendRequest option \<Rightarrow> KVServiceState \<Rightarrow> KVCommand ConsensusModule
     \<Rightarrow> (KVServiceState \<times> KVCommand ConsensusModule \<times> effect list \<times> phase) go" where
  "handleAppend req kvs cm =
     (case req of
        None \<Rightarrow> Inr (kvs, cm, [], BadRequest)
      | Some ar \<Rightarrow>
          submit_and_wait (zero_command\<lparr>Kind := CommandAppend, Key := app_Key ar, Value := app_Value ar,
            ServiceID := kv_id kvs, ClientID := app_ClientID ar, RequestID := app_RequestID ar\<rparr>) kvs cm)"

definition handleGet ::
  "GetRequest option \<Rightarrow> KVServiceState \<Rightarrow> KVCommand ConsensusModule
     \<Rightarrow> (KVServiceState \<times> KVCommand ConsensusModule \<times> effect list \<times> phase) go" where
  "handleGet req kvs cm =
     (case req of
        None \<Rightarrow> Inr (kvs, cm, [], BadRequest)
      | Some gr \<Rightarrow>
          submit_and_wait (zero_command\<lparr>Kind := CommandGet, Key := get_Key gr,
            ServiceID := kv_id kvs, ClientID := get_ClientID gr, RequestID := get_RequestID gr\<rparr>) kvs cm)"

definition handleCAS ::
  "CASRequest option \<Rightarrow> KVServiceState \<Rightarrow> KVCommand ConsensusModule
     \<Rightarrow> (KVServiceState \<times> KVCommand ConsensusModule \<times> effect list \<times> phase) go" where
  "handleCAS req kvs cm =
     (case req of
        None \<Rightarrow> Inr (kvs, cm, [], BadRequest)
      | Some cr \<Rightarrow>
          submit_and_wait (zero_command\<lparr>Kind := CommandCAS, Key := cas_Key cr, Value := cas_Value cr,
            CompareValue := cas_CompareValue cr,
            ServiceID := kv_id kvs, ClientID := cas_ClientID cr, RequestID := cas_RequestID cr\<rparr>) kvs cm)"

section \<open>The store interface\<close>

text \<open>What the clients of a key-value store rely on: a write is read back and disturbs no other key, and
  a compare-and-swap writes exactly when the key holds the expected value.\<close>

locale kv_store =
  fixes sget :: "'d \<Rightarrow> string \<Rightarrow> string \<times> bool"
    and sput :: "'d \<Rightarrow> string \<Rightarrow> string \<Rightarrow> 'd \<times> string \<times> bool"
    and scas :: "'d \<Rightarrow> string \<Rightarrow> string \<Rightarrow> string \<Rightarrow> 'd \<times> string \<times> bool"
  assumes put_old: "sput d k v = (d', r) \<Longrightarrow> r = sget d k"
    and put_get: "sput d k v = (d', r) \<Longrightarrow> sget d' j = (if j = k then (v, True) else sget d j)"
    and cas_old: "scas d k e v = (d', r) \<Longrightarrow> r = sget d k"
    and cas_get: "scas d k e v = (d', r) \<Longrightarrow>
           sget d' j = (if j = k \<and> sget d k = (e, True) then (v, True) else sget d j)"
begin

text \<open>A compare-and-swap that expects what a put has just written succeeds.\<close>

lemma cas_after_put:
  assumes "sput d k v = (d1, r1)" "scas d1 k v w = (d2, r2)"
  shows "sget d2 k = (w, True)" "r2 = (v, True)"
  using put_get [OF assms(1), of k] cas_get [OF assms(2), of k] cas_old [OF assms(2)] by simp_all

text \<open>Two compare-and-swaps that expect the same value and write another one do not both succeed.\<close>

lemma cas_once:
  assumes "scas d k e v = (d1, r1)" "scas d1 k e w = (d2, r2)" "r1 = (e, True)" "v \<noteq> e"
  shows "r2 = (v, True)" "sget d2 j = sget d1 j"
proof -
  have a: "sget d k = (e, True)" using cas_old [OF assms(1)] assms(3) by simp
  then have b: "sget d1 k = (v, True)" using cas_get [OF assms(1), of k] by simp
  then show "r2 = (v, True)" using cas_old [OF assms(2)] by simp
  show "sget d2 j = sget d1 j" using cas_get [OF assms(2), of j] b assms(4) by simp
qed

end

lemmas ds_ops = ds_Get_def ds_Put_def ds_Append_def ds_CAS_def

interpretation ds: kv_store ds_Get ds_Put ds_CAS
  by unfold_locales (auto simp: ds_ops Let_def split: option.splits if_splits)

section \<open>The replicated state machine\<close>

text \<open>The updater on a whole stream of committed entries, and the commands that it executes.\<close>

fun updater_all ::
  "KVCommand CommitEntry list \<Rightarrow> KVServiceState \<Rightarrow> (KVServiceState \<times> (nat \<times> KVCommand) list) go" where
  "updater_all [] kvs = Inr (kvs, [])"
| "updater_all (e # es) kvs =
     go_bind (runUpdater e kvs) (\<lambda>(kvs1, d). go_bind (updater_all es kvs1) (\<lambda>(kvs2, ds).
       Inr (kvs2, (case d of None \<Rightarrow> ds | Some x \<Rightarrow> x # ds))))"

fun executed :: "KVCommand list \<Rightarrow> (int \<rightharpoonup> int) \<Rightarrow> KVCommand list" where
  "executed [] lr = []"
| "executed (c # cs) lr =
     (if is_duplicate c lr then executed cs lr else c # executed cs (lr(ClientID c \<mapsto> RequestID c)))"

fun apply_all :: "KVCommand list \<Rightarrow> DataStore \<Rightarrow> DataStore go" where
  "apply_all [] ds = Inr ds"
| "apply_all (c # cs) ds = go_bind (apply_command c ds) (\<lambda>(ds', r). apply_all cs ds')"

definition newer :: "KVCommand \<Rightarrow> KVCommand \<Rightarrow> bool" where
  "newer a b \<longleftrightarrow> (ClientID a = ClientID b \<longrightarrow> RequestID a < RequestID b)"

lemma runUpdater_Inr:
  assumes "runUpdater e kvs = Inr (kvs', d)"
  shows "if is_duplicate (ce_Command e) (lastRequestIDPerClient kvs)
         then kv_ds kvs' = kv_ds kvs \<and> lastRequestIDPerClient kvs' = lastRequestIDPerClient kvs
         else (\<exists>r. apply_command (ce_Command e) (kv_ds kvs) = Inr (kv_ds kvs', r))
              \<and> lastRequestIDPerClient kvs' =
                  (lastRequestIDPerClient kvs)(ClientID (ce_Command e) \<mapsto> RequestID (ce_Command e))"
  using assms
  by (auto simp: runUpdater_def popCommitSubscription_def Let_def go_bind_eq_Inr split: if_splits)

lemma updater_executes:
  "updater_all es kvs = Inr (kvs', dl) \<Longrightarrow>
     apply_all (executed (map ce_Command es) (lastRequestIDPerClient kvs)) (kv_ds kvs) = Inr (kv_ds kvs')"
proof (induction es arbitrary: kvs dl)
  case (Cons e es)
  then obtain kvs1 d dl1 where 1: "runUpdater e kvs = Inr (kvs1, d)" "updater_all es kvs1 = Inr (kvs', dl1)"
    by (auto simp: go_bind_eq_Inr)
  from runUpdater_Inr [OF 1(1)] Cons.IH [OF 1(2)] show ?case by (auto simp del: fun_upd_apply split: if_splits)
qed simp

lemma executed_newer:
  "c \<in> set (executed cs lr) \<Longrightarrow> lr (ClientID c) = Some r \<Longrightarrow> r < RequestID c"
  by (induction cs arbitrary: lr r) (fastforce simp: is_duplicate_def split: if_splits option.splits)+

lemma executed_sorted: "sorted_wrt newer (executed cs lr)"
  by (induction cs arbitrary: lr) (auto simp: newer_def dest: executed_newer)

lemma executed_first:
  assumes "i < length cs" "\<not> is_duplicate (cs ! i) lr" "\<And>j. j < i \<Longrightarrow> newer (cs ! j) (cs ! i)"
  shows "cs ! i \<in> set (executed cs lr)"
  using assms
proof (induction cs arbitrary: i lr)
  case (Cons c cs)
  show ?case
  proof (cases i)
    case 0
    then show ?thesis using Cons.prems by simp
  next
    case (Suc k)
    have c: "newer c (cs ! k)" using Cons.prems(3) [of 0] Suc by simp
    have "newer (cs ! j) (cs ! k)" if "j < k" for j using Cons.prems(3) [of "Suc j"] Suc that by simp
    moreover have "\<not> is_duplicate (cs ! k) lr" using Cons.prems(2) Suc by simp
    moreover have "\<not> is_duplicate (cs ! k) (lr(ClientID c \<mapsto> RequestID c))"
      using calculation(2) c by (auto simp: is_duplicate_def newer_def)
    ultimately show ?thesis using Cons.IH [of k] Cons.prems(1) Suc by auto
  qed
qed simp

text \<open>
  C18: requests take effect at most once and in order. Whatever stream of committed entries a service
  applies, its data store is the result of executing a subsequence of the commands in which the
  request ids of each client strictly increase, so no retried request is executed twice; and a
  command that comes after only smaller request ids of its client is executed.
\<close>

theorem kv_at_most_once:
  assumes "updater_all es kvs = Inr (kvs', dl)"
  defines "cs \<equiv> map ce_Command es"
    and "xs \<equiv> executed (map ce_Command es) (lastRequestIDPerClient kvs)"
  shows "apply_all xs (kv_ds kvs) = Inr (kv_ds kvs')
    \<and> (\<forall>i < length xs. \<forall>j < i. ClientID (xs ! j) = ClientID (xs ! i) \<longrightarrow> RequestID (xs ! j) < RequestID (xs ! i))
    \<and> set xs \<subseteq> set cs
    \<and> (\<forall>i < length cs. (\<forall>r. lastRequestIDPerClient kvs (ClientID (cs ! i)) = Some r \<longrightarrow> r < RequestID (cs ! i))
         \<longrightarrow> (\<forall>j < i. ClientID (cs ! j) = ClientID (cs ! i) \<longrightarrow> RequestID (cs ! j) < RequestID (cs ! i))
         \<longrightarrow> cs ! i \<in> set xs)"
proof (intro conjI)
  show "apply_all xs (kv_ds kvs) = Inr (kv_ds kvs')"
    unfolding xs_def by (rule updater_executes [OF assms(1)])
  have "sorted_wrt newer xs" unfolding xs_def by (rule executed_sorted)
  then show "\<forall>i < length xs. \<forall>j < i. ClientID (xs ! j) = ClientID (xs ! i) \<longrightarrow> RequestID (xs ! j) < RequestID (xs ! i)"
    by (auto simp: sorted_wrt_iff_nth_less newer_def)
  have "set (executed cs lr) \<subseteq> set cs" for lr
    by (induction cs arbitrary: lr) auto
  then show "set xs \<subseteq> set cs" by (simp add: xs_def cs_def)
  show "\<forall>i < length cs. (\<forall>r. lastRequestIDPerClient kvs (ClientID (cs ! i)) = Some r \<longrightarrow> r < RequestID (cs ! i))
         \<longrightarrow> (\<forall>j < i. ClientID (cs ! j) = ClientID (cs ! i) \<longrightarrow> RequestID (cs ! j) < RequestID (cs ! i))
         \<longrightarrow> cs ! i \<in> set xs"
    using executed_first [of _ cs "lastRequestIDPerClient kvs"]
    by (fastforce simp: xs_def cs_def newer_def is_duplicate_def split: option.splits)
qed

definition kv_cmd :: "CommandKind \<Rightarrow> string \<Rightarrow> string \<Rightarrow> int \<Rightarrow> int \<Rightarrow> KVCommand" where
  "kv_cmd k key v cl rq = zero_command\<lparr>Kind := k, Key := key, Value := v, ClientID := cl, RequestID := rq\<rparr>"

text \<open>A client writes, appends, and the append is committed twice because the client retried it.\<close>

definition ex_stream :: "KVCommand CommitEntry list" where
  "ex_stream = map (\<lambda>(i, c). \<lparr>ce_Command = c, ce_Index = i, ce_Term = 1\<rparr>)
     [(0, kv_cmd CommandPut ''k'' ''a'' 7 1), (1, kv_cmd CommandAppend ''k'' ''b'' 7 2),
      (2, kv_cmd CommandAppend ''k'' ''b'' 7 2)]"

lemmas kv_ops = runUpdater_def popCommitSubscription_def apply_command_def is_duplicate_def ds_ops kv_cmd_def
  zero_command_def kv_New_def NewDataStore_def

lemma ex_stream_run:
  "\<exists>kvs' dl. updater_all ex_stream (kv_New 1) = Inr (kvs', dl) \<and> ds_Get (kv_ds kvs') ''k'' = (''ab'', True)"
  by (simp add: ex_stream_def kv_ops)

theorem kv_at_most_once_witness:
  "\<exists>kvs' dl. updater_all ex_stream (kv_New 1) = Inr (kvs', dl)
     \<and> apply_all [kv_cmd CommandPut ''k'' ''a'' 7 1, kv_cmd CommandAppend ''k'' ''b'' 7 2] NewDataStore = Inr (kv_ds kvs')"
proof -
  obtain kvs' dl where r: "updater_all ex_stream (kv_New 1) = Inr (kvs', dl)" using ex_stream_run by blast
  have x: "executed (map ce_Command ex_stream) (lastRequestIDPerClient (kv_New 1))
     = [kv_cmd CommandPut ''k'' ''a'' 7 1, kv_cmd CommandAppend ''k'' ''b'' 7 2]"
    by (simp add: ex_stream_def kv_ops)
  from kv_at_most_once [OF r] show ?thesis using r unfolding x by (auto simp: kv_New_def)
qed

lemma updater_total:
  "apply_all (executed (map ce_Command es) (lastRequestIDPerClient kvs)) (kv_ds kvs) = Inr d \<Longrightarrow>
     \<exists>kvs' dl. updater_all es kvs = Inr (kvs', dl) \<and> kv_ds kvs' = d"
proof (induction es arbitrary: kvs)
  case (Cons e es)
  let ?c = "ce_Command e"
  show ?case
  proof (cases "is_duplicate ?c (lastRequestIDPerClient kvs)")
    case True
    then obtain kvs1 x where u: "runUpdater e kvs = Inr (kvs1, x)"
      by (simp add: runUpdater_def popCommitSubscription_def Let_def)
    then obtain kvs2 dl where "updater_all es kvs1 = Inr (kvs2, dl)" "kv_ds kvs2 = d"
      using True Cons.IH [of kvs1] Cons.prems runUpdater_Inr [OF u] by auto
    then show ?thesis using u by simp
  next
    case False
    then obtain ds r where a: "apply_command ?c (kv_ds kvs) = Inr (ds, r)"
      using Cons.prems by (auto simp: go_bind_eq_Inr)
    with False obtain kvs1 x where u: "runUpdater e kvs = Inr (kvs1, x)"
      by (simp add: runUpdater_def popCommitSubscription_def Let_def)
    have "kv_ds kvs1 = ds"
      "lastRequestIDPerClient kvs1 = (lastRequestIDPerClient kvs)(ClientID ?c \<mapsto> RequestID ?c)"
      using runUpdater_Inr [OF u] False a by auto
    with False a Cons.prems obtain kvs2 dl where "updater_all es kvs1 = Inr (kvs2, dl)" "kv_ds kvs2 = d"
      using Cons.IH [of kvs1] by (auto simp del: fun_upd_apply)
    then show ?thesis using u by simp
  qed
qed simp

text \<open>
  Replicas agree. If two services start with equal stores and equal request histories and their
  Raft servers deliver the same commands, then the second applies them without a panic whenever the
  first does, and the stores are equal afterwards, whatever their ids, indices and subscriptions.
\<close>

theorem kv_replicas_agree:
  assumes "updater_all es1 kvs1 = Inr (kvs1', dl1)" "map ce_Command es1 = map ce_Command es2"
    and "kv_ds kvs1 = kv_ds kvs2" "lastRequestIDPerClient kvs1 = lastRequestIDPerClient kvs2"
  shows "\<exists>kvs2' dl2. updater_all es2 kvs2 = Inr (kvs2', dl2) \<and> kv_ds kvs2' = kv_ds kvs1'"
  by (rule updater_total) (use updater_executes [OF assms(1)] assms(2-4) in simp)

theorem kv_replicas_agree_witness:
  "\<exists>kvs' dl. updater_all (map (\<lambda>e. e\<lparr>ce_Term := 2\<rparr>) ex_stream) (kv_New 2) = Inr (kvs', dl)
     \<and> ds_Get (kv_ds kvs') ''k'' = (''ab'', True)"
proof -
  obtain kvs1 dl1 where r: "updater_all ex_stream (kv_New 1) = Inr (kvs1, dl1)" "ds_Get (kv_ds kvs1) ''k'' = (''ab'', True)"
    using ex_stream_run by blast
  have "\<exists>kvs' dl. updater_all (map (\<lambda>e. e\<lparr>ce_Term := 2\<rparr>) ex_stream) (kv_New 2) = Inr (kvs', dl) \<and> kv_ds kvs' = kv_ds kvs1"
    by (rule kv_replicas_agree [OF r(1)]) (simp_all add: kv_New_def)
  then show ?thesis using r(2) by auto
qed


definition ex_put :: PutRequest where
  "ex_put = \<lparr>put_Key = ''k'', put_Value = ''v'', put_ClientID = 7, put_RequestID = 1\<rparr>"

definition ex_kv_leader :: "KVCommand ConsensusModule" where
  "ex_kv_leader = (part3_new 1 [0, 2])\<lparr>state := Leader, currentTerm := 3\<rparr>"


section \<open>Duplicate requests\<close>

text \<open>
  What a client is told about a duplicate. The updater replaces a duplicate command by a fresh
  one that keeps only the kind, so its service id is zero; the waiting handler takes it for the
  command of another server and reports a failed commit, except on the service whose id is zero,
  which alone reports the duplicate.
\<close>

theorem kv_duplicate_status:
  assumes "is_duplicate (ce_Command e) (lastRequestIDPerClient kvs)" "commitSubs kvs (ce_Index e) = Some ch"
  shows "\<exists>kvs' cmd. runUpdater e kvs = Inr (kvs', Some (ch, cmd)) \<and> kv_ds kvs' = kv_ds kvs
     \<and> RespStatus (snd (reply_to cmd kvs')) =
         (if kv_id kvs = 0 then StatusDuplicateRequest else StatusFailedCommit)"
  using assms
  by (auto simp: runUpdater_def popCommitSubscription_def reply_to_def sendHTTPResponse_def status_only_def zero_command_def)

theorem kv_duplicate_status_witness:
  "\<exists>kvs' cmd. runUpdater \<lparr>ce_Command = kv_cmd CommandPut ''k'' ''v'' 7 1, ce_Index = 4, ce_Term = 1\<rparr>
        ((kv_New 1)\<lparr>lastRequestIDPerClient := [7 \<mapsto> 1], commitSubs := [4 \<mapsto> 0]\<rparr>) = Inr (kvs', Some (0, cmd))
     \<and> RespStatus (snd (reply_to cmd kvs')) = StatusFailedCommit"
proof -
  let ?e = "\<lparr>ce_Command = kv_cmd CommandPut ''k'' ''v'' 7 1, ce_Index = 4, ce_Term = 1\<rparr>"
  let ?kvs = "(kv_New 1)\<lparr>lastRequestIDPerClient := [7 \<mapsto> 1], commitSubs := [4 \<mapsto> 0]\<rparr>"
  show ?thesis using kv_duplicate_status [of ?e ?kvs 0] by (auto simp: is_duplicate_def kv_cmd_def kv_New_def)
qed

end
