(* ===== verification/KVClient.thy ===== *)
theory KVClient
  imports KVService
begin

text \<open>
  The client library of the key-value service, \<^verbatim>\<open>src/raft/part5kv/kvclient/kvclient.go\<close>. The network and
  the services are a parameter: what the next HTTP exchange with the service at an address yields, an
  error or a response, and which of the two contexts is done then. The loop of \<^verbatim>\<open>send\<close> may run forever,
  so it has fuel, the number of exchanges it may make.
\<close>

record KVClientState =
  addrs :: "string list"
  assumedLeader :: nat
  clientID :: int
  requestID :: int

text \<open>\<open>clientCount\<close> is the global counter; \<^verbatim>\<open>New\<close> increments it.\<close>

definition client_New :: "string list \<Rightarrow> int \<Rightarrow> KVClientState \<times> int" where
  "client_New serviceAddrs clientCount =
     (\<lparr>addrs = serviceAddrs, assumedLeader = 0, clientID = clientCount + 1, requestID = 0\<rparr>, clientCount + 1)"

text \<open>One exchange: an error, with what the response structure holds then and whether the user's context
  and the retry context are done, or a decoded response.\<close>

datatype exchange = Failed KVResponse bool bool | Answered KVResponse

text \<open>The errors of \<^verbatim>\<open>send\<close>: the error of the exchange or one of the two it builds.\<close>

datatype send_error = ExchangeError | CommitFailed | AlreadyCompleted

definition next_address :: "KVClientState \<Rightarrow> KVClientState" where
  "next_address c = c\<lparr>assumedLeader := (assumedLeader c + 1) mod length (addrs c)\<rparr>"

definition request_path :: "string \<Rightarrow> string \<Rightarrow> string" where
  "request_path addr route = ''http://'' @ addr @ ''/'' @ route @ ''/''"

fun send :: "nat \<Rightarrow> (nat \<Rightarrow> string \<Rightarrow> 'req \<Rightarrow> exchange) \<Rightarrow> string \<Rightarrow> 'req \<Rightarrow> KVClientState \<Rightarrow> KVResponse
    \<Rightarrow> (KVClientState \<times> KVResponse \<times> send_error option) go option" where
  "send 0 net route req c resp = None"
| "send (Suc fuel) net route req c resp =
     (if assumedLeader c \<ge> length (addrs c) then Some (Inl IndexOutOfRange)
      else case net fuel (request_path (addrs c ! assumedLeader c) route) req of
        Failed r userDone retryExpired \<Rightarrow>
          if userDone then Some (Inr (c, r, Some ExchangeError))
          else if retryExpired then send fuel net route req (next_address c) r
          else Some (Inr (c, r, Some ExchangeError))
      | Answered r \<Rightarrow>
          (case RespStatus r of
             StatusNotLeader \<Rightarrow> send fuel net route req (next_address c) r
           | StatusOK \<Rightarrow> Some (Inr (c, r, None))
           | StatusFailedCommit \<Rightarrow> Some (Inr (c, r, Some CommitFailed))
           | StatusDuplicateRequest \<Rightarrow> Some (Inr (c, r, Some AlreadyCompleted))
           | StatusInvalid \<Rightarrow> Some (Inl (Explicit ''unreachable''))))"

text \<open>\<^verbatim>\<open>c.requestID.Add(1)\<close>\<close>

definition next_request :: "KVClientState \<Rightarrow> KVClientState \<times> int" where
  "next_request c = (c\<lparr>requestID := requestID c + 1\<rparr>, requestID c + 1)"

text \<open>What an operation of the client returns: its state, the value, whether the key was found, and the
  error.\<close>

type_synonym client_result = "(KVClientState \<times> string \<times> bool \<times> send_error option) go option"

definition client_return :: "(KVClientState \<times> KVResponse \<times> send_error option) go option \<Rightarrow> client_result" where
  "client_return = map_option (map_sum id (\<lambda>(c, resp, err). (c, PrevValue resp, KeyFound resp, err)))"

definition client_Put :: "nat \<Rightarrow> (nat \<Rightarrow> string \<Rightarrow> PutRequest \<Rightarrow> exchange) \<Rightarrow> KVClientState \<Rightarrow> string \<Rightarrow> string \<Rightarrow> client_result" where
  "client_Put fuel net c key v =
     (let (c1, rq) = next_request c;
          putReq = \<lparr>put_Key = key, put_Value = v, put_ClientID = clientID c1, put_RequestID = rq\<rparr>
      in client_return (send fuel net ''put'' putReq c1 (status_only StatusInvalid)))"

definition client_Append :: "nat \<Rightarrow> (nat \<Rightarrow> string \<Rightarrow> AppendRequest \<Rightarrow> exchange) \<Rightarrow> KVClientState \<Rightarrow> string \<Rightarrow> string \<Rightarrow> client_result" where
  "client_Append fuel net c key v =
     (let (c1, rq) = next_request c;
          appendReq = \<lparr>app_Key = key, app_Value = v, app_ClientID = clientID c1, app_RequestID = rq\<rparr>
      in client_return (send fuel net ''append'' appendReq c1 (status_only StatusInvalid)))"

definition client_Get :: "nat \<Rightarrow> (nat \<Rightarrow> string \<Rightarrow> GetRequest \<Rightarrow> exchange) \<Rightarrow> KVClientState \<Rightarrow> string \<Rightarrow> client_result" where
  "client_Get fuel net c key =
     (let (c1, rq) = next_request c;
          getReq = \<lparr>get_Key = key, get_ClientID = clientID c1, get_RequestID = rq\<rparr>
      in client_return (send fuel net ''get'' getReq c1 (status_only StatusInvalid)))"

definition client_CAS :: "nat \<Rightarrow> (nat \<Rightarrow> string \<Rightarrow> CASRequest \<Rightarrow> exchange) \<Rightarrow> KVClientState \<Rightarrow> string \<Rightarrow> string \<Rightarrow> string \<Rightarrow> client_result" where
  "client_CAS fuel net c key compare v =
     (let (c1, rq) = next_request c;
          casReq = \<lparr>cas_Key = key, cas_CompareValue = compare, cas_Value = v, cas_ClientID = clientID c1, cas_RequestID = rq\<rparr>
      in client_return (send fuel net ''cas'' casReq c1 (status_only StatusInvalid)))"

section \<open>The client finds the leader\<close>

text \<open>A service that sends the client on to the next address: it is not the leader, or it does not
  answer in time.\<close>

fun passes_on :: "exchange \<Rightarrow> bool" where
  "passes_on (Failed r userDone retryExpired) \<longleftrightarrow> \<not> userDone \<and> retryExpired"
| "passes_on (Answered resp) \<longleftrightarrow> RespStatus resp = StatusNotLeader"

definition asks :: "(nat \<Rightarrow> string \<Rightarrow> 'req \<Rightarrow> exchange) \<Rightarrow> string \<Rightarrow> 'req \<Rightarrow> KVClientState \<Rightarrow> nat \<Rightarrow> nat \<Rightarrow> exchange" where
  "asks net route req c f i = net f (request_path (addrs c ! i) route) req"

lemma send_passes_on:
  assumes "assumedLeader c < length (addrs c)" "passes_on (asks net route req c fuel (assumedLeader c))"
  shows "\<exists>r. send (Suc fuel) net route req c resp = send fuel net route req (next_address c) r"
  using assms by (cases "asks net route req c fuel (assumedLeader c)") (auto simp: asks_def)

lemma next_address_simps [simp]: "addrs (next_address c) = addrs c" "clientID (next_address c) = clientID c"
  by (simp_all add: next_address_def)

lemma asks_next_address [simp]: "asks net route req (next_address c) = asks net route req c"
  by (simp add: asks_def fun_eq_iff)

lemma send_reaches:
  assumes "assumedLeader c < length (addrs c)" "d < fuel"
    and "\<And>i f. i < d \<Longrightarrow> passes_on (asks net route req c f ((assumedLeader c + i) mod length (addrs c)))"
    and "\<And>f. asks net route req c f ((assumedLeader c + d) mod length (addrs c)) = Answered resp" "RespStatus resp = StatusOK"
  shows "send fuel net route req c r0 = Some (Inr (c\<lparr>assumedLeader := (assumedLeader c + d) mod length (addrs c)\<rparr>, resp, None))"
  using assms
proof (induction d arbitrary: c fuel r0)
  case 0
  then obtain f where f: "fuel = Suc f" by (cases fuel) auto
  then show ?case using "0.prems" by (simp add: asks_def)
next
  case (Suc d)
  then obtain f where f: "fuel = Suc f" by (cases fuel) auto
  let ?n = "length (addrs c)" and ?c = "next_address c"
  have n: "assumedLeader ?c = (assumedLeader c + 1) mod ?n" by (simp add: next_address_def)
  have m: "(assumedLeader ?c + i) mod ?n = (assumedLeader c + Suc i) mod ?n" for i
    by (simp add: n mod_add_left_eq)
  obtain r where "send fuel net route req c r0 = send f net route req ?c r"
    using send_passes_on [of c net route req f r0] Suc.prems(1) Suc.prems(3) [of 0] f by auto
  also have "\<dots> = Some (Inr (?c\<lparr>assumedLeader := (assumedLeader ?c + d) mod length (addrs ?c)\<rparr>, resp, None))"
  proof (rule Suc.IH)
    have "0 < ?n" using Suc.prems(1) by linarith
    then show "assumedLeader ?c < length (addrs ?c)" unfolding next_address_simps n by (rule mod_less_divisor)
    show "d < f" using Suc.prems(2) f by simp
    show "passes_on (asks net route req ?c g ((assumedLeader ?c + i) mod length (addrs ?c)))" if "i < d" for i g
      using Suc.prems(3) [of "Suc i"] that by (simp add: m)
    show "asks net route req ?c g ((assumedLeader ?c + d) mod length (addrs ?c)) = Answered resp" for g
      using Suc.prems(4) by (simp add: m)
  qed (fact Suc.prems(5))
  also have "\<dots> = Some (Inr (c\<lparr>assumedLeader := (assumedLeader c + Suc d) mod ?n\<rparr>, resp, None))"
    by (simp add: m) (simp add: next_address_def)
  finally show ?case .
qed

lemma send_finds_leader:
  assumes "assumedLeader c < length (addrs c)" "ldr < length (addrs c)" "length (addrs c) \<le> fuel"
    and "\<forall>f. asks net route req c f ldr = Answered resp" "RespStatus resp = StatusOK"
    and "\<forall>f i. i < length (addrs c) \<longrightarrow> i \<noteq> ldr \<longrightarrow> passes_on (asks net route req c f i)"
  shows "send fuel net route req c r0 = Some (Inr (c\<lparr>assumedLeader := ldr\<rparr>, resp, None))"
proof -
  let ?n = "length (addrs c)" and ?a = "assumedLeader c"
  define d where "d = (if ?a \<le> ldr then ldr - ?a else ldr + ?n - ?a)"
  have d: "d < ?n" "(?a + d) mod ?n = ldr" using assms(1,2) by (auto simp: d_def)
  have "(?a + i) mod ?n \<noteq> ldr" if "i < d" for i
    using that assms(1,2) d(1) by (auto simp: d_def mod_if split: if_splits)
  moreover have "(?a + i) mod ?n < ?n" for i using assms(1) by (intro mod_less_divisor) linarith
  ultimately have "passes_on (asks net route req c f ((?a + i) mod ?n))" if "i < d" for i f
    using assms(6) that by blast
  then show ?thesis
    using send_reaches [of c d fuel net route req resp r0] assms(1,3,4,5) d by simp
qed



end
