(* ===== verification/Bytes.thy ===== *)
theory Bytes
  imports Prelude "HOL-Library.Word"
begin

text \<open>
  Bytes and byte streams, for the components that speak a binary format: fixed-width integers in big-
  and little-endian order (\<^verbatim>\<open>encoding/binary\<close>), \<^verbatim>\<open>copy\<close> into a slice, reading a stream with \<^verbatim>\<open>io.ReadFull\<close>,
  and operations that return an error.
\<close>

unbundle bit_operations_syntax

type_synonym byte = "8 word"

section \<open>Operations that return an error\<close>

text \<open>An operation with an error result ends with a panic, with an error, or with its value.\<close>

datatype goerr = Panicked gopanic | EOF | UnexpectedEOF | Failure string

type_synonym 'a res = "goerr + 'a"

definition res_bind :: "'a res \<Rightarrow> ('a \<Rightarrow> 'b res) \<Rightarrow> 'b res" where
  "res_bind m f = (case m of Inl e \<Rightarrow> Inl e | Inr x \<Rightarrow> f x)"

lemma res_bind_simps [simp]: "res_bind (Inl e) f = Inl e" "res_bind (Inr x) f = f x"
  by (simp_all add: res_bind_def)

lemma res_bind_eq_Inr: "res_bind m f = Inr y \<longleftrightarrow> (\<exists>x. m = Inr x \<and> f x = Inr y)"
  by (cases m) simp_all

definition panics :: "'a go \<Rightarrow> 'a res" where
  "panics m = (case m of Inl p \<Rightarrow> Inl (Panicked p) | Inr x \<Rightarrow> Inr x)"

lemma panics_simps [simp]: "panics (Inl p) = Inl (Panicked p)" "panics (Inr x) = Inr x"
  by (simp_all add: panics_def)

section \<open>Integers as bytes\<close>

definition PutUint16 :: "16 word \<Rightarrow> byte list" where
  "PutUint16 w = [ucast (drop_bit 8 w), ucast w]"

definition Uint16 :: "byte list \<Rightarrow> 16 word" where
  "Uint16 b = (push_bit 8 (ucast (b ! 0))) OR ucast (b ! 1)"

definition PutUint32 :: "32 word \<Rightarrow> byte list" where
  "PutUint32 w = [ucast (drop_bit 24 w), ucast (drop_bit 16 w), ucast (drop_bit 8 w), ucast w]"

definition Uint32 :: "byte list \<Rightarrow> 32 word" where
  "Uint32 b = push_bit 24 (ucast (b ! 0)) OR push_bit 16 (ucast (b ! 1)) OR push_bit 8 (ucast (b ! 2)) OR ucast (b ! 3)"

text \<open>A byte has no bit beyond the seventh.\<close>

lemma byte_bit_high: "8 \<le> n \<Longrightarrow> \<not> bit (b :: byte) n"
  using bit_imp_le_length [of b n] by auto

lemma length_PutUint [simp]: "length (PutUint16 w) = 2" "length (PutUint32 v) = 4"
  by (simp_all add: PutUint16_def PutUint32_def)

lemma Uint16_PutUint16 [simp]: "Uint16 (PutUint16 w) = w"
  by (rule bit_word_eqI) (auto simp: Uint16_def PutUint16_def bit_simps)

lemma PutUint16_Uint16 [simp]: "PutUint16 (Uint16 [a, b]) = [a, b]"
  by (simp add: Uint16_def PutUint16_def) (auto intro!: bit_word_eqI simp: bit_simps byte_bit_high)

lemma Uint32_PutUint32 [simp]: "Uint32 (PutUint32 w) = w"
proof (rule bit_word_eqI)
  fix n assume "n < LENGTH(32)"
  then consider "n < 8" | "8 \<le> n" "n < 16" | "16 \<le> n" "n < 24" | "24 \<le> n" "n < 32" by fastforce
  then show "bit (Uint32 (PutUint32 w)) n = bit w n"
    by cases (auto simp: Uint32_def PutUint32_def bit_simps)
qed

lemma PutUint32_Uint32 [simp]: "PutUint32 (Uint32 [a, b, c, d]) = [a, b, c, d]"
  by (simp add: Uint32_def PutUint32_def) (auto intro!: bit_word_eqI simp: bit_simps byte_bit_high)

lemma list4: "length b = 4 \<Longrightarrow> b = [b ! 0, b ! 1, b ! 2, b ! 3]"
  by (auto simp: eval_nat_numeral length_Suc_conv)

lemma list2: "length b = 2 \<Longrightarrow> b = [b ! 0, b ! 1]"
  by (auto simp: eval_nat_numeral length_Suc_conv)

lemma PutUint32_Uint32_length: "length b = 4 \<Longrightarrow> PutUint32 (Uint32 b) = b"
  using PutUint32_Uint32 list4 by metis

lemma PutUint16_Uint16_length: "length b = 2 \<Longrightarrow> PutUint16 (Uint16 b) = b"
  using PutUint16_Uint16 list2 by metis

text \<open>Little-endian 64-bit integers.\<close>

definition PutUint64 :: "64 word \<Rightarrow> byte list" where
  "PutUint64 w = [ucast w, ucast (drop_bit 8 w), ucast (drop_bit 16 w), ucast (drop_bit 24 w),
     ucast (drop_bit 32 w), ucast (drop_bit 40 w), ucast (drop_bit 48 w), ucast (drop_bit 56 w)]"

definition Uint64 :: "byte list \<Rightarrow> 64 word" where
  "Uint64 b = ucast (b ! 0) OR push_bit 8 (ucast (b ! 1)) OR push_bit 16 (ucast (b ! 2)) OR push_bit 24 (ucast (b ! 3))
     OR push_bit 32 (ucast (b ! 4)) OR push_bit 40 (ucast (b ! 5)) OR push_bit 48 (ucast (b ! 6)) OR push_bit 56 (ucast (b ! 7))"

lemma length_PutUint64 [simp]: "length (PutUint64 w) = 8"
  by (simp add: PutUint64_def)

lemma Uint64_PutUint64 [simp]: "Uint64 (PutUint64 w) = w"
proof (rule bit_word_eqI)
  fix n assume "n < LENGTH(64)"
  define m where "m = n mod 8"
  have m: "m < 8" by (simp add: m_def)
  have "n = m + 8 * (n div 8)" "n div 8 < 8" using \<open>n < LENGTH(64)\<close> by (simp_all add: m_def)
  moreover have "k < 8 \<Longrightarrow> k = 0 \<or> k = 1 \<or> k = 2 \<or> k = 3 \<or> k = 4 \<or> k = 5 \<or> k = 6 \<or> k = 7" for k :: nat by linarith
  ultimately consider "n = m" | "n = 8 + m" | "n = 16 + m" | "n = 24 + m" | "n = 32 + m" | "n = 40 + m" | "n = 48 + m" | "n = 56 + m"
    by fastforce
  then show "bit (Uint64 (PutUint64 w)) n = bit w n"
    by cases (use m in \<open>simp_all add: Uint64_def PutUint64_def bit_simps\<close>)
qed

section \<open>Slices of bytes\<close>

text \<open>\<^verbatim>\<open>copy(dst[off:], src)\<close>: as many elements as fit.\<close>

definition copy_at :: "nat \<Rightarrow> 'a list \<Rightarrow> 'a list \<Rightarrow> 'a list" where
  "copy_at off dst src =
     (let n = min (length src) (length dst - off) in take off dst @ take n src @ drop (off + n) dst)"

lemma length_copy_at [simp]: "off \<le> length dst \<Longrightarrow> length (copy_at off dst src) = length dst"
  by (auto simp: copy_at_def Let_def)

lemma nth_copy_at:
  assumes "off + length src \<le> length dst" "i < length dst"
  shows "copy_at off dst src ! i = (if off \<le> i \<and> i < off + length src then src ! (i - off) else dst ! i)"
  using assms by (auto simp: copy_at_def Let_def nth_append min_def)

lemma copy_at_fit: "off + length src \<le> length dst \<Longrightarrow> copy_at off dst src = take off dst @ src @ drop (off + length src) dst"
  by (simp add: copy_at_def)

text \<open>Writing to a file at an offset; a gap reads as zeros.\<close>

definition write_at :: "nat \<Rightarrow> byte list \<Rightarrow> byte list \<Rightarrow> byte list" where
  "write_at off bs file =
     (if bs = [] then file else take off (file @ replicate (off - length file) 0) @ bs @ drop (off + length bs) file)"

lemma length_write_at: "bs \<noteq> [] \<Longrightarrow> length (write_at off bs file) = max (length file) (off + length bs)"
  by (auto simp: write_at_def)

lemma write_at_same: "take (length bs) (drop off (write_at off bs file)) = bs"
  by (simp add: write_at_def)

lemma write_at_other:
  assumes "a + n \<le> off \<or> off + length bs \<le> a" "a + n \<le> length file"
  shows "take n (drop a (write_at off bs file)) = take n (drop a file)"
  using assms(1)
proof
  assume "a + n \<le> off"
  then show ?thesis using assms(2) by (simp add: write_at_def take_drop add.commute)
next
  assume "off + length bs \<le> a"
  then show ?thesis using assms(2) by (simp add: write_at_def)
qed

section \<open>Reading a stream\<close>

text \<open>A reader is the list of bytes it will still deliver. \<^verbatim>\<open>io.ReadFull\<close> fails with \<^verbatim>\<open>EOF\<close> when there is no byte
  at all and with \<^verbatim>\<open>ErrUnexpectedEOF\<close> when there are too few.\<close>

definition ReadFull :: "nat \<Rightarrow> byte list \<Rightarrow> (byte list \<times> byte list) res" where
  "ReadFull n r =
     (if n \<le> length r then Inr (take n r, drop n r) else if r = [] then Inl EOF else Inl UnexpectedEOF)"

lemma ReadFull_append: "length xs = n \<Longrightarrow> ReadFull n (xs @ r) = Inr (xs, r)"
  by (auto simp: ReadFull_def)

lemma ReadFull_Inr: "ReadFull n r = Inr (b, r') \<longleftrightarrow> length b = n \<and> r = b @ r'"
  by (auto simp: ReadFull_def append_eq_conv_conj)

section \<open>Decimal numbers\<close>

definition digit :: "nat \<Rightarrow> char" where
  "digit d = char_of (48 + d)"

fun decimal :: "nat \<Rightarrow> string" where
  "decimal n = (if n < 10 then [digit n] else decimal (n div 10) @ [digit (n mod 10)])"

declare decimal.simps [simp del]

text \<open>\<^verbatim>\<open>strconv.Itoa\<close> and the verb \<^verbatim>\<open>%d\<close>\<close>

definition Itoa :: "int \<Rightarrow> string" where
  "Itoa i = (if i < 0 then ''-'' @ decimal (nat (- i)) else decimal (nat i))"

end
