(* ===== verification/KVHarness.thy ===== *)
theory KVHarness
  imports KVClient RaftHarnessFacts Bytes
begin

text \<open>
  The life of a key-value service and the test harness of \<^verbatim>\<open>src/raft/part5kv\<close> (\<^verbatim>\<open>kvservice/kvservice.go\<close>,
  \<^verbatim>\<open>testharness.go\<close>): a service is a Raft server, the state of \<^verbatim>\<open>KVService\<close> and an HTTP server; the harness
  creates services, partitions, crashes and restarts them and makes clients of the live ones. Its
  faults are shown to be those of the Raft harness on the Raft servers inside the services.
\<close>

section \<open>Services\<close>

text \<open>\<open>kn_srv\<close> is the port of the HTTP server; \<open>kn_closed\<close>: the commit channel is closed. The argument
  \<open>http\<close> of the operations is the list of TCP ports that HTTP servers listen at.\<close>

record KVNode =
  kn_rs :: "KVCommand Server"
  kn_kv :: KVServiceState
  kn_srv :: "nat option"
  kn_closed :: bool

definition kvs_New :: "int \<Rightarrow> int list \<Rightarrow> KVCommand gob MapStorage \<Rightarrow> network \<Rightarrow> (network \<times> KVNode) go" where
  "kvs_New i peers st w =
     go_bind (Serve w (srv_NewServer i peers st)) (\<lambda>(w', rs).
       Inr (w', \<lparr>kn_rs = rs, kn_kv = kv_New i, kn_srv = None, kn_closed = False\<rparr>))"

definition kvs_IsLeader :: "KVNode \<Rightarrow> bool go" where
  "kvs_IsLeader s = srv_IsLeader (kn_rs s)"

text \<open>The goroutine that serves ends the process with \<^verbatim>\<open>log.Fatal\<close> when the port is taken.\<close>

definition kvs_ServeHTTP :: "nat \<Rightarrow> nat list \<Rightarrow> KVNode \<Rightarrow> (nat list \<times> KVNode) go" where
  "kvs_ServeHTTP port http s =
     (if kn_srv s \<noteq> None then Inl (Explicit ''ServeHTTP called with existing server'')
      else if port \<in> set http then Inl (Fatal ''address already in use'')
      else Inr (port # http, s\<lparr>kn_srv := Some port\<rparr>))"

text \<open>The error it returns is always nil.\<close>

definition kvs_Shutdown :: "network \<Rightarrow> nat list \<Rightarrow> KVNode \<Rightarrow> (network \<times> nat list \<times> KVNode) go option" where
  "kvs_Shutdown w http s =
     (case Shutdown w (kn_rs s) of
        None \<Rightarrow> None
      | Some (Inl e) \<Rightarrow> Some (Inl e)
      | Some (Inr (w', rs)) \<Rightarrow>
          if kn_closed s then Some (Inl (Explicit ''close of closed channel''))
          else let s1 = s\<lparr>kn_rs := rs, kn_closed := True\<rparr>
               in (case kn_srv s of
                     None \<Rightarrow> Some (Inr (w', http, s1))
                   | Some p \<Rightarrow> Some (Inr (w', removeAll p http, s1\<lparr>kn_srv := None\<rparr>))))"

definition ConnectToRaftPeer :: "int \<Rightarrow> nat \<Rightarrow> network \<Rightarrow> KVNode \<Rightarrow> network \<times> KVNode \<times> bool" where
  "ConnectToRaftPeer k addr w s = (let (w', rs, ok) = ConnectToPeer k addr w (kn_rs s) in (w', s\<lparr>kn_rs := rs\<rparr>, ok))"

definition DisconnectFromAllRaftPeers :: "network \<Rightarrow> KVNode \<Rightarrow> network \<times> KVNode" where
  "DisconnectFromAllRaftPeers w s = (let (w', rs) = DisconnectAll w (kn_rs s) in (w', s\<lparr>kn_rs := rs\<rparr>))"

definition DisconnectFromRaftPeer :: "int \<Rightarrow> network \<Rightarrow> KVNode \<Rightarrow> network \<times> KVNode \<times> bool" where
  "DisconnectFromRaftPeer k w s = (let (w', rs, ok) = srv_DisconnectPeer k w (kn_rs s) in (w', s\<lparr>kn_rs := rs\<rparr>, ok))"

definition GetRaftListenAddr :: "KVNode \<Rightarrow> nat go" where
  "GetRaftListenAddr s = GetListenAddr (kn_rs s)"

section \<open>The harness\<close>

record KVHarness =
  kh_n :: nat
  kh_net :: network
  kh_http :: "nat list"
  kvCluster :: "KVNode list"
  kvServiceAddrs :: "string list"
  kh_connected :: "bool list"
  kh_alive :: "bool list"
  kh_cancelled :: bool

definition kh_put :: "nat \<Rightarrow> network \<Rightarrow> KVNode \<Rightarrow> KVHarness \<Rightarrow> KVHarness" where
  "kh_put i w s h = h\<lparr>kh_net := w, kvCluster := (kvCluster h)[i := s]\<rparr>"

fun kh_start :: "nat \<Rightarrow> nat list \<Rightarrow> network \<Rightarrow> (network \<times> KVNode list) go" where
  "kh_start n [] w = Inr (w, [])"
| "kh_start n (i # is) w =
     go_bind (kvs_New (int i) (peers_of n i) NewMapStorage w) (\<lambda>(w1, s).
     go_bind (kh_start n is w1) (\<lambda>(w2, ss). Inr (w2, s # ss)))"

definition kh_connect :: "nat \<Rightarrow> nat \<Rightarrow> KVHarness \<Rightarrow> (KVHarness \<times> bool) go" where
  "kh_connect i j h =
     go_bind (GetRaftListenAddr (kvCluster h ! j)) (\<lambda>addr.
       let (w, s, ok) = ConnectToRaftPeer (int j) addr (kh_net h) (kvCluster h ! i)
       in Inr (kh_put i w s h, ok))"

fun kh_connect_all :: "(nat \<times> nat) list \<Rightarrow> KVHarness \<Rightarrow> KVHarness go" where
  "kh_connect_all [] h = Inr h"
| "kh_connect_all ((i, j) # ps) h =
     (if i \<noteq> j then go_bind (kh_connect i j h) (\<lambda>(h', ok). kh_connect_all ps h') else kh_connect_all ps h)"

definition http_port :: "nat \<Rightarrow> nat" where
  "http_port i = 14200 + i"

definition kh_serve :: "nat \<Rightarrow> KVHarness \<Rightarrow> KVHarness go" where
  "kh_serve i h =
     go_bind (kvs_ServeHTTP (http_port i) (kh_http h) (kvCluster h ! i)) (\<lambda>(http, s).
       Inr (h\<lparr>kh_http := http, kvCluster := (kvCluster h)[i := s]\<rparr>))"

fun kh_serve_all :: "nat list \<Rightarrow> KVHarness \<Rightarrow> KVHarness go" where
  "kh_serve_all [] h = Inr h"
| "kh_serve_all (i # is) h = go_bind (kh_serve i h) (kh_serve_all is)"

definition kh_NewHarness :: "network \<Rightarrow> nat list \<Rightarrow> nat \<Rightarrow> KVHarness go" where
  "kh_NewHarness w http n =
     go_bind (kh_start n [0..<n] w) (\<lambda>(w1, ss).
     go_bind (kh_connect_all (List.product [0..<n] [0..<n])
        \<lparr>kh_n = n, kh_net = w1, kh_http = http, kvCluster = ss, kvServiceAddrs = map (\<lambda>i. ''localhost:'' @ Itoa (int (http_port i))) [0..<n],
         kh_connected = replicate n True, kh_alive = replicate n True, kh_cancelled = False\<rparr>)
       (kh_serve_all [0..<n]))"

definition kh_disconnect_step :: "nat \<Rightarrow> nat \<Rightarrow> KVHarness \<Rightarrow> KVHarness" where
  "kh_disconnect_step i j h =
     (if j \<noteq> i
      then let (w, s, ok) = DisconnectFromRaftPeer (int i) (kh_net h) (kvCluster h ! j) in kh_put j w s h
      else h)"

definition DisconnectServiceFromPeers :: "nat \<Rightarrow> KVHarness \<Rightarrow> KVHarness go" where
  "DisconnectServiceFromPeers i h =
     (if i < kh_n h
      then let (w, s) = DisconnectFromAllRaftPeers (kh_net h) (kvCluster h ! i);
               h1 = kh_put i w s h;
               h2 = fold (kh_disconnect_step i) [0..<kh_n h] h1
           in Inr (h2\<lparr>kh_connected := (kh_connected h2)[i := False]\<rparr>)
      else Inl IndexOutOfRange)"

fun kh_reconnect_loop :: "nat \<Rightarrow> nat list \<Rightarrow> KVHarness \<Rightarrow> KVHarness go" where
  "kh_reconnect_loop i [] h = Inr h"
| "kh_reconnect_loop i (j # js) h =
     (if j \<noteq> i \<and> kh_alive h ! j
      then go_bind (kh_connect i j h) (\<lambda>(h1, ok1).
             if \<not> ok1 then Inl (Fatal ''ConnectToPeer'')
             else go_bind (kh_connect j i h1) (\<lambda>(h2, ok2).
                    if \<not> ok2 then Inl (Fatal ''ConnectToPeer'') else kh_reconnect_loop i js h2))
      else kh_reconnect_loop i js h)"

definition ReconnectServiceToPeers :: "nat \<Rightarrow> KVHarness \<Rightarrow> KVHarness go" where
  "ReconnectServiceToPeers i h =
     (if i < kh_n h
      then go_bind (kh_reconnect_loop i [0..<kh_n h] h) (\<lambda>h1. Inr (h1\<lparr>kh_connected := (kh_connected h1)[i := True]\<rparr>))
      else Inl IndexOutOfRange)"

definition CrashService :: "nat \<Rightarrow> KVHarness \<Rightarrow> KVHarness go option" where
  "CrashService i h =
     (case DisconnectServiceFromPeers i h of
        Inl e \<Rightarrow> Some (Inl e)
      | Inr h1 \<Rightarrow>
          let h2 = h1\<lparr>kh_alive := (kh_alive h1)[i := False]\<rparr>
          in (case kvs_Shutdown (kh_net h2) (kh_http h2) (kvCluster h2 ! i) of
                None \<Rightarrow> None
              | Some (Inl e) \<Rightarrow> Some (Inl e)
              | Some (Inr (w, http, s)) \<Rightarrow> Some (Inr ((kh_put i w s h2)\<lparr>kh_http := http\<rparr>))))"

definition RestartService :: "nat \<Rightarrow> KVHarness \<Rightarrow> KVHarness go" where
  "RestartService i h =
     (if \<not> i < kh_n h then Inl IndexOutOfRange
      else if kh_alive h ! i then Inl (Fatal ''alive in RestartService'')
      else go_bind (kvs_New (int i) (peers_of (kh_n h) i) (storage_of (kn_rs (kvCluster h ! i))) (kh_net h)) (\<lambda>(w, s).
           go_bind (kh_serve i (kh_put i w s h)) (\<lambda>h1.
           go_bind (ReconnectServiceToPeers i h1) (\<lambda>h2.
             Inr (h2\<lparr>kh_alive := (kh_alive h2)[i := True]\<rparr>)))))"

definition DelayNextHTTPResponseFromService :: "nat \<Rightarrow> KVHarness \<Rightarrow> KVHarness go" where
  "DelayNextHTTPResponseFromService i h =
     (if i < kh_n h
      then let s = kvCluster h ! i in Inr (kh_put i (kh_net h) (s\<lparr>kn_kv := DelayNextHTTPResponse (kn_kv s)\<rparr>) h)
      else Inl IndexOutOfRange)"

definition kh_detach_step :: "nat \<Rightarrow> KVHarness \<Rightarrow> KVHarness" where
  "kh_detach_step i h =
     (let (w, s) = DisconnectFromAllRaftPeers (kh_net h) (kvCluster h ! i); h1 = kh_put i w s h
      in h1\<lparr>kh_connected := (kh_connected h1)[i := False]\<rparr>)"

fun kh_shutdown_loop :: "nat list \<Rightarrow> KVHarness \<Rightarrow> KVHarness go option" where
  "kh_shutdown_loop [] h = Some (Inr h)"
| "kh_shutdown_loop (i # is) h =
     (if kh_alive h ! i
      then let h1 = h\<lparr>kh_alive := (kh_alive h)[i := False]\<rparr>
           in (case kvs_Shutdown (kh_net h1) (kh_http h1) (kvCluster h1 ! i) of
                 None \<Rightarrow> None
               | Some (Inl e) \<Rightarrow> Some (Inl e)
               | Some (Inr (w, http, s)) \<Rightarrow> kh_shutdown_loop is ((kh_put i w s h1)\<lparr>kh_http := http\<rparr>))
      else kh_shutdown_loop is h)"

definition kh_Shutdown :: "KVHarness \<Rightarrow> KVHarness go option" where
  "kh_Shutdown h = kh_shutdown_loop [0..<kh_n h] ((fold kh_detach_step [0..<kh_n h] h)\<lparr>kh_cancelled := True\<rparr>)"

section \<open>Clients and checks\<close>

text \<open>\<open>count\<close> is the counter from which \<^verbatim>\<open>kvclient.New\<close> takes client identifiers; \<open>shuffle\<close> permutes.\<close>

definition live_addrs :: "KVHarness \<Rightarrow> string list" where
  "live_addrs h = map (\<lambda>i. kvServiceAddrs h ! i) (filter (\<lambda>i. kh_alive h ! i) [0..<kh_n h])"

definition NewClient :: "int \<Rightarrow> KVHarness \<Rightarrow> KVClientState \<times> int" where
  "NewClient count h = client_New (live_addrs h) count"

definition NewClientWithRandomAddrsOrder :: "(string list \<Rightarrow> string list) \<Rightarrow> int \<Rightarrow> KVHarness \<Rightarrow> KVClientState \<times> int" where
  "NewClientWithRandomAddrsOrder shuffle count h = client_New (shuffle (live_addrs h)) count"

definition NewClientSingleService :: "int \<Rightarrow> int \<Rightarrow> KVHarness \<Rightarrow> (KVClientState \<times> int) go" where
  "NewClientSingleService i count h =
     go_bind (go_range (kvServiceAddrs h) i (i + 1)) (\<lambda>as. Inr (client_New as count))"

fun kh_leader_loop :: "bool list \<Rightarrow> (nat \<Rightarrow> bool) \<Rightarrow> nat list \<Rightarrow> int \<Rightarrow> int go" where
  "kh_leader_loop con isLeader [] found = Inr found"
| "kh_leader_loop con isLeader (i # is) found =
     (if con ! i \<and> isLeader i
      then if found < 0 then kh_leader_loop con isLeader is (int i)
           else Inl (Fatal ''both think they are leaders'')
      else kh_leader_loop con isLeader is found)"

text \<open>\<open>isLeader r i\<close> is what service \<open>i\<close> answers in round \<open>r\<close>.\<close>

fun kh_leader_rounds :: "bool list \<Rightarrow> (nat \<Rightarrow> nat \<Rightarrow> bool) \<Rightarrow> nat \<Rightarrow> nat list \<Rightarrow> int go" where
  "kh_leader_rounds con isLeader n [] = Inl (Fatal ''leader not found'')"
| "kh_leader_rounds con isLeader n (r # rs) =
     go_bind (kh_leader_loop con (isLeader r) [0..<n] (-1)) (\<lambda>found.
       if found \<ge> 0 then Inr found else kh_leader_rounds con isLeader n rs)"

definition kh_CheckSingleLeader :: "(nat \<Rightarrow> nat \<Rightarrow> bool) \<Rightarrow> KVHarness \<Rightarrow> int go" where
  "kh_CheckSingleLeader isLeader h = kh_leader_rounds (kh_connected h) isLeader (kh_n h) [0..<8]"

datatype kv_test_error = ClientError send_error | NotFoundError | FoundError | WrongValue string | NoDeadline

definition client_errors :: "send_error option \<Rightarrow> kv_test_error list" where
  "client_errors err = (case err of None \<Rightarrow> [] | Some e \<Rightarrow> [ClientError e])"

definition CheckPut where
  "CheckPut fuel net c key v =
     map_option (map_sum id (\<lambda>(c', pv, f, err). (c', (pv, f), client_errors err))) (client_Put fuel net c key v)"

definition CheckAppend where
  "CheckAppend fuel net c key v =
     map_option (map_sum id (\<lambda>(c', pv, f, err). (c', (pv, f), client_errors err))) (client_Append fuel net c key v)"

definition CheckGet where
  "CheckGet fuel net c key wantValue =
     map_option (map_sum id (\<lambda>(c', gv, f, err).
        (c', client_errors err @ (if f then [] else [NotFoundError]) @ (if gv = wantValue then [] else [WrongValue gv]))))
       (client_Get fuel net c key)"

definition CheckCAS where
  "CheckCAS fuel net c key compare v =
     map_option (map_sum id (\<lambda>(c', pv, f, err). (c', (pv, f), client_errors err))) (client_CAS fuel net c key compare v)"

definition CheckGetNotFound where
  "CheckGetNotFound fuel net c key =
     map_option (map_sum id (\<lambda>(c', gv, f, err). (c', client_errors err @ (if f then [FoundError] else []))))
       (client_Get fuel net c key)"

end
