(* ===== verification/KVHarnessFacts.thy ===== *)
theory KVHarnessFacts
  imports KVHarness
begin

text \<open>
  The harness of \<^verbatim>\<open>src/raft/part5kv\<close> does to the Raft servers inside the services what the harness of
  \<^verbatim>\<open>raft/part3\<close> does to its servers, and keeps the HTTP servers in step: exactly the live services serve,
  each at its own port, and clients are made of their addresses.
\<close>

section \<open>The Raft harness inside\<close>

definition raft_view :: "KVHarness \<Rightarrow> KVCommand Harness" where
  "raft_view h = \<lparr>h_net = kh_net h, h_cluster = map kn_rs (kvCluster h), h_commits = replicate (kh_n h) [],
     h_connected = kh_connected h, h_alive = kh_alive h, h_closed = False, h_n = kh_n h\<rparr>"

text \<open>The parts of a harness that faults of the network leave alone.\<close>

definition kv_frame :: "KVHarness \<Rightarrow> KVHarness \<Rightarrow> bool" where
  "kv_frame h0 h \<longleftrightarrow> kh_n h = kh_n h0 \<and> kh_http h = kh_http h0 \<and> kvServiceAddrs h = kvServiceAddrs h0 \<and> kh_alive h = kh_alive h0
     \<and> (\<forall>i < kh_n h0. kn_srv (kvCluster h ! i) = kn_srv (kvCluster h0 ! i) \<and> kn_kv (kvCluster h ! i) = kn_kv (kvCluster h0 ! i)
          \<and> kn_closed (kvCluster h ! i) = kn_closed (kvCluster h0 ! i))"

definition tracks :: "KVHarness \<Rightarrow> KVHarness \<Rightarrow> KVCommand Harness \<Rightarrow> bool" where
  "tracks h0 h r \<longleftrightarrow> length (kvCluster h) = kh_n h \<and> r = raft_view h \<and> kv_frame h0 h"

abbreviation same_result :: "('a \<Rightarrow> 'b \<Rightarrow> bool) \<Rightarrow> 'a go \<Rightarrow> 'b go \<Rightarrow> bool" where
  "same_result R \<equiv> rel_sum (=) R"

lemma same_result_bind:
  "same_result R m m' \<Longrightarrow> (\<And>x y. R x y \<Longrightarrow> same_result S (f x) (g y)) \<Longrightarrow> same_result S (go_bind m f) (go_bind m' g)"
  by (cases m; cases m') auto

lemma tracks_refl: "length (kvCluster h) = kh_n h \<Longrightarrow> tracks h h (raft_view h)"
  by (simp add: tracks_def kv_frame_def)

lemma tracksD:
  assumes "tracks h0 h r"
  shows "length (kvCluster h) = kh_n h" "r = raft_view h" "kh_n h = kh_n h0" "kh_alive h = kh_alive h0" "h_n r = kh_n h0" "h_alive r = kh_alive h0"
    "h_net r = kh_net h" "h_connected r = kh_connected h" "i < kh_n h0 \<Longrightarrow> h_cluster r ! i = kn_rs (kvCluster h ! i)"
  using assms by (auto simp: tracks_def kv_frame_def raft_view_def)

lemma raft_view_put: "raft_view (kh_put i w s h) = put_server i w (kn_rs s) (raft_view h)"
  by (simp add: raft_view_def kh_put_def put_server_def map_update)

lemma tracks_put:
  assumes "tracks h0 h r" "kn_srv s = kn_srv (kvCluster h ! i)" "kn_kv s = kn_kv (kvCluster h ! i)" "kn_closed s = kn_closed (kvCluster h ! i)"
  shows "tracks h0 (kh_put i w s h) (put_server i w (kn_rs s) r)"
proof -
  have "kn_srv ((kvCluster h)[i := s] ! j) = kn_srv (kvCluster h ! j) \<and> kn_kv ((kvCluster h)[i := s] ! j) = kn_kv (kvCluster h ! j)
      \<and> kn_closed ((kvCluster h)[i := s] ! j) = kn_closed (kvCluster h ! j)" for j
    using assms(2-4) by (cases "j = i \<and> i < length (kvCluster h)") (auto simp: list_update_beyond)
  then show ?thesis
    using assms(1) unfolding tracks_def raft_view_put by (simp add: kv_frame_def kh_put_def)
qed

lemma tracks_rs: "tracks h0 h r \<Longrightarrow> tracks h0 (kh_put i w ((kvCluster h ! i)\<lparr>kn_rs := s\<rparr>) h) (put_server i w s r)"
  using tracks_put [of h0 h r "(kvCluster h ! i)\<lparr>kn_rs := s\<rparr>" i w] by simp

lemma tracks_connected: "tracks h0 h r \<Longrightarrow> tracks h0 (h\<lparr>kh_connected := cs\<rparr>) (r\<lparr>h_connected := cs\<rparr>)"
  by (simp add: tracks_def raft_view_def kv_frame_def)

section \<open>Partitions\<close>

lemma kh_connect_tracks:
  assumes t: "tracks h0 h r" and ij: "i < kh_n h0" "j < kh_n h0"
  shows "same_result (rel_prod (tracks h0) (=)) (kh_connect i j h) (h_connect i j r)"
proof -
  note D = tracksD [OF t]
  show ?thesis
    unfolding kh_connect_def h_connect_def GetRaftListenAddr_def D(9) [OF ij(2)] D(9) [OF ij(1)] D(7) ConnectToRaftPeer_def
    by (rule same_result_bind [where R = "(=)"]) (auto simp: sum.rel_refl tracks_rs [OF t] split: prod.splits)
qed

lemma kh_connect_all_tracks:
  assumes "tracks h0 h r" "\<forall>(i, j) \<in> set ps. i < kh_n h0 \<and> j < kh_n h0"
  shows "same_result (tracks h0) (kh_connect_all ps h) (connect_all ps r)"
  using assms
proof (induction ps arbitrary: h r)
  case (Cons p ps)
  obtain i j where p: "p = (i, j)" by fastforce
  show ?case
  proof (cases "i = j")
    case False
    have "same_result (tracks h0) (go_bind (kh_connect i j h) (\<lambda>(h', ok). kh_connect_all ps h'))
        (go_bind (h_connect i j r) (\<lambda>(h', ok). connect_all ps h'))"
      by (rule same_result_bind [OF kh_connect_tracks]) (use Cons p in auto)
    then show ?thesis using False p by simp
  qed (use Cons p in auto)
qed simp

lemma kh_reconnect_tracks:
  assumes "tracks h0 h r" "i < kh_n h0" "\<forall>j \<in> set js. j < kh_n h0"
  shows "same_result (tracks h0) (kh_reconnect_loop i js h) (reconnect_loop i js r)"
  using assms
proof (induction js arbitrary: h r)
  case (Cons j js)
  have al: "h_alive r = kh_alive h" using tracksD(4,6) [OF Cons.prems(1)] by simp
  show ?case
  proof (cases "j \<noteq> i \<and> kh_alive h ! j")
    case True
    have second: "same_result (tracks h0)
        (go_bind (kh_connect j i h1) (\<lambda>(h2, ok2). if \<not> ok2 then Inl (Fatal ''ConnectToPeer'') else kh_reconnect_loop i js h2))
        (go_bind (h_connect j i r1) (\<lambda>(h2, ok2). if \<not> ok2 then Inl (Fatal ''ConnectToPeer'') else reconnect_loop i js h2))"
      if "tracks h0 h1 r1" for h1 r1
      by (rule same_result_bind [OF kh_connect_tracks [OF that]]) (use Cons in auto)
    show ?thesis
      using True al by (simp, intro same_result_bind [OF kh_connect_tracks [OF Cons.prems(1)]]) (use Cons.prems second in auto)
  qed (use Cons al in auto)
qed simp

lemma Reconnect_tracks:
  assumes "tracks h0 h r" "i < kh_n h0"
  shows "same_result (tracks h0) (ReconnectServiceToPeers i h) (h_ReconnectPeer i r)"
proof -
  note D = tracksD [OF assms(1)]
  show ?thesis
    unfolding ReconnectServiceToPeers_def h_ReconnectPeer_def D(3,5)
    using assms(2) by (auto intro!: same_result_bind [OF kh_reconnect_tracks [OF assms(1)]] simp: tracks_connected tracksD(8))
qed

lemma kh_disconnect_fold:
  "tracks h0 h r \<Longrightarrow> \<forall>j \<in> set js. j < kh_n h0 \<Longrightarrow> tracks h0 (fold (kh_disconnect_step i) js h) (fold (disconnect_step i) js r)"
proof (induction js arbitrary: h r)
  case (Cons j js)
  have "tracks h0 (kh_disconnect_step i j h) (disconnect_step i j r)"
    using Cons.prems tracksD(7,9) [OF Cons.prems(1)]
    by (auto simp: kh_disconnect_step_def disconnect_step_def DisconnectFromRaftPeer_def tracks_rs split: prod.splits)
  then show ?case using Cons by simp
qed simp

lemma Disconnect_tracks:
  assumes t: "tracks h0 h r" and i: "i < kh_n h0"
  shows "same_result (tracks h0) (DisconnectServiceFromPeers i h) (h_DisconnectPeer i r)"
proof -
  note D = tracksD [OF t]
  obtain w s where w: "DisconnectAll (kh_net h) (kn_rs (kvCluster h ! i)) = (w, s)" by fastforce
  let ?s = "(kvCluster h ! i)\<lparr>kn_rs := s\<rparr>"
  have "tracks h0 (kh_put i w ?s h) (put_server i w s r)" by (rule tracks_rs [OF t])
  then have f: "tracks h0 (fold (kh_disconnect_step i) [0..<kh_n h0] (kh_put i w ?s h)) (fold (disconnect_step i) [0..<kh_n h0] (put_server i w s r))"
    by (rule kh_disconnect_fold) simp
  show ?thesis
    using i w f D tracks_connected [OF f] tracksD(8) [OF f]
    by (simp add: DisconnectServiceFromPeers_def h_DisconnectPeer_def DisconnectFromAllRaftPeers_def Let_def)
qed

section \<open>HTTP servers\<close>

text \<open>Exactly the live services serve, each at its port; the commit channels of the others are closed.\<close>

definition kv_http :: "KVHarness \<Rightarrow> bool" where
  "kv_http h \<longleftrightarrow>
     (\<forall>i < kh_n h. kn_srv (kvCluster h ! i) = (if kh_alive h ! i then Some (http_port i) else None)
        \<and> kn_closed (kvCluster h ! i) = (\<not> kh_alive h ! i))
     \<and> set (kh_http h) = http_port ` {i. i < kh_n h \<and> kh_alive h ! i}
     \<and> kvServiceAddrs h = map (\<lambda>i. ''localhost:'' @ Itoa (int (http_port i))) [0..<kh_n h]"

definition kv_ok :: "KVHarness \<Rightarrow> bool" where
  "kv_ok h \<longleftrightarrow> length (kvCluster h) = kh_n h \<and> harness_ok (raft_view h) \<and> kv_http h"

lemma kv_http_frame: "kv_frame h0 h \<Longrightarrow> kv_http h0 \<Longrightarrow> kv_http h"
  by (simp add: kv_frame_def kv_http_def)

lemma kv_ok_tracks: "kv_ok h0 \<Longrightarrow> tracks h0 h r \<Longrightarrow> harness_ok r \<Longrightarrow> kv_ok h"
  using kv_http_frame by (auto simp: kv_ok_def tracks_def)

lemma same_resultD: "same_result R m (Inr y) \<Longrightarrow> \<exists>x. m = Inr x \<and> R x y"
  by (cases m) auto

definition kv_graph :: "KVHarness \<Rightarrow> nat set \<times> (nat \<times> nat) set" where
  "kv_graph h = (living (raft_view h), links (raft_view h))"

lemma raft_view_sel [simp]:
  "h_n (raft_view h) = kh_n h" "h_alive (raft_view h) = kh_alive h" "h_connected (raft_view h) = kh_connected h" "h_net (raft_view h) = kh_net h"
  by (simp_all add: raft_view_def)

lemma living_view: "living (raft_view h) = {i. i < kh_n h \<and> kh_alive h ! i}"
  by (simp add: living_def)

lemma http_port_inj: "http_port i = http_port j \<longleftrightarrow> i = j"
  by (simp add: http_port_def)

text \<open>The HTTP part when service \<open>i\<close> goes down or comes up.\<close>

lemma kv_http_change:
  assumes h: "kv_http h" and i: "i < kh_n h" and len: "length (kvCluster h) = kh_n h" "length (kh_alive h) = kh_n h"
    and h': "kh_n h' = kh_n h" "kh_alive h' = (kh_alive h)[i := b]" "kvServiceAddrs h' = kvServiceAddrs h"
      "\<And>j. j < kh_n h \<Longrightarrow> j \<noteq> i \<Longrightarrow> kn_srv (kvCluster h' ! j) = kn_srv (kvCluster h ! j) \<and> kn_closed (kvCluster h' ! j) = kn_closed (kvCluster h ! j)"
      "kn_srv (kvCluster h' ! i) = (if b then Some (http_port i) else None)" "kn_closed (kvCluster h' ! i) = (\<not> b)"
      "set (kh_http h') = (if b then insert (http_port i) (set (kh_http h)) else set (kh_http h) - {http_port i})"
  shows "kv_http h'"
proof -
  have "kn_srv (kvCluster h' ! j) = (if kh_alive h' ! j then Some (http_port j) else None) \<and> kn_closed (kvCluster h' ! j) = (\<not> kh_alive h' ! j)"
    if "j < kh_n h" for j
    using h that i len h' by (cases "j = i") (auto simp: kv_http_def)
  moreover have "set (kh_http h') = http_port ` {j. j < kh_n h \<and> kh_alive h' ! j}"
    using h i len(2) h'(2,7) by (auto simp: kv_http_def nth_list_update http_port_inj split: if_splits)
  ultimately show ?thesis using h h'(1,3) by (simp add: kv_http_def)
qed

section \<open>Faults and repairs\<close>

lemma kv_disconnect:
  assumes hk: "kv_ok h" and i: "i < kh_n h"
  shows "\<exists>h'. DisconnectServiceFromPeers i h = Inr h' \<and> tracks h h' (raft_view h') \<and> h_DisconnectPeer i (raft_view h) = Inr (raft_view h')
    \<and> kv_ok h' \<and> kv_graph h' = (fst (kv_graph h), isolate i (snd (kv_graph h)))"
proof -
  have len: "length (kvCluster h) = kh_n h" and ok: "harness_ok (raft_view h)" using hk by (auto simp: kv_ok_def)
  obtain r where r: "h_DisconnectPeer i (raft_view h) = Inr r" "harness_ok r" "links r = isolate i (links (raft_view h))" "h_n r = kh_n h"
      "h_alive r = kh_alive h" using harness_disconnect [OF ok, of i] i by auto
  obtain h' where h': "DisconnectServiceFromPeers i h = Inr h'" "tracks h h' r"
    using Disconnect_tracks [OF tracks_refl [OF len] i] same_resultD r(1) by metis
  have "r = raft_view h'" using h'(2) by (rule tracksD(2))
  then show ?thesis using h' r kv_ok_tracks [OF hk h'(2) r(2)] by (auto simp: kv_graph_def living_def)
qed

lemma kv_reconnect:
  assumes hk: "kv_ok h" and i: "i < kh_n h" "kh_alive h ! i"
  shows "\<exists>h'. ReconnectServiceToPeers i h = Inr h' \<and> kv_ok h'
    \<and> kv_graph h' = (fst (kv_graph h), rejoin i (fst (kv_graph h)) (snd (kv_graph h))) \<and> kh_n h' = kh_n h"
proof -
  have len: "length (kvCluster h) = kh_n h" and ok: "harness_ok (raft_view h)" using hk by (auto simp: kv_ok_def)
  obtain r where r: "h_ReconnectPeer i (raft_view h) = Inr r" "harness_ok r" "links r = rejoin i (living (raft_view h)) (links (raft_view h))"
      "h_n r = kh_n h" "h_alive r = kh_alive h" using harness_reconnect [OF ok, of i] i by auto
  obtain h' where h': "ReconnectServiceToPeers i h = Inr h'" "tracks h h' r"
    using Reconnect_tracks [OF tracks_refl [OF len] i(1)] same_resultD r(1) by metis
  have "r = raft_view h'" using h'(2) by (rule tracksD(2))
  then show ?thesis using h' r kv_ok_tracks [OF hk h'(2) r(2)] by (auto simp: kv_graph_def living_def)
qed

lemma kv_crash:
  assumes hk: "kv_ok h" and i: "i < kh_n h" "kh_alive h ! i"
  shows "\<exists>h'. CrashService i h = Some (Inr h') \<and> kv_ok h' \<and> kv_graph h' = (fst (kv_graph h) - {i}, isolate i (snd (kv_graph h))) \<and> kh_n h' = kh_n h"
proof -
  have ok: "harness_ok (raft_view h)" using hk by (auto simp: kv_ok_def)
  obtain h1 where h1: "DisconnectServiceFromPeers i h = Inr h1" "tracks h h1 (raft_view h1)" "h_DisconnectPeer i (raft_view h) = Inr (raft_view h1)"
      "kv_ok h1" using kv_disconnect [OF hk i(1)] by blast
  note D = tracksD [OF h1(2)]
  have k1: "length (kvCluster h1) = kh_n h1" "kv_http h1" "harness_ok (raft_view h1)" using h1(4) by (auto simp: kv_ok_def)
  obtain r where r: "h_CrashPeer i (raft_view h) = Some (Inr r)" "harness_ok r" "links r = isolate i (links (raft_view h))" "h_n r = kh_n h"
      "h_alive r = (kh_alive h)[i := False]" using harness_crash [OF ok, of i] i by auto
  obtain w rs where sh: "Shutdown (kh_net h1) (kn_rs (kvCluster h1 ! i)) = Some (Inr (w, rs))"
    and r': "r = (put_server i w rs ((raft_view h1)\<lparr>h_alive := (kh_alive h1)[i := False]\<rparr>))\<lparr>h_commits := (replicate (kh_n h1) [])[i := []]\<rparr>"
    using r(1) h1(3) D(9) [OF i(1)]
    by (auto simp: h_CrashPeer_def Let_def put_server_def raft_view_def split: option.splits sum.splits)
  let ?s = "(kvCluster h1 ! i)\<lparr>kn_rs := rs, kn_closed := True, kn_srv := None\<rparr>"
  let ?h = "(kh_put i w ?s (h1\<lparr>kh_alive := (kh_alive h1)[i := False]\<rparr>))\<lparr>kh_http := removeAll (http_port i) (kh_http h1)\<rparr>"
  have at: "kn_srv (kvCluster h1 ! i) = Some (http_port i)" "\<not> kn_closed (kvCluster h1 ! i)"
    using k1(2) i D(3,4) by (auto simp: kv_http_def)
  have eq: "CrashService i h = Some (Inr ?h)" using h1(1) sh at by (simp add: CrashService_def kvs_Shutdown_def Let_def)
  have rep: "(replicate n [])[i := []] = replicate n []" for n i by (induction n arbitrary: i) (auto split: nat.splits)
  have view: "raft_view ?h = r" unfolding r' rep by (simp add: raft_view_def kh_put_def put_server_def map_update)
  have "kv_http ?h"
    by (rule kv_http_change [OF k1(2) _ k1(1), of i ?h False])
       (use i D(3,4) k1 harness_okD(4) [OF k1(3)] in \<open>auto simp: kh_put_def\<close>)
  then have "kv_ok ?h" using r(2) view k1(1) by (simp add: kv_ok_def kh_put_def)
  moreover have "living r = living (raft_view h) - {i}"
    using living_update [of "raft_view h" i r False] harness_okD(4) [OF ok] r(4,5) i(1) by simp
  ultimately show ?thesis using eq view r(3,4) by (auto simp: kv_graph_def kh_put_def D(3))
qed

lemma kv_restart:
  assumes hk: "kv_ok h" and i: "i < kh_n h" "\<not> kh_alive h ! i"
  shows "\<exists>h'. RestartService i h = Inr h' \<and> kv_ok h'
    \<and> kv_graph h' = (insert i (fst (kv_graph h)), rejoin i (fst (kv_graph h)) (snd (kv_graph h))) \<and> kh_n h' = kh_n h
    \<and> kn_kv (kvCluster h' ! i) = kv_New (int i)"
proof -
  have ok: "harness_ok (raft_view h)" and len: "length (kvCluster h) = kh_n h" and http: "kv_http h" using hk by (auto simp: kv_ok_def)
  obtain r where r: "h_RestartPeer i (raft_view h) = Inr r" "harness_ok r" "links r = rejoin i (living (raft_view h)) (links (raft_view h))"
      "h_n r = kh_n h" "h_alive r = (kh_alive h)[i := True]" using harness_restart [OF ok, of i] i by auto
  obtain w rs r2 where sv: "Serve (kh_net h) (srv_NewServer (int i) (peers_of (kh_n h) i) (storage_of (kn_rs (kvCluster h ! i)))) = Inr (w, rs)"
    and r2: "h_ReconnectPeer i (put_server i w rs (raft_view h)) = Inr r2" and r': "r = r2\<lparr>h_alive := (h_alive r2)[i := True]\<rparr>"
    using r(1) i len by (auto simp: h_RestartPeer_def go_bind_eq_Inr raft_view_def)
  let ?s = "\<lparr>kn_rs = rs, kn_kv = kv_New (int i), kn_srv = Some (http_port i), kn_closed = False\<rparr>"
  let ?h1 = "(kh_put i w ?s h)\<lparr>kh_http := http_port i # kh_http h\<rparr>"
  have free: "http_port i \<notin> set (kh_http h)" using http i(2) by (auto simp: kv_http_def http_port_inj)
  have sr: "kh_serve i (kh_put i w \<lparr>kn_rs = rs, kn_kv = kv_New (int i), kn_srv = None, kn_closed = False\<rparr> h) = Inr ?h1"
    using i(1) len free by (simp add: kh_serve_def kh_put_def kvs_ServeHTTP_def)
  have v1: "raft_view ?h1 = put_server i w rs (raft_view h)" by (simp add: raft_view_def kh_put_def put_server_def map_update)
  have l1: "length (kvCluster ?h1) = kh_n ?h1" "i < kh_n ?h1" using len i by (simp_all add: kh_put_def)
  obtain h2 where h2: "ReconnectServiceToPeers i ?h1 = Inr h2" "tracks ?h1 h2 r2"
    using Reconnect_tracks [OF tracks_refl [OF l1(1)] l1(2)] same_resultD r2 v1 by metis
  note D = tracksD [OF h2(2)]
  let ?h = "h2\<lparr>kh_alive := (kh_alive h2)[i := True]\<rparr>"
  have eq: "RestartService i h = Inr ?h" using i sv sr h2(1) by (simp add: RestartService_def kvs_New_def)
  have f2: "kh_n h2 = kh_n h" "kh_alive h2 = kh_alive h" "kvServiceAddrs h2 = kvServiceAddrs h" "kh_http h2 = http_port i # kh_http h"
    using h2(2) by (auto simp: tracks_def kv_frame_def kh_put_def)
  have n2: "kn_srv (kvCluster h2 ! j) = kn_srv (kvCluster ?h1 ! j) \<and> kn_closed (kvCluster h2 ! j) = kn_closed (kvCluster ?h1 ! j)
      \<and> kn_kv (kvCluster h2 ! j) = kn_kv (kvCluster ?h1 ! j)" if "j < kh_n h" for j
    using h2(2) that by (auto simp: tracks_def kv_frame_def kh_put_def)
  have view: "raft_view ?h = r" using D(2) by (simp add: r' raft_view_def)
  have "kv_http ?h"
    by (rule kv_http_change [OF http i(1) len, of ?h True])
       (use i len n2 f2 harness_okD(4) [OF ok] in \<open>auto simp: kh_put_def\<close>)
  then have "kv_ok ?h" using r(2) view D(1) by (simp add: kv_ok_def)
  moreover have "living r = insert i (living (raft_view h))"
    using living_update [of "raft_view h" i r True] harness_okD(4) [OF ok] r(4,5) i(1) by simp
  ultimately show ?thesis using eq view r(3) n2 [OF i(1)] i(1) len f2(1) by (auto simp: kv_graph_def kh_put_def)
qed

section \<open>A new harness\<close>

lemma kh_start_eq:
  "same_result (\<lambda>(w1, ss) (w2, rs). w1 = w2 \<and> rs = map kn_rs ss \<and> (\<forall>s \<in> set ss. kn_srv s = None \<and> \<not> kn_closed s))
     (kh_start n is w) (start_servers n is w)"
proof (induction "is" arbitrary: w)
  case (Cons i "is")
  have sv: "same_result (\<lambda>(w1, s) (w2, r). w1 = w2 \<and> kn_rs s = r \<and> kn_srv s = None \<and> \<not> kn_closed s)
      (kvs_New (int i) (peers_of n i) NewMapStorage w) (Serve w (srv_NewServer (int i) (peers_of n i) NewMapStorage))"
    by (cases "Serve w (srv_NewServer (int i) (peers_of n i) NewMapStorage) :: (network \<times> KVCommand Server) go")
       (auto simp: kvs_New_def split: prod.splits)
  show ?case
    by (simp, rule same_result_bind [OF sv], clarsimp, rule same_result_bind [OF Cons.IH]) auto
qed simp

lemma kh_serve_all_ok:
  assumes "length (kvCluster h) = kh_n h" "distinct is" "\<forall>i \<in> set is. i < kh_n h \<and> kn_srv (kvCluster h ! i) = None \<and> http_port i \<notin> set (kh_http h)"
  shows "\<exists>h'. kh_serve_all is h = Inr h' \<and> length (kvCluster h') = kh_n h' \<and> raft_view h' = raft_view h \<and> kvServiceAddrs h' = kvServiceAddrs h
    \<and> set (kh_http h') = set (kh_http h) \<union> http_port ` set is
    \<and> (\<forall>j < kh_n h. kn_srv (kvCluster h' ! j) = (if j \<in> set is then Some (http_port j) else kn_srv (kvCluster h ! j))
         \<and> kn_closed (kvCluster h' ! j) = kn_closed (kvCluster h ! j))"
  using assms
proof (induction "is" arbitrary: h)
  case (Cons i "is")
  let ?s = "(kvCluster h ! i)\<lparr>kn_srv := Some (http_port i)\<rparr>"
  let ?h = "h\<lparr>kh_http := http_port i # kh_http h, kvCluster := (kvCluster h)[i := ?s]\<rparr>"
  have sv: "kh_serve i h = Inr ?h" using Cons.prems by (simp add: kh_serve_def kvs_ServeHTTP_def)
  have v: "raft_view ?h = raft_view h"
    using map_update [of kn_rs "kvCluster h" i ?s] Cons.prems(1,3) by (simp add: raft_view_def list_update_same_conv)
  have at: "kn_srv (kvCluster ?h ! j) = (if j = i then Some (http_port i) else kn_srv (kvCluster h ! j))
      \<and> kn_closed (kvCluster ?h ! j) = kn_closed (kvCluster h ! j)" for j
    using Cons.prems(1,3) by (cases "j = i") auto
  have "\<exists>h'. kh_serve_all is ?h = Inr h' \<and> length (kvCluster h') = kh_n h' \<and> raft_view h' = raft_view ?h \<and> kvServiceAddrs h' = kvServiceAddrs ?h
      \<and> set (kh_http h') = set (kh_http ?h) \<union> http_port ` set is
      \<and> (\<forall>j < kh_n ?h. kn_srv (kvCluster h' ! j) = (if j \<in> set is then Some (http_port j) else kn_srv (kvCluster ?h ! j))
           \<and> kn_closed (kvCluster h' ! j) = kn_closed (kvCluster ?h ! j))"
    by (rule Cons.IH) (use Cons.prems at in \<open>auto simp: http_port_inj\<close>)
  then obtain h' where h': "kh_serve_all is ?h = Inr h'" "length (kvCluster h') = kh_n h'" "raft_view h' = raft_view h"
      "kvServiceAddrs h' = kvServiceAddrs h" "set (kh_http h') = set (kh_http ?h) \<union> http_port ` set is"
      "\<forall>j < kh_n h. kn_srv (kvCluster h' ! j) = (if j \<in> set is then Some (http_port j) else kn_srv (kvCluster ?h ! j))
           \<and> kn_closed (kvCluster h' ! j) = kn_closed (kvCluster ?h ! j)" using v by auto
  show ?case using h' sv at Cons.prems(2) by (intro exI [of _ h']) auto
qed simp

lemma kv_new:
  "\<exists>h. kh_NewHarness empty_network [] n = Inr h \<and> kv_ok h \<and> kh_n h = n \<and> kv_graph h = ({..<n}, {(i, j). i < n \<and> j < n \<and> i \<noteq> j})"
proof -
  obtain r :: "KVCommand Harness" where r: "NewHarness empty_network n = Inr r" "harness_ok r" "h_n r = n" "links r = {(i, j). i < n \<and> j < n \<and> i \<noteq> j}"
      "h_alive r = replicate n True" using NewHarness_ok by blast
  from r(1) obtain w rs where st: "start_servers n [0..<n] empty_network = Inr (w, rs)"
    and ca: "connect_all (List.product [0..<n] [0..<n])
        \<lparr>h_net = w, h_cluster = rs, h_commits = replicate n [], h_connected = replicate n True,
         h_alive = replicate n True, h_closed = False, h_n = n\<rparr> = Inr r"
    by (auto simp: NewHarness_def go_bind_eq_Inr)
  obtain ss where ss: "kh_start n [0..<n] empty_network = Inr (w, ss)" "rs = map kn_rs ss" "\<forall>s \<in> set ss. kn_srv s = None \<and> \<not> kn_closed s"
    using same_resultD [OF kh_start_eq [of n "[0..<n]" empty_network, unfolded st]] by auto
  have "length rs = n" using start_servers_ok [where 'c = KVCommand, of empty_network n "[0..<n]"] st by (auto simp: empty_network_def)
  then have lss: "length ss = n" using ss(2) by simp
  let ?as = "map (\<lambda>i. ''localhost:'' @ Itoa (int (http_port i))) [0..<n]"
  let ?h = "\<lparr>kh_n = n, kh_net = w, kh_http = [], kvCluster = ss, kvServiceAddrs = ?as,
         kh_connected = replicate n True, kh_alive = replicate n True, kh_cancelled = False\<rparr>"
  have "same_result (tracks ?h) (kh_connect_all (List.product [0..<n] [0..<n]) ?h) (connect_all (List.product [0..<n] [0..<n]) (raft_view ?h))"
    by (rule kh_connect_all_tracks [OF tracks_refl]) (use lss in auto)
  then have "same_result (tracks ?h) (kh_connect_all (List.product [0..<n] [0..<n]) ?h) (Inr r)" using ca ss(2) by (simp add: raft_view_def)
  from same_resultD [OF this] obtain h1 where h1: "kh_connect_all (List.product [0..<n] [0..<n]) ?h = Inr h1" "tracks ?h h1 r" by blast
  note D = tracksD [OF h1(2)]
  have fr: "kv_frame ?h h1" using h1(2) by (simp add: tracks_def)
  have idle: "kn_srv (ss ! i) = None \<and> \<not> kn_closed (ss ! i)" if "i < n" for i using ss(3) lss that by simp
  have f1: "kh_n h1 = n" "kh_http h1 = []" "kvServiceAddrs h1 = ?as" using fr by (simp_all add: kv_frame_def)
  have f2: "\<forall>i < n. kn_srv (kvCluster h1 ! i) = None \<and> \<not> kn_closed (kvCluster h1 ! i)" using fr idle by (simp add: kv_frame_def)
  obtain h where h: "kh_serve_all [0..<n] h1 = Inr h" "length (kvCluster h) = kh_n h" "raft_view h = raft_view h1" "kvServiceAddrs h = kvServiceAddrs h1"
      "set (kh_http h) = set (kh_http h1) \<union> http_port ` set [0..<n]"
      "\<forall>j < kh_n h1. kn_srv (kvCluster h ! j) = (if j \<in> set [0..<n] then Some (http_port j) else kn_srv (kvCluster h1 ! j))
         \<and> kn_closed (kvCluster h ! j) = kn_closed (kvCluster h1 ! j)"
    using kh_serve_all_ok [of h1 "[0..<n]"] D(1) f1 f2 by (simp add: f1(1)) blast
  have view: "raft_view h = r" using h(3) D(2) by simp
  then have sel: "kh_n h = n" "kh_alive h = replicate n True" using r(3,5) by (auto simp: raft_view_def)
  have "{i. i < n \<and> replicate n True ! i} = {0..<n}" by auto
  then have "kv_http h" unfolding kv_http_def using h(4-6) f1 f2 sel by simp
  then have "kv_ok h" using h(2) view r(2) by (simp add: kv_ok_def)
  moreover have "kh_NewHarness empty_network [] n = Inr h" using ss(1) h1(1) h(1) by (simp add: kh_NewHarness_def)
  ultimately show ?thesis using view r(4) sel by (auto simp: kv_graph_def living_view)
qed

section \<open>Tests\<close>

text \<open>\<open>KMove i cm kv\<close>: the goroutines of service \<open>i\<close> bring its consensus module to \<open>cm\<close> and the state of the
  service to \<open>kv\<close>.\<close>

datatype kvop = KDisconnect nat | KReconnect nat | KCrash nat | KRestart nat | KDelay nat | KMove nat "KVCommand ConsensusModule" KVServiceState

fun kv_step :: "kvop \<Rightarrow> KVHarness \<Rightarrow> KVHarness go option" where
  "kv_step (KDisconnect i) h = Some (DisconnectServiceFromPeers i h)"
| "kv_step (KReconnect i) h = Some (ReconnectServiceToPeers i h)"
| "kv_step (KCrash i) h = CrashService i h"
| "kv_step (KRestart i) h = Some (RestartService i h)"
| "kv_step (KDelay i) h = Some (DelayNextHTTPResponseFromService i h)"
| "kv_step (KMove i cm kv) h =
     (let s = kvCluster h ! i in Some (Inr (kh_put i (kh_net h) (s\<lparr>kn_rs := (kn_rs s)\<lparr>srv_cm := Some cm\<rparr>, kn_kv := kv\<rparr>) h)))"

fun kv_legal :: "nat \<Rightarrow> nat set \<Rightarrow> kvop \<Rightarrow> bool" where
  "kv_legal n A (KDisconnect i) = (i < n)"
| "kv_legal n A (KReconnect i) = (i \<in> A)"
| "kv_legal n A (KCrash i) = (i \<in> A)"
| "kv_legal n A (KRestart i) = (i < n \<and> i \<notin> A)"
| "kv_legal n A (KDelay i) = (i < n)"
| "kv_legal n A (KMove i cm kv) = (i < n \<and> restorable (storage cm))"

fun kv_links :: "kvop \<Rightarrow> nat set \<times> (nat \<times> nat) set \<Rightarrow> nat set \<times> (nat \<times> nat) set" where
  "kv_links (KDisconnect i) g = link_step (HDisconnect i :: KVCommand hop) g"
| "kv_links (KReconnect i) g = link_step (HReconnect i :: KVCommand hop) g"
| "kv_links (KCrash i) g = link_step (HCrash i :: KVCommand hop) g"
| "kv_links (KRestart i) g = link_step (HRestart i :: KVCommand hop) g"
| "kv_links _ g = g"

lemma kv_set:
  assumes hk: "kv_ok h" and i: "i < kh_n h"
    and s: "kn_srv s = kn_srv (kvCluster h ! i)" "kn_closed s = kn_closed (kvCluster h ! i)"
    and ok: "harness_ok (put_server i (kh_net h) (kn_rs s) (raft_view h))
        \<and> links (put_server i (kh_net h) (kn_rs s) (raft_view h)) = links (raft_view h)"
  shows "kv_ok (kh_put i (kh_net h) s h) \<and> kv_graph (kh_put i (kh_net h) s h) = kv_graph h"
proof -
  have len: "length (kvCluster h) = kh_n h" and http: "kv_http h" using hk by (auto simp: kv_ok_def)
  have "kn_srv ((kvCluster h)[i := s] ! j) = kn_srv (kvCluster h ! j) \<and> kn_closed ((kvCluster h)[i := s] ! j) = kn_closed (kvCluster h ! j)"
    if "j < kh_n h" for j using s len i by (cases "j = i") auto
  then have "kv_http (kh_put i (kh_net h) s h)" using http by (simp add: kv_http_def kh_put_def)
  moreover have "living (put_server i (kh_net h) (kn_rs s) (raft_view h)) = living (raft_view h)" by (simp add: living_def put_server_def)
  ultimately show ?thesis using ok len by (simp add: kv_ok_def kv_graph_def raft_view_put) (simp add: kh_put_def)
qed

lemma kv_step_ok:
  assumes hk: "kv_ok h" and lg: "kv_legal (kh_n h) (fst (kv_graph h)) x"
  shows "\<exists>h'. kv_step x h = Some (Inr h') \<and> kv_ok h' \<and> kh_n h' = kh_n h \<and> kv_graph h' = kv_links x (kv_graph h)"
proof -
  have ok: "harness_ok (raft_view h)" and len: "length (kvCluster h) = kh_n h" using hk by (auto simp: kv_ok_def)
  obtain A E where g: "kv_graph h = (A, E)" by fastforce
  have A: "i \<in> A \<longleftrightarrow> i < kh_n h \<and> kh_alive h ! i" for i using g by (auto simp: kv_graph_def living_view)
  have put_n: "kh_n (kh_put i w s h) = kh_n h" for i w s by (simp add: kh_put_def)
  have at: "h_cluster (raft_view h) ! i = kn_rs (kvCluster h ! i)" if "i < kh_n h" for i using that len by (simp add: raft_view_def)
  show ?thesis
  proof (cases x)
    case (KDisconnect i)
    then obtain h' where h': "DisconnectServiceFromPeers i h = Inr h'" "tracks h h' (raft_view h')" "kv_ok h'" "kv_graph h' = (A, isolate i E)"
      using kv_disconnect [OF hk, of i] lg g by auto
    then show ?thesis using KDisconnect g tracksD(3) [OF h'(2)] by simp
  next
    case (KReconnect i)
    then show ?thesis using kv_reconnect [OF hk, of i] lg g A by auto
  next
    case (KCrash i)
    then show ?thesis using kv_crash [OF hk, of i] lg g A by auto
  next
    case (KRestart i)
    then show ?thesis using kv_restart [OF hk, of i] lg g A by auto
  next
    case (KDelay i)
    then have i: "i < kh_n h" using lg by simp
    have "put_server i (kh_net h) (kn_rs (kvCluster h ! i)) (raft_view h) = raft_view h"
      using at [OF i] by (simp add: put_server_def raft_view_def list_update_same_conv len i)
    then show ?thesis
      using KDelay i ok kv_set [OF hk i, of "(kvCluster h ! i)\<lparr>kn_kv := DelayNextHTTPResponse (kn_kv (kvCluster h ! i))\<rparr>"]
      by (simp add: DelayNextHTTPResponseFromService_def Let_def put_n)
  next
    case (KMove i cm kv)
    then have i: "i < kh_n h" using lg by simp
    let ?rs = "(kn_rs (kvCluster h ! i))\<lparr>srv_cm := Some cm\<rparr>"
    have "harness_ok (put_server i (kh_net h) ?rs (raft_view h)) \<and> links (put_server i (kh_net h) ?rs (raft_view h)) = links (raft_view h)"
      using harness_set_server [OF ok, of i ?rs] KMove lg i at [OF i] by (simp add: storage_of_def)
    then show ?thesis
      using KMove i kv_set [OF hk i, of "(kvCluster h ! i)\<lparr>kn_rs := ?rs, kn_kv := kv\<rparr>"] by (simp add: Let_def put_n)
  qed
qed

fun kv_run :: "kvop list \<Rightarrow> KVHarness \<Rightarrow> KVHarness go option" where
  "kv_run [] h = Some (Inr h)"
| "kv_run (x # xs) h = (case kv_step x h of Some (Inr h') \<Rightarrow> kv_run xs h' | other \<Rightarrow> other)"

fun kv_plan :: "nat \<Rightarrow> kvop list \<Rightarrow> nat set \<times> (nat \<times> nat) set \<Rightarrow> bool" where
  "kv_plan n [] g = True"
| "kv_plan n (x # xs) g = (kv_legal n (fst g) x \<and> kv_plan n xs (kv_links x g))"

lemma kv_run_ok:
  assumes "kv_ok h" "kv_plan (kh_n h) xs (kv_graph h)"
  shows "\<exists>h'. kv_run xs h = Some (Inr h') \<and> kv_ok h' \<and> kh_n h' = kh_n h \<and> kv_graph h' = fold kv_links xs (kv_graph h)"
  using assms
proof (induction xs arbitrary: h)
  case (Cons x xs)
  obtain h1 where h1: "kv_step x h = Some (Inr h1)" "kv_ok h1" "kh_n h1 = kh_n h" "kv_graph h1 = kv_links x (kv_graph h)"
    using kv_step_ok [OF Cons.prems(1)] Cons.prems(2) by auto
  then show ?case using Cons.IH [OF h1(2)] Cons.prems(2) by auto
qed simp

lemma live_addrs_served:
  assumes "kv_ok h"
  shows "live_addrs h = map (\<lambda>i. ''localhost:'' @ Itoa (int (http_port i))) (filter (\<lambda>i. kn_srv (kvCluster h ! i) \<noteq> None) [0..<kh_n h])"
proof -
  have "kv_http h" using assms by (simp add: kv_ok_def)
  then show ?thesis
    by (auto simp: live_addrs_def kv_http_def intro!: map_cong filter_cong)
qed

text \<open>C40: A test of the key-value harness that crashes and reconnects only live services and restarts only
  dead ones runs to its end: no panic, no failure of the test, no port in use twice and no wait that does
  not end. The live services and the links between their Raft servers are those of the specification of the
  Raft harness; exactly the live services serve HTTP, each at its own port, and a client made by
  \<^verbatim>\<open>NewClient\<close> has the addresses of the services that serve.\<close>

theorem kv_harness_sound:
  assumes "kv_plan n xs ({..<n}, {(i, j). i < n \<and> j < n \<and> i \<noteq> j})"
  shows "\<exists>h0 h. kh_NewHarness empty_network [] n = Inr h0 \<and> kv_run xs h0 = Some (Inr h)
     \<and> (living (raft_view h), links (raft_view h)) = fold kv_links xs ({..<n}, {(i, j). i < n \<and> j < n \<and> i \<noteq> j})
     \<and> (\<forall>i < n. kn_srv (kvCluster h ! i) = (if i \<in> living (raft_view h) then Some (http_port i) else None))
     \<and> set (kh_http h) = http_port ` living (raft_view h)
     \<and> addrs (fst (NewClient count h)) =
         map (\<lambda>i. ''localhost:'' @ Itoa (int (http_port i))) (filter (\<lambda>i. kn_srv (kvCluster h ! i) \<noteq> None) [0..<n])"
proof -
  obtain h0 where h0: "kh_NewHarness empty_network [] n = Inr h0" "kv_ok h0" "kh_n h0 = n"
      "kv_graph h0 = ({..<n}, {(i, j). i < n \<and> j < n \<and> i \<noteq> j})" using kv_new by blast
  obtain h where h: "kv_run xs h0 = Some (Inr h)" "kv_ok h" "kh_n h = n" "kv_graph h = fold kv_links xs (kv_graph h0)"
    using kv_run_ok [OF h0(2), of xs] assms h0(3,4) by auto
  have http: "kv_http h" using h(2) by (simp add: kv_ok_def)
  have lv: "living (raft_view h) = {i. i < n \<and> kh_alive h ! i}" using h(3) by (simp add: living_view)
  have "\<forall>i < n. kn_srv (kvCluster h ! i) = (if i \<in> living (raft_view h) then Some (http_port i) else None)"
    using http h(3) by (simp add: kv_http_def lv)
  moreover have "set (kh_http h) = http_port ` living (raft_view h)" using http h(3) by (simp add: kv_http_def lv)
  moreover have "addrs (fst (NewClient count h)) = live_addrs h" by (simp add: NewClient_def client_New_def)
  ultimately show ?thesis
    using h0(1,4) h(1,4) live_addrs_served [OF h(2)] h(3) by (intro exI [of _ h0] exI [of _ h]) (auto simp: kv_graph_def)
qed

theorem kv_harness_sound_witness:
  "\<exists>h0 h. kh_NewHarness empty_network [] 3 = Inr h0 \<and> kv_run [KCrash 1, KDelay 0, KDisconnect 2] h0 = Some (Inr h)
     \<and> set (kh_http h) = {14200, 14202} \<and> (0, 2) \<notin> links (raft_view h)"
proof -
  let ?xs = "[KCrash 1, KDelay 0, KDisconnect 2]" and ?E = "{(i, j). i < (3::nat) \<and> j < 3 \<and> i \<noteq> j}"
  have "kv_plan 3 ?xs ({..<3}, ?E)" by simp
  from kv_harness_sound [OF this, of 0]
  obtain h0 h where h: "kh_NewHarness empty_network [] 3 = Inr h0" "kv_run ?xs h0 = Some (Inr h)"
      "(living (raft_view h), links (raft_view h)) = fold kv_links ?xs ({..<3}, ?E)"
      "set (kh_http h) = http_port ` living (raft_view h)" by blast
  have "living (raft_view h) = {0, 2}" using h(3) by auto
  then have "set (kh_http h) = {14200, 14202}" using h(4) by (simp add: http_port_def)
  moreover have "(0, 2) \<notin> links (raft_view h)" using h(3) by (auto simp: isolate_def)
  ultimately show ?thesis using h(1,2) by blast
qed

end
