(* ===== verification/KVCluster.thy ===== *)
theory KVCluster
  imports KVService Raft3Safety
begin

text \<open>
  The key-value service of \<^verbatim>\<open>src/raft/part5kv\<close> on a cluster of Raft servers: the composition of the
  consensus module, its commit stream and the updater. What the cluster guarantees for the streams
  of committed commands is carried to the data stores of the services.
\<close>

section \<open>The replicated store\<close>

text \<open>
  C17: the services of a cluster are replicas of one store. In every run of prompt events in which the
  servers \<open>m\<close> and \<open>n\<close> are not restarted, if the service of \<open>m\<close> has applied everything its server delivered
  and the service of \<open>n\<close> as many entries of its own, then neither panics where the other did not and
  their data stores are equal.
\<close>

theorem kv_cluster_replicas:
  assumes "good_config ns" "part3_prompt ns evs" "part3_run ns evs = Some (Inr s)"
    and "ERestart m \<notin> set evs" "ERestart n \<notin> set evs" "length (commits s m) \<le> length (commits s n)"
    and "updater_all (commits s m) (kv_New m) = Inr (kvs, dl)"
  shows "\<exists>kvs' dl'. updater_all (take (length (commits s m)) (commits s n)) (kv_New n) = Inr (kvs', dl')
           \<and> kv_ds kvs' = kv_ds kvs"
proof (rule updater_total)
  show "apply_all (executed (map ce_Command (take (length (commits s m)) (commits s n))) (lastRequestIDPerClient (kv_New n)))
          (kv_ds (kv_New n)) = Inr (kv_ds kvs)"
    using updater_executes [OF assms(7)] streams_agree [OF assms(1-6)] by (simp add: kv_New_def)
qed

definition ex_kv_run :: "KVCommand event list" where
  "ex_kv_run = [EReady 0 0, ETimerNew 3 150, ETimerTick 3 200, EVoteSend 4, EVoteDeliver 4 201, EVoteReply 4 202,
     ELoopSend 8, ESubmit 0 (kv_cmd CommandPut ''k'' ''v'' 7 1), ESend 9, ESendDeliver 9 203, ESendReply 9 204, ECommit 0,
     ELoopFire 8, ELoopSend 8, ESend 13, ESendDeliver 13 260, ECommit 1]"

lemma ex_kv_run_ok:
  "part3_prompt [0, 1, 2] ex_kv_run"
  "ends_in (part3_run [0, 1, 2] ex_kv_run)
     (\<lambda>s. commits s 0 = [\<lparr>ce_Command = kv_cmd CommandPut ''k'' ''v'' 7 1, ce_Index = 0, ce_Term = 1\<rparr>] \<and> length (commits s 1) = 1)"
  by (simp_all add: ex_kv_run_def prompt_def p3_eval)

theorem kv_cluster_replicas_witness:
  "\<exists>s kvs dl. part3_run [0, 1, 2] ex_kv_run = Some (Inr s) \<and> updater_all (commits s 1) (kv_New 1) = Inr (kvs, dl)
     \<and> ds_Get (kv_ds kvs) ''k'' = (''v'', True)"
proof -
  obtain s where s: "part3_run [0, 1, 2] ex_kv_run = Some (Inr s)" "length (commits s 1) = 1"
      "commits s 0 = [\<lparr>ce_Command = kv_cmd CommandPut ''k'' ''v'' 7 1, ce_Index = 0, ce_Term = 1\<rparr>]"
    using ends_inD [OF ex_kv_run_ok(2)] by blast
  have cfg: "good_config [0, 1, 2]" by (simp add: good_config_def)
  obtain kvs dl where u: "updater_all (commits s 0) (kv_New 0) = Inr (kvs, dl)" "ds_Get (kv_ds kvs) ''k'' = (''v'', True)"
    by (simp add: s(3) kv_ops)
  have "ERestart 0 \<notin> set ex_kv_run" "ERestart 1 \<notin> set ex_kv_run" by (simp_all add: ex_kv_run_def)
  moreover have "length (commits s 0) \<le> length (commits s 1)" using s(2,3) by simp
  ultimately obtain kvs' dl' where "updater_all (take (length (commits s 0)) (commits s 1)) (kv_New 1) = Inr (kvs', dl')"
      "kv_ds kvs' = kv_ds kvs"
    using kv_cluster_replicas [OF cfg ex_kv_run_ok(1) s(1) _ _ _ u(1)] by blast
  then show ?thesis using s u(2) by auto
qed

end
