(* ===== verification/KVService4.thy ===== *)
theory KVService4
  imports KVService
begin

text \<open>
  The first version of the key-value service, \<^verbatim>\<open>src/raft/part4kv\<close>: no append, no request ids and no
  deduplication; responses can be switched off for testing. The handlers are split at their wait as
  in \<^verbatim>\<open>KVService\<close>, and the store is shown to be the one of part5 that executes every command.
\<close>

datatype CommandKind4 = CommandInvalid4 | CommandGet4 | CommandPut4 | CommandCAS4

fun CommandKind4_String :: "CommandKind4 \<Rightarrow> string" where
  "CommandKind4_String CommandInvalid4 = ''invalid''"
| "CommandKind4_String CommandGet4 = ''get''"
| "CommandKind4_String CommandPut4 = ''put''"
| "CommandKind4_String CommandCAS4 = ''cas''"

record KVCommand4 =
  Kind4 :: CommandKind4
  Key4 :: string
  Value4 :: string
  CompareValue4 :: string
  ResultValue4 :: string
  ResultFound4 :: bool
  Id4 :: int

definition zero_command4 :: KVCommand4 where
  "zero_command4 = \<lparr>Kind4 = CommandInvalid4, Key4 = [], Value4 = [], CompareValue4 = [], ResultValue4 = [],
     ResultFound4 = False, Id4 = 0\<rparr>"

record PutRequest4 =
  put4_Key :: string
  put4_Value :: string

record GetRequest4 =
  get4_Key :: string

record CASRequest4 =
  cas4_Key :: string
  cas4_CompareValue :: string
  cas4_Value :: string

section \<open>The data store\<close>

type_synonym DataStore4 = "string \<rightharpoonup> string"

definition NewDataStore4 :: DataStore4 where
  "NewDataStore4 = Map.empty"

definition ds4_Get :: "DataStore4 \<Rightarrow> string \<Rightarrow> string \<times> bool" where
  "ds4_Get d key = (case d key of None \<Rightarrow> ([], False) | Some v \<Rightarrow> (v, True))"

definition ds4_Put :: "DataStore4 \<Rightarrow> string \<Rightarrow> string \<Rightarrow> DataStore4 \<times> string \<times> bool" where
  "ds4_Put d key v = (let (old, ok) = ds4_Get d key in (d(key \<mapsto> v), old, ok))"

definition ds4_CAS :: "DataStore4 \<Rightarrow> string \<Rightarrow> string \<Rightarrow> string \<Rightarrow> DataStore4 \<times> string \<times> bool" where
  "ds4_CAS d key compare v =
     (let (prevValue, ok) = ds4_Get d key
      in (if ok \<and> prevValue = compare then d(key \<mapsto> v) else d, prevValue, ok))"

lemmas ds4_ops = ds4_Get_def ds4_Put_def ds4_CAS_def

interpretation ds4: kv_store ds4_Get ds4_Put ds4_CAS
  by unfold_locales (auto simp: ds4_ops Let_def split: option.splits if_splits)

section \<open>The service\<close>

record KVServiceState4 =
  kv4_id :: int
  commitSubs4 :: "int \<rightharpoonup> nat"
  next_chan4 :: nat
  kv4_ds :: DataStore4
  httpResponsesEnabled :: bool

definition kv4_New :: "int \<Rightarrow> KVServiceState4" where
  "kv4_New i = \<lparr>kv4_id = i, commitSubs4 = Map.empty, next_chan4 = 0, kv4_ds = NewDataStore4,
     httpResponsesEnabled = True\<rparr>"

definition ToggleHTTPResponsesEnabled :: "bool \<Rightarrow> KVServiceState4 \<Rightarrow> KVServiceState4" where
  "ToggleHTTPResponsesEnabled enable kvs = kvs\<lparr>httpResponsesEnabled := enable\<rparr>"

definition sendHTTPResponse4 :: "KVResponse \<Rightarrow> KVServiceState4 \<Rightarrow> KVResponse option" where
  "sendHTTPResponse4 v kvs = (if httpResponsesEnabled kvs then Some v else None)"

definition createCommitSubscription4 :: "int \<Rightarrow> KVServiceState4 \<Rightarrow> (KVServiceState4 \<times> nat) go" where
  "createCommitSubscription4 logIndex kvs =
     (if commitSubs4 kvs logIndex \<noteq> None then Inl (Explicit ''duplicate commit subscription'')
      else Inr (kvs\<lparr>commitSubs4 := (commitSubs4 kvs)(logIndex \<mapsto> next_chan4 kvs), next_chan4 := Suc (next_chan4 kvs)\<rparr>,
                next_chan4 kvs))"

definition popCommitSubscription4 :: "int \<Rightarrow> KVServiceState4 \<Rightarrow> KVServiceState4 \<times> nat option" where
  "popCommitSubscription4 logIndex kvs =
     (kvs\<lparr>commitSubs4 := (commitSubs4 kvs)(logIndex := None)\<rparr>, commitSubs4 kvs logIndex)"

definition apply_command4 :: "KVCommand4 \<Rightarrow> DataStore4 \<Rightarrow> (DataStore4 \<times> KVCommand4) go" where
  "apply_command4 cmd d =
     (case Kind4 cmd of
        CommandGet4 \<Rightarrow>
          (let (v, ok) = ds4_Get d (Key4 cmd) in Inr (d, cmd\<lparr>ResultValue4 := v, ResultFound4 := ok\<rparr>))
      | CommandPut4 \<Rightarrow>
          (let (d', v, ok) = ds4_Put d (Key4 cmd) (Value4 cmd) in Inr (d', cmd\<lparr>ResultValue4 := v, ResultFound4 := ok\<rparr>))
      | CommandCAS4 \<Rightarrow>
          (let (d', v, ok) = ds4_CAS d (Key4 cmd) (CompareValue4 cmd) (Value4 cmd)
           in Inr (d', cmd\<lparr>ResultValue4 := v, ResultFound4 := ok\<rparr>))
      | CommandInvalid4 \<Rightarrow> Inl (Explicit ''unexpected command''))"

definition runUpdater4 ::
  "KVCommand4 CommitEntry \<Rightarrow> KVServiceState4 \<Rightarrow> (KVServiceState4 \<times> (nat \<times> KVCommand4) option) go" where
  "runUpdater4 entry kvs =
     go_bind (apply_command4 (ce_Command entry) (kv4_ds kvs)) (\<lambda>(d, cmd).
       let (kvs1, sub) = popCommitSubscription4 (ce_Index entry) (kvs\<lparr>kv4_ds := d\<rparr>)
       in Inr (kvs1, case sub of None \<Rightarrow> None | Some ch \<Rightarrow> Some (ch, cmd)))"

text \<open>A handler has answered with status 400, has answered or kept silent, or waits on a channel.\<close>

datatype phase4 = BadRequest4 | Responded4 "KVResponse option" | WaitsOn4 nat

definition submit_and_wait4 ::
  "KVCommand4 \<Rightarrow> KVServiceState4 \<Rightarrow> KVCommand4 ConsensusModule
     \<Rightarrow> (KVServiceState4 \<times> KVCommand4 ConsensusModule \<times> effect list \<times> phase4) go" where
  "submit_and_wait4 cmd kvs cm =
     (let (cm1, logIndex, es) = Submit cmd cm
      in if logIndex < 0
         then Inr (kvs, cm1, es, Responded4 (sendHTTPResponse4 (status_only StatusNotLeader) kvs))
         else go_bind (createCommitSubscription4 logIndex kvs) (\<lambda>(kvs1, sub). Inr (kvs1, cm1, es, WaitsOn4 sub)))"

definition reply_to4 :: "KVCommand4 \<Rightarrow> KVServiceState4 \<Rightarrow> KVResponse option" where
  "reply_to4 commitCmd kvs =
     (if Id4 commitCmd = kv4_id kvs
      then sendHTTPResponse4 \<lparr>RespStatus = StatusOK, KeyFound = ResultFound4 commitCmd,
                              PrevValue = ResultValue4 commitCmd\<rparr> kvs
      else sendHTTPResponse4 (status_only StatusFailedCommit) kvs)"

definition handlePut4 ::
  "PutRequest4 option \<Rightarrow> KVServiceState4 \<Rightarrow> KVCommand4 ConsensusModule
     \<Rightarrow> (KVServiceState4 \<times> KVCommand4 ConsensusModule \<times> effect list \<times> phase4) go" where
  "handlePut4 req kvs cm =
     (case req of
        None \<Rightarrow> Inr (kvs, cm, [], BadRequest4)
      | Some pr \<Rightarrow>
          submit_and_wait4 (zero_command4\<lparr>Kind4 := CommandPut4, Key4 := put4_Key pr, Value4 := put4_Value pr, Id4 := kv4_id kvs\<rparr>) kvs cm)"

definition handleGet4 ::
  "GetRequest4 option \<Rightarrow> KVServiceState4 \<Rightarrow> KVCommand4 ConsensusModule
     \<Rightarrow> (KVServiceState4 \<times> KVCommand4 ConsensusModule \<times> effect list \<times> phase4) go" where
  "handleGet4 req kvs cm =
     (case req of
        None \<Rightarrow> Inr (kvs, cm, [], BadRequest4)
      | Some gr \<Rightarrow> submit_and_wait4 (zero_command4\<lparr>Kind4 := CommandGet4, Key4 := get4_Key gr, Id4 := kv4_id kvs\<rparr>) kvs cm)"

definition handleCAS4 ::
  "CASRequest4 option \<Rightarrow> KVServiceState4 \<Rightarrow> KVCommand4 ConsensusModule
     \<Rightarrow> (KVServiceState4 \<times> KVCommand4 ConsensusModule \<times> effect list \<times> phase4) go" where
  "handleCAS4 req kvs cm =
     (case req of
        None \<Rightarrow> Inr (kvs, cm, [], BadRequest4)
      | Some cr \<Rightarrow>
          submit_and_wait4 (zero_command4\<lparr>Kind4 := CommandCAS4, Key4 := cas4_Key cr, Value4 := cas4_Value cr,
            CompareValue4 := cas4_CompareValue cr,
            Id4 := kv4_id kvs\<rparr>) kvs cm)"

section \<open>Every committed command is executed\<close>

fun updater_all4 ::
  "KVCommand4 CommitEntry list \<Rightarrow> KVServiceState4 \<Rightarrow> (KVServiceState4 \<times> (nat \<times> KVCommand4) list) go" where
  "updater_all4 [] kvs = Inr (kvs, [])"
| "updater_all4 (e # es) kvs =
     go_bind (runUpdater4 e kvs) (\<lambda>(kvs1, d). go_bind (updater_all4 es kvs1) (\<lambda>(kvs2, ds).
       Inr (kvs2, (case d of None \<Rightarrow> ds | Some x \<Rightarrow> x # ds))))"

text \<open>A command of part4 as a command of part5.\<close>

definition lift4 :: "KVCommand4 \<Rightarrow> KVCommand" where
  "lift4 c = zero_command
     \<lparr>Kind := (case Kind4 c of CommandInvalid4 \<Rightarrow> CommandInvalid | CommandGet4 \<Rightarrow> CommandGet
                             | CommandPut4 \<Rightarrow> CommandPut | CommandCAS4 \<Rightarrow> CommandCAS),
      Key := Key4 c, Value := Value4 c, CompareValue := CompareValue4 c, ServiceID := Id4 c\<rparr>"

lemma apply_command4_lift:
  "apply_command4 c d = Inr (d', r) \<Longrightarrow> \<exists>r'. apply_command (lift4 c) \<lparr>ds_data = d\<rparr> = Inr (\<lparr>ds_data = d'\<rparr>, r')"
  by (cases "Kind4 c")
    (auto simp: apply_command4_def apply_command_def lift4_def ds4_ops ds_ops Let_def split: option.splits if_splits)

text \<open>
  The part4 service executes every committed command, in commit order. Its store after a stream of
  entries is the store of part5 after executing the same commands one by one, with nothing filtered
  out; in particular a request that a client retries and that is committed twice is executed twice.
\<close>

theorem kv4_executes_all:
  assumes "updater_all4 es kvs = Inr (kvs', dl)"
  shows "apply_all (map (lift4 \<circ> ce_Command) es) \<lparr>ds_data = kv4_ds kvs\<rparr> = Inr \<lparr>ds_data = kv4_ds kvs'\<rparr>"
  using assms
proof (induction es arbitrary: kvs dl)
  case (Cons e es)
  then obtain kvs1 x dl1 where 1: "runUpdater4 e kvs = Inr (kvs1, x)" "updater_all4 es kvs1 = Inr (kvs', dl1)"
    by (auto simp: go_bind_eq_Inr)
  then obtain r where "apply_command4 (ce_Command e) (kv4_ds kvs) = Inr (kv4_ds kvs1, r)"
    by (auto simp: runUpdater4_def popCommitSubscription4_def go_bind_eq_Inr Let_def)
  from apply_command4_lift [OF this] Cons.IH [OF 1(2)] show ?case by auto
qed simp

definition ex_cas4 :: KVCommand4 where
  "ex_cas4 = zero_command4\<lparr>Kind4 := CommandCAS4, Key4 := ''k'', Value4 := ''b'', CompareValue4 := ''a''\<rparr>"

theorem kv4_executes_all_witness:
  "\<exists>kvs' dl. updater_all4 [\<lparr>ce_Command = ex_cas4, ce_Index = 0, ce_Term = 1\<rparr>] ((kv4_New 1)\<lparr>kv4_ds := [''k'' \<mapsto> ''a'']\<rparr>)
       = Inr (kvs', dl)
     \<and> apply_all [lift4 ex_cas4] \<lparr>ds_data = [''k'' \<mapsto> ''a'']\<rparr> = Inr \<lparr>ds_data = kv4_ds kvs'\<rparr>"
proof -
  let ?es = "[\<lparr>ce_Command = ex_cas4, ce_Index = 0, ce_Term = 1\<rparr>]"
  let ?kvs = "(kv4_New 1)\<lparr>kv4_ds := [''k'' \<mapsto> ''a'']\<rparr>"
  obtain kvs' dl where r: "updater_all4 ?es ?kvs = Inr (kvs', dl)"
    by (simp add: ex_cas4_def kv4_New_def zero_command4_def runUpdater4_def apply_command4_def popCommitSubscription4_def ds4_ops)
  from kv4_executes_all [OF r] show ?thesis using r by auto
qed

end
