(* ===== verification/KVClient4.thy ===== *)
theory KVClient4
  imports KVClient KVService4
begin

text \<open>
  The client library of the first key-value service, \<^verbatim>\<open>src/raft/part4kv/kvclient/kvclient.go\<close>: its
  requests carry no client or request number, and it does not know the status of a duplicate request.
  Its loop is related to the one of \<^verbatim>\<open>KVClient\<close>.
\<close>

record KVClientState4 =
  addrs4 :: "string list"
  assumedLeader4 :: nat
  clientID4 :: int

definition client4_New :: "string list \<Rightarrow> int \<Rightarrow> KVClientState4 \<times> int" where
  "client4_New serviceAddrs clientCount =
     (\<lparr>addrs4 = serviceAddrs, assumedLeader4 = 0, clientID4 = clientCount + 1\<rparr>, clientCount + 1)"

definition next_address4 :: "KVClientState4 \<Rightarrow> KVClientState4" where
  "next_address4 c = c\<lparr>assumedLeader4 := (assumedLeader4 c + 1) mod length (addrs4 c)\<rparr>"

fun send4 :: "nat \<Rightarrow> (nat \<Rightarrow> string \<Rightarrow> 'req \<Rightarrow> exchange) \<Rightarrow> string \<Rightarrow> 'req \<Rightarrow> KVClientState4 \<Rightarrow> KVResponse
    \<Rightarrow> (KVClientState4 \<times> KVResponse \<times> send_error option) go option" where
  "send4 0 net route req c resp = None"
| "send4 (Suc fuel) net route req c resp =
     (if assumedLeader4 c \<ge> length (addrs4 c) then Some (Inl IndexOutOfRange)
      else case net fuel (request_path (addrs4 c ! assumedLeader4 c) route) req of
        Failed r userDone retryExpired \<Rightarrow>
          if userDone then Some (Inr (c, r, Some ExchangeError))
          else if retryExpired then send4 fuel net route req (next_address4 c) r
          else Some (Inr (c, r, Some ExchangeError))
      | Answered r \<Rightarrow>
          (case RespStatus r of
             StatusNotLeader \<Rightarrow> send4 fuel net route req (next_address4 c) r
           | StatusOK \<Rightarrow> Some (Inr (c, r, None))
           | StatusFailedCommit \<Rightarrow> Some (Inr (c, r, Some CommitFailed))
           | _ \<Rightarrow> Some (Inl (Explicit ''unreachable''))))"

type_synonym client4_result = "(KVClientState4 \<times> string \<times> bool \<times> send_error option) go option"

definition client4_return :: "(KVClientState4 \<times> KVResponse \<times> send_error option) go option \<Rightarrow> client4_result" where
  "client4_return = map_option (map_sum id (\<lambda>(c, resp, err). (c, PrevValue resp, KeyFound resp, err)))"

definition client4_Put :: "nat \<Rightarrow> (nat \<Rightarrow> string \<Rightarrow> PutRequest4 \<Rightarrow> exchange) \<Rightarrow> KVClientState4 \<Rightarrow> string \<Rightarrow> string \<Rightarrow> client4_result" where
  "client4_Put fuel net c key v =
     client4_return (send4 fuel net ''put'' \<lparr>put4_Key = key, put4_Value = v\<rparr> c (status_only StatusInvalid))"

definition client4_Get :: "nat \<Rightarrow> (nat \<Rightarrow> string \<Rightarrow> GetRequest4 \<Rightarrow> exchange) \<Rightarrow> KVClientState4 \<Rightarrow> string \<Rightarrow> client4_result" where
  "client4_Get fuel net c key =
     client4_return (send4 fuel net ''get'' \<lparr>get4_Key = key\<rparr> c (status_only StatusInvalid))"

definition client4_CAS :: "nat \<Rightarrow> (nat \<Rightarrow> string \<Rightarrow> CASRequest4 \<Rightarrow> exchange) \<Rightarrow> KVClientState4 \<Rightarrow> string \<Rightarrow> string \<Rightarrow> string \<Rightarrow> client4_result" where
  "client4_CAS fuel net c key compare v =
     client4_return (send4 fuel net ''cas'' \<lparr>cas4_Key = key, cas4_CompareValue = compare, cas4_Value = v\<rparr> c
       (status_only StatusInvalid))"

text \<open>The part5 client with a request counter forgets the counter.\<close>

definition forget_requests :: "KVClientState \<Rightarrow> KVClientState4" where
  "forget_requests c = \<lparr>addrs4 = addrs c, assumedLeader4 = assumedLeader c, clientID4 = clientID c\<rparr>"

lemma forget_requests_simps [simp]:
  "addrs4 (forget_requests c) = addrs c" "assumedLeader4 (forget_requests c) = assumedLeader c"
  "next_address4 (forget_requests c) = forget_requests (next_address c)"
  by (simp_all add: forget_requests_def next_address4_def next_address_def)

text \<open>On services that never report a duplicate both loops make the same exchanges and return the same.\<close>

lemma send4_send:
  assumes "\<And>f p r. net f p req = Answered r \<Longrightarrow> RespStatus r \<noteq> StatusDuplicateRequest"
  shows "send4 fuel net route req (forget_requests c) resp
         = map_option (map_sum id (\<lambda>(c, r). (forget_requests c, r))) (send fuel net route req c resp)"
proof (induction fuel arbitrary: c resp)
  case (Suc fuel)
  then show ?case
    using assms [of fuel "request_path (addrs c ! assumedLeader c) route"]
    by (auto split: exchange.splits ResponseStatus.splits)
qed simp

end
