(* ===== verification/TorrentBitfield.thy ===== *)
theory TorrentBitfield
  imports Bytes "HOL-Library.Signed_Division"
begin

text \<open>
  The bitfield of pieces a peer has, \<^verbatim>\<open>src/torrent-client/bitfield/bitfield.go\<close>. Indices are Go ints: \<^verbatim>\<open>/\<close> and
  \<^verbatim>\<open>%\<close> truncate towards zero, and a shift by eight or more gives 0.
\<close>

type_synonym Bitfield = "byte list"

definition HasPiece :: "Bitfield \<Rightarrow> int \<Rightarrow> bool" where
  "HasPiece bf index =
     (let byteIndex = index sdiv 8; offset = index smod 8
      in if byteIndex < 0 \<or> byteIndex \<ge> int (length bf) then False
         else drop_bit (nat (7 - offset)) (bf ! nat byteIndex) AND 1 \<noteq> 0)"

definition SetPiece :: "Bitfield \<Rightarrow> int \<Rightarrow> Bitfield" where
  "SetPiece bf index =
     (let byteIndex = index sdiv 8; offset = index smod 8
      in if byteIndex < 0 \<or> byteIndex \<ge> int (length bf) then bf
         else bf[nat byteIndex := bf ! nat byteIndex OR push_bit (nat (7 - offset)) 1])"

text \<open>The specification: bit \<open>i\<close> counted from the most significant bit of the first byte.\<close>

definition piece_bit :: "Bitfield \<Rightarrow> nat \<Rightarrow> bool" where
  "piece_bit bf i \<longleftrightarrow> i div 8 < length bf \<and> bit (bf ! (i div 8)) (7 - i mod 8)"

lemma and_1_bit: "drop_bit n (b :: byte) AND 1 \<noteq> 0 \<longleftrightarrow> bit b n"
  by (simp add: and_one_eq bit_iff_odd_drop_bit odd_iff_mod_2_eq_one)

lemma trunc_nonneg: "0 \<le> i \<Longrightarrow> i sdiv 8 = i div (8::int)" "0 \<le> i \<Longrightarrow> i smod 8 = i mod (8::int)"
  by (auto simp: signed_divide_int_def signed_modulo_int_def sgn_if)

lemma trunc_neg:
  assumes "i < (0::int)"
  shows "i sdiv 8 < 0 \<or> i sdiv 8 = 0 \<and> i smod 8 < 0"
  using assms by (auto simp: signed_divide_int_def signed_modulo_int_def sgn_if)

lemma HasPiece_spec: "HasPiece bf i \<longleftrightarrow> 0 \<le> i \<and> piece_bit bf (nat i)"
proof (cases "0 \<le> i")
  case True
  have "nat (i div 8) = nat i div 8" "nat (7 - i mod 8) = 7 - nat i mod 8"
    using True by (simp_all add: nat_div_distrib nat_diff_distrib nat_mod_distrib)
  moreover have "\<not> i div 8 < 0" "int (length bf) \<le> i div 8 \<longleftrightarrow> \<not> nat i div 8 < length bf"
    using True by linarith+
  ultimately show ?thesis using True
    by (simp add: HasPiece_def piece_bit_def Let_def trunc_nonneg and_1_bit)
next
  case False
  then show ?thesis using trunc_neg [of i]
    by (auto simp: HasPiece_def Let_def and_1_bit byte_bit_high)
qed

lemma SetPiece_nonneg:
  assumes "0 \<le> i"
  shows "SetPiece bf i = (if nat i div 8 < length bf
           then bf[nat i div 8 := bf ! (nat i div 8) OR push_bit (7 - nat i mod 8) 1] else bf)"
proof -
  have "nat (i div 8) = nat i div 8" "nat (7 - i mod 8) = 7 - nat i mod 8"
    using assms by (simp_all add: nat_div_distrib nat_diff_distrib nat_mod_distrib)
  moreover have "\<not> i div 8 < 0" "int (length bf) \<le> i div 8 \<longleftrightarrow> \<not> nat i div 8 < length bf"
    using assms by linarith+
  ultimately show ?thesis using assms by (simp add: SetPiece_def Let_def trunc_nonneg)
qed

text \<open>A negative index sets no bit: the shift moves the only bit out of the byte.\<close>

lemma power_byte_high: "8 \<le> n \<Longrightarrow> (2 :: byte) ^ n = 0"
  by (rule bit_word_eqI) (auto simp: bit_simps)

lemma SetPiece_neg:
  assumes "i < 0"
  shows "SetPiece bf i = bf"
proof -
  have "nat (7 - i smod 8) \<ge> 8" if "i smod 8 < 0" using that by linarith
  then show ?thesis using trunc_neg [OF assms]
    by (auto simp: SetPiece_def Let_def power_byte_high list_update_id)
qed

lemma length_SetPiece [simp]: "length (SetPiece bf i) = length bf"
  by (simp add: SetPiece_def Let_def)

lemma offset_eq: "i div 8 = j div 8 \<Longrightarrow> 7 - i mod 8 = 7 - j mod 8 \<longleftrightarrow> i = (j :: nat)"
  using div_mult_mod_eq [of i 8] div_mult_mod_eq [of j 8] mod_less_divisor [of 8 i] mod_less_divisor [of 8 j] by linarith

lemma SetPiece_bit:
  "piece_bit (SetPiece bf i) j \<longleftrightarrow> piece_bit bf j \<or> 0 \<le> i \<and> nat i = j \<and> j div 8 < length bf"
proof (cases "0 \<le> i")
  case True
  have m: "7 - j mod 8 < 8" by simp
  show ?thesis
    using True offset_eq [of "nat i" j] m
    by (auto simp: SetPiece_nonneg piece_bit_def nth_list_update bit_simps)
qed (simp add: SetPiece_neg)

text \<open>
  After \<^verbatim>\<open>SetPiece(i)\<close> the bitfield has exactly the pieces it had before and piece \<open>i\<close>. This holds for every
  pair of Go ints: an index beyond the last byte is discarded, and so is a negative one, although \<open>-7/8\<close>
  is 0 in Go and passes the bounds check.
\<close>

theorem bitfield_set_has:
  "HasPiece (SetPiece bf i) j \<longleftrightarrow> HasPiece bf j \<or> j = i \<and> 0 \<le> i \<and> i < 8 * int (length bf)"
proof -
  have "nat j div 8 < length bf \<longleftrightarrow> j < 8 * int (length bf)" if "0 \<le> j" using that by linarith
  then show ?thesis by (auto simp: HasPiece_spec SetPiece_bit)
qed

end
