(* ===== verification/WireFormat.thy ===== *)
theory WireFormat
  imports Bytes
begin

text \<open>
  The contract of a binary format that is written to and read from a stream: what was written is read
  back, and reading consumes exactly the bytes that were written. From it follow, once for all formats,
  that no two values share an encoding and that a sequence of values is read back from the stream.
\<close>

text \<open>Reading \<open>n\<close> values one after the other.\<close>

fun read_n :: "nat \<Rightarrow> (byte list \<Rightarrow> ('a \<times> byte list) res) \<Rightarrow> byte list \<Rightarrow> ('a list \<times> byte list) res" where
  "read_n 0 rd r = Inr ([], r)"
| "read_n (Suc n) rd r = res_bind (rd r) (\<lambda>(x, r1). res_bind (read_n n rd r1) (\<lambda>(xs, r2). Inr (x # xs, r2)))"

locale wire_format =
  fixes wr :: "'a \<Rightarrow> byte list" and rd :: "byte list \<Rightarrow> ('a \<times> byte list) res" and ok :: "'a \<Rightarrow> bool"
  assumes read_back: "ok x \<Longrightarrow> rd (wr x @ r) = Inr (x, r)"
begin

lemma prefix_free: "ok x \<Longrightarrow> ok y \<Longrightarrow> wr x @ r = wr y @ r' \<Longrightarrow> x = y \<and> r = r'"
  using read_back by (metis Inr_inject Pair_inject)

lemma reads_all: "list_all ok xs \<Longrightarrow> read_n (length xs) rd (concat (map wr xs) @ r) = Inr (xs, r)"
  by (induction xs) (simp_all add: read_back)

end

end
