(* ===== verification/TorrentMessage.thy ===== *)
theory TorrentMessage
  imports WireFormat
begin

text \<open>
  The messages of the peer wire protocol, \<^verbatim>\<open>src/torrent-client/message/message.go\<close>. A nil message, the
  keep-alive, is \<^term>\<open>None\<close>. Lengths wrap at 32 bits as they do in the code.
\<close>

type_synonym messageID = byte

definition MsgChoke :: messageID where "MsgChoke = 0"
definition MsgUnchoke :: messageID where "MsgUnchoke = 1"
definition MsgInterested :: messageID where "MsgInterested = 2"
definition MsgNotInterested :: messageID where "MsgNotInterested = 3"
definition MsgHave :: messageID where "MsgHave = 4"
definition MsgBitfield :: messageID where "MsgBitfield = 5"
definition MsgRequest :: messageID where "MsgRequest = 6"
definition MsgPiece :: messageID where "MsgPiece = 7"
definition MsgCancel :: messageID where "MsgCancel = 8"

lemmas msg_ids = MsgChoke_def MsgUnchoke_def MsgInterested_def MsgNotInterested_def MsgHave_def MsgBitfield_def
  MsgRequest_def MsgPiece_def MsgCancel_def

record Message =
  ID :: messageID
  Payload :: "byte list"

definition FormatRequest :: "int \<Rightarrow> int \<Rightarrow> int \<Rightarrow> Message" where
  "FormatRequest index begin len =
     \<lparr>ID = MsgRequest,
      Payload = PutUint32 (word_of_int index) @ PutUint32 (word_of_int begin) @ PutUint32 (word_of_int len)\<rparr>"

definition FormatHave :: "int \<Rightarrow> Message" where
  "FormatHave index = \<lparr>ID = MsgHave, Payload = PutUint32 (word_of_int index)\<rparr>"

text \<open>The buffer after the call and the number of bytes copied.\<close>

definition ParsePiece :: "int \<Rightarrow> byte list \<Rightarrow> Message \<Rightarrow> (byte list \<times> int) res" where
  "ParsePiece index buf msg =
     (if ID msg \<noteq> MsgPiece then Inl (Failure ''Expected PIECE'')
      else if length (Payload msg) < 8 then Inl (Failure ''Payload too short'')
      else let parsedIndex = uint (Uint32 (take 4 (Payload msg)))
           in if parsedIndex \<noteq> index then Inl (Failure ''Expected index'')
              else let begin = uint (Uint32 (take 4 (drop 4 (Payload msg))))
                   in if begin \<ge> int (length buf) then Inl (Failure ''Begin offset too high'')
                      else let data = drop 8 (Payload msg)
                           in if begin + int (length data) > int (length buf) then Inl (Failure ''Data too long'')
                              else Inr (copy_at (nat begin) buf data, int (length data)))"

definition ParseHave :: "Message \<Rightarrow> int res" where
  "ParseHave msg =
     (if ID msg \<noteq> MsgHave then Inl (Failure ''Expected HAVE'')
      else if length (Payload msg) \<noteq> 4 then Inl (Failure ''Expected payload length 4'')
      else Inr (uint (Uint32 (Payload msg))))"

text \<open>The length of the buffer, \<^verbatim>\<open>4+length\<close>, is a 32-bit sum. When it wraps, slicing or indexing the buffer panics.\<close>

definition msg_Serialize :: "Message option \<Rightarrow> byte list go" where
  "msg_Serialize m =
     (case m of
        None \<Rightarrow> Inr (replicate 4 0)
      | Some m \<Rightarrow>
          let length' = word_of_nat (length (Payload m) + 1) :: 32 word;
              buf = replicate (unat (4 + length')) 0
          in if length buf < 4 then Inl SliceBounds
             else if length buf < 5 then Inl IndexOutOfRange
             else Inr (copy_at 5 ((copy_at 0 buf (PutUint32 length'))[4 := ID m]) (Payload m)))"

definition msg_Read :: "byte list \<Rightarrow> (Message option \<times> byte list) res" where
  "msg_Read r =
     res_bind (ReadFull 4 r) (\<lambda>(lengthBuf, r1).
       let length' = Uint32 lengthBuf
       in if length' = 0 then Inr (None, r1)
          else res_bind (ReadFull (unat length') r1) (\<lambda>(messageBuf, r2).
            Inr (Some \<lparr>ID = messageBuf ! 0, Payload = drop 1 messageBuf\<rparr>, r2)))"

definition msg_name :: "Message option \<Rightarrow> string" where
  "msg_name m =
     (case m of
        None \<Rightarrow> ''KeepAlive''
      | Some m \<Rightarrow>
          if ID m = MsgChoke then ''Choke''
          else if ID m = MsgUnchoke then ''Unchoke''
          else if ID m = MsgInterested then ''Interested''
          else if ID m = MsgNotInterested then ''NotInterested''
          else if ID m = MsgHave then ''Have''
          else if ID m = MsgBitfield then ''Bitfield''
          else if ID m = MsgRequest then ''Request''
          else if ID m = MsgPiece then ''Piece''
          else if ID m = MsgCancel then ''Cancel''
          else ''Unknown#'' @ Itoa (uint (ID m)))"

definition msg_String :: "Message option \<Rightarrow> string" where
  "msg_String m =
     (case m of None \<Rightarrow> msg_name m
              | Some x \<Rightarrow> msg_name m @ '' ['' @ Itoa (int (length (Payload x))) @ '']'')"

section \<open>Messages are read back\<close>

text \<open>The messages whose length fits the 32-bit arithmetic.\<close>

fun msg_ok :: "Message option \<Rightarrow> bool" where
  "msg_ok None \<longleftrightarrow> True"
| "msg_ok (Some m) \<longleftrightarrow> length (Payload m) + 5 < 2 ^ 32"

definition msg_bytes :: "Message option \<Rightarrow> byte list" where
  "msg_bytes m = (case m of None \<Rightarrow> replicate 4 0
                          | Some m \<Rightarrow> PutUint32 (word_of_nat (length (Payload m) + 1)) @ ID m # Payload m)"

lemma unat_len32: "n < 2 ^ 32 \<Longrightarrow> unat (word_of_nat n :: 32 word) = n"
  by (simp add: unat_of_nat take_bit_nat_eq_self)

lemma msg_Serialize_ok:
  assumes "msg_ok m"
  shows "msg_Serialize m = Inr (msg_bytes m)"
proof (cases m)
  case (Some x)
  let ?n = "length (Payload x)"
  have "unat (4 + word_of_nat (?n + 1) :: 32 word) = unat (word_of_nat (?n + 5) :: 32 word)" by (simp add: add.commute)
  also have "\<dots> = ?n + 5" by (rule unat_len32) (use assms Some in simp)
  finally have l: "unat (4 + word_of_nat (?n + 1) :: 32 word) = 5 + ?n" by simp
  let ?p = "PutUint32 (word_of_nat (?n + 1))"
  have b: "copy_at 0 (replicate (5 + ?n) 0) ?p = ?p @ replicate (Suc ?n) 0" by (simp add: copy_at_fit)
  have c: "(?p @ replicate (Suc ?n) 0)[4 := ID x] = ?p @ ID x # replicate ?n 0"
    by (simp add: list_update_append)
  have d: "copy_at 5 (?p @ ID x # replicate ?n 0) (Payload x) = ?p @ ID x # Payload x" by (simp add: copy_at_fit)
  show ?thesis
    unfolding msg_Serialize_def msg_bytes_def Some option.case Let_def l b c d by simp
qed (simp add: msg_Serialize_def msg_bytes_def)

lemma msg_Read_bytes:
  assumes "msg_ok m"
  shows "msg_Read (msg_bytes m @ r) = Inr (m, r)"
proof (cases m)
  case None
  have "Uint32 (replicate 4 0) = 0" by (simp add: Uint32_def)
  then show ?thesis
    using None ReadFull_append [of "replicate 4 0" 4 r] by (simp add: msg_Read_def msg_bytes_def)
next
  case (Some x)
  let ?n = "Suc (length (Payload x))" and ?w = "word_of_nat (Suc (length (Payload x))) :: 32 word"
  have n: "unat ?w = ?n" by (rule unat_len32) (use assms Some in simp)
  then have "?w \<noteq> 0" by (metis Zero_not_Suc unat_0)
  moreover have "ReadFull 4 (PutUint32 ?w @ (ID x # Payload x) @ r) = Inr (PutUint32 ?w, (ID x # Payload x) @ r)"
    by (rule ReadFull_append) simp
  moreover have "ReadFull ?n ((ID x # Payload x) @ r) = Inr (ID x # Payload x, r)"
    by (rule ReadFull_append) simp
  ultimately show ?thesis
    using Some n by (simp add: msg_Read_def msg_bytes_def del: of_nat_Suc)
qed

interpretation messages: wire_format msg_bytes msg_Read msg_ok
  by unfold_locales (rule msg_Read_bytes)

text \<open>Conversely, what \<^verbatim>\<open>Read\<close> accepts is the serialization of what it returns.\<close>

lemma msg_Read_inv:
  assumes "msg_Read s = Inr (m, r)"
  shows "s = msg_bytes m @ r"
proof -
  obtain b r1 where b: "length b = 4" "s = b @ r1"
    and m: "if Uint32 b = 0 then m = None \<and> r = r1
            else (\<exists>c. ReadFull (unat (Uint32 b)) r1 = Inr (c, r) \<and> m = Some \<lparr>ID = c ! 0, Payload = drop 1 c\<rparr>)"
    using assms by (auto simp: msg_Read_def res_bind_eq_Inr ReadFull_Inr Let_def split: if_splits)
  show ?thesis
  proof (cases "Uint32 b = 0")
    case True
    have "b = PutUint32 0" using True b(1) PutUint32_Uint32_length by metis
    then have "b = replicate 4 0" by (simp add: PutUint32_def eval_nat_numeral)
    then show ?thesis using True m b by (simp add: msg_bytes_def)
  next
    case False
    then obtain c where c: "length c = unat (Uint32 b)" "r1 = c @ r" "m = Some \<lparr>ID = c ! 0, Payload = drop 1 c\<rparr>"
      using m by (auto simp: ReadFull_Inr)
    obtain y ys where ys: "c = y # ys" using c(1) False by (cases c) (auto simp: unat_eq_0)
    have "word_of_nat (unat (Uint32 b)) = Uint32 b" by simp
    then have "word_of_nat (Suc (length ys)) = Uint32 b" using c(1) ys by simp
    then show ?thesis
      using b c ys PutUint32_Uint32_length by (simp add: msg_bytes_def del: of_nat_Suc)
  qed
qed

text \<open>
  C24: the messages of a stream are read back. Whatever sequence of messages is serialized, each of them
  short enough for the 32-bit length, \<^verbatim>\<open>Serialize\<close> succeeds on each, and as many calls of \<^verbatim>\<open>Read\<close> on the
  concatenation return the same messages, keep-alives as nil, and leave the rest of the stream.
  Conversely, whenever \<^verbatim>\<open>Read\<close> returns a message that \<^verbatim>\<open>Serialize\<close> accepts, it consumed its serialization.
\<close>

theorem message_stream_roundtrip:
  assumes "list_all msg_ok ms"
  shows "\<exists>bs. map msg_Serialize ms = map Inr bs
           \<and> read_n (length ms) msg_Read (concat bs @ r) = Inr (ms, r)
           \<and> (\<forall>s m r'. msg_Read s = Inr (m, r') \<and> msg_ok m \<longrightarrow> msg_Serialize m = Inr (take (length s - length r') s))"
proof (intro exI conjI allI impI)
  show "map msg_Serialize ms = map Inr (map msg_bytes ms)"
    using assms by (induction ms) (simp_all add: msg_Serialize_ok)
  show "read_n (length ms) msg_Read (concat (map msg_bytes ms) @ r) = Inr (ms, r)"
    using assms by (rule messages.reads_all)
  fix s m r' assume "msg_Read s = Inr (m, r') \<and> msg_ok m"
  then show "msg_Serialize m = Inr (take (length s - length r') s)"
    using msg_Read_inv [of s m r'] by (simp add: msg_Serialize_ok)
qed

definition ex_messages :: "Message option list" where
  "ex_messages = [None, Some (FormatHave 7), Some \<lparr>ID = MsgUnchoke, Payload = []\<rparr>]"

theorem message_stream_roundtrip_witness:
  "\<exists>bs. map msg_Serialize ex_messages = map Inr bs
     \<and> read_n (length ex_messages) msg_Read (concat bs @ [1, 2]) = Inr (ex_messages, [1, 2])"
proof -
  have "list_all msg_ok ex_messages" by (simp add: ex_messages_def FormatHave_def)
  from message_stream_roundtrip [OF this, of "[1, 2]"] show ?thesis by blast
qed

section \<open>Parsing\<close>

lemma uint_of_int32: "0 \<le> i \<Longrightarrow> i < 2 ^ 32 \<Longrightarrow> uint (word_of_int i :: 32 word) = i"
  by (simp add: take_bit_int_eq_self uint_word_of_int_eq)

lemma ParseHave_FormatHave: "0 \<le> i \<Longrightarrow> i < 2 ^ 32 \<Longrightarrow> ParseHave (FormatHave i) = Inr i"
  using uint_of_int32 [of i] by (simp add: ParseHave_def FormatHave_def)

text \<open>The message a peer answers a request with.\<close>

definition piece_message :: "int \<Rightarrow> int \<Rightarrow> byte list \<Rightarrow> Message" where
  "piece_message index begin data =
     \<lparr>ID = MsgPiece, Payload = PutUint32 (word_of_int index) @ PutUint32 (word_of_int begin) @ data\<rparr>"

lemma ParsePiece_piece_message:
  assumes "0 \<le> index" "index < 2 ^ 32" "0 \<le> begin" "begin < 2 ^ 32" "begin < int (length buf)"
    and "begin + int (length data) \<le> int (length buf)"
  shows "ParsePiece index buf (piece_message index begin data) = Inr (copy_at (nat begin) buf data, int (length data))"
  using assms uint_of_int32 [of index] uint_of_int32 [of "begin"]
  by (simp add: ParsePiece_def piece_message_def)

text \<open>The checks of \<^verbatim>\<open>ParsePiece\<close>, over natural numbers.\<close>

definition piece_fits :: "int \<Rightarrow> byte list \<Rightarrow> Message \<Rightarrow> nat \<Rightarrow> bool" where
  "piece_fits index buf msg off \<longleftrightarrow>
     ID msg = MsgPiece \<and> 8 \<le> length (Payload msg) \<and> uint (Uint32 (take 4 (Payload msg))) = index
     \<and> off = unat (Uint32 (take 4 (drop 4 (Payload msg)))) \<and> off < length buf
     \<and> off + length (drop 8 (Payload msg)) \<le> length buf"

lemma ParsePiece_fits:
  assumes "piece_fits index buf msg off"
  shows "ParsePiece index buf msg = Inr (copy_at off buf (drop 8 (Payload msg)), int (length (drop 8 (Payload msg))))"
proof -
  let ?w = "Uint32 (take 4 (drop 4 (Payload msg)))" and ?d = "drop 8 (Payload msg)"
  have "uint ?w = int off" using assms by (simp add: piece_fits_def)
  moreover have "off < length buf" "off + length ?d \<le> length buf" using assms unfolding piece_fits_def by blast+
  ultimately have c: "(uint ?w \<ge> int (length buf)) = False" "(uint ?w + int (length ?d) > int (length buf)) = False"
    "nat (uint ?w) = off" by (simp_all del: length_drop)
  have "(ID msg \<noteq> MsgPiece) = False" "(length (Payload msg) < 8) = False"
    "(uint (Uint32 (take 4 (Payload msg))) \<noteq> index) = False" using assms by (auto simp: piece_fits_def)
  then show ?thesis unfolding ParsePiece_def Let_def c by (simp only: if_False)
qed

lemma ParsePiece_Inr:
  assumes "ParsePiece index buf msg = Inr p"
  shows "\<exists>off. piece_fits index buf msg off"
proof -
  let ?w = "Uint32 (take 4 (drop 4 (Payload msg)))" and ?d = "drop 8 (Payload msg)"
  have 1: "ID msg = MsgPiece" "\<not> length (Payload msg) < 8" "uint (Uint32 (take 4 (Payload msg))) = index"
    "\<not> uint ?w \<ge> int (length buf)" "\<not> uint ?w + int (length ?d) > int (length buf)"
    using assms unfolding ParsePiece_def Let_def by (auto simp del: length_drop split: if_splits)
  have u: "uint ?w = int (unat ?w)" by simp
  have "unat ?w < length buf" "unat ?w + length ?d \<le> length buf" using 1(4,5) unfolding u by linarith+
  then show ?thesis using 1(1-3) unfolding piece_fits_def by (intro exI [of _ "unat ?w"]) (simp del: length_drop)
qed

lemma ParsePiece_Inl: "ParsePiece index buf msg = Inl e \<Longrightarrow> \<exists>s. e = Failure s"
  unfolding ParsePiece_def Let_def by (auto split: if_splits)

text \<open>
  \<^verbatim>\<open>ParsePiece\<close> never writes outside the block it was sent. It accepts a message exactly when it is a PIECE
  message for the expected index with at least the eight header bytes, whose data starts before the end
  of the buffer and fits into it. It then returns the length of the data; the buffer keeps its length,
  holds the data at the offset of the message and is unchanged everywhere else. In every other case it
  returns an error, and it never panics.
\<close>

theorem ParsePiece_spec:
  "case ParsePiece index buf msg of
     Inr (buf', n) \<Rightarrow>
       \<exists>off. piece_fits index buf msg off \<and> n = int (length (Payload msg)) - 8 \<and> length buf' = length buf
           \<and> take (nat n) (drop off buf') = drop 8 (Payload msg)
           \<and> take off buf' = take off buf \<and> drop (off + nat n) buf' = drop (off + nat n) buf
   | Inl e \<Rightarrow> (\<exists>s. e = Failure s) \<and> (\<nexists>off. piece_fits index buf msg off)"
proof (cases "ParsePiece index buf msg")
  case (Inl e)
  then show ?thesis using ParsePiece_Inl ParsePiece_fits by fastforce
next
  case (Inr p)
  then obtain off where off: "piece_fits index buf msg off" using ParsePiece_Inr by blast
  let ?d = "drop 8 (Payload msg)"
  have l: "off + length ?d \<le> length buf" "8 \<le> length (Payload msg)" using off unfolding piece_fits_def by blast+
  have "p = (copy_at off buf ?d, int (length ?d))" using Inr ParsePiece_fits [OF off] by simp
  moreover have "copy_at off buf ?d = take off buf @ ?d @ drop (off + length ?d) buf" by (rule copy_at_fit [OF l(1)])
  ultimately show ?thesis using Inr l
    by (simp del: length_drop) (use off in \<open>auto intro!: exI [of _ off]\<close>)
qed

end
