(* ===== verification/TorrentHandshake.thy ===== *)
theory TorrentHandshake
  imports WireFormat
begin

text \<open>
  The handshake of the peer wire protocol, \<^verbatim>\<open>src/torrent-client/handshake/handshake.go\<close>, and the compact peer
  list of a tracker, \<^verbatim>\<open>src/torrent-client/peers/peers.go\<close>. Go strings are byte sequences; the arrays of 20
  bytes are lists whose length the well-formedness predicates fix.
\<close>

section \<open>Handshakes\<close>

record Handshake =
  Pstr :: "byte list"
  hs_InfoHash :: "byte list"
  hs_PeerID :: "byte list"

definition hs_New :: "byte list \<Rightarrow> byte list \<Rightarrow> Handshake" where
  "hs_New infoHash peerID =
     \<lparr>Pstr = map of_char ''BitTorrent protocol'', hs_InfoHash = infoHash, hs_PeerID = peerID\<rparr>"

text \<open>The number of elements \<^verbatim>\<open>copy(dst[off:], src)\<close> returns.\<close>

definition copied :: "nat \<Rightarrow> 'a list \<Rightarrow> 'a list \<Rightarrow> nat" where
  "copied off dst src = min (length src) (length dst - off)"

definition hs_Serialize :: "Handshake \<Rightarrow> byte list" where
  "hs_Serialize h =
     (let buf = replicate (length (Pstr h) + 49) 0;
          buf = buf[0 := word_of_nat (length (Pstr h))];
          curr = 1;
          buf1 = copy_at curr buf (Pstr h);
          curr = curr + copied curr buf (Pstr h);
          buf2 = copy_at curr buf1 (replicate 8 0);
          curr = curr + copied curr buf1 (replicate 8 (0 :: byte));
          buf3 = copy_at curr buf2 (hs_InfoHash h);
          curr = curr + copied curr buf2 (hs_InfoHash h)
      in copy_at curr buf3 (hs_PeerID h))"

definition hs_Read :: "byte list \<Rightarrow> (Handshake \<times> byte list) res" where
  "hs_Read r =
     res_bind (ReadFull 1 r) (\<lambda>(lengthBuf, r1).
       let pstrlen = unat (lengthBuf ! 0)
       in if pstrlen = 0 then Inl (Failure ''pstrlen cannot be 0'')
          else res_bind (ReadFull (48 + pstrlen) r1) (\<lambda>(handshakeBuf, r2).
            Inr (\<lparr>Pstr = take pstrlen handshakeBuf,
                  hs_InfoHash = copy_at 0 (replicate 20 0) (take 20 (drop (pstrlen + 8) handshakeBuf)),
                  hs_PeerID = copy_at 0 (replicate 20 0) (drop (pstrlen + 8 + 20) handshakeBuf)\<rparr>, r2)))"

definition hs_ok :: "Handshake \<Rightarrow> bool" where
  "hs_ok h \<longleftrightarrow> 0 < length (Pstr h) \<and> length (Pstr h) < 256 \<and> length (hs_InfoHash h) = 20 \<and> length (hs_PeerID h) = 20"

definition hs_bytes :: "Handshake \<Rightarrow> byte list" where
  "hs_bytes h = word_of_nat (length (Pstr h)) # Pstr h @ replicate 8 0 @ hs_InfoHash h @ hs_PeerID h"

lemma copy_at_next:
  "length pre = off \<Longrightarrow> copy_at off (pre @ replicate (length src + k) x) src = pre @ src @ replicate k x"
  by (simp add: copy_at_def)

lemma copied_next: "length pre = off \<Longrightarrow> copied off (pre @ replicate (length src + k) x) src = length src"
  by (simp add: copied_def)

lemma hs_Serialize_bytes:
  assumes "length (hs_InfoHash h) = 20" "length (hs_PeerID h) = 20"
  shows "hs_Serialize h = hs_bytes h"
proof -
  let ?p = "Pstr h" and ?i = "hs_InfoHash h" and ?d = "hs_PeerID h" and ?z = "replicate 8 (0 :: byte)"
  let ?n = "[word_of_nat (length ?p)] :: byte list"
  have 0: "(replicate (length ?p + 49) 0)[0 := word_of_nat (length ?p)]
           = ?n @ replicate (length ?p + (length ?z + (length ?i + length ?d))) 0"
  proof -
    have "length ?p + 49 = Suc (length ?p + 48)" by simp
    then show ?thesis using assms by (simp only: replicate_Suc) simp
  qed
  have 1: "copy_at 1 (?n @ replicate (length ?p + (length ?z + (length ?i + length ?d))) 0) ?p
           = (?n @ ?p) @ replicate (length ?z + (length ?i + length ?d)) 0" by (subst copy_at_next) simp_all
  have 2: "copy_at (1 + length ?p) ((?n @ ?p) @ replicate (length ?z + (length ?i + length ?d)) 0) ?z
           = (?n @ ?p @ ?z) @ replicate (length ?i + length ?d) 0" by (subst copy_at_next) simp_all
  have 3: "copy_at (1 + length ?p + length ?z) ((?n @ ?p @ ?z) @ replicate (length ?i + length ?d) 0) ?i
           = (?n @ ?p @ ?z @ ?i) @ replicate (length ?d + 0) 0" by (subst copy_at_next) simp_all
  have 4: "copy_at (1 + length ?p + length ?z + length ?i) ((?n @ ?p @ ?z @ ?i) @ replicate (length ?d + 0) 0) ?d
           = (?n @ ?p @ ?z @ ?i) @ ?d @ replicate 0 0" by (subst copy_at_next) simp_all
  have c1: "copied 1 (?n @ replicate (length ?p + (length ?z + (length ?i + length ?d))) 0) ?p = length ?p"
    by (rule copied_next) simp
  have c2: "copied (1 + length ?p) ((?n @ ?p) @ replicate (length ?z + (length ?i + length ?d)) 0) ?z = length ?z"
    by (rule copied_next) simp
  have c3: "copied (1 + length ?p + length ?z) ((?n @ ?p @ ?z) @ replicate (length ?i + length ?d) 0) ?i = length ?i"
    by (rule copied_next) simp
  show ?thesis unfolding hs_Serialize_def Let_def 0 c1 1 c2 2 c3 3 4 by (simp add: hs_bytes_def)
qed

lemma copy_at_20: "length b = 20 \<Longrightarrow> copy_at 0 (replicate 20 0) b = b"
  by (simp add: copy_at_def)

lemma hs_Read_bytes:
  assumes "hs_ok h"
  shows "hs_Read (hs_bytes h @ r) = Inr (h, r)"
proof -
  let ?b = "Pstr h @ replicate 8 0 @ hs_InfoHash h @ hs_PeerID h"
  have u: "unat (word_of_nat (length (Pstr h)) :: byte) = length (Pstr h)"
    using assms by (simp add: hs_ok_def unat_of_nat take_bit_nat_eq_self)
  have "ReadFull 1 (hs_bytes h @ r) = Inr ([word_of_nat (length (Pstr h))], ?b @ r)"
    unfolding hs_bytes_def by (simp add: ReadFull_def)
  moreover have "ReadFull (48 + length (Pstr h)) (?b @ r) = Inr (?b, r)"
    by (rule ReadFull_append) (use assms in \<open>simp add: hs_ok_def\<close>)
  ultimately show ?thesis
    using assms u by (simp add: hs_Read_def hs_ok_def copy_at_20)
qed

interpretation handshakes: wire_format hs_bytes hs_Read hs_ok
  by unfold_locales (rule hs_Read_bytes)

text \<open>
  A handshake is read back from the bytes it serializes to, whatever follows on the stream, and no
  two handshakes with a non-empty protocol name of at most 255 bytes share their bytes. The handshake
  that \<^verbatim>\<open>New\<close> builds is one of these, and it is 68 bytes long.
\<close>

theorem handshake_roundtrip:
  assumes "length infoHash = 20" "length peerID = 20" "hs_ok h"
  shows "hs_Read (hs_Serialize h @ r) = Inr (h, r)
         \<and> length (hs_Serialize (hs_New infoHash peerID)) = 68
         \<and> hs_Read (hs_Serialize (hs_New infoHash peerID) @ r) = Inr (hs_New infoHash peerID, r)
         \<and> (hs_Serialize h @ r = hs_Serialize (hs_New infoHash peerID) @ r' \<longrightarrow> h = hs_New infoHash peerID \<and> r = r')"
proof -
  have n: "hs_ok (hs_New infoHash peerID)" using assms by (simp add: hs_ok_def hs_New_def)
  moreover have "hs_Serialize h = hs_bytes h" "hs_Serialize (hs_New infoHash peerID) = hs_bytes (hs_New infoHash peerID)"
    using assms calculation by (simp_all add: hs_Serialize_bytes hs_ok_def)
  moreover have "length (hs_bytes (hs_New infoHash peerID)) = 68" using assms by (simp add: hs_bytes_def hs_New_def)
  ultimately show ?thesis
    using handshakes.read_back [OF assms(3), of r] handshakes.read_back [OF n, of r]
      handshakes.prefix_free [OF assms(3) n, of r r'] by simp
qed

theorem handshake_roundtrip_witness:
  "hs_Read (hs_Serialize (hs_New (replicate 20 7) (replicate 20 9)) @ [1]) = Inr (hs_New (replicate 20 7) (replicate 20 9), [1])"
  by (rule handshake_roundtrip [THEN conjunct1, of "replicate 20 7" "replicate 20 9"])
    (simp_all add: hs_ok_def hs_New_def)

section \<open>Compact peer lists\<close>

record Peer =
  IP :: "byte list"
  Port :: "16 word"

text \<open>The loop over the peers, from peer \<open>i\<close> on.\<close>

definition Unmarshal :: "byte list \<Rightarrow> Peer list res" where
  "Unmarshal peersBin =
     (let numPeers = length peersBin div 6
      in if length peersBin mod 6 \<noteq> 0 then Inl (Failure ''Received malformed peers'')
         else Inr (map (\<lambda>i. let offset = i * 6
                            in \<lparr>IP = take 4 (drop offset peersBin), Port = Uint16 (take 2 (drop (offset + 4) peersBin))\<rparr>)
                       [0..<numPeers]))"

text \<open>\<^verbatim>\<open>Peer.String\<close> on the four-byte addresses that \<^verbatim>\<open>Unmarshal\<close> makes.\<close>

definition peer_String :: "Peer \<Rightarrow> string" where
  "peer_String p =
     Itoa (uint (IP p ! 0)) @ ''.'' @ Itoa (uint (IP p ! 1)) @ ''.'' @ Itoa (uint (IP p ! 2)) @ ''.'' @ Itoa (uint (IP p ! 3))
     @ '':'' @ Itoa (uint (Port p))"

definition peer_bytes :: "Peer \<Rightarrow> byte list" where
  "peer_bytes p = IP p @ PutUint16 (Port p)"

definition peer_ok :: "Peer \<Rightarrow> bool" where
  "peer_ok p \<longleftrightarrow> length (IP p) = 4"

lemma Unmarshal_Cons:
  assumes "length (IP p) = 4"
  shows "Unmarshal (peer_bytes p @ b) = map_sum id (Cons p) (Unmarshal b)"
proof -
  have l: "length (peer_bytes p @ b) = length b + 6" using assms by (simp add: peer_bytes_def)
  have d: "(length b + 6) div 6 = Suc (length b div 6)" by simp
  have "take 4 (drop (Suc i * 6) (peer_bytes p @ b)) = take 4 (drop (i * 6) b)"
    "take 2 (drop (Suc i * 6 + 4) (peer_bytes p @ b)) = take 2 (drop (i * 6 + 4) b)" for i
    using assms by (simp_all add: peer_bytes_def add.commute)
  moreover have "p = \<lparr>IP = take 4 (peer_bytes p @ b), Port = Uint16 (take 2 (drop 4 (peer_bytes p @ b)))\<rparr>"
    using assms by (simp add: peer_bytes_def)
  ultimately show ?thesis
    unfolding Unmarshal_def l d Let_def
    by (auto simp: upt_conv_Cons map_Suc_upt [symmetric] comp_def simp del: upt_Suc)
qed

lemma Unmarshal_concat: "list_all peer_ok ps \<Longrightarrow> Unmarshal (concat (map peer_bytes ps)) = Inr ps"
  by (induction ps) (simp_all add: Unmarshal_Cons peer_ok_def, simp add: Unmarshal_def)

lemma split_peers:
  "length b mod 6 = 0 \<Longrightarrow> \<exists>ps. b = concat (map peer_bytes ps) \<and> list_all peer_ok ps"
proof (induction b rule: length_induct)
  case (1 b)
  show ?case
  proof (cases "b = []")
    case True
    then show ?thesis by (intro exI [of _ "[]"]) simp
  next
    case False
    then have "6 \<le> length b" using "1.prems" by (metis length_0_conv mod_less not_le)
    let ?p = "\<lparr>IP = take 4 b, Port = Uint16 (take 2 (drop 4 b))\<rparr>"
    have "length (drop 6 b) mod 6 = 0" using "1.prems" \<open>6 \<le> length b\<close> by (simp add: le_mod_geq)
    moreover have "length (drop 6 b) < length b" using \<open>6 \<le> length b\<close> unfolding length_drop by linarith
    ultimately obtain ps :: "Peer list" where ps: "drop 6 b = concat (map peer_bytes ps)" "list_all peer_ok ps"
      using "1.IH" [rule_format, of "drop 6 b"] by auto
    have "peer_bytes ?p = take 4 b @ take 2 (drop 4 b)"
      using \<open>6 \<le> length b\<close> by (simp add: peer_bytes_def PutUint16_Uint16_length)
    also have "\<dots> = take 6 b" using take_add [of 4 2 b] by simp
    finally have "peer_bytes ?p @ drop 6 b = b" by simp
    moreover have "peer_ok ?p" using \<open>6 \<le> length b\<close> by (simp add: peer_ok_def)
    ultimately show ?thesis using ps by (intro exI [of _ "?p # ps"]) simp
  qed
qed

text \<open>
  \<^verbatim>\<open>Unmarshal\<close> inverts the compact encoding of a peer list, four bytes of address and two of port for
  each peer. It accepts exactly the inputs whose length is a multiple of six, and then the input is the
  encoding of the peers it returns.
\<close>

theorem Unmarshal_spec:
  "(case Unmarshal b of
      Inr ps \<Rightarrow> length b mod 6 = 0 \<and> (list_all peer_ok ps \<and> b = concat (map peer_bytes ps))
    | Inl e \<Rightarrow> length b mod 6 \<noteq> 0 \<and> e = Failure ''Received malformed peers'')"
proof (cases "length b mod 6 = 0")
  case True
  then obtain ps :: "Peer list" where "b = concat (map peer_bytes ps)" "list_all peer_ok ps"
    using split_peers [OF True] by blast
  then show ?thesis using True Unmarshal_concat by auto
qed (simp add: Unmarshal_def)

end
