(* ===== verification/TorrentClient.thy ===== *)
theory TorrentClient
  imports TorrentBitfield TorrentMessage TorrentHandshake
begin

text \<open>
  The connection with a peer, \<^verbatim>\<open>src/torrent-client/client/client.go\<close>. A TCP connection is the bytes the peer will
  still deliver, the bytes written so far and which writes fail; a peer that falls silent until the
  deadline is one whose bytes end. Dialling is a parameter.
\<close>

record Conn =
  conn_in :: "byte list"
  conn_out :: "byte list"
  conn_writes :: nat
  conn_fails :: "nat \<Rightarrow> bool"

definition Write :: "byte list \<Rightarrow> Conn \<Rightarrow> Conn \<times> goerr option" where
  "Write b conn =
     (if conn_fails conn (conn_writes conn)
      then (conn\<lparr>conn_writes := Suc (conn_writes conn)\<rparr>, Some (Failure ''write''))
      else (conn\<lparr>conn_out := conn_out conn @ b, conn_writes := Suc (conn_writes conn)\<rparr>, None))"

record Client =
  cl_Conn :: Conn
  Choked :: bool
  cl_Bitfield :: Bitfield
  cl_peer :: Peer
  cl_infoHash :: "byte list"
  cl_peerID :: "byte list"

definition completeHandshake :: "Conn \<Rightarrow> byte list \<Rightarrow> byte list \<Rightarrow> (Conn \<times> Handshake) res" where
  "completeHandshake conn infohash peerID =
     (let req = hs_New infohash peerID; (conn1, err) = Write (hs_Serialize req) conn
      in case err of
           Some e \<Rightarrow> Inl e
         | None \<Rightarrow>
             res_bind (hs_Read (conn_in conn1)) (\<lambda>(h, r).
               if hs_InfoHash h \<noteq> infohash then Inl (Failure ''Expected infohash'')
               else Inr (conn1\<lparr>conn_in := r\<rparr>, h)))"

definition recvBitfield :: "Conn \<Rightarrow> (Conn \<times> Bitfield) res" where
  "recvBitfield conn =
     res_bind (msg_Read (conn_in conn)) (\<lambda>(msg, r).
       case msg of
         None \<Rightarrow> Inl (Failure ''Expected bitfield but got KeepAlive'')
       | Some m \<Rightarrow>
           if ID m \<noteq> MsgBitfield then Inl (Failure ''Expected bitfield'')
           else Inr (conn\<lparr>conn_in := r\<rparr>, Payload m))"

definition tc_New :: "(string \<Rightarrow> Conn res) \<Rightarrow> Peer \<Rightarrow> byte list \<Rightarrow> byte list \<Rightarrow> Client res" where
  "tc_New dial peer peerID infoHash =
     res_bind (dial (peer_String peer)) (\<lambda>conn.
       res_bind (completeHandshake conn infoHash peerID) (\<lambda>(conn1, h).
         res_bind (recvBitfield conn1) (\<lambda>(conn2, bf).
           Inr \<lparr>cl_Conn = conn2, Choked = True, cl_Bitfield = bf, cl_peer = peer, cl_infoHash = infoHash, cl_peerID = peerID\<rparr>)))"

definition tc_Read :: "Client \<Rightarrow> (Client \<times> Message option) res" where
  "tc_Read c =
     res_bind (msg_Read (conn_in (cl_Conn c))) (\<lambda>(m, r). Inr (c\<lparr>cl_Conn := (cl_Conn c)\<lparr>conn_in := r\<rparr>\<rparr>, m))"

text \<open>Serializing a message and writing it.\<close>

definition tc_send :: "Message \<Rightarrow> Client \<Rightarrow> Client \<times> goerr option" where
  "tc_send m c =
     (case msg_Serialize (Some m) of
        Inl p \<Rightarrow> (c, Some (Panicked p))
      | Inr b \<Rightarrow> let (conn, err) = Write b (cl_Conn c) in (c\<lparr>cl_Conn := conn\<rparr>, err))"

definition SendRequest :: "int \<Rightarrow> int \<Rightarrow> int \<Rightarrow> Client \<Rightarrow> Client \<times> goerr option" where
  "SendRequest index begin len = tc_send (FormatRequest index begin len)"

definition SendInterested :: "Client \<Rightarrow> Client \<times> goerr option" where
  "SendInterested = tc_send \<lparr>ID = MsgInterested, Payload = []\<rparr>"

definition SendNotInterested :: "Client \<Rightarrow> Client \<times> goerr option" where
  "SendNotInterested = tc_send \<lparr>ID = MsgNotInterested, Payload = []\<rparr>"

definition SendUnchoke :: "Client \<Rightarrow> Client \<times> goerr option" where
  "SendUnchoke = tc_send \<lparr>ID = MsgUnchoke, Payload = []\<rparr>"

definition SendHave :: "int \<Rightarrow> Client \<Rightarrow> Client \<times> goerr option" where
  "SendHave index = tc_send (FormatHave index)"

section \<open>Sending and receiving\<close>

lemma tc_send_short:
  assumes "length (Payload m) < 100"
  shows "tc_send m c = (let (conn, err) = Write (msg_bytes (Some m)) (cl_Conn c) in (c\<lparr>cl_Conn := conn\<rparr>, err))"
  using assms by (simp add: tc_send_def msg_Serialize_ok)

lemma SendRequest_eq:
  "SendRequest i b l c = (let (conn, err) = Write (msg_bytes (Some (FormatRequest i b l))) (cl_Conn c) in (c\<lparr>cl_Conn := conn\<rparr>, err))"
  unfolding SendRequest_def by (rule tc_send_short) (simp add: FormatRequest_def)

lemma Write_in [simp]: "conn_in (fst (Write b conn)) = conn_in conn"
  by (simp add: Write_def)

lemma SendRequest_keeps:
  "SendRequest i b l c = (c', err) \<Longrightarrow>
     conn_in (cl_Conn c') = conn_in (cl_Conn c) \<and> Choked c' = Choked c \<and> cl_Bitfield c' = cl_Bitfield c"
  by (auto simp: SendRequest_eq Write_def Let_def split: if_splits)

text \<open>A message costs at least four bytes of the stream.\<close>

lemma msg_Read_consumes: "msg_Read r = Inr (m, r') \<Longrightarrow> length r' < length r"
  by (auto simp: msg_Read_def res_bind_eq_Inr ReadFull_Inr Let_def split: if_splits)

lemma tc_New_eq:
  assumes "dial (peer_String peer) = Inr conn" "\<not> conn_fails conn (conn_writes conn)"
    and "hs_ok h" "msg_ok (Some m)" "conn_in conn = hs_Serialize h @ msg_bytes (Some m) @ r"
  shows "tc_New dial peer peerID infoHash =
    (if hs_InfoHash h \<noteq> infoHash then Inl (Failure ''Expected infohash'')
     else if ID m \<noteq> MsgBitfield then Inl (Failure ''Expected bitfield'')
     else Inr \<lparr>cl_Conn = conn\<lparr>conn_in := r, conn_out := conn_out conn @ hs_Serialize (hs_New infoHash peerID), conn_writes := Suc (conn_writes conn)\<rparr>,
               Choked = True, cl_Bitfield = Payload m, cl_peer = peer, cl_infoHash = infoHash, cl_peerID = peerID\<rparr>)"
proof -
  have w: "Write b conn = (conn\<lparr>conn_out := conn_out conn @ b, conn_writes := Suc (conn_writes conn)\<rparr>, None)" for b
    using assms(2) by (simp add: Write_def)
  have "hs_Serialize h = hs_bytes h" using assms(3) by (simp add: hs_ok_def hs_Serialize_bytes)
  then have r1: "hs_Read (conn_in conn) = Inr (h, msg_bytes (Some m) @ r)"
    using handshakes.read_back [OF assms(3)] assms(5) by simp
  have r2: "msg_Read (msg_bytes (Some m) @ r) = Inr (Some m, r)" by (rule messages.read_back [OF assms(4)])
  show ?thesis
    by (simp add: tc_New_def completeHandshake_def recvBitfield_def assms(1) w r1 r2)
qed

text \<open>
  Connecting. When the peer's bytes start with a handshake for the same torrent, whatever protocol
  name and peer id it carries, and then a bitfield message, the client has written exactly its own
  handshake, starts choked with that bitfield and leaves the rest of the stream to read. A handshake for
  another torrent or another first message is an error.
\<close>

theorem client_connects:
  assumes "dial (peer_String peer) = Inr conn" "conn_out conn = []" "\<not> conn_fails conn (conn_writes conn)"
    and "hs_ok h" "msg_ok (Some m)" "conn_in conn = hs_Serialize h @ msg_bytes (Some m) @ r"
    and "length infoHash = 20" "length peerID = 20"
  shows "case tc_New dial peer peerID infoHash of
           Inr c \<Rightarrow> hs_InfoHash h = infoHash \<and> ID m = MsgBitfield
             \<and> Choked c \<and> cl_Bitfield c = Payload m \<and> conn_in (cl_Conn c) = r
             \<and> conn_out (cl_Conn c) = hs_Serialize (hs_New infoHash peerID)
         | Inl e \<Rightarrow> hs_InfoHash h \<noteq> infoHash \<or> ID m \<noteq> MsgBitfield"
  using tc_New_eq [where dial = dial and peer = peer and conn = conn and h = h and m = m and r = r] assms by simp

definition ex_conn :: Conn where
  "ex_conn = \<lparr>conn_in = hs_Serialize (hs_New (replicate 20 7) (replicate 20 9)) @ msg_bytes (Some \<lparr>ID = MsgBitfield, Payload = [128]\<rparr>),
     conn_out = [], conn_writes = 0, conn_fails = (\<lambda>n. False)\<rparr>"

theorem client_connects_witness:
  "case tc_New (\<lambda>a. Inr ex_conn) \<lparr>IP = [127, 0, 0, 1], Port = 80\<rparr> (replicate 20 3) (replicate 20 7) of
     Inr c \<Rightarrow> cl_Bitfield c = [128] \<and> conn_in (cl_Conn c) = [] | Inl e \<Rightarrow> False"
proof -
  have "case tc_New (\<lambda>a. Inr ex_conn) \<lparr>IP = [127, 0, 0, 1], Port = 80\<rparr> (replicate 20 3) (replicate 20 7) of
           Inr c \<Rightarrow> hs_InfoHash (hs_New (replicate 20 7) (replicate 20 9)) = replicate 20 7
             \<and> ID \<lparr>ID = MsgBitfield, Payload = [128]\<rparr> = MsgBitfield
             \<and> Choked c \<and> cl_Bitfield c = Payload \<lparr>ID = MsgBitfield, Payload = [128]\<rparr> \<and> conn_in (cl_Conn c) = []
             \<and> conn_out (cl_Conn c) = hs_Serialize (hs_New (replicate 20 7) (replicate 20 3))
         | Inl e \<Rightarrow> hs_InfoHash (hs_New (replicate 20 7) (replicate 20 9)) \<noteq> replicate 20 7
             \<or> ID \<lparr>ID = MsgBitfield, Payload = [128]\<rparr> \<noteq> MsgBitfield"
    by (rule client_connects [where conn = ex_conn]) (simp_all add: ex_conn_def hs_ok_def hs_New_def)
  then show ?thesis by (auto simp: hs_New_def split: sum.splits)
qed

end
