(* ===== verification/TorrentPiece.thy ===== *)
theory TorrentPiece
  imports TorrentClient
begin

text \<open>
  Downloading one piece, the first half of \<^verbatim>\<open>src/torrent-client/p2p/p2p.go\<close>: the request pipeline, the messages of
  the peer and the integrity check. Both loops are total functions: the request loop moves towards the
  end of the piece, and every round of the download loop consumes bytes of the stream.
\<close>

definition MaxBlockSize :: int where "MaxBlockSize = 16384"
definition MaxBacklog :: int where "MaxBacklog = 5"

record pieceWork =
  pw_index :: int
  pw_hash :: "byte list"
  pw_length :: int

record pieceResult =
  pr_index :: int
  pr_buf :: "byte list"

record pieceProgress =
  pp_index :: int
  pp_client :: Client
  pp_buf :: "byte list"
  pp_downloaded :: int
  pp_requested :: int
  pp_backlog :: int

definition readMessage :: "pieceProgress \<Rightarrow> pieceProgress res" where
  "readMessage state =
     res_bind (tc_Read (pp_client state)) (\<lambda>(c, msg).
       let state = state\<lparr>pp_client := c\<rparr>
       in case msg of
            None \<Rightarrow> Inr state
          | Some msg \<Rightarrow>
              if ID msg = MsgUnchoke then Inr (state\<lparr>pp_client := c\<lparr>Choked := False\<rparr>\<rparr>)
              else if ID msg = MsgChoke then Inr (state\<lparr>pp_client := c\<lparr>Choked := True\<rparr>\<rparr>)
              else if ID msg = MsgHave then
                res_bind (ParseHave msg) (\<lambda>index.
                  Inr (state\<lparr>pp_client := c\<lparr>cl_Bitfield := SetPiece (cl_Bitfield c) index\<rparr>\<rparr>))
              else if ID msg = MsgPiece then
                res_bind (ParsePiece (pp_index state) (pp_buf state) msg) (\<lambda>(buf, n).
                  Inr (state\<lparr>pp_buf := buf, pp_downloaded := pp_downloaded state + n, pp_backlog := pp_backlog state - 1\<rparr>))
              else Inr state)"

definition block_size :: "pieceWork \<Rightarrow> int \<Rightarrow> int" where
  "block_size pw requested = (if pw_length pw - requested < MaxBlockSize then pw_length pw - requested else MaxBlockSize)"

text \<open>The inner loop: send requests until enough are unfulfilled.\<close>

function request_loop :: "pieceWork \<Rightarrow> pieceProgress \<Rightarrow> pieceProgress res" where
  "request_loop pw state =
     (if pp_backlog state < MaxBacklog \<and> pp_requested state < pw_length pw
      then let blockSize = block_size pw (pp_requested state)
           in case SendRequest (pw_index pw) (pp_requested state) blockSize (pp_client state) of
                (c, Some err) \<Rightarrow> Inl err
              | (c, None) \<Rightarrow> request_loop pw (state\<lparr>pp_client := c, pp_backlog := pp_backlog state + 1,
                                                pp_requested := pp_requested state + blockSize\<rparr>)
      else Inr state)"
  by pat_completeness auto
termination
  by (relation "measure (\<lambda>(pw, state). nat (pw_length pw - pp_requested state))")
    (auto simp: block_size_def MaxBlockSize_def)

declare request_loop.simps [simp del]

text \<open>A property that every request keeps holds when the loop ends.\<close>

lemma request_loop_rule:
  assumes "request_loop pw st = Inr st'" "P st"
    and "\<And>st c. P st \<Longrightarrow> pp_backlog st < MaxBacklog \<Longrightarrow> pp_requested st < pw_length pw
           \<Longrightarrow> SendRequest (pw_index pw) (pp_requested st) (block_size pw (pp_requested st)) (pp_client st) = (c, None)
           \<Longrightarrow> P (st\<lparr>pp_client := c, pp_backlog := pp_backlog st + 1,
                      pp_requested := pp_requested st + block_size pw (pp_requested st)\<rparr>)"
  shows "P st' \<and> \<not> (pp_backlog st' < MaxBacklog \<and> pp_requested st' < pw_length pw)"
  using assms
proof (induction pw st rule: request_loop.induct)
  case (1 pw st)
  show ?case
  proof (cases "pp_backlog st < MaxBacklog \<and> pp_requested st < pw_length pw")
    case True
    obtain c err where c: "SendRequest (pw_index pw) (pp_requested st) (block_size pw (pp_requested st)) (pp_client st) = (c, err)"
      by force
    show ?thesis
    proof (cases err)
      case None
      let ?st = "st\<lparr>pp_client := c, pp_backlog := pp_backlog st + 1, pp_requested := pp_requested st + block_size pw (pp_requested st)\<rparr>"
      have "request_loop pw ?st = Inr st'"
        using "1.prems"(1) True c None by (simp add: request_loop.simps [of pw st])
      moreover have "P ?st" using "1.prems"(3) [OF "1.prems"(2)] True c None by blast
      ultimately show ?thesis using "1.IH" [OF True refl c [symmetric] None] "1.prems"(3) by blast
    next
      case (Some e)
      then show ?thesis using "1.prems"(1) True c by (simp add: request_loop.simps [of pw st])
    qed
  next
    case False
    then have "request_loop pw st = Inr st" by (subst request_loop.simps) (simp only: if_False)
    then show ?thesis using False "1.prems"(1,2) by simp
  qed
qed

lemma request_loop_in:
  assumes "request_loop pw st = Inr st'"
  shows "conn_in (cl_Conn (pp_client st')) = conn_in (cl_Conn (pp_client st))"
proof -
  have "conn_in (cl_Conn (pp_client st')) = conn_in (cl_Conn (pp_client st)) \<and> \<not> (pp_backlog st' < MaxBacklog \<and> pp_requested st' < pw_length pw)"
    by (rule request_loop_rule [OF assms]) (use SendRequest_keeps in auto)
  then show ?thesis ..
qed

text \<open>What a message does to the state.\<close>

lemma readMessage_Inr:
  assumes "readMessage st = Inr st'"
  obtains m r where "msg_Read (conn_in (cl_Conn (pp_client st))) = Inr (m, r)"
    "conn_in (cl_Conn (pp_client st')) = r" "conn_out (cl_Conn (pp_client st')) = conn_out (cl_Conn (pp_client st))"
    "pp_index st' = pp_index st" "pp_requested st' = pp_requested st"
    "(\<exists>n. ParsePiece (pp_index st) (pp_buf st) (the m) = Inr (pp_buf st', n) \<and> pp_downloaded st' = pp_downloaded st + n
        \<and> pp_backlog st' = pp_backlog st - 1)
     \<or> pp_buf st' = pp_buf st \<and> pp_downloaded st' = pp_downloaded st \<and> pp_backlog st' = pp_backlog st"
proof -
  obtain m r where 1: "msg_Read (conn_in (cl_Conn (pp_client st))) = Inr (m, r)"
    using assms by (auto simp: readMessage_def tc_Read_def res_bind_eq_Inr)
  define c where "c = (pp_client st)\<lparr>cl_Conn := (cl_Conn (pp_client st))\<lparr>conn_in := r\<rparr>\<rparr>"
  have c: "tc_Read (pp_client st) = Inr (c, m)" by (simp add: tc_Read_def 1 c_def)
  have cc: "conn_in (cl_Conn c) = r" "conn_out (cl_Conn c) = conn_out (cl_Conn (pp_client st))" by (simp_all add: c_def)
  show thesis
  proof (cases m)
    case None
    then have "st' = st\<lparr>pp_client := c\<rparr>" using assms by (simp add: readMessage_def c)
    then show ?thesis using that [OF 1] cc by simp
  next
    case (Some msg)
    then consider c' where "st' = st\<lparr>pp_client := c'\<rparr>" "cl_Conn c' = cl_Conn c"
      | buf n where "ParsePiece (pp_index st) (pp_buf st) msg = Inr (buf, n)"
        "st' = st\<lparr>pp_client := c, pp_buf := buf, pp_downloaded := pp_downloaded st + n, pp_backlog := pp_backlog st - 1\<rparr>"
      using assms by (auto simp: readMessage_def c res_bind_eq_Inr Let_def split: if_splits)
    then show ?thesis
      using Some cc by cases (rule that [OF 1], simp_all)+
  qed
qed

lemma readMessage_in:
  "readMessage st = Inr st' \<Longrightarrow> length (conn_in (cl_Conn (pp_client st'))) < length (conn_in (cl_Conn (pp_client st)))"
  by (erule readMessage_Inr) (auto dest: msg_Read_consumes)

text \<open>The outer loop.\<close>

function download_loop :: "pieceWork \<Rightarrow> pieceProgress \<Rightarrow> pieceProgress res" where
  "download_loop pw state =
     (if pp_downloaded state < pw_length pw
      then case (if \<not> Choked (pp_client state) then request_loop pw state else Inr state) of
             Inl err \<Rightarrow> Inl err
           | Inr state1 \<Rightarrow>
               (case readMessage state1 of
                  Inl err \<Rightarrow> Inl err
                | Inr state2 \<Rightarrow> download_loop pw state2)
      else Inr state)"
  by pat_completeness auto
termination
  by (relation "measure (\<lambda>(pw, state). length (conn_in (cl_Conn (pp_client state))))")
    (auto split: if_splits dest!: request_loop_in readMessage_in)

declare download_loop.simps [simp del]

definition attemptDownloadPiece :: "Client \<Rightarrow> pieceWork \<Rightarrow> (Client \<times> byte list) res" where
  "attemptDownloadPiece c pw =
     (if pw_length pw < 0 then Inl (Panicked (Explicit ''makeslice: len out of range''))
      else res_bind (download_loop pw \<lparr>pp_index = pw_index pw, pp_client = c, pp_buf = replicate (nat (pw_length pw)) 0,
                                       pp_downloaded = 0, pp_requested = 0, pp_backlog = 0\<rparr>)
             (\<lambda>state. Inr (pp_client state, pp_buf state)))"

text \<open>The hash function is a parameter.\<close>

definition checkIntegrity :: "(byte list \<Rightarrow> byte list) \<Rightarrow> pieceWork \<Rightarrow> byte list \<Rightarrow> unit res" where
  "checkIntegrity sha1 pw buf = (if sha1 buf \<noteq> pw_hash pw then Inl (Failure ''failed integrity check'') else Inr ())"

section \<open>The requests of a piece\<close>

text \<open>The blocks of a piece in order: block \<open>i\<close> starts at \<open>i\<close> times the block size and the last one is
  shorter.\<close>

definition block_start :: "nat \<Rightarrow> int" where
  "block_start i = MaxBlockSize * int i"

definition block_count :: "int \<Rightarrow> nat" where
  "block_count len = nat ((len + MaxBlockSize - 1) div MaxBlockSize)"

definition block_request :: "pieceWork \<Rightarrow> nat \<Rightarrow> byte list" where
  "block_request pw i = msg_bytes (Some (FormatRequest (pw_index pw) (block_start i) (block_size pw (block_start i))))"

lemma block_start_less: "block_start i < len \<longleftrightarrow> i < block_count len"
  unfolding block_start_def block_count_def MaxBlockSize_def by linarith

lemma block_bounds:
  assumes "i < block_count (pw_length pw)"
  shows "0 < block_size pw (block_start i)" "block_size pw (block_start i) \<le> MaxBlockSize"
    "0 \<le> block_start i" "block_start i + block_size pw (block_start i) \<le> pw_length pw"
    "block_start i + block_size pw (block_start i) = (if Suc i < block_count (pw_length pw) then block_start (Suc i) else pw_length pw)"
  using assms block_start_less [of i "pw_length pw"] block_start_less [of "Suc i" "pw_length pw"]
  by (auto simp: block_size_def block_start_def MaxBlockSize_def)

text \<open>The requests sent so far: the first \<open>n\<close> blocks, in order.\<close>

definition requests_sent :: "pieceWork \<Rightarrow> byte list \<Rightarrow> pieceProgress \<Rightarrow> bool" where
  "requests_sent pw out st \<longleftrightarrow>
     (\<exists>n \<le> block_count (pw_length pw).
        pp_requested st = (if n < block_count (pw_length pw) then block_start n else pw_length pw)
        \<and> conn_out (cl_Conn (pp_client st)) = out @ concat (map (block_request pw) [0..<n]))"

lemma request_step_sent:
  assumes "requests_sent pw out st" "pp_requested st < pw_length pw"
    and "SendRequest (pw_index pw) (pp_requested st) (block_size pw (pp_requested st)) (pp_client st) = (c, None)"
  shows "requests_sent pw out (st\<lparr>pp_client := c, pp_backlog := b, pp_requested := pp_requested st + block_size pw (pp_requested st)\<rparr>)"
proof -
  obtain n where n: "n < block_count (pw_length pw)" "pp_requested st = block_start n"
    "conn_out (cl_Conn (pp_client st)) = out @ concat (map (block_request pw) [0..<n])"
    using assms(1,2) by (auto simp: requests_sent_def split: if_splits)
  have "conn_out (cl_Conn c) = conn_out (cl_Conn (pp_client st)) @ block_request pw n"
    using assms(3) n(2) by (auto simp: SendRequest_eq Write_def block_request_def Let_def split: if_splits)
  then show ?thesis
    unfolding requests_sent_def using n block_bounds(5) [OF n(1)]
    by (intro exI [of _ "Suc n"]) simp
qed

lemma request_loop_sent:
  "request_loop pw st = Inr st' \<Longrightarrow> requests_sent pw out st \<Longrightarrow> requests_sent pw out st'"
  using request_loop_rule [where P = "requests_sent pw out"] request_step_sent by blast

lemma readMessage_sent:
  "readMessage st = Inr st' \<Longrightarrow> requests_sent pw out st \<Longrightarrow> requests_sent pw out st'"
  by (erule readMessage_Inr) (simp add: requests_sent_def)

text \<open>A property that requests and messages keep holds when the download loop ends.\<close>

lemma download_loop_rule:
  assumes "download_loop pw st = Inr st'" "P st"
    and "\<And>st st'. P st \<Longrightarrow> request_loop pw st = Inr st' \<Longrightarrow> P st'"
    and "\<And>st st'. P st \<Longrightarrow> readMessage st = Inr st' \<Longrightarrow> P st'"
  shows "P st' \<and> pw_length pw \<le> pp_downloaded st'"
  using assms
proof (induction pw st rule: download_loop.induct)
  case (1 pw st)
  show ?case
  proof (cases "pp_downloaded st < pw_length pw")
    case True
    then obtain s1 s2 where s: "(if \<not> Choked (pp_client st) then request_loop pw st else Inr st) = Inr s1"
      "readMessage s1 = Inr s2" "download_loop pw s2 = Inr st'"
      using "1.prems"(1) by (subst (asm) download_loop.simps) (auto split: sum.splits)
    then have "P s1" using "1.prems"(2,3) by (auto split: if_splits)
    then have "P s2" using "1.prems"(4) s(2) by blast
    then show ?thesis using "1.IH" [OF True s(1,2) s(3)] "1.prems"(3,4) by blast
  next
    case False
    then have "download_loop pw st = Inr st" by (subst download_loop.simps) simp
    then show ?thesis using False "1.prems"(1,2) by simp
  qed
qed

lemma length_ParsePiece: "ParsePiece i buf m = Inr (buf', n) \<Longrightarrow> length buf' = length buf"
  using ParsePiece_Inr [of i buf m] ParsePiece_fits [of i buf m] by (fastforce simp: piece_fits_def)

lemma request_loop_keeps:
  assumes "request_loop pw st = Inr st'"
  shows "pp_buf st' = pp_buf st" "pp_downloaded st' = pp_downloaded st" "pp_index st' = pp_index st"
    "Choked (pp_client st') = Choked (pp_client st)" "conn_fails (cl_Conn (pp_client st')) = conn_fails (cl_Conn (pp_client st))"
proof -
  let ?P = "\<lambda>s. pp_buf s = pp_buf st \<and> pp_downloaded s = pp_downloaded st \<and> pp_index s = pp_index st
    \<and> Choked (pp_client s) = Choked (pp_client st) \<and> conn_fails (cl_Conn (pp_client s)) = conn_fails (cl_Conn (pp_client st))"
  have "?P st' \<and> \<not> (pp_backlog st' < MaxBacklog \<and> pp_requested st' < pw_length pw)"
    by (rule request_loop_rule [OF assms]) (auto simp: SendRequest_eq Write_def Let_def split: if_splits)
  then show "pp_buf st' = pp_buf st" "pp_downloaded st' = pp_downloaded st" "pp_index st' = pp_index st"
    "Choked (pp_client st') = Choked (pp_client st)" "conn_fails (cl_Conn (pp_client st')) = conn_fails (cl_Conn (pp_client st))"
    by auto
qed

lemma attemptDownloadPiece_length:
  assumes "attemptDownloadPiece c pw = Inr (c', buf)"
  shows "int (length buf) = pw_length pw"
proof -
  let ?st = "\<lparr>pp_index = pw_index pw, pp_client = c, pp_buf = replicate (nat (pw_length pw)) 0,
               pp_downloaded = 0, pp_requested = 0, pp_backlog = 0\<rparr>"
  obtain st where st: "download_loop pw ?st = Inr st" "buf = pp_buf st" "0 \<le> pw_length pw"
    using assms by (auto simp: attemptDownloadPiece_def res_bind_eq_Inr split: if_splits)
  have "length (pp_buf st) = nat (pw_length pw) \<and> pw_length pw \<le> pp_downloaded st"
  proof (rule download_loop_rule [OF st(1)])
    show "length (pp_buf s') = nat (pw_length pw)"
      if "length (pp_buf s) = nat (pw_length pw)" "readMessage s = Inr s'" for s s'
      using that(2) by (rule readMessage_Inr) (use that(1) in \<open>auto dest: length_ParsePiece\<close>)
  qed (use request_loop_keeps(1) in auto)
  then show ?thesis using st by simp
qed

text \<open>
  What a client asks for. Whatever the peer sends, a download of a piece that ends has sent exactly the
  requests for the first \<open>n\<close> blocks of the piece, in order, each once, and nothing else; and the buffer
  it returns is as long as the piece. The blocks are non-empty, no longer than \<^verbatim>\<open>MaxBlockSize\<close>, lie inside the
  piece, and each one starts where the one before it ends, from 0 to the end of the piece.
\<close>

theorem download_requests:
  assumes "attemptDownloadPiece c pw = Inr (c', buf)"
  shows "int (length buf) = pw_length pw
    \<and> (\<exists>n \<le> block_count (pw_length pw). conn_out (cl_Conn c') = conn_out (cl_Conn c) @ concat (map (block_request pw) [0..<n]))
    \<and> (\<forall>i < block_count (pw_length pw). 0 < block_size pw (block_start i) \<and> block_size pw (block_start i) \<le> MaxBlockSize
         \<and> block_start i + block_size pw (block_start i)
             = (if Suc i < block_count (pw_length pw) then block_start (Suc i) else pw_length pw))"
proof -
  let ?st = "\<lparr>pp_index = pw_index pw, pp_client = c, pp_buf = replicate (nat (pw_length pw)) 0,
               pp_downloaded = 0, pp_requested = 0, pp_backlog = 0\<rparr>" and ?out = "conn_out (cl_Conn c)"
  obtain st where st: "download_loop pw ?st = Inr st" "c' = pp_client st" "0 \<le> pw_length pw"
    using assms by (auto simp: attemptDownloadPiece_def res_bind_eq_Inr split: if_splits)
  have "requests_sent pw ?out ?st"
    unfolding requests_sent_def using st(3) block_start_less [of 0 "pw_length pw"] by (intro exI [of _ 0]) (auto simp: block_start_def)
  then have "requests_sent pw ?out st"
    using download_loop_rule [OF st(1), where P = "requests_sent pw ?out"] request_loop_sent readMessage_sent by blast
  then show ?thesis
    using attemptDownloadPiece_length [OF assms] st(2) block_bounds by (auto simp: requests_sent_def)
qed

section \<open>A peer that answers\<close>

definition block_data :: "pieceWork \<Rightarrow> byte list \<Rightarrow> nat \<Rightarrow> byte list" where
  "block_data pw buf i = take (nat (block_size pw (block_start i))) (drop (nat (block_start i)) buf)"

definition block_answer :: "pieceWork \<Rightarrow> byte list \<Rightarrow> nat \<Rightarrow> Message option" where
  "block_answer pw data i = Some (piece_message (pw_index pw) (block_start i) (block_data pw data i))"

lemma length_block_data:
  assumes "int (length buf) = pw_length pw" "i < block_count (pw_length pw)"
  shows "int (length (block_data pw buf i)) = block_size pw (block_start i)"
  using assms block_bounds [OF assms(2)] by (simp add: block_data_def min_def) linarith

lemma block_answer_ok:
  assumes "int (length data) = pw_length pw" "i < block_count (pw_length pw)"
  shows "msg_ok (block_answer pw data i)"
proof -
  have "int (length (block_data pw data i)) \<le> 16384"
    using length_block_data [OF assms] block_bounds(2) [OF assms(2)] by (simp add: MaxBlockSize_def)
  then show ?thesis by (simp add: block_answer_def piece_message_def)
qed

text \<open>Two buffers that agree on every block are equal.\<close>

lemma blocks_determine:
  assumes "int (length buf) = pw_length pw" "int (length data) = pw_length pw"
    and "\<And>i. i < block_count (pw_length pw) \<Longrightarrow> block_data pw buf i = block_data pw data i"
  shows "buf = data"
proof (rule nth_equalityI)
  show "length buf = length data" using assms(1,2) by simp
  fix k assume k: "k < length buf"
  define i where "i = k div 16384"
  have bs: "block_start i \<le> int k" "int k < block_start i + 16384"
    unfolding block_start_def MaxBlockSize_def i_def by linarith+
  have i: "i < block_count (pw_length pw)"
    using bs k assms(1) block_start_less [of i "pw_length pw"] by linarith
  define o' where "o' = k - nat (block_start i)"
  have o: "nat (block_start i) + o' = k" "o' < nat (block_size pw (block_start i))"
    using bs k assms(1) block_bounds(3) [OF i] by (auto simp: o'_def block_size_def MaxBlockSize_def)
  have "block_data pw b i ! o' = b ! k" if "length b = length buf" for b
    using o that k by (simp add: block_data_def)
  then show "buf ! k = data ! k" using assms(3) [OF i] \<open>length buf = length data\<close> by metis
qed

text \<open>Copying a block changes that block only.\<close>

lemma copy_block_same:
  assumes "int (length buf) = pw_length pw" "int (length data) = pw_length pw" "i < block_count (pw_length pw)"
  shows "block_data pw (copy_at (nat (block_start i)) buf (block_data pw data i)) i = block_data pw data i"
proof -
  have l: "int (length (block_data pw data i)) = block_size pw (block_start i)"
    using length_block_data [OF assms(2,3)] .
  have "nat (block_start i) + length (block_data pw data i) \<le> length buf"
    using l block_bounds(3,4) [OF assms(3)] assms(1) by linarith
  moreover have "nat (block_size pw (block_start i)) = length (block_data pw data i)" using l by linarith
  ultimately show ?thesis
    unfolding block_data_def [of pw "copy_at _ _ _"] by (simp add: copy_at_fit)
qed

lemma copy_block_other:
  assumes "int (length buf) = pw_length pw" "int (length data) = pw_length pw"
    and "i < block_count (pw_length pw)" "j < block_count (pw_length pw)" "i \<noteq> j"
  shows "block_data pw (copy_at (nat (block_start i)) buf (block_data pw data i)) j = block_data pw buf j"
proof -
  let ?d = "block_data pw data i" and ?s = "nat (block_start i)" and ?t = "nat (block_start j)"
  let ?m = "nat (block_size pw (block_start j))"
  have l: "int (length ?d) = block_size pw (block_start i)" by (rule length_block_data [OF assms(2,3)])
  have fit: "?s + length ?d \<le> length buf" using l block_bounds(3,4) [OF assms(3)] assms(1) by linarith
  have "?t + ?m \<le> ?s \<or> ?s + length ?d \<le> ?t"
    using assms(5) l block_bounds(1-4) [OF assms(3)] block_bounds(1-4) [OF assms(4)]
    by (cases i j rule: linorder_cases) (auto simp: block_start_def MaxBlockSize_def)
  then show ?thesis
    unfolding block_data_def [of pw _ j] copy_at_fit [OF fit]
  proof
    assume "?t + ?m \<le> ?s"
    then show "take ?m (drop ?t (take ?s buf @ ?d @ drop (?s + length ?d) buf)) = take ?m (drop ?t buf)"
      using fit by (simp add: take_drop)
  next
    assume "?s + length ?d \<le> ?t"
    then show "take ?m (drop ?t (take ?s buf @ ?d @ drop (?s + length ?d) buf)) = take ?m (drop ?t buf)"
      using fit by simp
  qed
qed

lemma request_loop_total:
  "(\<forall>n. \<not> conn_fails (cl_Conn (pp_client st)) n) \<Longrightarrow> \<exists>st'. request_loop pw st = Inr st'"
proof (induction pw st rule: request_loop.induct)
  case (1 pw st)
  show ?case
  proof (cases "pp_backlog st < MaxBacklog \<and> pp_requested st < pw_length pw")
    case True
    obtain c err where c: "SendRequest (pw_index pw) (pp_requested st) (block_size pw (pp_requested st)) (pp_client st) = (c, err)"
      by force
    then have "err = None" "conn_fails (cl_Conn c) = conn_fails (cl_Conn (pp_client st))"
      using "1.prems" by (auto simp: SendRequest_eq Write_def Let_def)
    then show ?thesis
      using "1.IH" [OF True refl c [symmetric]] "1.prems" True c by (subst request_loop.simps) simp
  next
    case False
    then show ?thesis by (subst request_loop.simps) (simp only: if_False, blast)
  qed
qed

text \<open>The rest of a download from a peer that sends the blocks of \<open>is\<close>, in that order.\<close>

lemma readMessage_answer:
  assumes "int (length data) = pw_length pw" "i < block_count (pw_length pw)" "0 \<le> pw_index pw" "pw_index pw < 2 ^ 32"
    and "pw_length pw \<le> 2 ^ 32" "int (length (pp_buf st)) = pw_length pw" "pp_index st = pw_index pw"
    and "conn_in (cl_Conn (pp_client st)) = msg_bytes (block_answer pw data i) @ r"
  shows "\<exists>st'. readMessage st = Inr st' \<and> pp_buf st' = copy_at (nat (block_start i)) (pp_buf st) (block_data pw data i)
           \<and> pp_downloaded st' = pp_downloaded st + block_size pw (block_start i) \<and> pp_index st' = pw_index pw
           \<and> conn_in (cl_Conn (pp_client st')) = r \<and> conn_fails (cl_Conn (pp_client st')) = conn_fails (cl_Conn (pp_client st))"
proof -
  let ?m = "piece_message (pw_index pw) (block_start i) (block_data pw data i)"
  have "msg_Read (conn_in (cl_Conn (pp_client st))) = Inr (Some ?m, r)"
    unfolding assms(8) using messages.read_back [OF block_answer_ok [OF assms(1,2)]] by (simp add: block_answer_def)
  moreover have "ParsePiece (pw_index pw) (pp_buf st) ?m
      = Inr (copy_at (nat (block_start i)) (pp_buf st) (block_data pw data i), block_size pw (block_start i))"
    using ParsePiece_piece_message [of "pw_index pw" "block_start i" "pp_buf st" "block_data pw data i"]
      block_bounds [OF assms(2)] length_block_data [OF assms(1,2)] assms(3-6) by simp
  moreover have "ID ?m = MsgPiece" by (simp add: piece_message_def)
  ultimately show ?thesis
    using assms(7) by (simp add: readMessage_def tc_Read_def msg_ids)
qed

lemma download_loop_answers:
  assumes "int (length data) = pw_length pw" "0 \<le> pw_index pw" "pw_index pw < 2 ^ 32" "pw_length pw \<le> 2 ^ 32"
    and "distinct is" "set is \<subseteq> {..<block_count (pw_length pw)}"
    and "int (length (pp_buf st)) = pw_length pw" "pp_index st = pw_index pw"
    and "pp_downloaded st = pw_length pw - (\<Sum>i\<leftarrow>is. block_size pw (block_start i))"
    and "\<And>i. i < block_count (pw_length pw) \<Longrightarrow> i \<notin> set is \<Longrightarrow> block_data pw (pp_buf st) i = block_data pw data i"
    and "\<forall>n. \<not> conn_fails (cl_Conn (pp_client st)) n"
    and "conn_in (cl_Conn (pp_client st)) = concat (map (\<lambda>i. msg_bytes (block_answer pw data i)) is) @ r"
  shows "\<exists>st'. download_loop pw st = Inr st' \<and> pp_buf st' = data \<and> conn_in (cl_Conn (pp_client st')) = r"
  using assms
proof (induction "is" arbitrary: st)
  case Nil
  then have "pp_buf st = data" by (simp add: blocks_determine [of _ pw])
  then show ?case using Nil.prems by (subst download_loop.simps) simp
next
  case (Cons i "is")
  have i: "i < block_count (pw_length pw)" using Cons.prems by simp
  have "0 \<le> (\<Sum>i\<leftarrow>is. block_size pw (block_start i))"
    using Cons.prems(6) block_bounds(1) by (intro sum_list_nonneg) (auto intro: less_imp_le)
  then have less: "pp_downloaded st < pw_length pw" using Cons.prems(9) block_bounds(1) [OF i] by simp
  obtain s1 where s1: "(if \<not> Choked (pp_client st) then request_loop pw st else Inr st) = Inr s1"
    using request_loop_total [OF Cons.prems(11)] by (metis (full_types))
  have k: "pp_buf s1 = pp_buf st" "pp_downloaded s1 = pp_downloaded st" "pp_index s1 = pp_index st"
    "conn_fails (cl_Conn (pp_client s1)) = conn_fails (cl_Conn (pp_client st))"
    "conn_in (cl_Conn (pp_client s1)) = conn_in (cl_Conn (pp_client st))"
    using s1 request_loop_keeps [of pw st s1] request_loop_in [of pw st s1] by (auto split: if_splits)
  obtain s2 where s2: "readMessage s1 = Inr s2"
    "pp_buf s2 = copy_at (nat (block_start i)) (pp_buf st) (block_data pw data i)"
    "pp_downloaded s2 = pp_downloaded st + block_size pw (block_start i)" "pp_index s2 = pw_index pw"
    "conn_in (cl_Conn (pp_client s2)) = concat (map (\<lambda>i. msg_bytes (block_answer pw data i)) is) @ r"
    "conn_fails (cl_Conn (pp_client s2)) = conn_fails (cl_Conn (pp_client st))"
  proof -
    have "conn_in (cl_Conn (pp_client s1)) = msg_bytes (block_answer pw data i) @ concat (map (\<lambda>i. msg_bytes (block_answer pw data i)) is) @ r"
      using k(5) Cons.prems(12) by simp
    from readMessage_answer [OF Cons.prems(1) i Cons.prems(2-4) _ _ this] k Cons.prems(7,8) show thesis
      using that by metis
  qed
  have "block_data pw (pp_buf s2) j = block_data pw data j" if "j < block_count (pw_length pw)" "j \<notin> set is" for j
  proof (cases "j = i")
    case True
    then show ?thesis using copy_block_same [OF Cons.prems(7,1) i] s2(2) by simp
  next
    case False
    then show ?thesis
      using copy_block_other [OF Cons.prems(7,1) i that(1)] s2(2) Cons.prems(10) [of j] that by auto
  qed
  moreover have "nat (block_start i) \<le> length (pp_buf st)"
    using block_bounds [OF i] Cons.prems(7) by linarith
  ultimately have "\<exists>st'. download_loop pw s2 = Inr st' \<and> pp_buf st' = data \<and> conn_in (cl_Conn (pp_client st')) = r"
    using Cons.prems(5-9,11) s2 by (intro Cons.IH [OF Cons.prems(1-4)]) auto
  then show ?case using less s1 s2(1) by (subst download_loop.simps) simp
qed

text \<open>The sizes of the blocks add up to the piece.\<close>

lemma sum_block_sizes:
  assumes "0 \<le> pw_length pw" "n \<le> block_count (pw_length pw)"
  shows "(\<Sum>i\<leftarrow>[0..<n]. block_size pw (block_start i)) = (if n < block_count (pw_length pw) then block_start n else pw_length pw)"
  using assms(2)
proof (induction n)
  case 0
  then show ?case using assms(1) block_start_less [of 0 "pw_length pw"] by (auto simp: block_start_def)
next
  case (Suc n)
  then show ?case using block_bounds(5) [of n pw] by simp
qed

lemma download_from_answers:
  assumes "int (length data) = pw_length pw" "0 \<le> pw_index pw" "pw_index pw < 2 ^ 32" "0 < pw_length pw" "pw_length pw \<le> 2 ^ 32"
    and "distinct is" "set is = {..<block_count (pw_length pw)}"
    and "\<forall>n. \<not> conn_fails (cl_Conn c) n"
    and "conn_in (cl_Conn c) = msg_bytes (Some \<lparr>ID = MsgUnchoke, Payload = []\<rparr>) @ concat (map (\<lambda>i. msg_bytes (block_answer pw data i)) is) @ r"
  shows "\<exists>c'. attemptDownloadPiece c pw = Inr (c', data) \<and> conn_in (cl_Conn c') = r"
proof -
  let ?st = "\<lparr>pp_index = pw_index pw, pp_client = c, pp_buf = replicate (nat (pw_length pw)) 0,
               pp_downloaded = 0, pp_requested = 0, pp_backlog = 0\<rparr>"
  let ?r = "concat (map (\<lambda>i. msg_bytes (block_answer pw data i)) is) @ r"
  obtain s1 where s1: "(if \<not> Choked (pp_client ?st) then request_loop pw ?st else Inr ?st) = Inr s1"
    using request_loop_total [of ?st pw] assms(8) by (cases "Choked c") auto
  have k: "pp_buf s1 = pp_buf ?st" "pp_downloaded s1 = 0" "pp_index s1 = pw_index pw"
    "conn_fails (cl_Conn (pp_client s1)) = conn_fails (cl_Conn c)" "conn_in (cl_Conn (pp_client s1)) = conn_in (cl_Conn c)"
    using s1 request_loop_keeps [of pw ?st s1] request_loop_in [of pw ?st s1] by (auto split: if_splits)
  have "msg_Read (conn_in (cl_Conn (pp_client s1))) = Inr (Some \<lparr>ID = MsgUnchoke, Payload = []\<rparr>, ?r)"
    unfolding k(5) assms(9) by (rule messages.read_back) simp
  then obtain s2 where s2: "readMessage s1 = Inr s2" "pp_buf s2 = pp_buf ?st" "pp_downloaded s2 = 0" "pp_index s2 = pw_index pw"
    "conn_fails (cl_Conn (pp_client s2)) = conn_fails (cl_Conn c)" "conn_in (cl_Conn (pp_client s2)) = ?r"
    using k(1-4) by (simp add: readMessage_def tc_Read_def msg_ids)
  have "(\<Sum>i\<leftarrow>is. block_size pw (block_start i)) = (\<Sum>i\<leftarrow>[0..<block_count (pw_length pw)]. block_size pw (block_start i))"
    using assms(6,7) by (simp add: sum_list_distinct_conv_sum_set atLeast0LessThan lessThan_def)
  also have "\<dots> = pw_length pw" using sum_block_sizes [of pw "block_count (pw_length pw)"] assms(4) by simp
  finally have "\<exists>st'. download_loop pw s2 = Inr st' \<and> pp_buf st' = data \<and> conn_in (cl_Conn (pp_client st')) = r"
    using s2 assms by (intro download_loop_answers [of data pw "is"]) auto
  moreover have "download_loop pw ?st = download_loop pw s2"
    using s1 s2(1) assms(4) by (subst download_loop.simps) simp
  ultimately show ?thesis using assms(4) by (auto simp: attemptDownloadPiece_def res_bind_eq_Inr)
qed

text \<open>
  C23: a piece is downloaded from a peer that serves it. If no write fails and the peer unchokes the
  client and then answers with every block of the piece exactly once, in any order, then
  \<^verbatim>\<open>attemptDownloadPiece\<close> returns exactly the data of the piece, whatever the backlog does meanwhile, it has
  read nothing beyond the last block, and the integrity check accepts the data under its own hash.
\<close>

theorem download_complete:
  assumes "int (length data) = pw_length pw" "0 \<le> pw_index pw" "pw_index pw < 2 ^ 32" "0 < pw_length pw" "pw_length pw \<le> 2 ^ 32"
    and "distinct is" "set is = {..<block_count (pw_length pw)}"
    and "\<forall>n. \<not> conn_fails (cl_Conn c) n"
    and "conn_in (cl_Conn c) = msg_bytes (Some \<lparr>ID = MsgUnchoke, Payload = []\<rparr>) @ concat (map (\<lambda>i. msg_bytes (block_answer pw data i)) is) @ r"
  shows "\<exists>c'. attemptDownloadPiece c pw = Inr (c', data) \<and> conn_in (cl_Conn c') = r
           \<and> (checkIntegrity sha1 pw data = Inr () \<longleftrightarrow> sha1 data = pw_hash pw)"
  using download_from_answers [OF assms] by (simp add: checkIntegrity_def)

definition ex_piece :: pieceWork where
  "ex_piece = \<lparr>pw_index = 3, pw_hash = [], pw_length = 2\<rparr>"

definition ex_client :: Client where
  "ex_client = \<lparr>cl_Conn = \<lparr>conn_in = msg_bytes (Some \<lparr>ID = MsgUnchoke, Payload = []\<rparr>) @ msg_bytes (block_answer ex_piece [5, 6] 0) @ [9],
     conn_out = [], conn_writes = 0, conn_fails = (\<lambda>n. False)\<rparr>, Choked = True, cl_Bitfield = [255],
     cl_peer = \<lparr>IP = [127, 0, 0, 1], Port = 80\<rparr>, cl_infoHash = [], cl_peerID = []\<rparr>"

lemma ex_download: "\<exists>c'. attemptDownloadPiece ex_client ex_piece = Inr (c', [5, 6]) \<and> conn_in (cl_Conn c') = [9]"
  by (rule download_from_answers [of _ _ "[0]"])
    (auto simp: ex_client_def ex_piece_def block_count_def MaxBlockSize_def)

theorem download_complete_witness:
  "\<exists>c'. attemptDownloadPiece ex_client ex_piece = Inr (c', [5, 6]) \<and> conn_in (cl_Conn c') = [9]"
  using download_complete [of "[5, 6]" ex_piece "[0]" ex_client "[9]" "\<lambda>b. b"]
  by (auto simp: ex_client_def ex_piece_def block_count_def MaxBlockSize_def)

theorem download_requests_witness:
  "\<exists>c' n. attemptDownloadPiece ex_client ex_piece = Inr (c', [5, 6])
     \<and> conn_out (cl_Conn c') = concat (map (block_request ex_piece) [0..<n])"
proof -
  obtain c' where c: "attemptDownloadPiece ex_client ex_piece = Inr (c', [5, 6])" using ex_download by blast
  from download_requests [OF c] show ?thesis using c by (auto simp: ex_client_def)
qed

end
