(* ===== verification/TorrentDownload.thy ===== *)
theory TorrentDownload
  imports TorrentPiece "HOL-Library.Multiset"
begin

text \<open>
  Downloading a torrent, the second half of \<^verbatim>\<open>src/torrent-client/p2p/p2p.go\<close>: workers that share a queue of
  pieces, and the collector that assembles the file. The goroutines are the steps of a transition
  relation; a worker handles one piece in one step and hands its result over in another. Dialling and the
  hash function are parameters.
\<close>

record Torrent =
  t_Peers :: "Peer list"
  t_PeerID :: "byte list"
  t_InfoHash :: "byte list"
  t_PieceHashes :: "byte list list"
  t_PieceLength :: int
  t_Length :: int
  t_Name :: string

definition calculateBoundsForPiece :: "Torrent \<Rightarrow> int \<Rightarrow> int \<times> int" where
  "calculateBoundsForPiece t index =
     (let begin = index * t_PieceLength t;
          end = begin + t_PieceLength t
      in (begin, if end > t_Length t then t_Length t else end))"

definition calculatePieceSize :: "Torrent \<Rightarrow> int \<Rightarrow> int" where
  "calculatePieceSize t index = (let (begin, end) = calculateBoundsForPiece t index in end - begin)"

section \<open>Workers\<close>

text \<open>The start of \<^verbatim>\<open>startDownloadWorker\<close>: a worker whose handshake fails ends at once; errors of the two
  first messages are ignored.\<close>

definition start_worker :: "(string \<Rightarrow> Conn res) \<Rightarrow> Torrent \<Rightarrow> Peer \<Rightarrow> Client res" where
  "start_worker dial t peer =
     res_bind (tc_New dial peer (t_PeerID t) (t_InfoHash t)) (\<lambda>c.
       let (c1, _) = SendUnchoke c; (c2, _) = SendInterested c1 in Inr c2)"

text \<open>One round of the loop of \<^verbatim>\<open>startDownloadWorker\<close>: what becomes of the piece it took from the queue.\<close>

datatype outcome = PutBack Client | PutBackAndExit | Deliver Client pieceResult | Crash gopanic

definition worker_round :: "(byte list \<Rightarrow> byte list) \<Rightarrow> Client \<Rightarrow> pieceWork \<Rightarrow> outcome" where
  "worker_round sha1 c pw =
     (if \<not> HasPiece (cl_Bitfield c) (pw_index pw) then PutBack c
      else case attemptDownloadPiece c pw of
             Inl (Panicked p) \<Rightarrow> Crash p
           | Inl err \<Rightarrow> PutBackAndExit
           | Inr (c1, buf) \<Rightarrow>
               (case checkIntegrity sha1 pw buf of
                  Inl err \<Rightarrow> PutBack c1
                | Inr _ \<Rightarrow> let (c2, _) = SendHave (pw_index pw) c1
                          in Deliver c2 \<lparr>pr_index = pw_index pw, pr_buf = buf\<rparr>))"

section \<open>The download\<close>

datatype worker = Idle Client | Holding Client pieceWork | Offering Client pieceResult | Gone

record DownloadState =
  workQueue :: "pieceWork list"
  workers :: "worker list"
  dl_buf :: "byte list"
  donePieces :: nat

definition work_of :: "Torrent \<Rightarrow> nat \<Rightarrow> pieceWork" where
  "work_of t i = \<lparr>pw_index = int i, pw_hash = t_PieceHashes t ! i, pw_length = calculatePieceSize t (int i)\<rparr>"

text \<open>\<^verbatim>\<open>copy(buf[begin:end], res.buf)\<close>\<close>

definition collect :: "Torrent \<Rightarrow> pieceResult \<Rightarrow> byte list \<Rightarrow> byte list go" where
  "collect t res buf =
     (let (begin, end) = calculateBoundsForPiece t (pr_index res)
      in go_bind (go_range buf begin end) (\<lambda>slice.
           Inr (take (nat begin) buf @ copy_at 0 slice (pr_buf res) @ drop (nat end) buf)))"

definition download_start :: "(string \<Rightarrow> Conn res) \<Rightarrow> Torrent \<Rightarrow> DownloadState go" where
  "download_start dial t =
     (if t_Length t < 0 then Inl (Explicit ''makeslice: len out of range'')
      else Inr \<lparr>workQueue = map (work_of t) [0..<length (t_PieceHashes t)],
                workers = map (\<lambda>p. case start_worker dial t p of Inl _ \<Rightarrow> Gone | Inr c \<Rightarrow> Idle c) (t_Peers t),
                dl_buf = replicate (nat (t_Length t)) 0, donePieces = 0\<rparr>)"

inductive download_step :: "Torrent \<Rightarrow> (byte list \<Rightarrow> byte list) \<Rightarrow> DownloadState \<Rightarrow> DownloadState \<Rightarrow> bool"
  for t sha1 where
  take_work: "w < length (workers s) \<Longrightarrow> workers s ! w = Idle c \<Longrightarrow> workQueue s = pw # q
    \<Longrightarrow> download_step t sha1 s (s\<lparr>workQueue := q, workers := (workers s)[w := Holding c pw]\<rparr>)"
| put_back: "w < length (workers s) \<Longrightarrow> workers s ! w = Holding c pw \<Longrightarrow> worker_round sha1 c pw = PutBack c'
    \<Longrightarrow> download_step t sha1 s (s\<lparr>workQueue := workQueue s @ [pw], workers := (workers s)[w := Idle c']\<rparr>)"
| give_up: "w < length (workers s) \<Longrightarrow> workers s ! w = Holding c pw \<Longrightarrow> worker_round sha1 c pw = PutBackAndExit
    \<Longrightarrow> download_step t sha1 s (s\<lparr>workQueue := workQueue s @ [pw], workers := (workers s)[w := Gone]\<rparr>)"
| finish: "w < length (workers s) \<Longrightarrow> workers s ! w = Holding c pw \<Longrightarrow> worker_round sha1 c pw = Deliver c' res
    \<Longrightarrow> download_step t sha1 s (s\<lparr>workers := (workers s)[w := Offering c' res]\<rparr>)"
| receive: "w < length (workers s) \<Longrightarrow> workers s ! w = Offering c res \<Longrightarrow> donePieces s < length (t_PieceHashes t)
    \<Longrightarrow> collect t res (dl_buf s) = Inr buf
    \<Longrightarrow> download_step t sha1 s (s\<lparr>workers := (workers s)[w := Idle c], dl_buf := buf, donePieces := Suc (donePieces s)\<rparr>)"

definition download_reaches :: "Torrent \<Rightarrow> (byte list \<Rightarrow> byte list) \<Rightarrow> DownloadState \<Rightarrow> DownloadState \<Rightarrow> bool" where
  "download_reaches t sha1 = (download_step t sha1)\<^sup>*\<^sup>*"

section \<open>Pieces of a torrent\<close>

text \<open>The last piece begins inside the file.\<close>

definition torrent_ok :: "Torrent \<Rightarrow> bool" where
  "torrent_ok t \<longleftrightarrow> 0 < t_PieceLength t \<and> 0 \<le> t_Length t
     \<and> (int (length (t_PieceHashes t)) - 1) * t_PieceLength t \<le> t_Length t"

definition piece_slice :: "Torrent \<Rightarrow> byte list \<Rightarrow> nat \<Rightarrow> byte list" where
  "piece_slice t buf i = (let (b, e) = calculateBoundsForPiece t (int i) in take (nat (e - b)) (drop (nat b) buf))"

lemma bounds_ok:
  assumes "torrent_ok t" "i < length (t_PieceHashes t)" "calculateBoundsForPiece t (int i) = (b, e)"
  shows "b = int i * t_PieceLength t" "0 \<le> b" "b \<le> e" "e \<le> t_Length t" "e \<le> b + t_PieceLength t"
    "calculatePieceSize t (int i) = e - b"
proof -
  have "int i * t_PieceLength t \<le> (int (length (t_PieceHashes t)) - 1) * t_PieceLength t"
    using assms(1,2) by (intro mult_right_mono) (auto simp: torrent_ok_def)
  moreover have "0 \<le> int i * t_PieceLength t" using assms(1) by (simp add: torrent_ok_def)
  ultimately show "b = int i * t_PieceLength t" "0 \<le> b" "b \<le> e" "e \<le> t_Length t" "e \<le> b + t_PieceLength t"
    "calculatePieceSize t (int i) = e - b"
    using assms(1,3) by (auto simp: torrent_ok_def calculateBoundsForPiece_def calculatePieceSize_def Let_def split: if_splits)
qed

lemma bounds_disjoint:
  assumes "torrent_ok t" "i < j" "j < length (t_PieceHashes t)"
    and "calculateBoundsForPiece t (int i) = (b, e)" "calculateBoundsForPiece t (int j) = (b', e')"
  shows "e \<le> b'"
proof -
  have "int (Suc i) * t_PieceLength t \<le> int j * t_PieceLength t"
    using assms(1,2) by (intro mult_right_mono) (auto simp: torrent_ok_def)
  then show ?thesis
    using bounds_ok [OF assms(1) _ assms(4)] bounds_ok [OF assms(1,3,5)] assms(2,3) by (simp add: algebra_simps)
qed

text \<open>Collecting a whole piece replaces that piece of the file and nothing else.\<close>

lemma collect_ok:
  assumes "torrent_ok t" "i < length (t_PieceHashes t)" "int (length buf) = t_Length t"
    and "int (length d) = calculatePieceSize t (int i)"
  shows "\<exists>buf'. collect t \<lparr>pr_index = int i, pr_buf = d\<rparr> buf = Inr buf' \<and> length buf' = length buf
           \<and> piece_slice t buf' i = d
           \<and> (\<forall>j < length (t_PieceHashes t). j \<noteq> i \<longrightarrow> piece_slice t buf' j = piece_slice t buf j)"
proof -
  obtain b e where be: "calculateBoundsForPiece t (int i) = (b, e)" by force
  note B = bounds_ok [OF assms(1,2) be]
  have ld: "length d = nat e - nat b" using assms(4) B by linarith
  have len: "nat e \<le> length buf" "nat b \<le> nat e" using B assms(3) by linarith+
  let ?n = "take (nat b) buf @ d @ drop (nat e) buf"
  have "copy_at 0 (take (nat e - nat b) (drop (nat b) buf)) d = d" using ld len by (simp add: copy_at_def diff_le_mono)
  then have c: "collect t \<lparr>pr_index = int i, pr_buf = d\<rparr> buf = Inr ?n"
    using be B assms(3) by (simp add: collect_def go_range_def)
  have "nat (e - b) = length d" using ld B by linarith
  then have "piece_slice t ?n i = d" using be ld len by (simp add: piece_slice_def)
  moreover have "piece_slice t ?n j = piece_slice t buf j" if j: "j < length (t_PieceHashes t)" "j \<noteq> i" for j
  proof -
    obtain b' e' where be': "calculateBoundsForPiece t (int j) = (b', e')" by force
    note B' = bounds_ok [OF assms(1) j(1) be']
    show ?thesis
    proof (cases "j < i")
      case True
      have "e' \<le> b" using bounds_disjoint [OF assms(1) True assms(2) be' be] .
      then have "nat (e' - b') + nat b' \<le> nat b" "nat b \<le> length buf" using B' len by linarith+
      then show ?thesis using be' by (simp add: piece_slice_def take_drop)
    next
      case False
      then have "e \<le> b'" using bounds_disjoint [OF assms(1) _ j(1) be be'] j by simp
      then have "nat e \<le> nat b'" by simp
      then show ?thesis using be' ld len by (simp add: piece_slice_def diff_le_mono)
    qed
  qed
  ultimately show ?thesis using c ld len by (intro exI [of _ ?n]) auto
qed

section \<open>No piece is lost\<close>

fun held :: "worker \<Rightarrow> nat multiset" where
  "held (Idle c) = {#}"
| "held (Holding c pw) = {#nat (pw_index pw)#}"
| "held (Offering c res) = {#nat (pr_index res)#}"
| "held Gone = {#}"

text \<open>The pieces in the queue and with the workers.\<close>

definition open_pieces :: "DownloadState \<Rightarrow> nat multiset" where
  "open_pieces s = mset (map (\<lambda>pw. nat (pw_index pw)) (workQueue s)) + (\<Sum>w\<leftarrow>workers s. held w)"

lemma sum_list_update_mset:
  fixes f :: "'a \<Rightarrow> 'b multiset"
  assumes "w < length xs"
  shows "(\<Sum>x\<leftarrow>xs[w := y]. f x) + f (xs ! w) = (\<Sum>x\<leftarrow>xs. f x) + f y"
  using assms
proof (induction xs arbitrary: w)
  case (Cons a xs)
  then show ?case by (cases w) (simp_all add: union_ac)
qed simp

lemma sum_list_member_mset:
  fixes f :: "'a \<Rightarrow> 'b multiset"
  shows "x \<in> set xs \<Longrightarrow> f x \<subseteq># (\<Sum>x\<leftarrow>xs. f x)"
  by (induction xs) (auto simp: subset_mset.add_increasing subset_mset.add_increasing2)

definition worker_ok :: "Torrent \<Rightarrow> (byte list \<Rightarrow> byte list) \<Rightarrow> worker \<Rightarrow> bool" where
  "worker_ok t sha1 w \<longleftrightarrow>
     (case w of
        Holding c pw \<Rightarrow> \<exists>i < length (t_PieceHashes t). pw = work_of t i
      | Offering c res \<Rightarrow> \<exists>i < length (t_PieceHashes t). \<exists>d. res = \<lparr>pr_index = int i, pr_buf = d\<rparr>
          \<and> int (length d) = calculatePieceSize t (int i) \<and> sha1 d = t_PieceHashes t ! i
      | _ \<Rightarrow> True)"

definition download_inv :: "Torrent \<Rightarrow> (byte list \<Rightarrow> byte list) \<Rightarrow> nat multiset \<Rightarrow> DownloadState \<Rightarrow> bool" where
  "download_inv t sha1 done s \<longleftrightarrow>
     open_pieces s + done = mset_set {..<length (t_PieceHashes t)} \<and> donePieces s = size done
     \<and> set (workQueue s) \<subseteq> work_of t ` {..<length (t_PieceHashes t)}
     \<and> (\<forall>w \<in> set (workers s). worker_ok t sha1 w)
     \<and> int (length (dl_buf s)) = t_Length t
     \<and> (\<forall>i \<in># done. sha1 (piece_slice t (dl_buf s) i) = t_PieceHashes t ! i)"

lemma nat_index_work_of [simp]: "nat (pw_index (work_of t i)) = i"
  by (simp add: work_of_def)

lemma worker_round_deliver:
  assumes "worker_round sha1 c (work_of t i) = Deliver c' res" "i < length (t_PieceHashes t)"
  shows "worker_ok t sha1 (Offering c' res) \<and> pr_index res = int i"
proof -
  obtain c1 buf where "attemptDownloadPiece c (work_of t i) = Inr (c1, buf)" "sha1 buf = t_PieceHashes t ! i"
    "res = \<lparr>pr_index = int i, pr_buf = buf\<rparr>"
    using assms(1)
    by (auto simp: worker_round_def checkIntegrity_def work_of_def Let_def split: if_splits sum.splits goerr.splits prod.splits)
  then show ?thesis
    using attemptDownloadPiece_length [of c "work_of t i" c1 buf] assms(2) by (simp add: worker_ok_def work_of_def)
qed

lemma download_inv_start:
  assumes "download_start dial t = Inr s"
  shows "download_inv t sha1 {#} s"
proof -
  let ?n = "length (t_PieceHashes t)"
  have "held (case start_worker dial t p of Inl _ \<Rightarrow> Gone | Inr c \<Rightarrow> Idle c) = {#}" for p
    by (simp split: sum.splits)
  then have "sum_list (map held (map (\<lambda>p. case start_worker dial t p of Inl _ \<Rightarrow> Gone | Inr c \<Rightarrow> Idle c) ps)) = {#}" for ps
    by (induction ps) auto
  moreover have "map (\<lambda>pw. nat (pw_index pw)) (map (work_of t) [0..<?n]) = [0..<?n]" by (simp add: comp_def)
  ultimately have "open_pieces s = mset_set {..<?n}"
    using assms unfolding open_pieces_def
    by (auto simp: download_start_def comp_def atLeast0LessThan simp del: map_map mset_map split: if_splits)
  then show ?thesis
    using assms by (auto simp: download_start_def download_inv_def worker_ok_def split: if_splits sum.splits)
qed

lemma workers_ok_update:
  "\<forall>x \<in> set ws. worker_ok t sha1 x \<Longrightarrow> worker_ok t sha1 y \<Longrightarrow> \<forall>x \<in> set (ws[w := y]). worker_ok t sha1 x"
  using set_update_subset_insert [of ws w y] by blast

lemma worker_ok_nth:
  "download_inv t sha1 done s \<Longrightarrow> w < length (workers s) \<Longrightarrow> worker_ok t sha1 (workers s ! w)"
  by (simp add: download_inv_def)

lemma download_inv_take:
  assumes "download_inv t sha1 done s" "w < length (workers s)" "workers s ! w = Idle c" "workQueue s = pw # q"
  shows "download_inv t sha1 done (s\<lparr>workQueue := q, workers := (workers s)[w := Holding c pw]\<rparr>)" (is "download_inv _ _ _ ?s")
proof -
  have "open_pieces ?s = open_pieces s"
    using sum_list_update_mset [OF assms(2), of held "Holding c pw"] assms(3,4) by (simp add: open_pieces_def)
  moreover have "pw \<in> work_of t ` {..<length (t_PieceHashes t)}" using assms(1,4) by (auto simp: download_inv_def)
  then have "worker_ok t sha1 (Holding c pw)" by (auto simp: worker_ok_def)
  then have "\<forall>x \<in> set ((workers s)[w := Holding c pw]). worker_ok t sha1 x"
    using assms(1) by (intro workers_ok_update) (simp_all add: download_inv_def)
  ultimately show ?thesis using assms(1,4) by (simp add: download_inv_def)
qed

lemma download_inv_put_back:
  assumes "download_inv t sha1 done s" "w < length (workers s)" "workers s ! w = Holding c pw" "held w' = {#}"
  shows "download_inv t sha1 done (s\<lparr>workQueue := workQueue s @ [pw], workers := (workers s)[w := w']\<rparr>)" (is "download_inv _ _ _ ?s")
proof -
  have "open_pieces ?s = open_pieces s"
    using sum_list_update_mset [OF assms(2), of held w'] assms(3,4) by (simp add: open_pieces_def)
  moreover have "pw \<in> work_of t ` {..<length (t_PieceHashes t)}"
    using worker_ok_nth [OF assms(1,2)] assms(3) by (auto simp: worker_ok_def)
  moreover have "worker_ok t sha1 w'" using assms(4) by (cases w') (auto simp: worker_ok_def)
  then have "\<forall>x \<in> set ((workers s)[w := w']). worker_ok t sha1 x"
    using assms(1) by (intro workers_ok_update) (simp_all add: download_inv_def)
  ultimately show ?thesis using assms(1) by (simp add: download_inv_def)
qed

lemma download_inv_finish:
  assumes "download_inv t sha1 done s" "w < length (workers s)" "workers s ! w = Holding c pw" "worker_round sha1 c pw = Deliver c' res"
  shows "download_inv t sha1 done (s\<lparr>workers := (workers s)[w := Offering c' res]\<rparr>)" (is "download_inv _ _ _ ?s")
proof -
  obtain i where i: "i < length (t_PieceHashes t)" "pw = work_of t i"
    using worker_ok_nth [OF assms(1,2)] assms(3) by (auto simp: worker_ok_def)
  then have ok: "worker_ok t sha1 (Offering c' res)" "nat (pr_index res) = i"
    using worker_round_deliver [of sha1 c t i c' res] assms(4) by auto
  have "open_pieces ?s = open_pieces s"
    using sum_list_update_mset [OF assms(2), of held "Offering c' res"] assms(3) i ok(2) by (simp add: open_pieces_def)
  moreover have "\<forall>x \<in> set ((workers s)[w := Offering c' res]). worker_ok t sha1 x"
    using assms(1) ok(1) by (intro workers_ok_update) (simp_all add: download_inv_def)
  ultimately show ?thesis using assms(1) by (simp add: download_inv_def)
qed

text \<open>A result that a worker offers can be collected, and it is a piece that was not collected before.\<close>

lemma offered:
  assumes "torrent_ok t" "download_inv t sha1 done s" "w < length (workers s)" "workers s ! w = Offering c res"
  obtains i buf where "i < length (t_PieceHashes t)" "nat (pr_index res) = i" "i \<notin># done" "size done < length (t_PieceHashes t)"
    "collect t res (dl_buf s) = Inr buf" "length buf = length (dl_buf s)" "sha1 (piece_slice t buf i) = t_PieceHashes t ! i"
    "\<And>j. j < length (t_PieceHashes t) \<Longrightarrow> j \<noteq> i \<Longrightarrow> piece_slice t buf j = piece_slice t (dl_buf s) j"
proof -
  let ?n = "length (t_PieceHashes t)"
  obtain i d where i: "i < ?n" "res = \<lparr>pr_index = int i, pr_buf = d\<rparr>"
    "int (length d) = calculatePieceSize t (int i)" "sha1 d = t_PieceHashes t ! i"
    using worker_ok_nth [OF assms(2,3)] assms(4) by (auto simp: worker_ok_def)
  have "held (workers s ! w) \<subseteq># open_pieces s"
    using sum_list_member_mset [of "workers s ! w" "workers s" held] assms(3)
    by (simp add: open_pieces_def subset_mset.add_increasing)
  then have "i \<in># open_pieces s" using assms(4) i by simp
  moreover have eq: "open_pieces s + done = mset_set {..<?n}" using assms(2) by (simp add: download_inv_def)
  moreover have "count (mset_set {..<?n}) i \<le> 1" by (simp add: count_mset_set')
  ultimately have "0 < count (open_pieces s) i" "count (open_pieces s) i + count done i \<le> 1"
    using count_union [of "open_pieces s" "done" i] by simp_all
  then have "count done i = 0" by linarith
  then have "i \<notin># done" by (simp add: not_in_iff)
  moreover have "size (open_pieces s) + size done = ?n" using arg_cong [OF eq, of size] by simp
  then have "size done < ?n" using \<open>i \<in># open_pieces s\<close> by (cases "open_pieces s = {#}") (auto simp: nonempty_has_size)
  moreover have "int (length (dl_buf s)) = t_Length t" using assms(2) by (simp add: download_inv_def)
  then obtain buf where "collect t res (dl_buf s) = Inr buf" "length buf = length (dl_buf s)" "piece_slice t buf i = d"
    "\<forall>j < ?n. j \<noteq> i \<longrightarrow> piece_slice t buf j = piece_slice t (dl_buf s) j"
    using collect_ok [OF assms(1) i(1) _ i(3)] i(2) by blast
  ultimately show thesis using that [of i buf] i by simp
qed

lemma download_inv_receive:
  assumes "torrent_ok t" "download_inv t sha1 done s" "w < length (workers s)" "workers s ! w = Offering c res"
    and "collect t res (dl_buf s) = Inr buf"
  shows "\<exists>i. download_inv t sha1 (add_mset i done)
           (s\<lparr>workers := (workers s)[w := Idle c], dl_buf := buf, donePieces := Suc (donePieces s)\<rparr>)" (is "\<exists>i. download_inv _ _ _ ?s")
proof -
  let ?n = "length (t_PieceHashes t)"
  obtain i where i: "i < ?n" "nat (pr_index res) = i" "i \<notin># done" "length buf = length (dl_buf s)"
    "sha1 (piece_slice t buf i) = t_PieceHashes t ! i" "\<And>j. j < ?n \<Longrightarrow> j \<noteq> i \<Longrightarrow> piece_slice t buf j = piece_slice t (dl_buf s) j"
    using offered [OF assms(1-4)] assms(5) by (metis Inr_inject)
  have "add_mset i (open_pieces ?s) = open_pieces s"
    using sum_list_update_mset [OF assms(3), of held "Idle c"] assms(4) i(2) by (simp add: open_pieces_def)
  then have "open_pieces ?s + add_mset i done = mset_set {..<?n}"
    using assms(2) unfolding download_inv_def by (metis union_mset_add_mset_left union_mset_add_mset_right)
  moreover have "sha1 (piece_slice t buf j) = t_PieceHashes t ! j" if "j \<in># done" for j
  proof -
    have "j < ?n" using that assms(2) unfolding download_inv_def
      by (metis elem_mset_set finite_lessThan lessThan_iff union_iff)
    moreover have "j \<noteq> i" using that i(3) by blast
    ultimately show ?thesis using i(6) that assms(2) by (simp add: download_inv_def)
  qed
  moreover have "\<forall>x \<in> set ((workers s)[w := Idle c]). worker_ok t sha1 x"
    using assms(2) by (intro workers_ok_update) (simp_all add: download_inv_def worker_ok_def)
  ultimately show ?thesis
    using assms(2) i by (intro exI [of _ i]) (auto simp: download_inv_def)
qed

text \<open>Every state of a download satisfies the invariant.\<close>

lemma download_inv_step:
  assumes "download_step t sha1 s s'" "torrent_ok t" "download_inv t sha1 done s"
  shows "\<exists>done'. download_inv t sha1 done' s'"
  using assms(1)
proof cases
  case take_work
  then show ?thesis using download_inv_take assms(3) by blast
next
  case (put_back w c pw c')
  then show ?thesis using download_inv_put_back [OF assms(3), where w' = "Idle c'"] by auto
next
  case (give_up w c pw)
  then show ?thesis using download_inv_put_back [OF assms(3), where w' = Gone] by auto
next
  case finish
  then show ?thesis using download_inv_finish assms(3) by blast
next
  case receive
  then show ?thesis using download_inv_receive assms(2,3) by blast
qed

lemma download_inv_reaches:
  assumes "download_reaches t sha1 s0 s" "download_start dial t = Inr s0" "torrent_ok t"
  shows "\<exists>done. download_inv t sha1 done s"
  using assms(1) unfolding download_reaches_def
proof (induction rule: rtranclp_induct)
  case base
  then show ?case using download_inv_start [OF assms(2)] by blast
next
  case (step s s')
  then show ?case using download_inv_step assms(3) by blast
qed

text \<open>
  C21: a finished download has the right content. For a torrent whose last piece begins inside the file, whatever
  the peers send, however the workers interleave, fail and retry, and in whatever order the results
  arrive: when the collector has counted as many results as there are pieces, the buffer is as long as
  the file and the hash of every piece of it is the hash in the torrent.
\<close>

theorem download_integrity:
  assumes "torrent_ok t" "download_start dial t = Inr s0" "download_reaches t sha1 s0 s"
    and "donePieces s = length (t_PieceHashes t)"
  shows "int (length (dl_buf s)) = t_Length t
         \<and> (\<forall>i < length (t_PieceHashes t). sha1 (piece_slice t (dl_buf s) i) = t_PieceHashes t ! i)"
proof -
  let ?n = "length (t_PieceHashes t)"
  obtain "done" where inv: "download_inv t sha1 done s" using download_inv_reaches assms by blast
  then have eq: "open_pieces s + done = mset_set {..<?n}" "size done = ?n" using assms(4) by (auto simp: download_inv_def)
  have "size (open_pieces s) + size done = ?n" using arg_cong [OF eq(1), of size] by simp
  then have "open_pieces s = {#}" using eq(2) by simp
  then have "done = mset_set {..<?n}" using eq(1) by simp
  then show ?thesis using inv by (simp add: download_inv_def)
qed

text \<open>
  C22: no piece is lost or delivered twice, and no goroutine that holds a piece gets stuck. In every
  reachable state the pieces in the queue, with the workers and already collected are together exactly
  the pieces of the torrent. So a worker that puts a piece back always finds room in the channel, whose
  capacity is the number of pieces, and a worker that offers a result finds the collector still
  collecting and the result is collected without a panic.
\<close>

theorem download_conserves_pieces:
  assumes "torrent_ok t" "download_start dial t = Inr s0" "download_reaches t sha1 s0 s"
  shows "(\<exists>done. open_pieces s + done = mset_set {..<length (t_PieceHashes t)} \<and> size done = donePieces s)
         \<and> (\<forall>w < length (workers s). \<forall>c pw. workers s ! w = Holding c pw \<longrightarrow> length (workQueue s) < length (t_PieceHashes t))
         \<and> (\<forall>w < length (workers s). \<forall>c res. workers s ! w = Offering c res \<longrightarrow>
              donePieces s < length (t_PieceHashes t) \<and> (\<exists>buf. collect t res (dl_buf s) = Inr buf))"
proof -
  let ?n = "length (t_PieceHashes t)"
  obtain "done" where inv: "download_inv t sha1 done s" using download_inv_reaches assms by blast
  then have eq: "open_pieces s + done = mset_set {..<?n}" "size done = donePieces s" by (auto simp: download_inv_def)
  have "length (workQueue s) < ?n" if "w < length (workers s)" "workers s ! w = Holding c pw" for w c pw
  proof -
    have "held (workers s ! w) \<subseteq># (\<Sum>w\<leftarrow>workers s. held w)"
      by (rule sum_list_member_mset) (use that(1) in simp)
    then have "size (held (workers s ! w)) \<le> size (\<Sum>w\<leftarrow>workers s. held w)" by (rule size_mset_mono)
    then have "1 \<le> size (\<Sum>w\<leftarrow>workers s. held w)" using that(2) by simp
    moreover have "size (open_pieces s) + size done = ?n" using arg_cong [OF eq(1), of size] by simp
    ultimately show ?thesis by (simp add: open_pieces_def)
  qed
  moreover have "donePieces s < ?n \<and> (\<exists>buf. collect t res (dl_buf s) = Inr buf)"
    if "w < length (workers s)" "workers s ! w = Offering c res" for w c res
    unfolding eq(2) [symmetric] by (rule offered [OF assms(1) inv that]) blast
  ultimately show ?thesis using eq by (intro conjI exI [of _ "done"] allI impI) simp_all
qed

text \<open>
  A download without workers hangs. When every worker has ended, because its peer could not be reached, broke
  the protocol or closed the connection, and pieces are missing, no step is possible: the collector
  waits for a result that nobody will send, and \<^verbatim>\<open>Download\<close> never returns. This happens at once when the
  tracker returns no peers.
\<close>

theorem download_hangs:
  "(\<forall>s. set (workers s) \<subseteq> {Gone} \<longrightarrow> (\<nexists>s'. download_step t sha1 s s'))
   \<and> (\<forall>s. t_Peers t = [] \<longrightarrow> download_start dial t = Inr s \<longrightarrow> set (workers s) \<subseteq> {Gone} \<and> donePieces s = 0)"
proof (intro conjI allI impI notI)
  fix s assume g: "set (workers s) \<subseteq> {Gone}" and "\<exists>s'. download_step t sha1 s s'"
  then obtain s' where "download_step t sha1 s s'" by blast
  then show False using g by cases (use nth_mem in fastforce)+
next
  fix s assume "t_Peers t = []" "download_start dial t = Inr s"
  then show "set (workers s) \<subseteq> {Gone}" by (auto simp: download_start_def split: if_splits)
next
  fix s assume "t_Peers t = []" "download_start dial t = Inr s"
  then show "donePieces s = 0" by (auto simp: download_start_def split: if_splits)
qed

section \<open>A run\<close>

definition ex_torrent :: Torrent where
  "ex_torrent = \<lparr>t_Peers = [\<lparr>IP = [127, 0, 0, 1], Port = 80\<rparr>], t_PeerID = replicate 20 3, t_InfoHash = replicate 20 7,
     t_PieceHashes = [[5, 6]], t_PieceLength = 4, t_Length = 2, t_Name = ''f''\<rparr>"

definition ex_peer_bytes :: "byte list" where
  "ex_peer_bytes = msg_bytes (Some \<lparr>ID = MsgUnchoke, Payload = []\<rparr>) @ msg_bytes (block_answer (work_of ex_torrent 0) [5, 6] 0)"

definition ex_dial :: "string \<Rightarrow> Conn res" where
  "ex_dial a = Inr \<lparr>conn_in = hs_Serialize (hs_New (replicate 20 7) (replicate 20 9))
       @ msg_bytes (Some \<lparr>ID = MsgBitfield, Payload = [128]\<rparr>) @ ex_peer_bytes,
     conn_out = [], conn_writes = 0, conn_fails = (\<lambda>n. False)\<rparr>"

lemma SendShort_keeps:
  assumes "length (Payload m) < 100" "\<forall>n. \<not> conn_fails (cl_Conn c) n"
  shows "\<exists>c'. tc_send m c = (c', None) \<and> conn_in (cl_Conn c') = conn_in (cl_Conn c)
           \<and> conn_fails (cl_Conn c') = conn_fails (cl_Conn c) \<and> cl_Bitfield c' = cl_Bitfield c"
  using assms(2) by (simp add: tc_send_short [OF assms(1)] Write_def)

lemma ex_worker:
  obtains c where "start_worker ex_dial ex_torrent \<lparr>IP = [127, 0, 0, 1], Port = 80\<rparr> = Inr c" "conn_in (cl_Conn c) = ex_peer_bytes"
    "\<forall>n. \<not> conn_fails (cl_Conn c) n" "cl_Bitfield c = [128]"
proof -
  let ?h = "hs_New (replicate 20 7) (replicate 20 9)" and ?m = "\<lparr>ID = MsgBitfield, Payload = [128]\<rparr>"
  obtain c0 where "tc_New ex_dial \<lparr>IP = [127, 0, 0, 1], Port = 80\<rparr> (replicate 20 3) (replicate 20 7) = Inr c0"
    "conn_in (cl_Conn c0) = ex_peer_bytes" "\<forall>n. \<not> conn_fails (cl_Conn c0) n" "cl_Bitfield c0 = [128]"
    using tc_New_eq [where dial = ex_dial, OF ex_dial_def, where h = ?h and m = ?m and r = ex_peer_bytes]
    by (simp add: hs_ok_def hs_New_def)
  moreover obtain c1 where "SendUnchoke c0 = (c1, None)" "conn_in (cl_Conn c1) = conn_in (cl_Conn c0)"
    "conn_fails (cl_Conn c1) = conn_fails (cl_Conn c0)" "cl_Bitfield c1 = cl_Bitfield c0"
    using SendShort_keeps [of "\<lparr>ID = MsgUnchoke, Payload = []\<rparr>" c0] calculation unfolding SendUnchoke_def by auto
  moreover obtain c2 where "SendInterested c1 = (c2, None)" "conn_in (cl_Conn c2) = conn_in (cl_Conn c1)"
    "conn_fails (cl_Conn c2) = conn_fails (cl_Conn c1)" "cl_Bitfield c2 = cl_Bitfield c1"
    using SendShort_keeps [of "\<lparr>ID = MsgInterested, Payload = []\<rparr>" c1] calculation unfolding SendInterested_def by auto
  ultimately show thesis using that by (simp add: start_worker_def ex_torrent_def)
qed

lemma ex_round:
  assumes "conn_in (cl_Conn c) = ex_peer_bytes" "\<forall>n. \<not> conn_fails (cl_Conn c) n" "cl_Bitfield c = [128]"
  shows "\<exists>c'. worker_round (\<lambda>b. b) c (work_of ex_torrent 0) = Deliver c' \<lparr>pr_index = 0, pr_buf = [5, 6]\<rparr>"
proof -
  have l: "pw_length (work_of ex_torrent 0) = 2" "pw_index (work_of ex_torrent 0) = 0" "pw_hash (work_of ex_torrent 0) = [5, 6]"
    by (simp_all add: work_of_def ex_torrent_def calculatePieceSize_def calculateBoundsForPiece_def)
  obtain c' where "attemptDownloadPiece c (work_of ex_torrent 0) = Inr (c', [5, 6])"
    using download_from_answers [of "[5, 6]" "work_of ex_torrent 0" "[0]" c "[]"] assms
    by (auto simp: l ex_peer_bytes_def block_count_def MaxBlockSize_def)
  moreover have "HasPiece (cl_Bitfield c) 0" by (simp add: assms(3) HasPiece_spec piece_bit_def bit_simps)
  ultimately show ?thesis by (simp add: worker_round_def checkIntegrity_def l Let_def split: prod.splits)
qed

text \<open>The download of the one piece: the worker takes it, downloads it and hands it over.\<close>

lemma ex_run:
  obtains s0 s where "download_start ex_dial ex_torrent = Inr s0" "download_reaches ex_torrent (\<lambda>b. b) s0 s"
    "donePieces s = 1" "dl_buf s = [5, 6]"
proof -
  obtain c where c: "start_worker ex_dial ex_torrent \<lparr>IP = [127, 0, 0, 1], Port = 80\<rparr> = Inr c" "conn_in (cl_Conn c) = ex_peer_bytes"
    "\<forall>n. \<not> conn_fails (cl_Conn c) n" "cl_Bitfield c = [128]" by (rule ex_worker)
  obtain c' where c': "worker_round (\<lambda>b. b) c (work_of ex_torrent 0) = Deliver c' \<lparr>pr_index = 0, pr_buf = [5, 6]\<rparr>"
    using ex_round [OF c(2-4)] by blast
  let ?st = "\<lambda>q w b d. \<lparr>workQueue = q, workers = [w], dl_buf = b, donePieces = d\<rparr>"
  let ?pw = "work_of ex_torrent 0"
  have s0: "download_start ex_dial ex_torrent = Inr (?st [?pw] (Idle c) [0, 0] 0)"
    using c(1) by (simp add: download_start_def ex_torrent_def eval_nat_numeral)
  have "download_step ex_torrent (\<lambda>b. b) (?st [?pw] (Idle c) [0, 0] 0) (?st [] (Holding c ?pw) [0, 0] 0)"
    using take_work [of 0 "?st [?pw] (Idle c) [0, 0] 0" c ?pw "[]"] by simp
  moreover have "download_step ex_torrent (\<lambda>b. b) (?st [] (Holding c ?pw) [0, 0] 0) (?st [] (Offering c' \<lparr>pr_index = 0, pr_buf = [5, 6]\<rparr>) [0, 0] 0)"
    using finish [of 0 "?st [] (Holding c ?pw) [0, 0] 0" c ?pw] c' by simp
  moreover have "collect ex_torrent \<lparr>pr_index = 0, pr_buf = [5, 6]\<rparr> [0, 0] = Inr [5, 6]"
    by (simp add: collect_def calculateBoundsForPiece_def ex_torrent_def go_range_def copy_at_def)
  then have "download_step ex_torrent (\<lambda>b. b) (?st [] (Offering c' \<lparr>pr_index = 0, pr_buf = [5, 6]\<rparr>) [0, 0] 0) (?st [] (Idle c') [5, 6] 1)"
    using receive [of 0 "?st [] (Offering c' \<lparr>pr_index = 0, pr_buf = [5, 6]\<rparr>) [0, 0] 0" c' "\<lparr>pr_index = 0, pr_buf = [5, 6]\<rparr>" ex_torrent "[5, 6]"]
    by (simp add: ex_torrent_def)
  ultimately have "download_reaches ex_torrent (\<lambda>b. b) (?st [?pw] (Idle c) [0, 0] 0) (?st [] (Idle c') [5, 6] 1)"
    unfolding download_reaches_def by (meson rtranclp.rtrancl_refl rtranclp.rtrancl_into_rtrancl)
  then show thesis using that [OF s0] by simp
qed

lemma ex_torrent_ok: "torrent_ok ex_torrent"
  by (simp add: torrent_ok_def ex_torrent_def)

theorem download_integrity_witness:
  "\<exists>s0 s. download_start ex_dial ex_torrent = Inr s0 \<and> download_reaches ex_torrent (\<lambda>b. b) s0 s
     \<and> donePieces s = length (t_PieceHashes ex_torrent) \<and> piece_slice ex_torrent (dl_buf s) 0 = [5, 6]"
proof -
  obtain s0 s where s: "download_start ex_dial ex_torrent = Inr s0" "download_reaches ex_torrent (\<lambda>b. b) s0 s" "donePieces s = 1"
    by (rule ex_run)
  then have d: "donePieces s = length (t_PieceHashes ex_torrent)" by (simp add: ex_torrent_def)
  from download_integrity [OF ex_torrent_ok s(1,2) d] show ?thesis using s d by (auto simp: ex_torrent_def)
qed

theorem download_conserves_pieces_witness:
  "\<exists>s0 s. download_start ex_dial ex_torrent = Inr s0 \<and> download_reaches ex_torrent (\<lambda>b. b) s0 s \<and> donePieces s = 1
     \<and> (\<exists>done. open_pieces s + done = mset_set {..<1} \<and> size done = 1)"
proof -
  obtain s0 s where s: "download_start ex_dial ex_torrent = Inr s0" "download_reaches ex_torrent (\<lambda>b. b) s0 s" "donePieces s = 1"
    by (rule ex_run)
  have "length (t_PieceHashes ex_torrent) = 1" by (simp add: ex_torrent_def)
  then show ?thesis using download_conserves_pieces [OF ex_torrent_ok s(1,2)] s by metis
qed

theorem download_hangs_witness:
  "\<nexists>s'. download_step ex_torrent (\<lambda>b. b) \<lparr>workQueue = [], workers = [Gone], dl_buf = [0, 0], donePieces = 0\<rparr> s'"
  by (rule download_hangs [THEN conjunct1, rule_format]) simp

end
