(* ===== verification/TorrentFile.thy ===== *)
theory TorrentFile
  imports TorrentDownload
begin

text \<open>
  Torrent files and trackers, \<^verbatim>\<open>src/torrent-client/torrentfile\<close>. The bencode library, the hash function, the URL
  parser and the HTTP exchange are parameters. Go strings are byte sequences.
\<close>

record bencodeInfo =
  bi_Pieces :: "byte list"
  bi_PieceLength :: int
  bi_Length :: int
  bi_Name :: string

record bencodeTorrent =
  bt_Announce :: string
  bt_Info :: bencodeInfo

record TorrentFile =
  tf_Announce :: string
  tf_InfoHash :: "byte list"
  tf_PieceHashes :: "byte list list"
  tf_PieceLength :: int
  tf_Length :: int
  tf_Name :: string

definition info_hash :: "(bencodeInfo \<Rightarrow> byte list res) \<Rightarrow> (byte list \<Rightarrow> byte list) \<Rightarrow> bencodeInfo \<Rightarrow> byte list res" where
  "info_hash marshal sha1 i = res_bind (marshal i) (\<lambda>buf. Inr (sha1 buf))"

definition splitPieceHashes :: "bencodeInfo \<Rightarrow> byte list list res" where
  "splitPieceHashes i =
     (let buf = bi_Pieces i
      in if length buf mod 20 \<noteq> 0 then Inl (Failure ''Received malformed pieces'')
         else let numHashes = length buf div 20
              in Inr (map (\<lambda>k. copy_at 0 (replicate 20 0) (take 20 (drop (k * 20) buf))) [0..<numHashes]))"

definition toTorrentFile :: "(bencodeInfo \<Rightarrow> byte list res) \<Rightarrow> (byte list \<Rightarrow> byte list) \<Rightarrow> bencodeTorrent \<Rightarrow> TorrentFile res" where
  "toTorrentFile marshal sha1 bto =
     res_bind (info_hash marshal sha1 (bt_Info bto)) (\<lambda>infoHash.
       res_bind (splitPieceHashes (bt_Info bto)) (\<lambda>pieceHashes.
         Inr \<lparr>tf_Announce = bt_Announce bto, tf_InfoHash = infoHash, tf_PieceHashes = pieceHashes,
              tf_PieceLength = bi_PieceLength (bt_Info bto), tf_Length = bi_Length (bt_Info bto),
              tf_Name = bi_Name (bt_Info bto)\<rparr>))"

text \<open>\<^verbatim>\<open>Open\<close> on the content of the file, or the error of opening it.\<close>

definition tf_Open :: "(byte list \<Rightarrow> bencodeTorrent res) \<Rightarrow> (bencodeInfo \<Rightarrow> byte list res) \<Rightarrow> (byte list \<Rightarrow> byte list)
    \<Rightarrow> byte list res \<Rightarrow> TorrentFile res" where
  "tf_Open unmarshal marshal sha1 file =
     res_bind file (\<lambda>content. res_bind (unmarshal content) (toTorrentFile marshal sha1))"

section \<open>The tracker request\<close>

text \<open>\<^verbatim>\<open>url.QueryEscape\<close>: letters, digits and four marks stay, a space becomes a plus sign, and every other byte
  is written with two hexadecimal digits.\<close>

definition unreserved :: "nat \<Rightarrow> bool" where
  "unreserved n \<longleftrightarrow> (97 \<le> n \<and> n \<le> 122) \<or> (65 \<le> n \<and> n \<le> 90) \<or> (48 \<le> n \<and> n \<le> 57) \<or> n \<in> {45, 95, 46, 126}"

definition hex_digit :: "nat \<Rightarrow> char" where
  "hex_digit d = (if d < 10 then char_of (48 + d) else char_of (55 + d))"

definition escape_byte :: "byte \<Rightarrow> string" where
  "escape_byte b =
     (let n = unat b
      in if unreserved n then [char_of n] else if n = 32 then ''+''
         else [CHR ''%'', hex_digit (n div 16), hex_digit (n mod 16)])"

definition QueryEscape :: "byte list \<Rightarrow> string" where
  "QueryEscape s = concat (map escape_byte s)"

definition to_bytes :: "string \<Rightarrow> byte list" where
  "to_bytes s = map of_char s"

text \<open>\<^verbatim>\<open>Values.Encode\<close> writes the parameters sorted by key; the seven keys in that order.\<close>

definition query_param :: "string \<Rightarrow> byte list \<Rightarrow> string" where
  "query_param key v = QueryEscape (to_bytes key) @ ''='' @ QueryEscape v"

definition tracker_query :: "TorrentFile \<Rightarrow> byte list \<Rightarrow> 16 word \<Rightarrow> string" where
  "tracker_query t peerID port =
     query_param ''compact'' (to_bytes ''1'') @ ''&'' @ query_param ''downloaded'' (to_bytes ''0'') @ ''&''
     @ query_param ''info_hash'' (tf_InfoHash t) @ ''&'' @ query_param ''left'' (to_bytes (Itoa (tf_Length t))) @ ''&''
     @ query_param ''peer_id'' peerID @ ''&'' @ query_param ''port'' (to_bytes (Itoa (uint port))) @ ''&''
     @ query_param ''uploaded'' (to_bytes ''0'')"

text \<open>\<open>parse_url\<close> gives the URL as a function of its query.\<close>

definition buildTrackerURL :: "(string \<Rightarrow> (string \<Rightarrow> string) res) \<Rightarrow> TorrentFile \<Rightarrow> byte list \<Rightarrow> 16 word \<Rightarrow> string res" where
  "buildTrackerURL parse_url t peerID port =
     res_bind (parse_url (tf_Announce t)) (\<lambda>base. Inr (base (tracker_query t peerID port)))"

text \<open>\<open>http_get\<close> gives the decoded tracker response, of which only the peers are used.\<close>

definition requestPeers :: "(string \<Rightarrow> (string \<Rightarrow> string) res) \<Rightarrow> (string \<Rightarrow> byte list res) \<Rightarrow> TorrentFile \<Rightarrow> byte list \<Rightarrow> 16 word
    \<Rightarrow> Peer list res" where
  "requestPeers parse_url http_get t peerID port =
     res_bind (buildTrackerURL parse_url t peerID port) (\<lambda>url. res_bind (http_get url) Unmarshal)"

text \<open>The start of \<^verbatim>\<open>DownloadToFile\<close>: the torrent it hands to \<^verbatim>\<open>Download\<close>; the peer id is drawn at random.\<close>

definition prepare_download :: "(string \<Rightarrow> (string \<Rightarrow> string) res) \<Rightarrow> (string \<Rightarrow> byte list res) \<Rightarrow> byte list res \<Rightarrow> TorrentFile \<Rightarrow> Torrent res" where
  "prepare_download parse_url http_get rand t =
     res_bind rand (\<lambda>peerID. res_bind (requestPeers parse_url http_get t peerID 6881) (\<lambda>peers.
       Inr \<lparr>t_Peers = peers, t_PeerID = peerID, t_InfoHash = tf_InfoHash t, t_PieceHashes = tf_PieceHashes t,
            t_PieceLength = tf_PieceLength t, t_Length = tf_Length t, t_Name = tf_Name t\<rparr>))"

section \<open>The piece hashes\<close>

lemma splitPieceHashes_spec:
  "case splitPieceHashes i of
     Inr hs \<Rightarrow> length (bi_Pieces i) mod 20 = 0 \<and> list_all (\<lambda>h. length h = 20) hs \<and> concat hs = bi_Pieces i
   | Inl e \<Rightarrow> length (bi_Pieces i) mod 20 \<noteq> 0 \<and> e = Failure ''Received malformed pieces''"
proof (cases "length (bi_Pieces i) mod 20 = 0")
  case True
  have c: "concat (map (\<lambda>k. take 20 (drop (k * 20) b)) [0..<n]) = b" if "length b = n * 20" for b :: "byte list" and n
    using that
  proof (induction n arbitrary: b)
    case (Suc n)
    have "concat (map (\<lambda>k. take 20 (drop (k * 20) (drop 20 b))) [0..<n]) = drop 20 b"
      by (rule Suc.IH) (use Suc.prems in simp)
    then show ?case
      by (simp add: upt_conv_Cons map_Suc_upt [symmetric] comp_def add.commute [of 20] del: upt_Suc)
  qed simp
  let ?n = "length (bi_Pieces i) div 20"
  have l: "length (take 20 (drop (k * 20) (bi_Pieces i))) = 20" if "k < ?n" for k
  proof -
    have "Suc k * 20 \<le> ?n * 20" using that by (intro mult_right_mono) auto
    then show ?thesis using True by simp
  qed
  have "copy_at 0 (replicate 20 0) (take 20 (drop (k * 20) (bi_Pieces i))) = take 20 (drop (k * 20) (bi_Pieces i))" if "k < ?n" for k
    by (rule copy_at_20 [OF l [OF that]])
  then have "splitPieceHashes i = Inr (map (\<lambda>k. take 20 (drop (k * 20) (bi_Pieces i))) [0..<?n])"
    using True by (simp add: splitPieceHashes_def Let_def)
  moreover have "length (bi_Pieces i) = ?n * 20" using div_mult_mod_eq [of "length (bi_Pieces i)" 20] True by linarith
  ultimately show ?thesis using True l c [of "bi_Pieces i" ?n] by (simp add: list_all_iff)
qed (simp add: splitPieceHashes_def)

section \<open>The tracker can read the query\<close>

definition hex_value :: "char \<Rightarrow> nat option" where
  "hex_value ch = (let n = of_char ch in if 48 \<le> n \<and> n \<le> 57 then Some (n - 48)
     else if 65 \<le> n \<and> n \<le> 70 then Some (n - 55) else None)"

fun unescape :: "string \<Rightarrow> byte list option" where
  "unescape [] = Some []"
| "unescape (ch # s) =
     (if ch = CHR ''%'' then
        (case s of
           h # l # r \<Rightarrow>
             (case (hex_value h, hex_value l) of
                (Some a, Some b) \<Rightarrow> map_option (Cons (word_of_nat (16 * a + b))) (unescape r)
              | _ \<Rightarrow> None)
         | _ \<Rightarrow> None)
      else map_option (Cons (if ch = CHR ''+'' then 32 else word_of_nat (of_char ch))) (unescape s))"

lemma hex_value_digit: "d < 16 \<Longrightarrow> hex_value (hex_digit d) = Some d"
  by (auto simp: hex_value_def hex_digit_def Let_def)

lemma char_of_eq_iff: "n < 256 \<Longrightarrow> char_of n = ch \<longleftrightarrow> n = (of_char ch :: nat)"
  by (metis char_of_char mod_less of_char_of)

lemma eq_char_of_iff: "n < 256 \<Longrightarrow> ch = char_of n \<longleftrightarrow> n = (of_char ch :: nat)"
  using char_of_eq_iff [of n ch] by auto

lemma unescape_byte: "unescape (escape_byte b @ s) = map_option (Cons b) (unescape s)"
proof -
  have n: "unat b < 256" using unsigned_less [of b] by simp
  have w: "word_of_nat (unat b) = b" by simp
  show ?thesis
  proof (cases "unreserved (unat b)")
    case True
    then have "char_of (unat b) \<noteq> CHR ''%''" "char_of (unat b) \<noteq> CHR ''+''"
      using n by (auto simp: char_of_eq_iff unreserved_def)
    then show ?thesis using True n w by (simp add: escape_byte_def)
  next
    case False
    have "unat b div 16 < 16" "unat b mod 16 < 16" using n by auto
    moreover have "16 * (unat b div 16) + unat b mod 16 = unat b" by simp
    moreover have "b = 32" if "unat b = 32" using that w by (metis of_nat_numeral)
    ultimately show ?thesis using False w by (auto simp: escape_byte_def Let_def hex_value_digit)
  qed
qed

lemma QueryEscape_Cons: "QueryEscape (a # v) = escape_byte a @ QueryEscape v"
  by (simp add: QueryEscape_def)

lemma unescape_QueryEscape: "unescape (QueryEscape v @ s) = map_option (append v) (unescape s)"
proof (induction v)
  case (Cons a v)
  then show ?case by (cases "unescape s") (simp_all add: QueryEscape_Cons unescape_byte)
qed (simp add: QueryEscape_def option.map_ident)

text \<open>An escaped value contains neither of the separators of a query.\<close>

lemma escape_byte_safe: "CHR ''&'' \<notin> set (escape_byte b)" "CHR ''='' \<notin> set (escape_byte b)"
proof -
  have n: "unat b < 256" using unsigned_less [of b] by simp
  have h: "hex_digit d \<noteq> CHR ''&''" "hex_digit d \<noteq> CHR ''=''" if "d < 16" for d
    using that by (auto simp: hex_digit_def char_of_eq_iff)
  have "unat b div 16 < 16" "unat b mod 16 < 16" using n by auto
  then show "CHR ''&'' \<notin> set (escape_byte b)" "CHR ''='' \<notin> set (escape_byte b)"
    using n h [of "unat b div 16"] h [of "unat b mod 16"]
    by (auto simp: escape_byte_def Let_def unreserved_def eq_char_of_iff)
qed

lemma QueryEscape_safe: "CHR ''&'' \<notin> set (QueryEscape v)" "CHR ''='' \<notin> set (QueryEscape v)"
  by (auto simp: QueryEscape_def escape_byte_safe)

text \<open>
  A torrent file is converted without loss. The conversion fails exactly when the info dictionary cannot
  be encoded or the hash string is not a multiple of 20 bytes long. Otherwise the torrent that is
  downloaded has the sizes of the file, the hashes are the consecutive 20-byte blocks of the hash string,
  and the query sent to the tracker carries the info hash and the peer id, whatever bytes these contain,
  so that unescaping gives them back and no separator occurs in them.
\<close>

theorem torrent_file_converted:
  assumes "toTorrentFile marshal sha1 bto = r"
  shows "(case r of
      Inl e \<Rightarrow> (\<exists>e'. marshal (bt_Info bto) = Inl e') \<or> length (bi_Pieces (bt_Info bto)) mod 20 \<noteq> 0
    | Inr t \<Rightarrow> (\<exists>b. marshal (bt_Info bto) = Inr b \<and> tf_InfoHash t = sha1 b)
        \<and> concat (tf_PieceHashes t) = bi_Pieces (bt_Info bto) \<and> list_all (\<lambda>h. length h = 20) (tf_PieceHashes t)
        \<and> tf_Length t = bi_Length (bt_Info bto) \<and> tf_PieceLength t = bi_PieceLength (bt_Info bto)
        \<and> (\<forall>peerID port. \<exists>pre mid post. tracker_query t peerID port
              = pre @ ''&info_hash='' @ QueryEscape (tf_InfoHash t) @ ''&'' @ mid @ ''&peer_id='' @ QueryEscape peerID @ ''&'' @ post
            \<and> unescape (QueryEscape (tf_InfoHash t)) = Some (tf_InfoHash t) \<and> unescape (QueryEscape peerID) = Some peerID
            \<and> CHR ''&'' \<notin> set (QueryEscape (tf_InfoHash t)) \<and> CHR ''&'' \<notin> set (QueryEscape peerID)))"
proof (cases r)
  case (Inl e)
  then show ?thesis using assms splitPieceHashes_spec [of "bt_Info bto"]
    by (auto simp: toTorrentFile_def info_hash_def res_bind_def split: sum.splits)
next
  case (Inr t)
  then obtain b hs where t: "marshal (bt_Info bto) = Inr b" "splitPieceHashes (bt_Info bto) = Inr hs"
    "t = \<lparr>tf_Announce = bt_Announce bto, tf_InfoHash = sha1 b, tf_PieceHashes = hs,
          tf_PieceLength = bi_PieceLength (bt_Info bto), tf_Length = bi_Length (bt_Info bto), tf_Name = bi_Name (bt_Info bto)\<rparr>"
    using assms by (auto simp: toTorrentFile_def info_hash_def res_bind_eq_Inr)
  have k: "QueryEscape (to_bytes ''info_hash'') = ''info_hash''" "QueryEscape (to_bytes ''peer_id'') = ''peer_id''"
    by (simp_all add: QueryEscape_def to_bytes_def escape_byte_def unreserved_def char_of_eq_iff)
  have u: "unescape (QueryEscape v) = Some v" for v using unescape_QueryEscape [of v "[]"] by simp
  have "\<exists>pre mid post. tracker_query t peerID port
      = pre @ ''&info_hash='' @ QueryEscape (tf_InfoHash t) @ ''&'' @ mid @ ''&peer_id='' @ QueryEscape peerID @ ''&'' @ post" for peerID port
    by (intro exI [of _ "query_param ''compact'' (to_bytes ''1'') @ ''&'' @ query_param ''downloaded'' (to_bytes ''0'')"]
        exI [of _ "query_param ''left'' (to_bytes (Itoa (tf_Length t)))"]
        exI [of _ "query_param ''port'' (to_bytes (Itoa (uint port))) @ ''&'' @ query_param ''uploaded'' (to_bytes ''0'')"])
      (simp add: tracker_query_def query_param_def [of "''info_hash''"] query_param_def [of "''peer_id''"] k)
  then show ?thesis
    using Inr t splitPieceHashes_spec [of "bt_Info bto"] u QueryEscape_safe by simp
qed

definition ex_bencode :: bencodeTorrent where
  "ex_bencode = \<lparr>bt_Announce = ''http://t'', bt_Info = \<lparr>bi_Pieces = replicate 20 1, bi_PieceLength = 4, bi_Length = 3, bi_Name = ''f''\<rparr>\<rparr>"

theorem torrent_file_converted_witness:
  "\<exists>t. toTorrentFile (\<lambda>i. Inr [1]) (\<lambda>b. replicate 20 9) ex_bencode = Inr t
     \<and> concat (tf_PieceHashes t) = replicate 20 1 \<and> tf_Length t = 3"
proof -
  obtain t where t: "toTorrentFile (\<lambda>i. Inr [1]) (\<lambda>b. replicate 20 9) ex_bencode = Inr t"
    by (simp add: toTorrentFile_def info_hash_def splitPieceHashes_def ex_bencode_def)
  from torrent_file_converted [OF t] show ?thesis using t by (simp add: ex_bencode_def)
qed

end
