(* ===== verification/Goraft.thy ===== *)
theory Goraft
  imports Bytes
begin

text \<open>
  The Raft server of \<^verbatim>\<open>src/goraft/raft.go\<close>: log entries in a file of fixed-width records, votes and replication
  state in the cluster table, and a main loop that polls. Terms, indices and ids are 64-bit words as in
  the code. The clock, the random numbers and the capacities that \<^verbatim>\<open>append\<close> gives are an environment passed
  to the operations; the user's state machine is a parameter. A goroutine is split where it releases the
  mutex.
\<close>

type_synonym uint64 = "64 word"

section \<open>Data\<close>

record ApplyResult =
  ar_Result :: "byte list"
  ar_Error :: "string option"

text \<open>The channel of an entry is a number.\<close>

record GEntry =
  ge_Command :: "byte list"
  ge_Term :: uint64
  ge_result :: "nat option"

definition zero_entry :: GEntry where
  "zero_entry = \<lparr>ge_Command = [], ge_Term = 0, ge_result = None\<rparr>"

record GVoteRequest =
  gv_Term :: uint64
  gv_CandidateId :: uint64
  gv_LastLogIndex :: uint64
  gv_LastLogTerm :: uint64

record GVoteResponse =
  gvr_Term :: uint64
  gvr_VoteGranted :: bool

record GAppendRequest =
  ga_Term :: uint64
  ga_LeaderId :: uint64
  ga_PrevLogIndex :: uint64
  ga_PrevLogTerm :: uint64
  ga_Entries :: "GEntry list"
  ga_LeaderCommit :: uint64

record GAppendResponse =
  gar_Term :: uint64
  gar_Success :: bool

record ClusterMember =
  cm_Id :: uint64
  cm_Address :: string
  cm_nextIndex :: uint64
  cm_matchIndex :: uint64
  cm_votedFor :: uint64

text \<open>The state of a server that was not started is the empty string.\<close>

datatype ServerState = noState | leaderState | followerState | candidateState

record 'sm GServer =
  g_done :: bool
  g_currentTerm :: uint64
  g_log :: "GEntry list"
  g_cap :: nat
  g_id :: uint64
  g_address :: string
  g_electionTimeout :: int
  g_heartbeatMs :: int
  g_heartbeatTimeout :: int
  g_statemachine :: 'sm
  g_metadataDir :: string
  g_fd :: "byte list option"
  g_commitIndex :: uint64
  g_lastApplied :: uint64
  g_state :: ServerState
  g_cluster :: "ClusterMember list"
  g_clusterIndex :: int
  g_channels :: nat

text \<open>The environment: the time in milliseconds, the next random number, and the capacity \<^verbatim>\<open>append\<close> allocates for a
  slice of the given capacity that has to hold the given number of elements.\<close>

record Env =
  now :: int
  rnd :: int
  grow :: "nat \<Rightarrow> nat \<Rightarrow> nat"

definition env_ok :: "Env \<Rightarrow> bool" where
  "env_ok env \<longleftrightarrow> (\<forall>c n. n \<le> grow env c n)"

definition log_append :: "Env \<Rightarrow> GEntry list \<Rightarrow> 'sm GServer \<Rightarrow> 'sm GServer" where
  "log_append env es s =
     (let n = length (g_log s) + length es
      in s\<lparr>g_log := g_log s @ es, g_cap := (if n \<le> g_cap s then g_cap s else grow env (g_cap s) n)\<rparr>)"

text \<open>Appending one entry after the other.\<close>

definition log_appends :: "Env \<Rightarrow> GEntry list \<Rightarrow> 'sm GServer \<Rightarrow> 'sm GServer" where
  "log_appends env es s = fold (\<lambda>e s. log_append env [e] s) es s"

definition NewServer :: "ClusterMember list \<Rightarrow> 'sm \<Rightarrow> string \<Rightarrow> int \<Rightarrow> 'sm GServer go" where
  "NewServer clusterConfig sm dir clusterIndex =
     (if \<exists>c \<in> set clusterConfig. cm_Id c = 0 then Inl (Explicit ''Id must not be 0.'')
      else go_bind (go_index clusterConfig clusterIndex) (\<lambda>c.
        Inr \<lparr>g_done = False, g_currentTerm = 0, g_log = [], g_cap = 0, g_id = cm_Id c, g_address = cm_Address c,
             g_electionTimeout = 0, g_heartbeatMs = 300, g_heartbeatTimeout = 0, g_statemachine = sm, g_metadataDir = dir,
             g_fd = None, g_commitIndex = 0, g_lastApplied = 0, g_state = noState, g_cluster = clusterConfig,
             g_clusterIndex = clusterIndex, g_channels = 0\<rparr>))"

section \<open>The metadata file\<close>

definition PAGE_SIZE :: nat where "PAGE_SIZE = 4096"
definition ENTRY_HEADER :: nat where "ENTRY_HEADER = 16"
definition ENTRY_SIZE :: nat where "ENTRY_SIZE = 128"

definition setVotedFor :: "uint64 \<Rightarrow> 'sm GServer \<Rightarrow> 'sm GServer go" where
  "setVotedFor i s =
     (if 0 \<le> g_clusterIndex s \<and> g_clusterIndex s < int (length (g_cluster s))
      then Inr (s\<lparr>g_cluster := (g_cluster s)[nat (g_clusterIndex s) := (g_cluster s ! nat (g_clusterIndex s))\<lparr>cm_votedFor := i\<rparr>]\<rparr>)
      else Inl (Explicit ''Invalid cluster''))"

definition getVotedFor :: "'sm GServer \<Rightarrow> uint64 go" where
  "getVotedFor s =
     (if 0 \<le> g_clusterIndex s \<and> g_clusterIndex s < int (length (g_cluster s))
      then Inr (cm_votedFor (g_cluster s ! nat (g_clusterIndex s)))
      else Inl (Explicit ''Invalid cluster''))"

definition ensureLog :: "Env \<Rightarrow> 'sm GServer \<Rightarrow> 'sm GServer" where
  "ensureLog env s = (if g_log s = [] then log_append env [zero_entry] s else s)"

definition Metadata :: "'sm GServer \<Rightarrow> string" where
  "Metadata s = ''md_'' @ Itoa (uint (g_id s)) @ ''.dat''"

definition header_page :: "uint64 \<Rightarrow> uint64 \<Rightarrow> nat \<Rightarrow> byte list" where
  "header_page term vote n =
     copy_at 16 (copy_at 8 (copy_at 0 (replicate PAGE_SIZE 0) (PutUint64 term)) (PutUint64 vote)) (PutUint64 (word_of_nat n))"

text \<open>The buffer of an entry is reused from entry to entry.\<close>

definition encode_entry :: "byte list \<Rightarrow> GEntry \<Rightarrow> byte list" where
  "encode_entry entryBytes e =
     copy_at 16 (copy_at 8 (copy_at 0 entryBytes (PutUint64 (ge_Term e))) (PutUint64 (word_of_nat (length (ge_Command e))))) (ge_Command e)"

text \<open>The records the loop writes, and whether it got to the end.\<close>

fun encode_entries :: "byte list \<Rightarrow> GEntry list \<Rightarrow> byte list list \<times> bool" where
  "encode_entries entryBytes [] = ([], True)"
| "encode_entries entryBytes (e # es) =
     (if length (ge_Command e) > ENTRY_SIZE - ENTRY_HEADER then ([], False)
      else let b = encode_entry entryBytes e; (bs, complete) = encode_entries b es in (b # bs, complete))"

text \<open>The file after \<^verbatim>\<open>persist\<close>, and the panic it ends with. When a command is too large, the header and the full
  buffers of 32 records are already written.\<close>

definition persist_file :: "bool \<Rightarrow> int \<Rightarrow> uint64 \<Rightarrow> uint64 \<Rightarrow> GEntry list \<Rightarrow> byte list \<Rightarrow> byte list \<times> gopanic option" where
  "persist_file writeLog nNew term vote log file =
     (let nNewEntries = (if nNew = 0 \<and> writeLog then int (length log) else nNew);
          file1 = write_at 0 (header_page term vote (length log)) file
      in if writeLog \<and> nNewEntries > 0
         then let newLogOffset = nat (max (int (length log) - nNewEntries) 0);
                  (bs, complete) = encode_entries (replicate ENTRY_SIZE 0) (drop newLogOffset log);
                  off = PAGE_SIZE + ENTRY_SIZE * newLogOffset
              in if complete then (write_at off (concat bs) file1, None)
                 else (write_at off (concat (take (32 * ((length bs - 1) div 32)) bs)) file1, Some (Explicit ''Command is too large''))
         else (file1, None))"

definition persist :: "bool \<Rightarrow> int \<Rightarrow> 'sm GServer \<Rightarrow> 'sm GServer go" where
  "persist writeLog nNewEntries s =
     go_bind (getVotedFor s) (\<lambda>vote.
       case g_fd s of
         None \<Rightarrow> Inl (Explicit ''invalid argument'')
       | Some file \<Rightarrow>
           (case persist_file writeLog nNewEntries (g_currentTerm s) vote (g_log s) file of
              (file', None) \<Rightarrow> Inr (s\<lparr>g_fd := Some file'\<rparr>)
            | (file', Some p) \<Rightarrow> Inl p))"

text \<open>Reading the records of the log.\<close>

definition decode_entry :: "byte list \<Rightarrow> GEntry go" where
  "decode_entry entryBytes =
     (let lenValue = Uint64 (take 8 (drop 8 entryBytes))
      in go_bind (go_range entryBytes 16 (uint (16 + lenValue))) (\<lambda>c.
           Inr \<lparr>ge_Command = c, ge_Term = Uint64 (take 8 entryBytes), ge_result = None\<rparr>))"

fun read_entries :: "nat \<Rightarrow> byte list \<Rightarrow> GEntry list go" where
  "read_entries 0 file = Inr []"
| "read_entries (Suc n) file =
     (if file = [] then Inl (Explicit ''EOF'')
      else if length file < ENTRY_SIZE then Inl (Explicit ''Read full entry'')
      else go_bind (decode_entry (take ENTRY_SIZE file)) (\<lambda>e.
        go_bind (read_entries n (drop ENTRY_SIZE file)) (\<lambda>es. Inr (e # es))))"

text \<open>\<open>disk\<close> is the content of the metadata file, opened when the server has none open.\<close>

definition restore :: "Env \<Rightarrow> byte list \<Rightarrow> 'sm GServer \<Rightarrow> 'sm GServer go" where
  "restore env disk s =
     (let file = (case g_fd s of None \<Rightarrow> disk | Some f \<Rightarrow> f);
          s = s\<lparr>g_fd := Some file\<rparr>
      in if file = [] then Inr (ensureLog env s)
         else if length file < PAGE_SIZE then Inl (Explicit ''Read full page'')
         else let s1 = s\<lparr>g_currentTerm := Uint64 (take 8 file)\<rparr>
              in go_bind (setVotedFor (Uint64 (take 8 (drop 8 file))) s1) (\<lambda>s2.
                   let lenLog = Uint64 (take 8 (drop 16 file))
                   in go_bind (read_entries (unat lenLog) (drop PAGE_SIZE file)) (\<lambda>es.
                        Inr (ensureLog env (log_appends env es (s2\<lparr>g_log := [], g_cap := 0\<rparr>))))))"

section \<open>Terms and votes\<close>

definition resetElectionTimeout :: "Env \<Rightarrow> 'sm GServer \<Rightarrow> 'sm GServer" where
  "resetElectionTimeout env s =
     (let interval = rnd env mod (g_heartbeatMs s * 2) + g_heartbeatMs s * 2
      in s\<lparr>g_electionTimeout := now env + interval\<rparr>)"

definition updateTerm :: "Env \<Rightarrow> uint64 \<Rightarrow> 'sm GServer \<Rightarrow> ('sm GServer \<times> bool) go" where
  "updateTerm env msgTerm s =
     (if msgTerm > g_currentTerm s
      then go_bind (setVotedFor 0 (s\<lparr>g_currentTerm := msgTerm, g_state := followerState\<rparr>)) (\<lambda>s1.
             go_bind (persist False 0 (resetElectionTimeout env s1)) (\<lambda>s2. Inr (s2, True)))
      else Inr (s, False))"

text \<open>The request of the goroutine that \<^verbatim>\<open>requestVote\<close> starts for a member, and what it does with the response.\<close>

definition voteRequest :: "'sm GServer \<Rightarrow> GVoteRequest go" where
  "voteRequest s =
     go_bind (go_index (g_log s) (int (length (g_log s)) - 1)) (\<lambda>e.
       Inr \<lparr>gv_Term = g_currentTerm s, gv_CandidateId = g_id s,
            gv_LastLogIndex = word_of_int (int (length (g_log s)) - 1), gv_LastLogTerm = ge_Term e\<rparr>)"

definition voteResponse :: "Env \<Rightarrow> nat \<Rightarrow> GVoteRequest \<Rightarrow> GVoteResponse \<Rightarrow> 'sm GServer \<Rightarrow> 'sm GServer go" where
  "voteResponse env i req rsp s =
     go_bind (updateTerm env (gvr_Term rsp) s) (\<lambda>(s1, transitioned).
       if transitioned then Inr s1
       else if gvr_Term rsp \<noteq> gv_Term req then Inr s1
       else if gvr_VoteGranted rsp
       then Inr (s1\<lparr>g_cluster := (g_cluster s1)[i := (g_cluster s1 ! i)\<lparr>cm_votedFor := g_id s1\<rparr>]\<rparr>)
       else Inr s1)"

definition HandleRequestVoteRequest :: "Env \<Rightarrow> GVoteRequest \<Rightarrow> 'sm GServer \<Rightarrow> ('sm GServer \<times> GVoteResponse) go" where
  "HandleRequestVoteRequest env req s =
     go_bind (updateTerm env (gv_Term req) s) (\<lambda>(s1, _).
       let rsp = \<lparr>gvr_Term = g_currentTerm s1, gvr_VoteGranted = False\<rparr>
       in if gv_Term req < g_currentTerm s1 then Inr (s1, rsp)
          else go_bind (go_index (g_log s1) (int (length (g_log s1)) - 1)) (\<lambda>e.
            let lastLogTerm = ge_Term e;
                logLen = word_of_int (int (length (g_log s1)) - 1);
                logOk = (gv_LastLogTerm req > lastLogTerm
                         \<or> (gv_LastLogTerm req = lastLogTerm \<and> gv_LastLogIndex req \<ge> logLen))
            in go_bind (getVotedFor s1) (\<lambda>vote.
                 if gv_Term req = g_currentTerm s1 \<and> logOk \<and> (vote = 0 \<or> vote = gv_CandidateId req)
                 then go_bind (setVotedFor (gv_CandidateId req) s1) (\<lambda>s2.
                        go_bind (persist False 0 (resetElectionTimeout env s2)) (\<lambda>s3.
                          Inr (s3, rsp\<lparr>gvr_VoteGranted := True\<rparr>)))
                 else Inr (s1, rsp))))"

section \<open>Replication\<close>

text \<open>The loop over the entries of a request; \<open>i\<close> is the index of the next one.\<close>

fun append_loop :: "Env \<Rightarrow> nat \<Rightarrow> GEntry list \<Rightarrow> nat \<Rightarrow> int \<Rightarrow> 'sm GServer \<Rightarrow> ('sm GServer \<times> int) go" where
  "append_loop env newTotal [] i nNewEntries s = Inr (s, nNewEntries)"
| "append_loop env newTotal (e # es) i nNewEntries s =
     (let s1 = (if i \<ge> g_cap s then s\<lparr>g_log := copy_at 0 (replicate i zero_entry) (g_log s), g_cap := newTotal * 2\<rparr> else s);
          s2 = (if i < length (g_log s1) \<and> ge_Term (g_log s1 ! i) \<noteq> ge_Term e then s1\<lparr>g_log := take i (g_log s1)\<rparr> else s1)
      in if i < length (g_log s2)
         then if ge_Term (g_log s2 ! i) \<noteq> ge_Term e then Inl (Explicit ''Existing log is the same as new log'')
              else append_loop env newTotal es (Suc i) nNewEntries s2
         else let s3 = log_append env [e] s2
              in if length (g_log s3) \<noteq> i + 1 then Inl (Explicit ''Length is directly related to the index.'')
                 else append_loop env newTotal es (Suc i) (nNewEntries + 1) s3)"

definition HandleAppendEntriesRequest :: "Env \<Rightarrow> GAppendRequest \<Rightarrow> 'sm GServer \<Rightarrow> ('sm GServer \<times> GAppendResponse) go" where
  "HandleAppendEntriesRequest env req s =
     go_bind (updateTerm env (ga_Term req) s) (\<lambda>(s0, _).
       let s1 = (if ga_Term req = g_currentTerm s0 \<and> g_state s0 = candidateState then s0\<lparr>g_state := followerState\<rparr> else s0);
           rsp = \<lparr>gar_Term = g_currentTerm s1, gar_Success = False\<rparr>
       in if g_state s1 \<noteq> followerState then Inr (s1, rsp)
          else if ga_Term req < g_currentTerm s1 then Inr (s1, rsp)
          else let s2 = resetElectionTimeout env s1;
                   validPreviousLog = (ga_PrevLogIndex req = 0
                     \<or> (unat (ga_PrevLogIndex req) < length (g_log s2)
                        \<and> ge_Term (g_log s2 ! unat (ga_PrevLogIndex req)) = ga_PrevLogTerm req))
               in if \<not> validPreviousLog then Inr (s2, rsp)
                  else let nxt = unat (ga_PrevLogIndex req + 1)
                       in go_bind (append_loop env (nxt + length (ga_Entries req)) (ga_Entries req) nxt 0 s2) (\<lambda>(s3, nNewEntries).
                            let s4 = (if ga_LeaderCommit req > g_commitIndex s3
                                      then s3\<lparr>g_commitIndex := min (ga_LeaderCommit req) (word_of_int (int (length (g_log s3)) - 1))\<rparr>
                                      else s3)
                            in go_bind (persist (nNewEntries \<noteq> 0) nNewEntries s4) (\<lambda>s5.
                                 Inr (s5, rsp\<lparr>gar_Success := True\<rparr>))))"

text \<open>\<^verbatim>\<open>Apply\<close> up to the wait for the results; the right value of the result is the list of channels it waits on.\<close>

datatype apply_call = ErrApplyToLeader | Waiting "nat list"

definition g_Apply :: "Env \<Rightarrow> byte list list \<Rightarrow> 'sm GServer \<Rightarrow> ('sm GServer \<times> apply_call) go" where
  "g_Apply env commands s =
     (if g_state s \<noteq> leaderState then Inr (s, ErrApplyToLeader)
      else let chans = [g_channels s..<g_channels s + length commands];
               entries = map (\<lambda>(c, ch). \<lparr>ge_Command = c, ge_Term = g_currentTerm s, ge_result = Some ch\<rparr>) (zip commands chans);
               s1 = log_appends env entries (s\<lparr>g_channels := g_channels s + length commands\<rparr>)
           in go_bind (persist True (int (length commands)) s1) (\<lambda>s2. Inr (s2, Waiting chans)))"

definition MAX_APPEND_ENTRIES_BATCH :: nat where "MAX_APPEND_ENTRIES_BATCH = 8000"

text \<open>The request of the goroutine that \<^verbatim>\<open>appendEntries\<close> starts for member \<open>i\<close>, and what it does with the response.
  The channel of an entry is not exported and does not travel with the request.\<close>

definition without_channel :: "GEntry \<Rightarrow> GEntry" where
  "without_channel e = e\<lparr>ge_result := None\<rparr>"

definition appendRequest :: "nat \<Rightarrow> 'sm GServer \<Rightarrow> GAppendRequest go" where
  "appendRequest i s =
     (let nxt = cm_nextIndex (g_cluster s ! i);
          prevLogIndex = nxt - 1
      in go_bind (go_index (g_log s) (uint prevLogIndex)) (\<lambda>e.
           go_bind (if (word_of_int (int (length (g_log s)) - 1) :: uint64) \<ge> nxt then go_from (g_log s) (uint nxt) else Inr []) (\<lambda>entries.
             go_bind (go_index (g_cluster s) (g_clusterIndex s)) (\<lambda>self.
               Inr \<lparr>ga_Term = g_currentTerm s, ga_LeaderId = cm_Id self, ga_PrevLogIndex = prevLogIndex, ga_PrevLogTerm = ge_Term e,
                    ga_Entries = map without_channel
                      (if length entries > MAX_APPEND_ENTRIES_BATCH then take MAX_APPEND_ENTRIES_BATCH entries else entries),
                    ga_LeaderCommit = g_commitIndex s\<rparr>))))"

definition appendResponse :: "Env \<Rightarrow> nat \<Rightarrow> GAppendRequest \<Rightarrow> GAppendResponse \<Rightarrow> 'sm GServer \<Rightarrow> 'sm GServer go" where
  "appendResponse env i req rsp s =
     go_bind (updateTerm env (gar_Term rsp) s) (\<lambda>(s1, transitioned).
       if transitioned then Inr s1
       else if gar_Term rsp \<noteq> ga_Term req \<and> g_state s1 = leaderState then Inr s1
       else let m = g_cluster s1 ! i
            in if gar_Success rsp
               then let nxt = max (ga_PrevLogIndex req + word_of_nat (length (ga_Entries req)) + 1) 1
                    in Inr (s1\<lparr>g_cluster := (g_cluster s1)[i := m\<lparr>cm_nextIndex := nxt, cm_matchIndex := nxt - 1\<rparr>]\<rparr>)
               else Inr (s1\<lparr>g_cluster := (g_cluster s1)[i := m\<lparr>cm_nextIndex := max (cm_nextIndex m - 1) 1\<rparr>]\<rparr>))"

section \<open>Commitment\<close>

text \<open>The loop over the members that counts the quorum down; \<open>j\<close> is the index of the first member of the list.\<close>

fun quorum_loop :: "int \<Rightarrow> uint64 \<Rightarrow> nat \<Rightarrow> ClusterMember list \<Rightarrow> nat \<Rightarrow> nat" where
  "quorum_loop clusterIndex i j [] quorum = quorum"
| "quorum_loop clusterIndex i j (m # ms) quorum =
     (if quorum = 0 then 0
      else quorum_loop clusterIndex i (Suc j) ms (if int j = clusterIndex \<or> cm_matchIndex m \<ge> i then quorum - 1 else quorum))"

text \<open>The loop that looks for the index to commit, from \<open>i\<close> down to the commit index.\<close>

fun commit_loop :: "'sm GServer \<Rightarrow> nat \<Rightarrow> 'sm GServer" where
  "commit_loop s i =
     (if i > unat (g_commitIndex s)
      then let quorum = quorum_loop (g_clusterIndex s) (word_of_nat i) 0 (g_cluster s) (length (g_cluster s) div 2 + 1)
           in if quorum = 0 then s\<lparr>g_commitIndex := word_of_nat i\<rparr> else commit_loop s (i - 1)
      else s)"

declare commit_loop.simps [simp del]

text \<open>The result that is sent on the channel of the entry, if it has one.\<close>

definition advanceCommitIndex ::
  "('sm \<Rightarrow> byte list \<Rightarrow> ('sm \<times> ApplyResult) go) \<Rightarrow> 'sm GServer \<Rightarrow> ('sm GServer \<times> (nat \<times> ApplyResult) option) go" where
  "advanceCommitIndex applyCmd s =
     (let s1 = (if g_state s = leaderState
                then commit_loop s (unat (word_of_int (int (length (g_log s)) - 1) :: uint64)) else s)
      in if g_lastApplied s1 \<le> g_commitIndex s1
         then go_bind (go_index (g_log s1) (uint (g_lastApplied s1))) (\<lambda>entry.
                go_bind (if ge_Command entry \<noteq> []
                         then go_bind (applyCmd (g_statemachine s1) (ge_Command entry)) (\<lambda>(sm, res).
                                Inr (s1\<lparr>g_statemachine := sm\<rparr>, map_option (\<lambda>ch. (ch, res)) (ge_result entry)))
                         else Inr (s1, None)) (\<lambda>(s2, out).
                  Inr (s2\<lparr>g_lastApplied := g_lastApplied s2 + 1\<rparr>, out)))
         else Inr (s1, None))"

section \<open>Elections and the main loop\<close>

definition timeout :: "Env \<Rightarrow> 'sm GServer \<Rightarrow> ('sm GServer \<times> bool) go" where
  "timeout env s =
     (if now env > g_electionTimeout s
      then let s1 = s\<lparr>g_state := candidateState, g_currentTerm := g_currentTerm s + 1,
                      g_cluster := map (\<lambda>(i, m). m\<lparr>cm_votedFor := (if int i = g_clusterIndex s then g_id s else 0)\<rparr>)
                                     (enumerate 0 (g_cluster s))\<rparr>
           in go_bind (persist False 0 (resetElectionTimeout env s1)) (\<lambda>s2. Inr (s2, True))
      else Inr (s, False))"

fun vote_quorum :: "uint64 \<Rightarrow> ClusterMember list \<Rightarrow> nat \<Rightarrow> nat" where
  "vote_quorum sid [] quorum = quorum"
| "vote_quorum sid (m # ms) quorum = vote_quorum sid ms (if cm_votedFor m = sid \<and> quorum > 0 then quorum - 1 else quorum)"

definition becomeLeader :: "Env \<Rightarrow> 'sm GServer \<Rightarrow> 'sm GServer go" where
  "becomeLeader env s =
     (if vote_quorum (g_id s) (g_cluster s) (length (g_cluster s) div 2 + 1) = 0
      then let s1 = s\<lparr>g_cluster := map (\<lambda>m. m\<lparr>cm_nextIndex := word_of_nat (length (g_log s) + 1), cm_matchIndex := 0\<rparr>) (g_cluster s),
                      g_state := leaderState\<rparr>;
               s2 = log_append env [\<lparr>ge_Command = [], ge_Term = g_currentTerm s, ge_result = None\<rparr>] s1
           in go_bind (persist True 1 s2) (\<lambda>s3. Inr (s3\<lparr>g_heartbeatTimeout := now env\<rparr>))
      else Inr s)"

text \<open>Whether \<^verbatim>\<open>heartbeat\<close> starts the goroutines of \<^verbatim>\<open>appendEntries\<close>.\<close>

definition heartbeat :: "Env \<Rightarrow> 'sm GServer \<Rightarrow> 'sm GServer \<times> bool" where
  "heartbeat env s =
     (if now env > g_heartbeatTimeout s then (s\<lparr>g_heartbeatTimeout := now env + g_heartbeatMs s\<rparr>, True) else (s, False))"

definition g_Start :: "Env \<Rightarrow> byte list \<Rightarrow> 'sm GServer \<Rightarrow> 'sm GServer go" where
  "g_Start env disk s =
     go_bind (restore env disk (s\<lparr>g_state := followerState, g_done := False\<rparr>)) (\<lambda>s1. Inr (resetElectionTimeout env s1))"

text \<open>One round of the main loop: whether vote requests and append requests go out, and the result that is
  sent to a caller of \<^verbatim>\<open>Apply\<close>.\<close>

record tick_out =
  asks_votes :: bool
  sends_entries :: bool
  applied :: "(nat \<times> ApplyResult) option"

definition tick :: "('sm \<Rightarrow> byte list \<Rightarrow> ('sm \<times> ApplyResult) go) \<Rightarrow> Env \<Rightarrow> 'sm GServer \<Rightarrow> ('sm GServer \<times> tick_out) go" where
  "tick applyCmd env s =
     (if g_done s then Inr (s, \<lparr>asks_votes = False, sends_entries = False, applied = None\<rparr>)
      else case g_state s of
        leaderState \<Rightarrow>
          (let (s1, b) = heartbeat env s
           in go_bind (advanceCommitIndex applyCmd s1) (\<lambda>(s2, r). Inr (s2, \<lparr>asks_votes = False, sends_entries = b, applied = r\<rparr>)))
      | followerState \<Rightarrow>
          go_bind (timeout env s) (\<lambda>(s1, b).
            go_bind (advanceCommitIndex applyCmd s1) (\<lambda>(s2, r). Inr (s2, \<lparr>asks_votes = b, sends_entries = False, applied = r\<rparr>)))
      | candidateState \<Rightarrow>
          go_bind (timeout env s) (\<lambda>(s1, b).
            go_bind (becomeLeader env s1) (\<lambda>s2. Inr (s2, \<lparr>asks_votes = b, sends_entries = False, applied = None\<rparr>)))
      | noState \<Rightarrow> Inr (s, \<lparr>asks_votes = False, sends_entries = False, applied = None\<rparr>))"

section \<open>Methods for tests\<close>

text \<open>\<^verbatim>\<open>util.go\<close>: shutting down, and iterating over the entries of users.\<close>

definition g_Shutdown :: "'sm GServer \<Rightarrow> 'sm GServer" where
  "g_Shutdown s = s\<lparr>g_fd := None, g_done := True\<rparr>"

definition IsLeader :: "'sm GServer \<Rightarrow> bool" where
  "IsLeader s \<longleftrightarrow> g_state s = leaderState"

text \<open>The first loop of \<^verbatim>\<open>Next\<close>, from position \<open>index\<close> on: the next position and the entry.\<close>

fun skip_blank :: "GEntry list \<Rightarrow> nat \<Rightarrow> GEntry \<Rightarrow> nat \<times> GEntry" where
  "skip_blank [] index entry = (index, entry)"
| "skip_blank (e # es) index entry = (if ge_Command e \<noteq> [] then (Suc index, e) else skip_blank es (Suc index) e)"

definition ei_Next :: "GEntry list \<Rightarrow> nat \<Rightarrow> GEntry \<Rightarrow> nat \<times> GEntry \<times> bool" where
  "ei_Next log index entry =
     (let (index', entry') = skip_blank (drop index log) index entry;
          hasMore = list_ex (\<lambda>e. ge_Command e \<noteq> []) (drop index' log)
      in (index', entry', \<not> hasMore))"

end
