(* ===== verification/GoraftDisk.thy ===== *)
theory GoraftDisk
  imports Goraft
begin

text \<open>
  What the metadata file of the goraft server holds: the records that \<^verbatim>\<open>persist\<close> writes are the records that
  \<^verbatim>\<open>restore\<close> reads, every operation keeps the file in step with the state, and the one state from which a
  server cannot be restarted.
\<close>

section \<open>Records\<close>

lemma encode_entry_eq:
  assumes "length b = 128" "length (ge_Command e) \<le> 112"
  shows "encode_entry b e = PutUint64 (ge_Term e) @ PutUint64 (word_of_nat (length (ge_Command e))) @ ge_Command e
           @ drop (16 + length (ge_Command e)) b"
proof -
  let ?t = "PutUint64 (ge_Term e)" and ?n = "PutUint64 (word_of_nat (length (ge_Command e)))"
  have "copy_at 0 b ?t = ?t @ drop 8 b" using assms(1) by (simp add: copy_at_fit)
  moreover have "copy_at 8 (?t @ drop 8 b) ?n = ?t @ ?n @ drop 16 b" using assms(1) by (simp add: copy_at_fit)
  moreover have "copy_at 16 (?t @ ?n @ drop 16 b) (ge_Command e) = ?t @ ?n @ ge_Command e @ drop (16 + length (ge_Command e)) b"
    using assms by (simp add: copy_at_fit add.commute)
  ultimately show ?thesis by (simp add: encode_entry_def)
qed

lemma length_encode_entry: "length b = 128 \<Longrightarrow> length (ge_Command e) \<le> 112 \<Longrightarrow> length (encode_entry b e) = 128"
  by (simp add: encode_entry_eq)

lemma unat_len64: "n < 2 ^ 64 \<Longrightarrow> unat (word_of_nat n :: uint64) = n"
  by (simp add: unat_of_nat take_bit_nat_eq_self)

lemma uint_16_plus:
  assumes "n \<le> 112"
  shows "uint (16 + word_of_nat n :: uint64) = 16 + int n"
proof -
  have u: "unat (word_of_nat (16 + n) :: uint64) = 16 + n" by (rule unat_len64) (use assms in simp)
  have "uint (16 + word_of_nat n :: uint64) = int (unat (word_of_nat (16 + n) :: uint64))" by simp
  also have "\<dots> = 16 + int n" unfolding u by simp
  finally show ?thesis .
qed

lemma decode_encode:
  assumes "length b = 128" "length (ge_Command e) \<le> 112"
  shows "decode_entry (encode_entry b e) = Inr (without_channel e)"
proof -
  let ?n = "length (ge_Command e)" and ?x = "encode_entry b e"
  have 1: "take 8 ?x = PutUint64 (ge_Term e)" "take 8 (drop 8 ?x) = PutUint64 (word_of_nat ?n)" "take ?n (drop 16 ?x) = ge_Command e"
    using assms by (simp_all add: encode_entry_eq)
  have 2: "length ?x = 128" by (rule length_encode_entry [OF assms])
  have "go_range ?x 16 (16 + int ?n) = Inr (ge_Command e)"
    using assms(2) 1(3) 2 by (simp add: go_range_def nat_add_distrib)
  then show ?thesis
    using uint_16_plus [OF assms(2)] 1(1,2) by (simp add: decode_entry_def without_channel_def)
qed

lemma decode_zeros: "decode_entry (replicate 128 0) = Inr zero_entry"
proof -
  have "Uint64 (replicate 8 0) = 0" by (simp add: Uint64_def)
  then show ?thesis by (simp add: decode_entry_def zero_entry_def go_range_def)
qed

lemma encode_entries_complete:
  "length b = 128 \<Longrightarrow> encode_entries b es = (bs, c) \<Longrightarrow> c \<longleftrightarrow> (\<forall>e \<in> set es. length (ge_Command e) \<le> 112)"
proof (induction es arbitrary: b bs c)
  case (Cons e es)
  then show ?case using length_encode_entry [of b e]
    by (fastforce simp: ENTRY_SIZE_def ENTRY_HEADER_def Let_def split: if_splits prod.splits)
qed simp

lemma encode_entries_ok:
  assumes "length b = 128" "encode_entries b es = (bs, True)"
  shows "length bs = length es \<and> (\<forall>i < length es. length (bs ! i) = 128 \<and> decode_entry (bs ! i) = Inr (without_channel (es ! i)))"
  using assms
proof (induction es arbitrary: b bs)
  case (Cons e es)
  then obtain bs' where b: "length (ge_Command e) \<le> 112" "encode_entries (encode_entry b e) es = (bs', True)" "bs = encode_entry b e # bs'"
    by (auto simp: ENTRY_SIZE_def ENTRY_HEADER_def Let_def split: if_splits prod.splits)
  then show ?case
    using Cons.IH [OF length_encode_entry [OF Cons.prems(1) b(1)] b(2)] length_encode_entry [OF Cons.prems(1) b(1)]
      decode_encode [OF Cons.prems(1) b(1)]
    by (auto simp: nth_Cons split: nat.splits)
qed simp

section \<open>Reading a sparse file\<close>

text \<open>The bytes at a position, with zeros beyond the end of the file.\<close>

definition sparse :: "byte list \<Rightarrow> nat \<Rightarrow> nat \<Rightarrow> byte list" where
  "sparse f a n = take n (drop a f @ replicate n 0)"

lemma length_sparse [simp]: "length (sparse f a n) = n"
  by (simp add: sparse_def)

lemma sparse_inside: "a + n \<le> length f \<Longrightarrow> sparse f a n = take n (drop a f)"
  by (simp add: sparse_def)

lemma nth_sparse: "i < n \<Longrightarrow> sparse f a n ! i = (if a + i < length f then f ! (a + i) else 0)"
  by (auto simp: sparse_def nth_append)

lemma nth_write_at:
  "bs \<noteq> [] \<Longrightarrow> k < length (write_at off bs f) \<Longrightarrow>
     write_at off bs f ! k = (if off \<le> k \<and> k < off + length bs then bs ! (k - off) else if k < length f then f ! k else 0)"
  by (auto simp: write_at_def nth_append min_def)

lemma sparse_write_other:
  assumes "a + n \<le> off \<or> off + length bs \<le> a"
  shows "sparse (write_at off bs f) a n = sparse f a n"
proof (cases "bs = []")
  case False
  show ?thesis
    using assms False by (intro nth_equalityI) (auto simp: nth_sparse nth_write_at length_write_at)
qed (simp add: write_at_def)

lemma sparse_write_same:
  assumes "off \<le> a" "a + n \<le> off + length bs" "bs \<noteq> []"
  shows "sparse (write_at off bs f) a n = take n (drop (a - off) bs)"
  using assms by (intro nth_equalityI) (auto simp: nth_sparse nth_write_at length_write_at)

lemma length_concat_same: "(\<And>x. x \<in> set bs \<Longrightarrow> length x = n) \<Longrightarrow> length (concat bs) = n * length bs"
  by (induction bs) auto

lemma concat_chunk:
  "j < length bs \<Longrightarrow> (\<And>x. x \<in> set bs \<Longrightarrow> length x = n) \<Longrightarrow> take n (drop (n * j) (concat bs)) = bs ! j"
proof (induction bs arbitrary: j)
  case (Cons b bs)
  then show ?case by (cases j) auto
qed simp

section \<open>The file and the state\<close>

definition record_at :: "byte list \<Rightarrow> nat \<Rightarrow> byte list" where
  "record_at f i = sparse f (PAGE_SIZE + ENTRY_SIZE * i) ENTRY_SIZE"

definition disk_log :: "byte list \<Rightarrow> GEntry list \<Rightarrow> bool" where
  "disk_log f es \<longleftrightarrow> (\<forall>i < length es. decode_entry (record_at f i) = Inr (without_channel (es ! i)))"

definition disk_header :: "byte list \<Rightarrow> uint64 \<Rightarrow> uint64 \<Rightarrow> nat \<Rightarrow> bool" where
  "disk_header f term vote n \<longleftrightarrow> PAGE_SIZE \<le> length f \<and> take 8 f = PutUint64 term
     \<and> take 8 (drop 8 f) = PutUint64 vote \<and> take 8 (drop 16 f) = PutUint64 (word_of_nat n)"

lemma header_page_eq:
  "header_page t v n = PutUint64 t @ PutUint64 v @ PutUint64 (word_of_nat n) @ replicate 4072 0"
proof -
  have "copy_at 0 (replicate 4096 0) (PutUint64 t) = PutUint64 t @ replicate 4088 0" by (simp add: copy_at_fit)
  moreover have "copy_at 8 (PutUint64 t @ replicate 4088 0) (PutUint64 v) = PutUint64 t @ PutUint64 v @ replicate 4080 0"
    by (simp add: copy_at_fit)
  moreover have "copy_at 16 (PutUint64 t @ PutUint64 v @ replicate 4080 0) (PutUint64 w) = PutUint64 t @ PutUint64 v @ PutUint64 w @ replicate 4072 0" for w
    by (simp add: copy_at_fit)
  ultimately show ?thesis by (simp add: header_page_def PAGE_SIZE_def)
qed

lemma length_header_page [simp]: "length (header_page t v n) = 4096"
  by (simp add: header_page_eq)

lemma header_written: "disk_header (write_at 0 (header_page t v n) f) t v n" (is "disk_header ?f _ _ _")
proof -
  have "?f = header_page t v n @ drop 4096 f" unfolding write_at_def by (auto simp: header_page_eq)
  then show ?thesis by (simp add: disk_header_def header_page_eq PAGE_SIZE_def)
qed

lemma disk_header_write:
  assumes "disk_header f t v n" "PAGE_SIZE \<le> off"
  shows "disk_header (write_at off bs f) t v n"
proof -
  have "take 4096 (write_at off bs f) = take 4096 f" using assms by (auto simp: write_at_def disk_header_def PAGE_SIZE_def min_def)
  moreover have "take 8 (drop k g) = take 8 (drop k (take 4096 g))" if "k \<le> 16" for k and g :: "byte list" using that by (simp add: take_drop)
  then have "take 8 (drop k (write_at off bs f)) = take 8 (drop k f)" if "k \<le> 16" for k using that calculation by metis
  from this [of 0] this [of 8] this [of 16] show ?thesis
    using assms by (cases "bs = []") (auto simp: disk_header_def length_write_at write_at_def)
qed

lemma disk_log_write_header: "disk_log f es \<Longrightarrow> disk_log (write_at 0 (header_page t v n) f) es"
  unfolding disk_log_def record_at_def by (simp add: sparse_write_other PAGE_SIZE_def)

lemma disk_log_append:
  assumes "disk_log f (take off es)" "off \<le> length es" "encode_entries (replicate 128 0) (drop off es) = (bs, True)"
  shows "disk_log (write_at (PAGE_SIZE + ENTRY_SIZE * off) (concat bs) f) es" (is "disk_log ?f _")
proof -
  have b: "length bs = length es - off" "\<And>i. i < length bs \<Longrightarrow> length (bs ! i) = 128 \<and> decode_entry (bs ! i) = Inr (without_channel (es ! (off + i)))"
    using encode_entries_ok [OF _ assms(3)] assms(2) by auto
  then have l: "\<And>x. x \<in> set bs \<Longrightarrow> length x = 128" by (auto simp: in_set_conv_nth)
  then have lc: "length (concat bs) = 128 * length bs" by (rule length_concat_same)
  have "decode_entry (record_at ?f i) = Inr (without_channel (es ! i))" if i: "i < length es" for i
  proof (cases "i < off")
    case True
    have "PAGE_SIZE + ENTRY_SIZE * i + ENTRY_SIZE \<le> PAGE_SIZE + ENTRY_SIZE * off"
      using True mult_le_mono2 [of "Suc i" off ENTRY_SIZE] by simp
    then have "record_at ?f i = record_at f i" by (simp add: record_at_def sparse_write_other)
    then show ?thesis using assms(1,2) True by (simp add: disk_log_def)
  next
    case False
    define j where "j = i - off"
    have j: "i = off + j" "j < length bs" using False i b(1) by (simp_all add: j_def)
    have "128 * Suc j \<le> 128 * length bs" using j(2) by (intro mult_le_mono2) simp
    moreover have "0 < length (concat bs)" using j(2) lc by linarith
    then have "concat bs \<noteq> []" by (rule length_greater_0_conv [THEN iffD1])
    ultimately have "record_at ?f i = take 128 (drop (128 * j) (concat bs))"
      using j(1) lc unfolding record_at_def by (subst sparse_write_same) (auto simp: ENTRY_SIZE_def PAGE_SIZE_def algebra_simps)
    also have "\<dots> = bs ! j" by (rule concat_chunk [OF j(2) l])
    finally show ?thesis using b(2) [OF j(2)] j(1) by simp
  qed
  then show ?thesis by (simp add: disk_log_def)
qed

text \<open>The records that the call does not write have to be in the file already.\<close>

definition kept :: "bool \<Rightarrow> int \<Rightarrow> nat \<Rightarrow> nat" where
  "kept w n len = (if w then (if n = 0 then 0 else if n > 0 then nat (int len - n) else len) else len)"

lemma persist_file_ok:
  assumes "persist_file w n t v es f = (f', None)" "disk_log f (take (kept w n (length es)) es)" "es \<noteq> []"
  shows "disk_log f' es \<and> disk_header f' t v (length es) \<and> length f \<le> length f'
    \<and> (w \<and> 0 \<le> n \<longrightarrow> PAGE_SIZE + ENTRY_SIZE * length es \<le> length f') \<and> (\<not> w \<longrightarrow> length f' = max 4096 (length f))"
proof -
  define f1 where "f1 = write_at 0 (header_page t v (length es)) f"
  have f1: "disk_header f1 t v (length es)" "disk_log f1 (take (kept w n (length es)) es)" "length f1 = max 4096 (length f)"
    using header_written disk_log_write_header [OF assms(2)] length_write_at [of "header_page t v (length es)" 0 f]
    by (auto simp: f1_def header_page_eq)
  show ?thesis
  proof (cases "w \<and> 0 \<le> n")
    case False
    then have "f' = f1" "kept w n (length es) = length es" using assms(1) by (auto simp: persist_file_def Let_def f1_def kept_def)
    then show ?thesis using f1 False by auto
  next
    case True
    define off where "off = kept w n (length es)"
    obtain m where m: "length es = Suc m" using assms(3) by (cases es) auto
    have off: "off = nat (max (int (length es) - (if n = 0 then int (length es) else n)) 0)" "off < length es"
      using True unfolding off_def kept_def m by auto
    obtain bs c where bs: "encode_entries (replicate 128 0) (drop off es) = (bs, c)" by force
    have "c" "f' = write_at (PAGE_SIZE + ENTRY_SIZE * off) (concat bs) f1"
      using assms(1,3) True bs unfolding persist_file_def Let_def off(1) f1_def
      by (auto simp: ENTRY_SIZE_def split: if_splits)
    moreover have "length bs = length es - off" "\<And>x. x \<in> set bs \<Longrightarrow> length x = 128"
      using encode_entries_ok [of "replicate 128 0" "drop off es" bs] bs \<open>c\<close> by (auto simp: in_set_conv_nth)
    then have "length (concat bs) = 128 * (length es - off)" using length_concat_same [of bs 128] by simp
    moreover have "0 < length (concat bs)" using calculation off(2) by linarith
    then have "concat bs \<noteq> []" by (rule length_greater_0_conv [THEN iffD1])
    ultimately show ?thesis
      using f1 off(2) True bs disk_log_append [of f1 off es bs] disk_header_write [of f1 t v "length es"]
      by (auto simp: off_def length_write_at ENTRY_SIZE_def PAGE_SIZE_def)
  qed
qed

section \<open>Restoring\<close>

lemma read_entries_ok:
  assumes "disk_log f es" "PAGE_SIZE + ENTRY_SIZE * length es \<le> length f" "k \<le> length es"
  shows "read_entries (length es - k) (drop (PAGE_SIZE + ENTRY_SIZE * k) f) = Inr (map without_channel (drop k es))"
  using assms(3)
proof (induction "length es - k" arbitrary: k)
  case (Suc n)
  let ?g = "drop (PAGE_SIZE + ENTRY_SIZE * k) f"
  have k: "k < length es" "length es - k = Suc n" "length es - Suc k = n" using Suc.hyps(2) by auto
  have "ENTRY_SIZE * Suc k \<le> ENTRY_SIZE * length es" using k(1) by (intro mult_le_mono2) simp
  then have l: "ENTRY_SIZE \<le> length ?g" using assms(2) by simp
  then have ne: "?g \<noteq> []" by (auto simp: ENTRY_SIZE_def)
  have "record_at f k = take ENTRY_SIZE ?g"
    using l unfolding record_at_def by (subst sparse_inside) (auto simp: ENTRY_SIZE_def)
  then have d: "decode_entry (take ENTRY_SIZE ?g) = Inr (without_channel (es ! k))" using assms(1) k(1) by (metis disk_log_def)
  have "drop ENTRY_SIZE ?g = drop (PAGE_SIZE + ENTRY_SIZE * Suc k) f" by (simp add: add.commute add.left_commute)
  then have r: "read_entries n (drop ENTRY_SIZE ?g) = Inr (map without_channel (drop (Suc k) es))"
    using Suc.hyps(1) [of "Suc k"] k by simp
  show ?case unfolding k(2) using ne l d r Cons_nth_drop_Suc [OF k(1)] by (simp del: drop_drop) (metis list.simps(9))
qed simp

lemma log_append_eq: "\<exists>c. log_append env es s = s\<lparr>g_log := g_log s @ es, g_cap := c\<rparr>"
  unfolding log_append_def Let_def by blast

lemma log_appends_eq: "\<exists>c. log_appends env es s = s\<lparr>g_log := g_log s @ es, g_cap := c\<rparr>"
proof (induction es arbitrary: s)
  case Nil
  show ?case by (intro exI [of _ "g_cap s"]) (simp add: log_appends_def)
next
  case (Cons e es)
  obtain c where c: "log_append env [e] s = s\<lparr>g_log := g_log s @ [e], g_cap := c\<rparr>" using log_append_eq by blast
  have "log_appends env (e # es) s = log_appends env es (log_append env [e] s)" by (simp add: log_appends_def)
  then show ?case using Cons [of "log_append env [e] s"] c by auto
qed

lemma log_append_cap: "env_ok env \<Longrightarrow> length (g_log s) \<le> g_cap s \<Longrightarrow> length (g_log (log_append env es s)) \<le> g_cap (log_append env es s)"
  by (simp add: log_append_def env_ok_def Let_def)

lemma log_appends_cap: "env_ok env \<Longrightarrow> length (g_log s) \<le> g_cap s \<Longrightarrow> length (g_log (log_appends env es s)) \<le> g_cap (log_appends env es s)"
  unfolding log_appends_def by (induction es arbitrary: s) (simp_all add: log_append_cap)

definition in_cluster :: "'sm GServer \<Rightarrow> bool" where
  "in_cluster s \<longleftrightarrow> 0 \<le> g_clusterIndex s \<and> g_clusterIndex s < int (length (g_cluster s))"

definition own_vote :: "'sm GServer \<Rightarrow> uint64" where
  "own_vote s = cm_votedFor (g_cluster s ! nat (g_clusterIndex s))"

lemma getVotedFor_ok: "in_cluster s \<Longrightarrow> getVotedFor s = Inr (own_vote s)"
  by (simp add: getVotedFor_def in_cluster_def own_vote_def)

lemma setVotedFor_ok:
  assumes "in_cluster s"
  shows "\<exists>cl. setVotedFor v s = Inr (s\<lparr>g_cluster := cl\<rparr>) \<and> length cl = length (g_cluster s)
           \<and> in_cluster (s\<lparr>g_cluster := cl\<rparr>) \<and> own_vote (s\<lparr>g_cluster := cl\<rparr>) = v"
proof -
  have "nat (g_clusterIndex s) < length (g_cluster s)" using assms unfolding in_cluster_def by linarith
  then show ?thesis using assms
    by (intro exI [of _ "(g_cluster s)[nat (g_clusterIndex s) := (g_cluster s ! nat (g_clusterIndex s))\<lparr>cm_votedFor := v\<rparr>]"])
      (simp add: setVotedFor_def in_cluster_def own_vote_def)
qed

lemma without_channel_idem [simp]: "without_channel (without_channel e) = without_channel e"
  by (simp add: without_channel_def)

lemma disk_log_without_channel: "disk_log f (map without_channel es) = disk_log f es"
  by (auto simp: disk_log_def)

lemma read_entries_length: "read_entries n f = Inr es \<Longrightarrow> ENTRY_SIZE * n \<le> length f"
proof (induction n arbitrary: f es)
  case (Suc n)
  then have "ENTRY_SIZE \<le> length f" "\<exists>es. read_entries n (drop ENTRY_SIZE f) = Inr es"
    by (auto simp: go_bind_eq_Inr split: if_splits)
  then show ?case using Suc.IH [of "drop ENTRY_SIZE f"] by fastforce
qed simp

text \<open>A server that reads a complete file.\<close>

lemma restore_ok:
  assumes "disk_header f t v (length es)" "disk_log f es" "PAGE_SIZE + ENTRY_SIZE * length es \<le> length f" "env_ok env"
    and "es \<noteq> []" "length es < 2 ^ 64" "g_fd s = None \<and> disk = f \<or> g_fd s = Some f" "in_cluster s"
  shows "\<exists>cl c. restore env disk s = Inr (s\<lparr>g_fd := Some f, g_currentTerm := t, g_cluster := cl, g_log := map without_channel es, g_cap := c\<rparr>)
    \<and> length es \<le> c \<and> length cl = length (g_cluster s) \<and> own_vote (s\<lparr>g_cluster := cl\<rparr>) = v"
proof -
  have "f \<noteq> []" "\<not> length f < PAGE_SIZE" using assms(1) by (auto simp: disk_header_def PAGE_SIZE_def)
  moreover have h: "Uint64 (take 8 f) = t" "Uint64 (take 8 (drop 8 f)) = v" "unat (Uint64 (take 8 (drop 16 f))) = length es"
    using assms(1) unat_len64 [OF assms(6)] by (simp_all add: disk_header_def)
  moreover have "(case g_fd s of None \<Rightarrow> disk | Some g \<Rightarrow> g) = f" using assms(7) by auto
  moreover have "read_entries (length es) (drop PAGE_SIZE f) = Inr (map without_channel es)"
    using read_entries_ok [OF assms(2,3), of 0] by simp
  moreover have "in_cluster (s\<lparr>g_fd := Some f, g_currentTerm := t\<rparr>)" using assms(8) by (simp add: in_cluster_def)
  then obtain cl where "setVotedFor v (s\<lparr>g_fd := Some f, g_currentTerm := t\<rparr>) = Inr (s\<lparr>g_fd := Some f, g_currentTerm := t, g_cluster := cl\<rparr>)"
    "own_vote (s\<lparr>g_fd := Some f, g_currentTerm := t, g_cluster := cl\<rparr>) = v" "length cl = length (g_cluster s)"
    using setVotedFor_ok [of "s\<lparr>g_fd := Some f, g_currentTerm := t\<rparr>" v] by auto
  moreover define s3 where "s3 = s\<lparr>g_fd := Some f, g_currentTerm := t, g_cluster := cl, g_log := [], g_cap := 0\<rparr>"
  obtain c where l: "log_appends env (map without_channel es) s3
    = s\<lparr>g_fd := Some f, g_currentTerm := t, g_cluster := cl, g_log := map without_channel es, g_cap := c\<rparr>"
    using log_appends_eq [of env "map without_channel es" s3] by (auto simp: s3_def)
  have "length es \<le> c"
    using log_appends_cap [OF assms(4), of s3 "map without_channel es"] unfolding l by (simp add: s3_def)
  ultimately show ?thesis
    using assms(5) l by (intro exI [of _ cl] exI [of _ c]) (simp add: restore_def Let_def ensureLog_def own_vote_def s3_def)
qed

lemma restore_short:
  assumes "disk_header f t v n" "length f < PAGE_SIZE + ENTRY_SIZE * n" "n < 2 ^ 64" "g_fd s = None \<and> disk = f \<or> g_fd s = Some f"
  shows "restore env disk s \<noteq> Inr s'"
proof
  assume r: "restore env disk s = Inr s'"
  have "f \<noteq> []" "\<not> length f < PAGE_SIZE" using assms(1) by (auto simp: disk_header_def PAGE_SIZE_def)
  moreover have "unat (Uint64 (take 8 (drop 16 f))) = n" using assms(1) unat_len64 [OF assms(3)] by (simp add: disk_header_def)
  moreover have "(case g_fd s of None \<Rightarrow> disk | Some g \<Rightarrow> g) = f" using assms(4) by auto
  ultimately obtain es where "read_entries n (drop PAGE_SIZE f) = Inr es"
    using r by (auto simp: restore_def Let_def go_bind_eq_Inr)
  from read_entries_length [OF this] show False using assms(2) \<open>\<not> length f < PAGE_SIZE\<close> by simp
qed

end
