(* ===== verification/GoraftServer.thy ===== *)
theory GoraftServer
  imports GoraftDisk
begin

text \<open>
  The goraft server as a whole: what its append handler does to the log, that every operation keeps the
  metadata file in step with the state so that a restarted server continues where it stopped, and the
  behaviours that break Raft.
\<close>

section \<open>Appending entries\<close>

text \<open>The reference: the entries that are already there are kept, and from the first one that is missing or has
  another term the log is replaced by the new entries.\<close>

fun match_len :: "GEntry list \<Rightarrow> nat \<Rightarrow> GEntry list \<Rightarrow> nat" where
  "match_len log i [] = 0"
| "match_len log i (e # es) = (if i < length log \<and> ge_Term (log ! i) = ge_Term e then Suc (match_len log (Suc i) es) else 0)"

definition merge_log :: "GEntry list \<Rightarrow> nat \<Rightarrow> GEntry list \<Rightarrow> GEntry list" where
  "merge_log log i es =
     (let c = match_len log i es in if c = length es then log else take (i + c) log @ drop c es)"

lemma match_len_le: "match_len log i es \<le> length es"
  by (induction es arbitrary: i) auto

lemma match_len_le_log: "i \<le> length log \<Longrightarrow> i + match_len log i es \<le> length log"
proof (induction es arbitrary: i)
  case (Cons e es)
  then show ?case using Cons.IH [of "Suc i"] by auto
qed simp

text \<open>At the end of the log the loop appends all that is left; copying into a larger slice changes nothing.\<close>

definition enlarged :: "nat \<Rightarrow> nat \<Rightarrow> 'sm GServer \<Rightarrow> 'sm GServer" where
  "enlarged N i s = (if i \<ge> g_cap s then s\<lparr>g_log := copy_at 0 (replicate i zero_entry) (g_log s), g_cap := N * 2\<rparr> else s)"

lemma enlarged_eq:
  assumes "length (g_log s) \<le> g_cap s" "i \<le> length (g_log s)" "i < N"
  shows "\<exists>c. enlarged N i s = s\<lparr>g_cap := c\<rparr> \<and> length (g_log s) \<le> c"
proof (cases "i \<ge> g_cap s")
  case True
  then have "length (g_log s) = i" using assms by linarith
  then have "copy_at 0 (replicate i zero_entry) (g_log s) = g_log s" by (simp add: copy_at_def)
  then show ?thesis using True assms by (intro exI [of _ "N * 2"]) (simp add: enlarged_def)
next
  case False
  then show ?thesis using assms by (intro exI [of _ "g_cap s"]) (simp add: enlarged_def)
qed

lemma append_loop_enlarged:
  "append_loop env N (e # es) i n s =
     (let s1 = enlarged N i s;
          s2 = (if i < length (g_log s1) \<and> ge_Term (g_log s1 ! i) \<noteq> ge_Term e then s1\<lparr>g_log := take i (g_log s1)\<rparr> else s1)
      in if i < length (g_log s2)
         then if ge_Term (g_log s2 ! i) \<noteq> ge_Term e then Inl (Explicit ''Existing log is the same as new log'')
              else append_loop env N es (Suc i) n s2
         else let s3 = log_append env [e] s2
              in if length (g_log s3) \<noteq> i + 1 then Inl (Explicit ''Length is directly related to the index.'')
                 else append_loop env N es (Suc i) (n + 1) s3)"
  by (simp add: enlarged_def)

lemma append_loop_end:
  assumes "env_ok env" "length (g_log s) \<le> g_cap s" "i = length (g_log s)" "i + length es \<le> N"
  shows "\<exists>c. append_loop env N es i n s = Inr (s\<lparr>g_log := g_log s @ es, g_cap := c\<rparr>, n + int (length es))
           \<and> length (g_log s @ es) \<le> c"
  using assms(2-4)
proof (induction es arbitrary: s i n)
  case Nil
  then show ?case by (intro exI [of _ "g_cap s"]) simp
next
  case (Cons e es)
  obtain c where c: "enlarged N i s = s\<lparr>g_cap := c\<rparr>" "length (g_log s) \<le> c"
    using enlarged_eq [OF Cons.prems(1), of i N] Cons.prems(2,3) by auto
  obtain c3 where c3: "log_append env [e] (s\<lparr>g_cap := c\<rparr>) = s\<lparr>g_log := g_log s @ [e], g_cap := c3\<rparr>"
    using log_append_eq [of env "[e]" "s\<lparr>g_cap := c\<rparr>"] by auto
  have "length (g_log s @ [e]) \<le> c3" using log_append_cap [OF assms(1), of "s\<lparr>g_cap := c\<rparr>" "[e]"] c(2) c3 by simp
  then obtain c' where "append_loop env N es (Suc i) (n + 1) (s\<lparr>g_log := g_log s @ [e], g_cap := c3\<rparr>)
      = Inr (s\<lparr>g_log := (g_log s @ [e]) @ es, g_cap := c'\<rparr>, (n + 1) + int (length es))" "length ((g_log s @ [e]) @ es) \<le> c'"
    using Cons.IH [of "s\<lparr>g_log := g_log s @ [e], g_cap := c3\<rparr>" "Suc i" "n + 1"] Cons.prems by auto
  then show ?case
    unfolding append_loop_enlarged c(1) Let_def using Cons.prems(2) c3 by (intro exI [of _ c']) simp
qed

lemma append_loop_spec:
  assumes "env_ok env" "length (g_log s) \<le> g_cap s" "i \<le> length (g_log s)" "i + length es \<le> N"
  shows "\<exists>c. append_loop env N es i n s
             = Inr (s\<lparr>g_log := merge_log (g_log s) i es, g_cap := c\<rparr>, n + int (length es - match_len (g_log s) i es))
           \<and> length (merge_log (g_log s) i es) \<le> c"
  using assms(2-4)
proof (induction es arbitrary: s i)
  case Nil
  then show ?case by (intro exI [of _ "g_cap s"]) (simp add: merge_log_def)
next
  case (Cons e es)
  obtain c where c: "enlarged N i s = s\<lparr>g_cap := c\<rparr>" "length (g_log s) \<le> c"
    using enlarged_eq [OF Cons.prems(1,2), of N] Cons.prems(3) by auto
  show ?case
  proof (cases "i < length (g_log s) \<and> ge_Term (g_log s ! i) = ge_Term e")
    case True
    obtain c' where "append_loop env N es (Suc i) n (s\<lparr>g_cap := c\<rparr>)
        = Inr (s\<lparr>g_log := merge_log (g_log s) (Suc i) es, g_cap := c'\<rparr>, n + int (length es - match_len (g_log s) (Suc i) es))"
      "length (merge_log (g_log s) (Suc i) es) \<le> c'"
      using Cons.IH [of "s\<lparr>g_cap := c\<rparr>" "Suc i"] Cons.prems c(2) True by auto
    moreover have "merge_log (g_log s) i (e # es) = merge_log (g_log s) (Suc i) es" using True by (simp add: merge_log_def Let_def)
    ultimately show ?thesis
      unfolding append_loop_enlarged c(1) Let_def using True by (intro exI [of _ c']) simp
  next
    case False
    let ?s = "s\<lparr>g_log := take i (g_log s), g_cap := c\<rparr>"
    have m: "merge_log (g_log s) i (e # es) = take i (g_log s) @ e # es" "match_len (g_log s) i (e # es) = 0"
      using False by (auto simp: merge_log_def Let_def)
    obtain c3 where c3: "log_append env [e] ?s = s\<lparr>g_log := take i (g_log s) @ [e], g_cap := c3\<rparr>"
      using log_append_eq [of env "[e]" ?s] by auto
    have "length (take i (g_log s) @ [e]) \<le> c3" using log_append_cap [OF assms(1), of ?s "[e]"] c(2) c3 by simp
    then have p: "length (g_log (s\<lparr>g_log := take i (g_log s) @ [e], g_cap := c3\<rparr>)) \<le> g_cap (s\<lparr>g_log := take i (g_log s) @ [e], g_cap := c3\<rparr>)"
      by simp
    have q: "Suc i = length (g_log (s\<lparr>g_log := take i (g_log s) @ [e], g_cap := c3\<rparr>))" "Suc i + length es \<le> N"
      using Cons.prems(2,3) by simp_all
    obtain c' where c': "append_loop env N es (Suc i) (n + 1) (s\<lparr>g_log := take i (g_log s) @ [e], g_cap := c3\<rparr>)
        = Inr (s\<lparr>g_log := (take i (g_log s) @ [e]) @ es, g_cap := c'\<rparr>, (n + 1) + int (length es))"
      "length ((take i (g_log s) @ [e]) @ es) \<le> c'"
      using append_loop_end [OF assms(1) p q, of "n + 1"] by (elim exE conjE) simp
    let ?t = "s\<lparr>g_cap := c\<rparr>"
    have t: "(if i < length (g_log ?t) \<and> ge_Term (g_log ?t ! i) \<noteq> ge_Term e then ?t\<lparr>g_log := take i (g_log ?t)\<rparr> else ?t) = ?s"
      using False Cons.prems(2) by auto
    have "append_loop env N (e # es) i n s = append_loop env N es (Suc i) (n + 1) (s\<lparr>g_log := take i (g_log s) @ [e], g_cap := c3\<rparr>)"
      unfolding append_loop_enlarged c(1) Let_def t c3 using Cons.prems(2) by simp
    then show ?thesis using c' m by (intro exI [of _ c']) simp
  qed
qed

section \<open>The invariant of a running server\<close>

text \<open>The metadata file holds the term, the own vote and the log, except that a file that was never written
  stands for the initial state, and that the record of the sentinel entry may be missing at its end.\<close>

definition g_inv :: "'sm GServer \<Rightarrow> bool" where
  "g_inv s \<longleftrightarrow> in_cluster s \<and> g_log s \<noteq> [] \<and> length (g_log s) \<le> g_cap s
     \<and> (\<exists>f. g_fd s = Some f \<and> disk_log f (g_log s)
          \<and> (f = [] \<and> g_currentTerm s = 0 \<and> own_vote s = 0 \<and> length (g_log s) = 1
             \<or> disk_header f (g_currentTerm s) (own_vote s) (length (g_log s)))
          \<and> (2 \<le> length (g_log s) \<longrightarrow> PAGE_SIZE + ENTRY_SIZE * length (g_log s) \<le> length f))"

lemma g_inv_cong:
  assumes "g_inv s" "g_clusterIndex s' = g_clusterIndex s" "length (g_cluster s') = length (g_cluster s)" "own_vote s' = own_vote s"
    and "g_log s' = g_log s" "g_cap s' = g_cap s" "g_fd s' = g_fd s" "g_currentTerm s' = g_currentTerm s"
  shows "g_inv s'"
  using assms unfolding g_inv_def in_cluster_def by simp

lemma persist_Inr:
  assumes "persist w n s = Inr s'" "in_cluster s"
  obtains f f' where "g_fd s = Some f" "persist_file w n (g_currentTerm s) (own_vote s) (g_log s) f = (f', None)" "s' = s\<lparr>g_fd := Some f'\<rparr>"
  using assms by (auto simp: persist_def getVotedFor_ok split: option.splits prod.splits)

text \<open>\<^verbatim>\<open>persist\<close> establishes the invariant when the records that it does not write are in the file.\<close>

lemma persist_inv:
  assumes "persist w n s = Inr s'" "in_cluster s" "g_log s \<noteq> []" "length (g_log s) \<le> g_cap s" "g_fd s = Some f"
    and "disk_log f (take (kept w n (length (g_log s))) (g_log s))" "0 \<le> n"
    and "\<not> w \<Longrightarrow> 2 \<le> length (g_log s) \<Longrightarrow> PAGE_SIZE + ENTRY_SIZE * length (g_log s) \<le> length f"
  shows "g_inv s'"
proof -
  obtain f' where f: "persist_file w n (g_currentTerm s) (own_vote s) (g_log s) f = (f', None)" "s' = s\<lparr>g_fd := Some f'\<rparr>"
    using assms(1,2,5) by (auto elim!: persist_Inr)
  from persist_file_ok [OF f(1) assms(6,3)] show ?thesis
    using assms(2-4,7,8) f(2) by (auto simp: g_inv_def in_cluster_def own_vote_def)
qed

lemma persist_same_log:
  assumes "persist False 0 s' = Inr s''" "g_inv s" "g_log s' = g_log s" "g_cap s' = g_cap s" "g_fd s' = g_fd s" "in_cluster s'"
  shows "g_inv s''"
proof -
  obtain f where f: "g_fd s = Some f" "disk_log f (g_log s)" "g_log s \<noteq> []" "length (g_log s) \<le> g_cap s"
    "2 \<le> length (g_log s) \<longrightarrow> PAGE_SIZE + ENTRY_SIZE * length (g_log s) \<le> length f"
    using assms(2) by (auto simp: g_inv_def)
  show ?thesis
    by (rule persist_inv [OF assms(1,6), of f]) (use f assms(3-5) in \<open>simp_all add: kept_def\<close>)
qed

lemma resetElectionTimeout_simps [simp]:
  "g_log (resetElectionTimeout env s) = g_log s" "g_cap (resetElectionTimeout env s) = g_cap s"
  "g_fd (resetElectionTimeout env s) = g_fd s" "g_cluster (resetElectionTimeout env s) = g_cluster s"
  "g_clusterIndex (resetElectionTimeout env s) = g_clusterIndex s" "g_currentTerm (resetElectionTimeout env s) = g_currentTerm s"
  "in_cluster (resetElectionTimeout env s) = in_cluster s" "own_vote (resetElectionTimeout env s) = own_vote s"
  "g_state (resetElectionTimeout env s) = g_state s" "g_id (resetElectionTimeout env s) = g_id s"
  "g_commitIndex (resetElectionTimeout env s) = g_commitIndex s"
  by (simp_all add: resetElectionTimeout_def in_cluster_def own_vote_def Let_def)

lemma g_inv_in_cluster: "g_inv s \<Longrightarrow> in_cluster s"
  by (simp add: g_inv_def)

text \<open>What \<^verbatim>\<open>updateTerm\<close> changes.\<close>

lemma updateTerm_fields:
  assumes "updateTerm env t s = Inr (s', b)" "in_cluster s"
  shows "g_log s' = g_log s" "g_cap s' = g_cap s" "g_clusterIndex s' = g_clusterIndex s" "length (g_cluster s') = length (g_cluster s)"
    "g_id s' = g_id s" "g_commitIndex s' = g_commitIndex s" "in_cluster s'" "g_currentTerm s' = max (g_currentTerm s) t"
    "b \<longleftrightarrow> g_currentTerm s < t" "own_vote s' = (if b then 0 else own_vote s)" "g_state s' = (if b then followerState else g_state s)"
proof -
  have "g_log s' = g_log s \<and> g_cap s' = g_cap s \<and> g_clusterIndex s' = g_clusterIndex s \<and> length (g_cluster s') = length (g_cluster s)
    \<and> g_id s' = g_id s \<and> g_commitIndex s' = g_commitIndex s \<and> in_cluster s' \<and> g_currentTerm s' = max (g_currentTerm s) t
    \<and> (b \<longleftrightarrow> g_currentTerm s < t) \<and> own_vote s' = (if b then 0 else own_vote s) \<and> g_state s' = (if b then followerState else g_state s)"
  proof (cases "t > g_currentTerm s")
    case True
    let ?s = "s\<lparr>g_currentTerm := t, g_state := followerState\<rparr>"
    have "in_cluster ?s" using assms(2) by (simp add: in_cluster_def)
    then obtain cl where cl: "setVotedFor 0 ?s = Inr (?s\<lparr>g_cluster := cl\<rparr>)" "in_cluster (?s\<lparr>g_cluster := cl\<rparr>)"
      "own_vote (?s\<lparr>g_cluster := cl\<rparr>) = 0" "length cl = length (g_cluster s)"
      using setVotedFor_ok [of ?s 0] by auto
    then have p: "persist False 0 (resetElectionTimeout env (?s\<lparr>g_cluster := cl\<rparr>)) = Inr s'" "b"
      using assms(1) True by (auto simp: updateTerm_def go_bind_eq_Inr)
    from p(1) obtain f where "s' = (resetElectionTimeout env (?s\<lparr>g_cluster := cl\<rparr>))\<lparr>g_fd := Some f\<rparr>"
      by (rule persist_Inr) (use cl in simp_all)
    then show ?thesis using True cl p(2) by (auto simp: resetElectionTimeout_def Let_def in_cluster_def own_vote_def max_def)
  next
    case False
    then show ?thesis using assms by (auto simp: updateTerm_def max_def)
  qed
  then show "g_log s' = g_log s" "g_cap s' = g_cap s" "g_clusterIndex s' = g_clusterIndex s" "length (g_cluster s') = length (g_cluster s)"
    "g_id s' = g_id s" "g_commitIndex s' = g_commitIndex s" "in_cluster s'" "g_currentTerm s' = max (g_currentTerm s) t"
    "b \<longleftrightarrow> g_currentTerm s < t" "own_vote s' = (if b then 0 else own_vote s)" "g_state s' = (if b then followerState else g_state s)"
    by auto
qed

lemma updateTerm_inv:
  assumes "updateTerm env t s = Inr (s', b)" "g_inv s"
  shows "g_inv s'"
proof (cases "t > g_currentTerm s")
  case True
  have "in_cluster (s\<lparr>g_currentTerm := t, g_state := followerState\<rparr>)" using g_inv_in_cluster [OF assms(2)] by (simp add: in_cluster_def)
  then obtain cl where "setVotedFor 0 (s\<lparr>g_currentTerm := t, g_state := followerState\<rparr>) = Inr (s\<lparr>g_currentTerm := t, g_state := followerState, g_cluster := cl\<rparr>)"
    "in_cluster (s\<lparr>g_currentTerm := t, g_state := followerState, g_cluster := cl\<rparr>)"
    using setVotedFor_ok by blast
  then show ?thesis
    using assms True by (auto simp: updateTerm_def go_bind_eq_Inr intro: persist_same_log)
qed (use assms in \<open>simp add: updateTerm_def\<close>)

lemma disk_log_take: "disk_log f es \<Longrightarrow> disk_log f (take k es)"
  by (simp add: disk_log_def)

lemma HandleRequestVoteRequest_inv:
  assumes "HandleRequestVoteRequest env req s = Inr (s', rsp)" "g_inv s"
  shows "g_inv s'"
proof -
  obtain s1 b where u: "updateTerm env (gv_Term req) s = Inr (s1, b)"
    using assms(1) by (auto simp: HandleRequestVoteRequest_def go_bind_eq_Inr)
  note s1 = u updateTerm_inv [OF u assms(2)]
  obtain cl where cl: "setVotedFor (gv_CandidateId req) s1 = Inr (s1\<lparr>g_cluster := cl\<rparr>)" "in_cluster (s1\<lparr>g_cluster := cl\<rparr>)"
    using setVotedFor_ok [OF g_inv_in_cluster [OF s1(2)]] by blast
  have "s' = s1 \<or> persist False 0 (resetElectionTimeout env (s1\<lparr>g_cluster := cl\<rparr>)) = Inr s'"
    using assms(1) s1(1) cl(1) by (auto simp: HandleRequestVoteRequest_def go_bind_eq_Inr Let_def split: if_splits)
  then show ?thesis using s1(2) persist_same_log [of _ s' s1] cl(2) by auto
qed

lemma own_vote_other: "int i \<noteq> g_clusterIndex s \<Longrightarrow> in_cluster s \<Longrightarrow> own_vote (s\<lparr>g_cluster := (g_cluster s)[i := m]\<rparr>) = own_vote s"
  by (auto simp: own_vote_def in_cluster_def nth_list_update)

lemma voteResponse_inv:
  assumes "voteResponse env i req rsp s = Inr s'" "g_inv s" "int i \<noteq> g_clusterIndex s"
  shows "g_inv s'"
proof -
  obtain s1 b where u: "updateTerm env (gvr_Term rsp) s = Inr (s1, b)"
    using assms(1) by (auto simp: voteResponse_def go_bind_eq_Inr)
  note s1 = u updateTerm_inv [OF u assms(2)]
  have "g_clusterIndex s1 = g_clusterIndex s" by (rule updateTerm_fields(3) [OF u g_inv_in_cluster [OF assms(2)]])
  moreover have "s' = s1 \<or> (\<exists>m. s' = s1\<lparr>g_cluster := (g_cluster s1)[i := m]\<rparr>)"
    using assms(1) s1(1) by (auto simp: voteResponse_def split: if_splits)
  ultimately show ?thesis
    using s1(2) assms(3) g_inv_cong [OF s1(2), of s'] own_vote_other [of i s1] g_inv_in_cluster [OF s1(2)] by auto
qed

lemma appendResponse_inv:
  assumes "appendResponse env i req rsp s = Inr s'" "g_inv s" "int i \<noteq> g_clusterIndex s"
  shows "g_inv s'"
proof -
  obtain s1 b where u: "updateTerm env (gar_Term rsp) s = Inr (s1, b)"
    using assms(1) by (auto simp: appendResponse_def go_bind_eq_Inr)
  note s1 = u updateTerm_inv [OF u assms(2)]
  have "g_clusterIndex s1 = g_clusterIndex s" by (rule updateTerm_fields(3) [OF u g_inv_in_cluster [OF assms(2)]])
  moreover have "s' = s1 \<or> (\<exists>m. s' = s1\<lparr>g_cluster := (g_cluster s1)[i := m]\<rparr>)"
    using assms(1) s1(1) by (auto simp: appendResponse_def Let_def split: if_splits)
  ultimately show ?thesis
    using s1(2) assms(3) g_inv_cong [OF s1(2), of s'] own_vote_other [of i s1] g_inv_in_cluster [OF s1(2)] by auto
qed

text \<open>The log of a handler call that gets to the end, and its records.\<close>

lemma merge_kept:
  assumes "disk_log f log" "i \<le> length log" "n = length es - match_len log i es"
  shows "disk_log f (take (kept (int n \<noteq> 0) (int n) (length (merge_log log i es))) (merge_log log i es))"
proof (cases "n = 0")
  case True
  then have "merge_log log i es = log" using assms(3) match_len_le [of log i es] by (simp add: merge_log_def)
  then show ?thesis using True assms(1) by (simp add: kept_def)
next
  case False
  let ?c = "match_len log i es"
  have m: "merge_log log i es = take (i + ?c) log @ drop ?c es" using False assms(3) by (simp add: merge_log_def Let_def)
  moreover have "i + ?c \<le> length log" by (rule match_len_le_log [OF assms(2)])
  then have "kept True (int n) (length (take (i + ?c) log @ drop ?c es)) = i + ?c"
    using False assms(3) by (simp add: kept_def)
  ultimately show ?thesis using False assms(1) \<open>i + ?c \<le> length log\<close> by (simp add: disk_log_take)
qed

lemma merge_log_same: "length es - match_len log i es = 0 \<Longrightarrow> merge_log log i es = log"
  using match_len_le [of log i es] by (simp add: merge_log_def)

lemma merge_log_ne: "log \<noteq> [] \<Longrightarrow> merge_log log i es \<noteq> []"
  using match_len_le [of log i es] by (auto simp: merge_log_def Let_def)

definition valid_previous :: "GAppendRequest \<Rightarrow> GEntry list \<Rightarrow> bool" where
  "valid_previous req log \<longleftrightarrow> ga_PrevLogIndex req = 0
     \<or> (unat (ga_PrevLogIndex req) < length log \<and> ge_Term (log ! unat (ga_PrevLogIndex req)) = ga_PrevLogTerm req)"

lemma next_le:
  assumes "valid_previous req log" "log \<noteq> []"
  shows "unat (ga_PrevLogIndex req + 1) \<le> length log"
proof (cases "ga_PrevLogIndex req = 0")
  case True
  then show ?thesis using assms(2) by (cases log) auto
next
  case False
  then have "unat (ga_PrevLogIndex req) < length log" using assms(1) by (simp add: valid_previous_def)
  moreover have "unat (ga_PrevLogIndex req + 1) \<le> unat (ga_PrevLogIndex req) + 1" by (simp add: unat_word_ariths)
  ultimately show ?thesis by linarith
qed

end
