(* ===== verification/GoraftFacts.thy ===== *)
theory GoraftFacts
  imports GoraftServer
begin

text \<open>
  The runs of a goraft server: every operation keeps its invariant, over rounds of the main loop, requests,
  responses and restarts; the append handler step by step; the index a leader commits.
\<close>

lemma persist_total:
  assumes "in_cluster s" "g_fd s = Some f" "w \<Longrightarrow> 0 < n \<and> (\<forall>e \<in> set (drop (kept w n (length (g_log s))) (g_log s)). length (ge_Command e) \<le> 112)"
  shows "\<exists>f'. persist w n s = Inr (s\<lparr>g_fd := Some f'\<rparr>)"
proof -
  have "snd (persist_file w n (g_currentTerm s) (own_vote s) (g_log s) f) = None"
  proof (cases w)
    case True
    define off where "off = kept w n (length (g_log s))"
    have n: "0 < n" "nat (max (int (length (g_log s)) - n) 0) = off" using assms(3) True by (auto simp: off_def kept_def)
    obtain bs c where bs: "encode_entries (replicate 128 0) (drop off (g_log s)) = (bs, c)" by force
    then have "c" using encode_entries_complete [OF _ bs] assms(3) True by (simp add: off_def)
    then show ?thesis using True n bs by (simp add: persist_file_def Let_def ENTRY_SIZE_def)
  next
    case False
    then show ?thesis by (simp add: persist_file_def Let_def)
  qed
  then show ?thesis using assms(1,2)
    by (cases "persist_file w n (g_currentTerm s) (own_vote s) (g_log s) f") (auto simp: persist_def getVotedFor_ok)
qed

lemma g_inv_fd: "g_inv s \<Longrightarrow> \<exists>f. g_fd s = Some f"
  by (auto simp: g_inv_def)

lemma updateTerm_total:
  assumes "g_inv s"
  shows "\<exists>s' b. updateTerm env t s = Inr (s', b)"
proof (cases "t > g_currentTerm s")
  case True
  let ?s = "s\<lparr>g_currentTerm := t, g_state := followerState\<rparr>"
  have "in_cluster ?s" using g_inv_in_cluster [OF assms] by (simp add: in_cluster_def)
  then obtain cl where cl: "setVotedFor 0 ?s = Inr (?s\<lparr>g_cluster := cl\<rparr>)" "in_cluster (?s\<lparr>g_cluster := cl\<rparr>)"
    using setVotedFor_ok [of ?s 0] by auto
  obtain f where "g_fd s = Some f" using g_inv_fd [OF assms] by blast
  then obtain f' where "persist False 0 (resetElectionTimeout env (?s\<lparr>g_cluster := cl\<rparr>)) = Inr ((resetElectionTimeout env (?s\<lparr>g_cluster := cl\<rparr>))\<lparr>g_fd := Some f'\<rparr>)"
    using persist_total [of "resetElectionTimeout env (?s\<lparr>g_cluster := cl\<rparr>)" f False 0] cl(2) by auto
  then show ?thesis using True cl(1) by (intro exI [of _ "(resetElectionTimeout env (?s\<lparr>g_cluster := cl\<rparr>))\<lparr>g_fd := Some f'\<rparr>"] exI [of _ True]) (simp add: updateTerm_def)
next
  case False
  then show ?thesis by (intro exI [of _ s] exI [of _ False]) (simp add: updateTerm_def)
qed

lemma merge_new:
  assumes "i \<le> length log" "length es - match_len log i es = n" "n \<noteq> 0"
  shows "set (drop (kept True (int n) (length (merge_log log i es))) (merge_log log i es)) \<subseteq> set es"
proof -
  let ?c = "match_len log i es"
  have m: "merge_log log i es = take (i + ?c) log @ drop ?c es" using assms by (simp add: merge_log_def Let_def)
  have "i + ?c \<le> length log" by (rule match_len_le_log [OF assms(1)])
  then have "kept True (int n) (length (take (i + ?c) log @ drop ?c es)) = length (take (i + ?c) log)"
    using assms by (simp add: kept_def)
  then show ?thesis by (simp add: m set_drop_subset)
qed

text \<open>A follower of the term of the request, once the term is updated.\<close>

definition follows :: "GAppendRequest \<Rightarrow> 'sm GServer \<Rightarrow> bool" where
  "follows req s \<longleftrightarrow> g_currentTerm s < ga_Term req \<or> g_currentTerm s = ga_Term req \<and> g_state s \<in> {followerState, candidateState}"

text \<open>The handler up to its call of \<^verbatim>\<open>persist\<close>: it refuses, or it persists the merged log.\<close>

definition merged :: "GAppendRequest \<Rightarrow> GEntry list \<Rightarrow> GEntry list" where
  "merged req log = merge_log log (unat (ga_PrevLogIndex req + 1)) (ga_Entries req)"

definition new_entries :: "GAppendRequest \<Rightarrow> GEntry list \<Rightarrow> nat" where
  "new_entries req log = length (ga_Entries req) - match_len log (unat (ga_PrevLogIndex req + 1)) (ga_Entries req)"

lemma HandleAppendEntriesRequest_cases:
  assumes "g_inv s" "env_ok env"
  obtains
    (refuse) s' where "\<not> (follows req s \<and> valid_previous req (g_log s))" "g_inv s'" "g_clusterIndex s' = g_clusterIndex s"
      "HandleAppendEntriesRequest env req s = Inr (s', \<lparr>gar_Term = max (g_currentTerm s) (ga_Term req), gar_Success = False\<rparr>)"
      "g_log s' = g_log s" "g_currentTerm s' = max (g_currentTerm s) (ga_Term req)" "g_commitIndex s' = g_commitIndex s"
  | (store) s4 f where "follows req s" "valid_previous req (g_log s)" "in_cluster s4" "g_clusterIndex s4 = g_clusterIndex s"
      "HandleAppendEntriesRequest env req s = go_bind (persist (new_entries req (g_log s) \<noteq> 0) (int (new_entries req (g_log s))) s4)
         (\<lambda>s5. Inr (s5, \<lparr>gar_Term = max (g_currentTerm s) (ga_Term req), gar_Success = True\<rparr>))"
      "g_log s4 = merged req (g_log s)" "length (g_log s4) \<le> g_cap s4" "g_currentTerm s4 = max (g_currentTerm s) (ga_Term req)"
      "g_commitIndex s4 = (if ga_LeaderCommit req > g_commitIndex s
         then min (ga_LeaderCommit req) (word_of_int (int (length (g_log s4)) - 1)) else g_commitIndex s)"
      "g_fd s4 = Some f" "disk_log f (g_log s)" "2 \<le> length (g_log s) \<longrightarrow> PAGE_SIZE + ENTRY_SIZE * length (g_log s) \<le> length f"
proof -
  obtain s0 b where u: "updateTerm env (ga_Term req) s = Inr (s0, b)" using updateTerm_total [OF assms(1)] by blast
  note U = updateTerm_fields [OF u g_inv_in_cluster [OF assms(1)]] and i0 = updateTerm_inv [OF u assms(1)]
  define s1 where "s1 = (if ga_Term req = g_currentTerm s0 \<and> g_state s0 = candidateState then s0\<lparr>g_state := followerState\<rparr> else s0)"
  have S1: "g_log s1 = g_log s" "g_currentTerm s1 = max (g_currentTerm s) (ga_Term req)" "g_commitIndex s1 = g_commitIndex s"
    "g_cap s1 = g_cap s0" "g_fd s1 = g_fd s0" "g_clusterIndex s1 = g_clusterIndex s"
    using U by (simp_all add: s1_def)
  have i1: "g_inv s1" by (rule g_inv_cong [OF i0]) (simp_all add: s1_def own_vote_def)
  let ?s2 = "resetElectionTimeout env s1"
  have i2: "g_inv ?s2" by (rule g_inv_cong [OF i1]) simp_all
  have fl: "follows req s \<longleftrightarrow> g_state s1 = followerState \<and> \<not> ga_Term req < g_currentTerm s1"
    using U(8,9,11) by (auto simp: s1_def follows_def max_def split: if_splits)
  show thesis
  proof (cases "follows req s \<and> valid_previous req (g_log s)")
    case False
    then consider "\<not> follows req s" | "follows req s" "\<not> valid_previous req (g_log s)" by blast
    then show ?thesis
    proof cases
      case 1
      then have "HandleAppendEntriesRequest env req s = Inr (s1, \<lparr>gar_Term = g_currentTerm s1, gar_Success = False\<rparr>)"
        unfolding HandleAppendEntriesRequest_def u go_bind_simps prod.case s1_def [symmetric] using fl by (auto simp: Let_def)
      then show ?thesis using refuse [OF False i1] S1 by simp
    next
      case 2
      then have "HandleAppendEntriesRequest env req s = Inr (?s2, \<lparr>gar_Term = g_currentTerm s1, gar_Success = False\<rparr>)"
        unfolding HandleAppendEntriesRequest_def u go_bind_simps prod.case s1_def [symmetric] using fl S1(1) by (auto simp: Let_def valid_previous_def)
      then show ?thesis using refuse [OF False i2] S1 by simp
    qed
  next
    case True
    let ?i = "unat (ga_PrevLogIndex req + 1)" and ?m = "merged req (g_log s)"
    have le: "?i \<le> length (g_log s)" using next_le True assms(1) by (simp add: g_inv_def)
    have cap: "length (g_log ?s2) \<le> g_cap ?s2" using i1 by (simp add: g_inv_def)
    obtain c where c: "append_loop env (?i + length (ga_Entries req)) (ga_Entries req) ?i 0 ?s2
        = Inr (?s2\<lparr>g_log := ?m, g_cap := c\<rparr>, int (new_entries req (g_log s)))" "length ?m \<le> c"
      using append_loop_spec [OF assms(2) cap, of ?i "ga_Entries req" "?i + length (ga_Entries req)" 0] le S1(1)
      by (auto simp: merged_def new_entries_def)
    define s4 where "s4 = (if ga_LeaderCommit req > g_commitIndex s
        then ?s2\<lparr>g_log := ?m, g_cap := c, g_commitIndex := min (ga_LeaderCommit req) (word_of_int (int (length ?m) - 1))\<rparr>
        else ?s2\<lparr>g_log := ?m, g_cap := c\<rparr>)"
    obtain f where f: "g_fd s0 = Some f" "disk_log f (g_log s)" "2 \<le> length (g_log s) \<longrightarrow> PAGE_SIZE + ENTRY_SIZE * length (g_log s) \<le> length f"
      using i0 U(1) by (auto simp: g_inv_def)
    have a: "g_state s1 = followerState" "\<not> ga_Term req < g_currentTerm s1" using True fl by auto
    have b: "(ga_PrevLogIndex req = 0 \<or> (unat (ga_PrevLogIndex req) < length (g_log ?s2) \<and> ge_Term (g_log ?s2 ! unat (ga_PrevLogIndex req)) = ga_PrevLogTerm req)) = True"
      using True S1(1) by (simp add: valid_previous_def)
    have d: "(if ga_LeaderCommit req > g_commitIndex (?s2\<lparr>g_log := ?m, g_cap := c\<rparr>)
        then ?s2\<lparr>g_log := ?m, g_cap := c\<rparr>\<lparr>g_commitIndex := min (ga_LeaderCommit req) (word_of_int (int (length (g_log (?s2\<lparr>g_log := ?m, g_cap := c\<rparr>))) - 1))\<rparr>
        else ?s2\<lparr>g_log := ?m, g_cap := c\<rparr>) = s4"
      using S1(3) by (simp add: s4_def)
    have h: "HandleAppendEntriesRequest env req s = go_bind (persist (new_entries req (g_log s) \<noteq> 0) (int (new_entries req (g_log s))) s4)
         (\<lambda>s5. Inr (s5, \<lparr>gar_Term = g_currentTerm s1, gar_Success = True\<rparr>))"
      unfolding HandleAppendEntriesRequest_def u go_bind_simps prod.case s1_def [symmetric] Let_def b
        if_not_P [OF a(2)] c(1) d using a(1) by simp
    have "in_cluster s4" using g_inv_in_cluster [OF i1] by (simp add: s4_def in_cluster_def)
    moreover have "g_log s4 = ?m" "g_cap s4 = c" "g_fd s4 = Some f" "g_currentTerm s4 = g_currentTerm s1" "g_clusterIndex s4 = g_clusterIndex s"
      "g_commitIndex s4 = (if ga_LeaderCommit req > g_commitIndex s then min (ga_LeaderCommit req) (word_of_int (int (length ?m) - 1)) else g_commitIndex s)"
      using S1 f(1) by (simp_all add: s4_def)
    ultimately show ?thesis using store [of s4 f] True h f c(2) S1(2) by simp
  qed
qed

lemma HandleAppendEntriesRequest_inv:
  assumes "HandleAppendEntriesRequest env req s = Inr (s', rsp)" "g_inv s" "env_ok env"
  shows "g_inv s' \<and> g_clusterIndex s' = g_clusterIndex s"
proof (rule HandleAppendEntriesRequest_cases [OF assms(2,3), of req])
  fix s4 f
  assume s4: "valid_previous req (g_log s)" "in_cluster s4" "g_clusterIndex s4 = g_clusterIndex s"
    "HandleAppendEntriesRequest env req s = go_bind (persist (new_entries req (g_log s) \<noteq> 0) (int (new_entries req (g_log s))) s4)
         (\<lambda>s5. Inr (s5, \<lparr>gar_Term = max (g_currentTerm s) (ga_Term req), gar_Success = True\<rparr>))"
    and l: "g_log s4 = merged req (g_log s)" "length (g_log s4) \<le> g_cap s4"
    and f: "g_fd s4 = Some f" "disk_log f (g_log s)" "2 \<le> length (g_log s) \<longrightarrow> PAGE_SIZE + ENTRY_SIZE * length (g_log s) \<le> length f"
  let ?n = "new_entries req (g_log s)"
  have ne: "g_log s \<noteq> []" using assms(2) by (simp add: g_inv_def)
  have p: "persist (?n \<noteq> 0) (int ?n) s4 = Inr s'" using assms(1) unfolding s4(4) by (simp add: go_bind_eq_Inr)
  have k: "disk_log f (take (kept (int ?n \<noteq> 0) (int ?n) (length (g_log s4))) (g_log s4))"
    unfolding l(1) merged_def new_entries_def by (rule merge_kept [OF f(2) next_le [OF s4(1) ne] refl])
  have "g_inv s'"
    by (rule persist_inv [OF p s4(2) _ l(2) f(1)])
      (use k l(1) ne f(3) in \<open>auto simp: merged_def merge_log_ne new_entries_def merge_log_same\<close>)
  moreover from p have "g_clusterIndex s' = g_clusterIndex s" by (rule persist_Inr [OF _ s4(2)]) (simp add: s4(3))
  ultimately show ?thesis by blast
qed (use assms(1) in auto)

lemma HandleAppendEntriesRequest_spec:
  assumes "g_inv s" "env_ok env"
    and "follows req s \<Longrightarrow> valid_previous req (g_log s) \<Longrightarrow> \<forall>e \<in> set (ga_Entries req). length (ge_Command e) \<le> 112"
  shows "\<exists>s' rsp. HandleAppendEntriesRequest env req s = Inr (s', rsp)
    \<and> gar_Term rsp = max (g_currentTerm s) (ga_Term req) \<and> g_currentTerm s' = gar_Term rsp
    \<and> (gar_Success rsp \<longleftrightarrow> follows req s \<and> valid_previous req (g_log s))
    \<and> g_log s' = (if gar_Success rsp then merged req (g_log s) else g_log s)
    \<and> g_commitIndex s' = (if gar_Success rsp \<and> ga_LeaderCommit req > g_commitIndex s
         then min (ga_LeaderCommit req) (word_of_int (int (length (g_log s')) - 1)) else g_commitIndex s)"
proof (rule HandleAppendEntriesRequest_cases [OF assms(1,2), of req])
  fix s4 f
  assume s4: "follows req s" "valid_previous req (g_log s)" "in_cluster s4"
    "HandleAppendEntriesRequest env req s = go_bind (persist (new_entries req (g_log s) \<noteq> 0) (int (new_entries req (g_log s))) s4)
         (\<lambda>s5. Inr (s5, \<lparr>gar_Term = max (g_currentTerm s) (ga_Term req), gar_Success = True\<rparr>))"
    and l: "g_log s4 = merged req (g_log s)" "g_currentTerm s4 = max (g_currentTerm s) (ga_Term req)" "g_fd s4 = Some f"
      "g_commitIndex s4 = (if ga_LeaderCommit req > g_commitIndex s
         then min (ga_LeaderCommit req) (word_of_int (int (length (g_log s4)) - 1)) else g_commitIndex s)"
  let ?n = "new_entries req (g_log s)"
  have "g_log s \<noteq> []" using assms(1) by (simp add: g_inv_def)
  then have "\<forall>e \<in> set (drop (kept (?n \<noteq> 0) (int ?n) (length (g_log s4))) (g_log s4)). length (ge_Command e) \<le> 112" if "?n \<noteq> 0"
    using merge_new [OF next_le [OF s4(2)] refl, of "ga_Entries req"] that assms(3) s4(1,2) unfolding l(1) merged_def new_entries_def by auto
  then obtain f' where "persist (?n \<noteq> 0) (int ?n) s4 = Inr (s4\<lparr>g_fd := Some f'\<rparr>)"
    using persist_total [OF s4(3) l(3), of "?n \<noteq> 0" "int ?n"] by auto
  then show ?thesis using s4 l by simp
qed auto

section \<open>The other operations keep the invariant\<close>

lemma g_inv_appended:
  assumes "g_inv s" "persist True n s1 = Inr s'" "0 \<le> n" "env_ok env"
    and "s1 = log_appends env es s0" "n = int (length es)" "g_log s0 = g_log s" "g_cap s0 = g_cap s" "g_fd s0 = g_fd s" "in_cluster s0"
  shows "g_inv s'"
proof -
  obtain c where c: "s1 = s0\<lparr>g_log := g_log s0 @ es, g_cap := c\<rparr>" using log_appends_eq assms(5) by blast
  have cap: "length (g_log s1) \<le> g_cap s1"
    unfolding assms(5) by (rule log_appends_cap [OF assms(4)]) (use assms(1,7,8) in \<open>simp add: g_inv_def\<close>)
  obtain f where f: "g_fd s = Some f" "disk_log f (g_log s)" using assms(1) by (auto simp: g_inv_def)
  have "disk_log f (take (kept True n (length (g_log s1))) (g_log s1))"
    using f(2) assms(6,7) c disk_log_take by (auto simp: kept_def)
  moreover have "in_cluster s1" "g_log s1 \<noteq> []" "g_fd s1 = Some f"
    using assms(1,7,9,10) c f(1) by (simp_all add: in_cluster_def g_inv_def)
  ultimately show ?thesis using persist_inv [OF assms(2), of f] cap assms(3) by simp
qed

lemma g_Apply_inv:
  assumes "g_Apply env cs s = Inr (s', r)" "g_inv s" "env_ok env"
  shows "g_inv s'"
proof (cases "g_state s = leaderState")
  case True
  define es where "es = map (\<lambda>(c, ch). \<lparr>ge_Command = c, ge_Term = g_currentTerm s, ge_result = Some ch\<rparr>)
    (zip cs [g_channels s..<g_channels s + length cs])"
  have "persist True (int (length cs)) (log_appends env es (s\<lparr>g_channels := g_channels s + length cs\<rparr>)) = Inr s'"
    using assms(1) True by (auto simp: g_Apply_def Let_def es_def go_bind_eq_Inr)
  then show ?thesis
    by (rule g_inv_appended [OF assms(2) _ _ assms(3) refl])
      (use g_inv_in_cluster [OF assms(2)] in \<open>simp_all add: es_def in_cluster_def\<close>)
qed (use assms in \<open>simp add: g_Apply_def\<close>)

lemma timeout_inv:
  assumes "timeout env s = Inr (s', b)" "g_inv s"
  shows "g_inv s'"
proof (cases "now env > g_electionTimeout s")
  case True
  then have "persist False 0 (resetElectionTimeout env (s\<lparr>g_state := candidateState, g_currentTerm := g_currentTerm s + 1,
      g_cluster := map (\<lambda>(i, m). m\<lparr>cm_votedFor := (if int i = g_clusterIndex s then g_id s else 0)\<rparr>) (enumerate 0 (g_cluster s))\<rparr>)) = Inr s'"
    using assms(1) by (auto simp: timeout_def Let_def go_bind_eq_Inr)
  then show ?thesis
    by (rule persist_same_log [OF _ assms(2)])
      (use g_inv_in_cluster [OF assms(2)] in \<open>simp_all add: in_cluster_def resetElectionTimeout_def Let_def\<close>)
qed (use assms in \<open>simp add: timeout_def\<close>)

lemma becomeLeader_inv:
  assumes "becomeLeader env s = Inr s'" "g_inv s" "env_ok env"
  shows "g_inv s'"
proof (cases "vote_quorum (g_id s) (g_cluster s) (length (g_cluster s) div 2 + 1) = 0")
  case True
  define s1 where "s1 = s\<lparr>g_cluster := map (\<lambda>m. m\<lparr>cm_nextIndex := word_of_nat (length (g_log s) + 1), cm_matchIndex := 0\<rparr>) (g_cluster s),
                      g_state := leaderState\<rparr>"
  define e where "e = \<lparr>ge_Command = [], ge_Term = g_currentTerm s, ge_result = None\<rparr>"
  have "log_append env [e] s1 = log_appends env [e] s1" by (simp add: log_appends_def)
  then obtain s3 where s3: "persist True 1 (log_appends env [e] s1) = Inr s3" "s' = s3\<lparr>g_heartbeatTimeout := now env\<rparr>"
    using assms(1) True by (auto simp: becomeLeader_def Let_def go_bind_eq_Inr s1_def e_def)
  have "g_inv s3"
    by (rule g_inv_appended [OF assms(2) s3(1) _ assms(3) refl])
      (use g_inv_in_cluster [OF assms(2)] in \<open>simp_all add: s1_def in_cluster_def\<close>)
  then show ?thesis by (rule g_inv_cong) (simp_all add: s3(2) own_vote_def)
qed (use assms in \<open>simp add: becomeLeader_def\<close>)

lemma commit_loop_eq: "\<exists>c. commit_loop s i = s\<lparr>g_commitIndex := c\<rparr>"
proof (induction s i rule: commit_loop.induct)
  case (1 s i)
  show ?case
  proof (cases "i > unat (g_commitIndex s) \<and> quorum_loop (g_clusterIndex s) (word_of_nat i) 0 (g_cluster s) (length (g_cluster s) div 2 + 1) \<noteq> 0")
    case True
    then show ?thesis using 1 by (subst commit_loop.simps) (auto simp: Let_def)
  next
    case False
    then show ?thesis
      by (subst commit_loop.simps) (auto simp: Let_def intro: exI [of _ "g_commitIndex s"])
  qed
qed

lemma advanceCommitIndex_inv:
  assumes "advanceCommitIndex applyCmd s = Inr (s', r)" "g_inv s"
  shows "g_inv s'"
proof -
  define s1 where "s1 = (if g_state s = leaderState then commit_loop s (unat (word_of_int (int (length (g_log s)) - 1) :: uint64)) else s)"
  obtain c where c: "s1 = s\<lparr>g_commitIndex := c\<rparr>"
    unfolding s1_def using commit_loop_eq [of s] by (metis GServer.surjective GServer.update_convs(13))
  have "s' = s1\<lparr>g_statemachine := g_statemachine s', g_lastApplied := g_lastApplied s'\<rparr>"
    using assms(1) unfolding advanceCommitIndex_def s1_def [symmetric] Let_def
    by (auto simp: go_bind_eq_Inr split: if_splits prod.splits)
  then have "s' = s\<lparr>g_commitIndex := c, g_statemachine := g_statemachine s', g_lastApplied := g_lastApplied s'\<rparr>" by (simp add: c)
  then obtain sm la where "s' = s\<lparr>g_commitIndex := c, g_statemachine := sm, g_lastApplied := la\<rparr>" by (rule that)
  then show ?thesis by (intro g_inv_cong [OF assms(2)]) (simp_all add: own_vote_def)
qed

lemma tick_inv:
  assumes "tick applyCmd env s = Inr (s', r)" "g_inv s" "env_ok env"
  shows "g_inv s'"
proof -
  have h: "g_inv (fst (heartbeat env s))" by (rule g_inv_cong [OF assms(2)]) (simp_all add: heartbeat_def own_vote_def)
  show ?thesis
    using assms(1) h assms(2)
    by (cases "heartbeat env s")
      (auto simp: tick_def go_bind_eq_Inr split: if_splits ServerState.splits prod.splits
        dest: advanceCommitIndex_inv timeout_inv becomeLeader_inv [OF _ _ assms(3)])
qed

section \<open>Runs with restarts\<close>

text \<open>A server of a cluster from its first start on an empty disk: rounds of the main loop, requests of the other
  members, their responses, calls of users, and restarts of the process on the file that is there. The
  clock, the random numbers and the slice capacities are arbitrary in every step. The restart step is
  for logs whose length fits its field of the header.\<close>

inductive g_run :: "('sm \<Rightarrow> byte list \<Rightarrow> ('sm \<times> ApplyResult) go) \<Rightarrow> ClusterMember list \<Rightarrow> 'sm \<Rightarrow> string \<Rightarrow> int \<Rightarrow> 'sm GServer \<Rightarrow> bool"
  for applyCmd cluster sm dir self where
  boot: "env_ok env \<Longrightarrow> NewServer cluster sm dir self = Inr s0 \<Longrightarrow> g_Start env [] s0 = Inr s
    \<Longrightarrow> g_run applyCmd cluster sm dir self s"
| round: "g_run applyCmd cluster sm dir self s \<Longrightarrow> env_ok env \<Longrightarrow> tick applyCmd env s = Inr (s', out)
    \<Longrightarrow> g_run applyCmd cluster sm dir self s'"
| vote_call: "g_run applyCmd cluster sm dir self s \<Longrightarrow> env_ok env \<Longrightarrow> HandleRequestVoteRequest env vreq s = Inr (s', vrsp)
    \<Longrightarrow> g_run applyCmd cluster sm dir self s'"
| append_call: "g_run applyCmd cluster sm dir self s \<Longrightarrow> env_ok env \<Longrightarrow> HandleAppendEntriesRequest env areq s = Inr (s', arsp)
    \<Longrightarrow> g_run applyCmd cluster sm dir self s'"
| vote_reply: "g_run applyCmd cluster sm dir self s \<Longrightarrow> env_ok env \<Longrightarrow> int i \<noteq> self \<Longrightarrow> voteResponse env i vreq vrsp s = Inr s'
    \<Longrightarrow> g_run applyCmd cluster sm dir self s'"
| append_reply: "g_run applyCmd cluster sm dir self s \<Longrightarrow> env_ok env \<Longrightarrow> int i \<noteq> self \<Longrightarrow> appendResponse env i areq arsp s = Inr s'
    \<Longrightarrow> g_run applyCmd cluster sm dir self s'"
| user_call: "g_run applyCmd cluster sm dir self s \<Longrightarrow> env_ok env \<Longrightarrow> g_Apply env commands s = Inr (s', res)
    \<Longrightarrow> g_run applyCmd cluster sm dir self s'"
| restart: "g_run applyCmd cluster sm dir self s \<Longrightarrow> env_ok env \<Longrightarrow> length (g_log s) < 2 ^ 64 \<Longrightarrow> g_fd s = Some disk
    \<Longrightarrow> NewServer cluster sm dir self = Inr s0 \<Longrightarrow> g_Start env disk s0 = Inr s'
    \<Longrightarrow> g_run applyCmd cluster sm dir self s'"

text \<open>A configuration as users can write it: the votes are not exported, so they are zero.\<close>

definition no_votes :: "ClusterMember list \<Rightarrow> bool" where
  "no_votes cluster \<longleftrightarrow> (\<forall>m \<in> set cluster. cm_votedFor m = 0)"

lemma NewServer_fields:
  assumes "NewServer cluster sm dir self = Inr s0" "no_votes cluster"
  shows "in_cluster s0" "g_fd s0 = None" "own_vote s0 = 0" "g_currentTerm s0 = 0" "g_log s0 = []" "g_cap s0 = 0"
    "g_clusterIndex s0 = self" "g_cluster s0 = cluster"
proof -
  have r: "0 \<le> self \<and> self < int (length cluster)" "s0 = \<lparr>g_done = False, g_currentTerm = 0, g_log = [], g_cap = 0, g_id = g_id s0, g_address = g_address s0,
             g_electionTimeout = 0, g_heartbeatMs = 300, g_heartbeatTimeout = 0, g_statemachine = sm, g_metadataDir = dir,
             g_fd = None, g_commitIndex = 0, g_lastApplied = 0, g_state = noState, g_cluster = cluster,
             g_clusterIndex = self, g_channels = 0\<rparr>"
    using assms(1) by (auto simp: NewServer_def go_bind_eq_Inr go_index_def split: if_splits)
  then obtain i a where s0: "s0 = \<lparr>g_done = False, g_currentTerm = 0, g_log = [], g_cap = 0, g_id = i, g_address = a,
             g_electionTimeout = 0, g_heartbeatMs = 300, g_heartbeatTimeout = 0, g_statemachine = sm, g_metadataDir = dir,
             g_fd = None, g_commitIndex = 0, g_lastApplied = 0, g_state = noState, g_cluster = cluster,
             g_clusterIndex = self, g_channels = 0\<rparr>" by blast
  have "cluster ! nat self \<in> set cluster" using r(1) by (intro nth_mem) linarith
  then show "in_cluster s0" "g_fd s0 = None" "own_vote s0 = 0" "g_currentTerm s0 = 0" "g_log s0 = []" "g_cap s0 = 0"
    "g_clusterIndex s0 = self" "g_cluster s0 = cluster"
    using r(1) assms(2) by (simp_all add: s0 in_cluster_def own_vote_def no_votes_def)
qed

lemma disk_log_empty_file: "disk_log [] [zero_entry]"
  using decode_zeros by (simp add: disk_log_def record_at_def sparse_def ENTRY_SIZE_def without_channel_def zero_entry_def)

text \<open>Starting on an empty disk, and on the file of a server.\<close>

lemma g_Start_empty:
  assumes "g_Start env [] s0 = Inr s" "NewServer cluster sm dir self = Inr s0" "no_votes cluster" "env_ok env"
  shows "g_inv s" "g_log s = [zero_entry]" "g_clusterIndex s = self" "g_currentTerm s = 0" "g_fd s = Some []" "g_cluster s = cluster"
proof -
  note n = NewServer_fields [OF assms(2,3)]
  obtain c where c: "log_append env [zero_entry] (s0\<lparr>g_state := followerState, g_done := False, g_fd := Some []\<rparr>)
      = s0\<lparr>g_state := followerState, g_done := False, g_fd := Some [], g_log := [zero_entry], g_cap := c\<rparr>"
    using log_append_eq [of env "[zero_entry]" "s0\<lparr>g_state := followerState, g_done := False, g_fd := Some []\<rparr>"] n(5) by auto
  have "1 \<le> c" using log_append_cap [OF assms(4), of "s0\<lparr>g_state := followerState, g_done := False, g_fd := Some []\<rparr>" "[zero_entry]"] n
    by (simp add: c)
  moreover have "s = resetElectionTimeout env (s0\<lparr>g_state := followerState, g_done := False, g_fd := Some [], g_log := [zero_entry], g_cap := c\<rparr>)"
    using assms(1) n c by (simp add: g_Start_def restore_def Let_def ensureLog_def)
  ultimately show "g_inv s" "g_log s = [zero_entry]" "g_clusterIndex s = self" "g_currentTerm s = 0" "g_fd s = Some []" "g_cluster s = cluster"
    using n disk_log_empty_file by (auto simp: g_inv_def in_cluster_def own_vote_def)
qed

lemma g_Start_file:
  assumes "NewServer cluster sm dir self = Inr s0" "no_votes cluster" "env_ok env"
    and "g_inv s" "g_fd s = Some f" "f \<noteq> []" "length (g_log s) < 2 ^ 64" "PAGE_SIZE + ENTRY_SIZE * length (g_log s) \<le> length f"
  shows "\<exists>s'. g_Start env f s0 = Inr s' \<and> g_inv s' \<and> g_clusterIndex s' = self
    \<and> g_currentTerm s' = g_currentTerm s \<and> own_vote s' = own_vote s \<and> g_log s' = map without_channel (g_log s)"
proof -
  note n = NewServer_fields [OF assms(1,2)]
  have i: "disk_header f (g_currentTerm s) (own_vote s) (length (g_log s))" "disk_log f (g_log s)" "g_log s \<noteq> []"
    using assms(4-6) by (auto simp: g_inv_def)
  let ?s = "s0\<lparr>g_state := followerState, g_done := False\<rparr>"
  have "in_cluster ?s" using n(1) by (simp add: in_cluster_def)
  then obtain cl c where r: "restore env f ?s = Inr (?s\<lparr>g_fd := Some f, g_currentTerm := g_currentTerm s, g_cluster := cl, g_log := map without_channel (g_log s), g_cap := c\<rparr>)"
    "length (g_log s) \<le> c" "length cl = length (g_cluster s0)" "own_vote (?s\<lparr>g_cluster := cl\<rparr>) = own_vote s"
    using restore_ok [OF i(1,2) assms(8,3) i(3) assms(7), of ?s f] n(2) by auto
  let ?r = "?s\<lparr>g_fd := Some f, g_currentTerm := g_currentTerm s, g_cluster := cl, g_log := map without_channel (g_log s), g_cap := c\<rparr>"
  have "g_Start env f s0 = Inr (resetElectionTimeout env ?r)" using r(1) by (simp add: g_Start_def)
  moreover have v: "own_vote ?r = own_vote s" using r(4) by (simp add: own_vote_def)
  moreover have "g_inv (resetElectionTimeout env ?r)"
    using n(1) r(2,3) i assms(8) v by (simp add: g_inv_def disk_log_without_channel in_cluster_def)
  ultimately show ?thesis using n(7) by (intro exI [of _ "resetElectionTimeout env ?r"]) simp
qed

lemma g_Start_short:
  assumes "g_inv s" "g_fd s = Some f" "f \<noteq> []" "length (g_log s) < 2 ^ 64" "length f < PAGE_SIZE + ENTRY_SIZE * length (g_log s)" "g_fd s0 = None"
  shows "g_Start env f s0 \<noteq> Inr s'"
proof -
  have "disk_header f (g_currentTerm s) (own_vote s) (length (g_log s))" using assms(1-3) by (auto simp: g_inv_def)
  then show ?thesis
    using restore_short [OF _ assms(5,4), of _ _ "s0\<lparr>g_state := followerState, g_done := False\<rparr>" f env] assms(6)
    by (simp add: g_Start_def go_bind_eq_Inr)
qed

text \<open>No operation changes which member the server is.\<close>

lemma persist_self: "persist w n s = Inr s' \<Longrightarrow> g_clusterIndex s' = g_clusterIndex s"
proof -
  assume p: "persist w n s = Inr s'"
  then obtain v f where v: "getVotedFor s = Inr v" "g_fd s = Some f" by (auto simp: persist_def go_bind_eq_Inr split: option.splits)
  then show ?thesis using p
    by (cases "persist_file w n (g_currentTerm s) v (g_log s) f"; cases "snd (persist_file w n (g_currentTerm s) v (g_log s) f)")
      (auto simp: persist_def)
qed

lemma setVotedFor_self: "setVotedFor v s = Inr s' \<Longrightarrow> g_clusterIndex s' = g_clusterIndex s"
  by (auto simp: setVotedFor_def split: if_splits)

lemma log_appends_self [simp]: "g_clusterIndex (log_appends env es s) = g_clusterIndex s"
  using log_appends_eq [of env es s] by auto

lemma log_append_self [simp]: "g_clusterIndex (log_append env es s) = g_clusterIndex s"
  using log_append_eq [of env es s] by auto

lemma updateTerm_self: "updateTerm env t s = Inr (s', b) \<Longrightarrow> g_clusterIndex s' = g_clusterIndex s"
  by (auto simp: updateTerm_def go_bind_eq_Inr split: if_splits dest!: persist_self setVotedFor_self)

lemma commit_loop_self [simp]: "g_clusterIndex (commit_loop s i) = g_clusterIndex s"
  using commit_loop_eq [of s i] by auto

lemma advanceCommitIndex_self: "advanceCommitIndex applyCmd s = Inr (s', r) \<Longrightarrow> g_clusterIndex s' = g_clusterIndex s"
  by (auto simp: advanceCommitIndex_def go_bind_eq_Inr Let_def split: if_splits prod.splits)

lemma timeout_self: "timeout env s = Inr (s', b) \<Longrightarrow> g_clusterIndex s' = g_clusterIndex s"
  by (auto simp: timeout_def go_bind_eq_Inr Let_def split: if_splits dest!: persist_self)

lemma becomeLeader_self: "becomeLeader env s = Inr s' \<Longrightarrow> g_clusterIndex s' = g_clusterIndex s"
  by (auto simp: becomeLeader_def go_bind_eq_Inr Let_def split: if_splits dest!: persist_self)

lemma tick_self: "tick applyCmd env s = Inr (s', r) \<Longrightarrow> g_clusterIndex s' = g_clusterIndex s"
  by (auto simp: tick_def heartbeat_def go_bind_eq_Inr split: if_splits ServerState.splits prod.splits
    dest!: advanceCommitIndex_self timeout_self becomeLeader_self)

lemma HandleRequestVoteRequest_self:
  assumes "HandleRequestVoteRequest env req s = Inr (s', rsp)"
  shows "g_clusterIndex s' = g_clusterIndex s"
proof -
  obtain s1 b where u: "updateTerm env (gv_Term req) s = Inr (s1, b)"
    using assms(1) by (auto simp: HandleRequestVoteRequest_def go_bind_eq_Inr)
  have "s' = s1 \<or> (\<exists>s2. setVotedFor (gv_CandidateId req) s1 = Inr s2 \<and> persist False 0 (resetElectionTimeout env s2) = Inr s')"
    using assms(1) u by (auto simp: HandleRequestVoteRequest_def go_bind_eq_Inr Let_def split: if_splits)
  then show ?thesis using updateTerm_self [OF u] by (auto dest!: setVotedFor_self persist_self)
qed

lemma voteResponse_self:
  assumes "voteResponse env i req rsp s = Inr s'"
  shows "g_clusterIndex s' = g_clusterIndex s"
proof -
  obtain s1 b where u: "updateTerm env (gvr_Term rsp) s = Inr (s1, b)" using assms by (auto simp: voteResponse_def go_bind_eq_Inr)
  then show ?thesis using assms updateTerm_self [OF u] by (auto simp: voteResponse_def split: if_splits)
qed

lemma appendResponse_self:
  assumes "appendResponse env i req rsp s = Inr s'"
  shows "g_clusterIndex s' = g_clusterIndex s"
proof -
  obtain s1 b where u: "updateTerm env (gar_Term rsp) s = Inr (s1, b)" using assms by (auto simp: appendResponse_def go_bind_eq_Inr)
  then show ?thesis using assms updateTerm_self [OF u] by (auto simp: appendResponse_def Let_def split: if_splits)
qed

lemma g_Apply_self: "g_Apply env cs s = Inr (s', res) \<Longrightarrow> g_clusterIndex s' = g_clusterIndex s"
  by (auto simp: g_Apply_def go_bind_eq_Inr Let_def split: if_splits dest!: persist_self)

text \<open>The invariant of every run.\<close>

lemma g_run_inv:
  assumes "g_run applyCmd cluster sm dir self s" "no_votes cluster"
  shows "g_inv s \<and> g_clusterIndex s = self"
  using assms(1)
proof induction
  case (boot env s0 s)
  show ?case using g_Start_empty(1,3) [OF boot.hyps(3,2) assms(2) boot.hyps(1)] by simp
next
  case (round s env s' out)
  then show ?case using tick_inv [OF round.hyps(3) _ round.hyps(2)] tick_self [OF round.hyps(3)] by simp
next
  case (vote_call s env vreq s' vrsp)
  then show ?case using HandleRequestVoteRequest_inv [OF vote_call.hyps(3)] HandleRequestVoteRequest_self [OF vote_call.hyps(3)] by simp
next
  case (append_call s env areq s' arsp)
  then show ?case using HandleAppendEntriesRequest_inv [OF append_call.hyps(3) _ append_call.hyps(2)] by simp
next
  case (vote_reply s env i vreq vrsp s')
  then show ?case using voteResponse_inv [OF vote_reply.hyps(4)] voteResponse_self [OF vote_reply.hyps(4)] by simp
next
  case (append_reply s env i areq arsp s')
  then show ?case using appendResponse_inv [OF append_reply.hyps(4)] appendResponse_self [OF append_reply.hyps(4)] by simp
next
  case (user_call s env commands s' res)
  then show ?case using g_Apply_inv [OF user_call.hyps(3) _ user_call.hyps(2)] g_Apply_self [OF user_call.hyps(3)] by simp
next
  case (restart s env disk s0 s')
  note n = NewServer_fields [OF restart.hyps(5) assms(2)]
  have "disk = [] \<or> PAGE_SIZE + ENTRY_SIZE * length (g_log s) \<le> length disk"
    using g_Start_short [OF _ restart.hyps(4) _ restart.hyps(3) _ n(2), of env s'] restart.IH restart.hyps(6) by (meson not_less)
  then show ?case
    using g_Start_empty(1,3) [OF _ restart.hyps(5) assms(2) restart.hyps(2)] restart.IH restart.hyps(6)
      g_Start_file [OF restart.hyps(5) assms(2) restart.hyps(2) _ restart.hyps(4) _ restart.hyps(3)]
    by (cases "disk = []") auto
qed

section \<open>Commitment\<close>

definition holders :: "int \<Rightarrow> nat \<Rightarrow> nat \<Rightarrow> ClusterMember list \<Rightarrow> nat" where
  "holders self i j ms = length (filter (\<lambda>(k, m). int k = self \<or> cm_matchIndex m \<ge> word_of_nat i) (enumerate j ms))"

definition has_quorum :: "'sm GServer \<Rightarrow> nat \<Rightarrow> bool" where
  "has_quorum s i \<longleftrightarrow> length (g_cluster s) div 2 < holders (g_clusterIndex s) i 0 (g_cluster s)"

lemma quorum_loop_eq: "quorum_loop self (word_of_nat i) j ms q = q - holders self i j ms"
  by (induction ms arbitrary: j q) (auto simp: holders_def)

lemma Max_extend:
  assumes "P (Suc i)" "n \<le> Suc i"
  shows "Max (insert n {j. j \<le> Suc i \<and> P j}) = Suc (i::nat)"
  by (rule Max_eqI) (use assms in \<open>auto intro: finite_subset [of _ "{..Suc i}"]\<close>)

lemma Collect_le_Suc: "\<not> P (Suc i) \<Longrightarrow> {j. j \<le> Suc i \<and> P j} = {j. j \<le> i \<and> P j}"
  by (auto simp: le_Suc_eq)

lemma commit_loop_spec:
  "i < 2 ^ 64 \<Longrightarrow> unat (g_commitIndex (commit_loop s i)) = Max (insert (unat (g_commitIndex s)) {j. j \<le> i \<and> has_quorum s j})"
proof (induction i)
  case 0
  have "Max (insert (unat (g_commitIndex s)) {j. j \<le> 0 \<and> has_quorum s j}) = unat (g_commitIndex s)"
    by (intro Max_eqI) (auto intro: finite_subset [of _ "{0}"])
  then show ?case by (subst commit_loop.simps) simp
next
  case (Suc i)
  let ?c = "unat (g_commitIndex s)"
  have u: "unat (word_of_nat (Suc i) :: uint64) = Suc i" by (rule unat_len64 [OF Suc.prems])
  have q: "quorum_loop (g_clusterIndex s) (word_of_nat (Suc i)) 0 (g_cluster s) (length (g_cluster s) div 2 + 1) = 0 \<longleftrightarrow> has_quorum s (Suc i)"
    unfolding quorum_loop_eq has_quorum_def by auto
  consider "Suc i \<le> ?c" | "?c < Suc i" "has_quorum s (Suc i)" | "?c < Suc i" "\<not> has_quorum s (Suc i)" by linarith
  then show ?case
  proof cases
    case 1
    then have "Max (insert ?c {j. j \<le> Suc i \<and> has_quorum s j}) = ?c"
      by (intro Max_eqI) (auto intro: finite_subset [of _ "{..Suc i}"])
    then show ?thesis using 1 by (subst commit_loop.simps) simp
  next
    case 2
    then show ?thesis using q u Max_extend [of "has_quorum s" i ?c] by (subst commit_loop.simps) (simp add: Let_def del: of_nat_Suc)
  next
    case 3
    then show ?thesis using q Suc by (subst commit_loop.simps) (simp add: Let_def Collect_le_Suc del: of_nat_Suc)
  qed
qed

lemma advanceCommitIndex_commits:
  assumes "advanceCommitIndex applyCmd s = Inr (s', out)" "g_state s = leaderState" "g_log s \<noteq> []" "length (g_log s) \<le> 2 ^ 64"
  shows "unat (g_commitIndex s') = Max (insert (unat (g_commitIndex s)) {j. j < length (g_log s) \<and> has_quorum s j})"
proof -
  let ?i = "length (g_log s) - 1"
  have l: "?i < 2 ^ 64" "int (length (g_log s)) - 1 = int ?i" using assms(3,4) by (cases "g_log s"; simp)+
  have "unat (word_of_int (int (length (g_log s)) - 1) :: uint64) = ?i" unfolding l(2) using unat_len64 [OF l(1)] by simp
  then have "g_commitIndex s' = g_commitIndex (commit_loop s ?i)"
    using assms(1,2) by (auto simp: advanceCommitIndex_def Let_def go_bind_eq_Inr split: if_splits prod.splits)
  moreover have "{j. j \<le> ?i \<and> has_quorum s j} = {j. j < length (g_log s) \<and> has_quorum s j}" using assms(3) by (cases "g_log s") auto
  ultimately show ?thesis using commit_loop_spec [OF l(1), of s] by simp
qed


end
