(* ===== verification/GoraftKV.thy ===== *)
theory GoraftKV
  imports GoraftRuns
begin

text \<open>
  The key-value server of \<^verbatim>\<open>src/goraft/cmd/kvapi/main.go\<close> on top of the goraft server: the encoding of its
  commands, the state machine that applies them, and the HTTP handlers. A Go string is a list of bytes;
  the values of the query parameters are arguments.
\<close>

section \<open>Commands\<close>

definition setCommand :: byte where "setCommand = 0"
definition getCommand :: byte where "getCommand = 1"

record kvcommand =
  kc_kind :: byte
  kc_key :: "byte list"
  kc_value :: "byte list"

definition encodeCommand :: "kvcommand \<Rightarrow> byte list" where
  "encodeCommand c =
     kc_kind c # PutUint64 (word_of_nat (length (kc_key c))) @ kc_key c
     @ PutUint64 (word_of_nat (length (kc_value c))) @ kc_value c"

text \<open>A message that is too short panics; its slice has no capacity beyond its length.\<close>

definition decodeCommand :: "byte list \<Rightarrow> kvcommand go" where
  "decodeCommand msg =
     go_bind (go_index msg 0) (\<lambda>kind.
     go_bind (go_range msg 1 9) (\<lambda>b.
     let keyLen = Uint64 b in
     go_bind (go_range msg 9 (uint (9 + keyLen))) (\<lambda>key.
       if kind = setCommand
       then go_bind (go_range msg (uint (9 + keyLen)) (uint (9 + keyLen + 8))) (\<lambda>b'.
              let valLen = Uint64 b' in
              go_bind (go_range msg (uint (9 + keyLen + 8)) (uint (9 + keyLen + 8 + valLen))) (\<lambda>value.
                Inr \<lparr>kc_kind = kind, kc_key = key, kc_value = value\<rparr>))
       else Inr \<lparr>kc_kind = kind, kc_key = key, kc_value = []\<rparr>)))"

section \<open>The state machine\<close>

type_synonym kvdb = "byte list \<rightharpoonup> byte list"

definition sm_Apply :: "kvdb \<Rightarrow> byte list \<Rightarrow> (kvdb \<times> ApplyResult) go" where
  "sm_Apply db cmd =
     go_bind (decodeCommand cmd) (\<lambda>c.
       if kc_kind c = setCommand then Inr (db(kc_key c \<mapsto> kc_value c), \<lparr>ar_Result = [], ar_Error = None\<rparr>)
       else if kc_kind c = getCommand
       then (case db (kc_key c) of
               None \<Rightarrow> Inr (db, \<lparr>ar_Result = [], ar_Error = Some ''Key not found''\<rparr>)
             | Some value \<Rightarrow> Inr (db, \<lparr>ar_Result = value, ar_Error = None\<rparr>))
       else Inr (db, \<lparr>ar_Result = [], ar_Error = Some ''Unknown command''\<rparr>))"

section \<open>The handlers\<close>

text \<open>What an HTTP handler writes, or the channels of the Raft call that it waits for.\<close>

datatype kv_http = Http_body "byte list" | Http_error nat | Http_waits "nat list"

definition setHandler :: "Env \<Rightarrow> byte list \<Rightarrow> byte list \<Rightarrow> kvdb GServer \<Rightarrow> (kvdb GServer \<times> kv_http) go" where
  "setHandler env key value s =
     go_bind (g_Apply env [encodeCommand \<lparr>kc_kind = setCommand, kc_key = key, kc_value = value\<rparr>] s) (\<lambda>(s', r).
       Inr (s', case r of ErrApplyToLeader \<Rightarrow> Http_error 400 | Waiting chs \<Rightarrow> Http_waits chs))"

text \<open>The results of the call do not matter to it.\<close>

definition setHandler_results :: "ApplyResult list \<Rightarrow> kv_http" where
  "setHandler_results results = Http_body []"

definition getHandler :: "Env \<Rightarrow> byte list \<Rightarrow> bool \<Rightarrow> kvdb GServer \<Rightarrow> (kvdb GServer \<times> kv_http) go" where
  "getHandler env key relaxed s =
     (if relaxed
      then Inr (s, case g_statemachine s key of None \<Rightarrow> Http_error 500 | Some v \<Rightarrow> Http_body v)
      else go_bind (g_Apply env [encodeCommand \<lparr>kc_kind = getCommand, kc_key = key, kc_value = []\<rparr>] s) (\<lambda>(s', r).
             Inr (s', case r of ErrApplyToLeader \<Rightarrow> Http_error 500 | Waiting chs \<Rightarrow> Http_waits chs)))"

definition getHandler_results :: "ApplyResult list \<Rightarrow> kv_http" where
  "getHandler_results results =
     (case results of
        [r] \<Rightarrow> (case ar_Error r of Some _ \<Rightarrow> Http_error 500 | None \<Rightarrow> Http_body (ar_Result r))
      | _ \<Rightarrow> Http_error 500)"

section \<open>Properties\<close>

lemma length_encodeCommand: "length (encodeCommand c) = 17 + length (kc_key c) + length (kc_value c)"
  by (simp add: encodeCommand_def)

lemma uint_nat64: "n < 2 ^ 64 \<Longrightarrow> uint (word_of_nat n :: uint64) = int n"
  using unat_len64 [of n] by (metis uint_nat)

lemma command_decodes:
  assumes "length (encodeCommand c) < 2 ^ 64"
  shows "decodeCommand (encodeCommand c) = Inr (if kc_kind c = setCommand then c else c\<lparr>kc_value := []\<rparr>)"
proof -
  let ?k = "length (kc_key c)" and ?v = "length (kc_value c)" and ?m = "encodeCommand c"
  have l: "17 + ?k + ?v < 2 ^ 64" using assms by (simp add: length_encodeCommand)
  have w: "(9 + word_of_nat ?k :: uint64) = word_of_nat (9 + ?k)" "(9 + word_of_nat ?k + 8 :: uint64) = word_of_nat (17 + ?k)"
    "(9 + word_of_nat ?k + 8 + word_of_nat ?v :: uint64) = word_of_nat (17 + ?k + ?v)" by simp_all
  have u: "uint (9 + word_of_nat ?k :: uint64) = 9 + int ?k" "uint (9 + word_of_nat ?k + 8 :: uint64) = 17 + int ?k"
    "uint (9 + word_of_nat ?k + 8 + word_of_nat ?v :: uint64) = 17 + int ?k + int ?v"
    using uint_nat64 [of "9 + ?k"] uint_nat64 [of "17 + ?k"] uint_nat64 [of "17 + ?k + ?v"] l
    unfolding w [symmetric] by simp_all
  have s: "take 8 (drop 1 ?m) = PutUint64 (word_of_nat ?k)" "take ?k (drop 9 ?m) = kc_key c"
    "take 8 (drop (9 + ?k) ?m) = PutUint64 (word_of_nat ?v)" "take ?v (drop (17 + ?k) ?m) = kc_value c"
    by (simp_all add: encodeCommand_def drop_Cons')
  have r: "go_range ?m 1 9 = Inr (PutUint64 (word_of_nat ?k))" "go_range ?m 9 (9 + int ?k) = Inr (kc_key c)"
    "go_range ?m (9 + int ?k) (17 + int ?k) = Inr (PutUint64 (word_of_nat ?v))"
    "go_range ?m (17 + int ?k) (17 + int ?k + int ?v) = Inr (kc_value c)"
    using s by (simp_all add: go_range_def length_encodeCommand nat_add_distrib)
  have i: "go_index ?m 0 = Inr (kc_kind c)" by (simp add: go_index_def encodeCommand_def)
  show ?thesis
    unfolding decodeCommand_def Let_def i r go_bind_simps Uint64_PutUint64 u by (cases c) simp
qed

text \<open>Decoding an encoded command of a length that fits a 64-bit integer gives the command back, without
  the value when it is not a set command.\<close>

theorem kvapi_command_roundtrip:
  assumes "length (encodeCommand c) < 2 ^ 64"
  shows "decodeCommand (encodeCommand c) = Inr (if kc_kind c = setCommand then c else c\<lparr>kc_value := []\<rparr>)"
  by (rule command_decodes [OF assms])

theorem kvapi_command_roundtrip_witness:
  "decodeCommand (encodeCommand \<lparr>kc_kind = setCommand, kc_key = [120], kc_value = [1, 2]\<rparr>)
    = Inr \<lparr>kc_kind = setCommand, kc_key = [120], kc_value = [1, 2]\<rparr>"
  using kvapi_command_roundtrip [of "\<lparr>kc_kind = setCommand, kc_key = [120], kc_value = [1, 2]\<rparr>"]
  by (simp add: length_encodeCommand)

text \<open>C28: reading a key through the state machine gives what was last written to it, whatever was written to
  other keys, and a key that was never written is reported as not found.\<close>

theorem kvapi_set_get:
  assumes "length (encodeCommand c) < 2 ^ 64" "kc_kind c = setCommand" "length k < 2 ^ 63"
  shows "\<exists>db'. sm_Apply db (encodeCommand c) = Inr (db', \<lparr>ar_Result = [], ar_Error = None\<rparr>)
    \<and> sm_Apply db' (encodeCommand \<lparr>kc_kind = getCommand, kc_key = k, kc_value = []\<rparr>)
        = (if k = kc_key c then Inr (db', \<lparr>ar_Result = kc_value c, ar_Error = None\<rparr>)
           else case db k of None \<Rightarrow> Inr (db', \<lparr>ar_Result = [], ar_Error = Some ''Key not found''\<rparr>)
                | Some v \<Rightarrow> Inr (db', \<lparr>ar_Result = v, ar_Error = None\<rparr>))"
  using command_decodes [OF assms(1)] command_decodes [of "\<lparr>kc_kind = getCommand, kc_key = k, kc_value = []\<rparr>"] assms(2,3)
  by (auto simp: sm_Apply_def length_encodeCommand setCommand_def getCommand_def split: option.splits)

theorem kvapi_set_get_witness:
  "\<exists>db'. sm_Apply Map.empty (encodeCommand \<lparr>kc_kind = setCommand, kc_key = [120], kc_value = [1, 2]\<rparr>)
       = Inr (db', \<lparr>ar_Result = [], ar_Error = None\<rparr>)
     \<and> sm_Apply db' (encodeCommand \<lparr>kc_kind = getCommand, kc_key = [120], kc_value = []\<rparr>) = Inr (db', \<lparr>ar_Result = [1, 2], ar_Error = None\<rparr>)"
  using kvapi_set_get [of "\<lparr>kc_kind = setCommand, kc_key = [120], kc_value = [1, 2]\<rparr>" "[120]" Map.empty]
  by (simp add: length_encodeCommand)

text \<open>A set request to a leader whose key and value have together more than 95 bytes panics in the
  server, and one of at most 95 bytes is accepted: its entry is the last one of the log, and the request waits for
  its channel.\<close>

theorem kvapi_set_limit:
  assumes "g_run sm_Apply cluster Map.empty dir self s" "no_votes cluster" "env_ok env" "g_state s = leaderState"
  shows "if 95 < length key + length value then setHandler env key value s = Inl (Explicit ''Command is too large'')
    else \<exists>s'. setHandler env key value s = Inr (s', Http_waits [g_channels s])
      \<and> g_run sm_Apply cluster Map.empty dir self s' \<and> g_log s' = g_log s @ [\<lparr>ge_Command = encodeCommand \<lparr>kc_kind = setCommand, kc_key = key, kc_value = value\<rparr>,
                                ge_Term = g_currentTerm s, ge_result = Some (g_channels s)\<rparr>]"
proof -
  have i: "g_inv s" using g_run_inv [OF assms(1,2)] by blast
  define c where "c = encodeCommand \<lparr>kc_kind = setCommand, kc_key = key, kc_value = value\<rparr>"
  define e where "e = \<lparr>ge_Command = c, ge_Term = g_currentTerm s, ge_result = Some (g_channels s)\<rparr>"
  define s1 where "s1 = log_appends env [e] (s\<lparr>g_channels := Suc (g_channels s)\<rparr>)"
  have lc: "length c = 17 + length key + length value" by (simp add: c_def length_encodeCommand)
  obtain cap where s1: "s1 = s\<lparr>g_channels := Suc (g_channels s), g_log := g_log s @ [e], g_cap := cap\<rparr>"
    using log_appends_eq [of env "[e]" "s\<lparr>g_channels := Suc (g_channels s)\<rparr>"] by (auto simp: s1_def)
  have ap: "g_Apply env [c] s = go_bind (persist True 1 s1) (\<lambda>s2. Inr (s2, Waiting [g_channels s]))"
    using assms(4) by (simp add: g_Apply_def Let_def s1_def e_def)
  obtain f where f: "g_fd s = Some f" using g_inv_fd [OF i] by blast
  have ic: "in_cluster s1" using g_inv_in_cluster [OF i] by (simp add: s1 in_cluster_def)
  show ?thesis
  proof (cases "95 < length key + length value")
    case True
    then have "snd (persist_file True 1 (g_currentTerm s1) (own_vote s1) (g_log s1) f) = Some (Explicit ''Command is too large'')"
      using lc by (simp add: persist_file_def Let_def s1 e_def ENTRY_SIZE_def ENTRY_HEADER_def nat_diff_distrib)
    then have "persist True 1 s1 = Inl (Explicit ''Command is too large'')"
      using f getVotedFor_ok [OF ic] by (cases "persist_file True 1 (g_currentTerm s1) (own_vote s1) (g_log s1) f") (simp add: persist_def s1)
    then show ?thesis using True ap by (simp add: setHandler_def c_def)
  next
    case False
    then obtain f' where p: "persist True 1 s1 = Inr (s1\<lparr>g_fd := Some f'\<rparr>)"
      using persist_total [OF ic, of f True 1] f lc by (auto simp: s1 kept_def e_def)
    then have a: "g_Apply env [c] s = Inr (s1\<lparr>g_fd := Some f'\<rparr>, Waiting [g_channels s])" using ap by simp
    from g_run.user_call [OF assms(1,3) this] have "g_run sm_Apply cluster Map.empty dir self (s1\<lparr>g_fd := Some f'\<rparr>)" .
    then show ?thesis using False a unfolding setHandler_def c_def [symmetric] by (simp add: s1 e_def)
  qed
qed

theorem kvapi_set_limit_witness:
  "\<exists>s s'. g_run sm_Apply [member 7] Map.empty ''data'' 0 s \<and> setHandler (at_time 2000) [120] (replicate 95 1) s = Inl (Explicit ''Command is too large'')
    \<and> setHandler (at_time 2000) [120] [1] s = Inr (s', Http_waits [g_channels s]) \<and> length (g_log s') = 3"
proof (rule solo_leader [of sm_Apply Map.empty])
  fix s :: "kvdb GServer" and f
  assume s: "g_run sm_Apply [member 7] Map.empty ''data'' 0 s" "g_state s = leaderState" "map ge_Term (g_log s) = [0, 1]"
  have "length (g_log s) = 2" using s(3) by (metis length_map length_Cons list.size(3) numeral_2_eq_2)
  then show ?thesis
    using kvapi_set_limit [OF s(1) solo_no_votes env_ok_at_time s(2), of "[120]" "replicate 95 1" 2000]
      kvapi_set_limit [OF s(1) solo_no_votes env_ok_at_time s(2), of "[120]" "[1]" 2000] s(1) by auto
qed

end
