(* ===== verification/KademliaKey.thy ===== *)
theory KademliaKey
  imports Bytes Complex_Main
begin

text \<open>
  The keys of the Kademlia node (\<^verbatim>\<open>src/kademlia/utils.go\<close>, \<^verbatim>\<open>type.go\<close>): arrays of 18 bytes, their XOR distance and
  the index of the bucket a key belongs to. The hash, the signatures and the geographic position that go
  into a key are parameters.
\<close>

section \<open>Operations\<close>

definition CONST_K :: nat where "CONST_K = 20"
definition CONST_ALPHA :: nat where "CONST_ALPHA = 5"
definition CONST_KKEY_BYTE_COUNT :: nat where "CONST_KKEY_BYTE_COUNT = 18"
definition CONST_KKEY_BIT_COUNT :: nat where "CONST_KKEY_BIT_COUNT = CONST_KKEY_BYTE_COUNT * 8"

text \<open>An array of 18 bytes is a list of that length.\<close>

type_synonym KKey = "byte list"

definition is_kkey :: "KKey \<Rightarrow> bool" where
  "is_kkey k \<longleftrightarrow> length k = CONST_KKEY_BYTE_COUNT"

definition zero_kkey :: KKey where
  "zero_kkey = replicate CONST_KKEY_BYTE_COUNT 0"

definition Xor :: "KKey \<Rightarrow> KKey \<Rightarrow> KKey" where
  "Xor a b = map2 (XOR) a b"

text \<open>\<^verbatim>\<open>bits.LeadingZeros8\<close>\<close>

definition LeadingZeros8 :: "byte \<Rightarrow> nat" where
  "LeadingZeros8 b = length (takeWhile (\<lambda>i. \<not> bit b i) [7, 6, 5, 4, 3, 2, 1, 0])"

text \<open>The loop of \<^verbatim>\<open>LeadingZeros\<close> from byte \<open>i\<close> on.\<close>

fun leading_zeros_from :: "nat \<Rightarrow> KKey \<Rightarrow> nat" where
  "leading_zeros_from i [] = CONST_KKEY_BIT_COUNT"
| "leading_zeros_from i (b # bs) = (if b \<noteq> 0 then i * 8 + LeadingZeros8 b else leading_zeros_from (Suc i) bs)"

definition LeadingZeros :: "KKey \<Rightarrow> nat" where
  "LeadingZeros k = leading_zeros_from 0 k"

definition Distance :: "KKey \<Rightarrow> KKey \<Rightarrow> nat" where
  "Distance a b = LeadingZeros (Xor a b)"

text \<open>Keys on the wire are byte strings of any length.\<close>

definition ERR_INVALID_KEY :: goerr where
  "ERR_INVALID_KEY = Failure ''Invalid key''"

definition ToKKey :: "byte list \<Rightarrow> KKey res" where
  "ToKKey k = (if length k \<noteq> CONST_KKEY_BYTE_COUNT then Inl ERR_INVALID_KEY else Inr (copy_at 0 zero_kkey k))"

definition ApiKKey :: "KKey \<Rightarrow> byte list res" where
  "ApiKKey k = (if length k \<noteq> CONST_KKEY_BYTE_COUNT then Inl ERR_INVALID_KEY else Inr k)"

section \<open>Making keys\<close>

text \<open>The eight bytes of a 64-bit hash, highest first.\<close>

definition hash_bytes :: "64 word \<Rightarrow> byte list" where
  "hash_bytes h = [ucast (drop_bit 56 h), ucast (drop_bit 48 h), ucast (drop_bit 40 h), ucast (drop_bit 32 h),
     ucast (drop_bit 24 h), ucast (drop_bit 16 h), ucast (drop_bit 8 h), ucast h]"

text \<open>What the keys use of cryptography: SHA-256, the 64-bit hash, signatures, and public keys as bytes.\<close>

record ('sk, 'pk) Crypto =
  sha256 :: "byte list \<Rightarrow> byte list"
  sum64 :: "byte list \<Rightarrow> 64 word"
  sign :: "byte list \<Rightarrow> 'sk \<Rightarrow> byte list res"
  verify :: "byte list \<Rightarrow> byte list \<Rightarrow> byte list \<Rightarrow> bool"
  PublicKey :: "'sk \<Rightarrow> 'pk"
  MarshalCompressed :: "'pk \<Rightarrow> byte list"
  UnmarshalCompressed :: "byte list \<Rightarrow> 'pk option"
  UnmarshalUncompressed :: "byte list \<Rightarrow> 'pk option"
  PointXY :: "byte list \<Rightarrow> byte list \<Rightarrow> 'pk"

definition SignMessage :: "('sk, 'pk) Crypto \<Rightarrow> 'sk \<Rightarrow> byte list \<Rightarrow> byte list res" where
  "SignMessage cr privKey message = sign cr (sha256 cr message) privKey"

text \<open>A public key is a pointer, which may be nil.\<close>

definition ECDSAMarshal :: "('sk, 'pk) Crypto \<Rightarrow> 'pk option \<Rightarrow> byte list res" where
  "ECDSAMarshal cr pubKey =
     (case pubKey of None \<Rightarrow> Inl (Failure ''invalid ECDSA public key'') | Some p \<Rightarrow> Inr (MarshalCompressed cr p))"

definition ECDSAUnmarshal :: "('sk, 'pk) Crypto \<Rightarrow> byte list \<Rightarrow> 'pk res" where
  "ECDSAUnmarshal cr pubKey =
     (case UnmarshalCompressed cr pubKey of None \<Rightarrow> Inl (Failure ''invalid compressed public key'') | Some p \<Rightarrow> Inr p)"

definition BytesToECDSAPublicKey :: "('sk, 'pk) Crypto \<Rightarrow> byte list \<Rightarrow> 'pk res" where
  "BytesToECDSAPublicKey cr b =
     (if length b = 33
      then (case UnmarshalCompressed cr b of None \<Rightarrow> Inl (Failure ''invalid compressed public key'') | Some p \<Rightarrow> Inr p)
      else if length b = 65
      then (case UnmarshalUncompressed cr b of None \<Rightarrow> Inl (Failure ''invalid uncompressed public key'') | Some p \<Rightarrow> Inr p)
      else if length b = 64 then Inr (PointXY cr (take 32 b) (drop 32 b))
      else Inl (Failure ''invalid public key length''))"

definition VerifySignature :: "('sk, 'pk) Crypto \<Rightarrow> 'pk option \<Rightarrow> byte list \<Rightarrow> byte list \<Rightarrow> bool" where
  "VerifySignature cr pubkey digestHash signature =
     (case ECDSAMarshal cr pubkey of Inl _ \<Rightarrow> False | Inr mkey \<Rightarrow> verify cr mkey digestHash signature)"

definition k_hash :: "(byte list \<Rightarrow> 64 word) \<Rightarrow> byte list \<Rightarrow> byte list" where
  "k_hash h64 r = hash_bytes (h64 r)"

definition HashKey :: "('sk, 'pk) Crypto \<Rightarrow> byte list \<Rightarrow> 'sk \<Rightarrow> byte list res" where
  "HashKey cr str key = res_bind (SignMessage cr key str) (\<lambda>r. Inr (k_hash (sum64 cr) r))"

text \<open>The byte of a coordinate: \<^verbatim>\<open>uint8(math.Round(float64(x+90) / 180 * 255))\<close>, in exact arithmetic.\<close>

definition geo_byte :: "int \<Rightarrow> rat \<Rightarrow> byte" where
  "geo_byte lmt x = word_of_int (floor ((x + of_int lmt) / of_int (2 * lmt) * 255 + 1 / 2))"

definition NewKKey ::
  "('sk, 'pk) Crypto \<Rightarrow> (rat \<times> rat) res \<Rightarrow> byte list \<Rightarrow> byte list \<Rightarrow> byte list \<Rightarrow> 'sk \<Rightarrow> 'sk \<Rightarrow> KKey res" where
  "NewKKey cr location domain i content domainKey idKey =
     res_bind (HashKey cr domain domainKey) (\<lambda>domainHash.
     let k1 = copy_at 0 zero_kkey domainHash in
     res_bind location (\<lambda>(lat, lon).
     let k2 = k1[8 := geo_byte 90 lat, 9 := geo_byte 180 lon] in
     if content \<noteq> [] then Inr (copy_at 10 k2 (k_hash (sum64 cr) content))
     else res_bind (ECDSAMarshal cr (Some (PublicKey cr idKey))) (\<lambda>idPubKey.
          res_bind (HashKey cr (idPubKey @ i) domainKey) (\<lambda>idHash. Inr (copy_at 10 k2 idHash)))))"

section \<open>Prefixes and the XOR metric\<close>

definition key_bits :: "KKey \<Rightarrow> bool list" where
  "key_bits k = concat (map (\<lambda>b. map (bit b) [7, 6, 5, 4, 3, 2, 1, 0]) k)"

text \<open>The length of the longest common prefix.\<close>

fun common_prefix :: "'a list \<Rightarrow> 'a list \<Rightarrow> nat" where
  "common_prefix (x # xs) (y # ys) = (if x = y then Suc (common_prefix xs ys) else 0)"
| "common_prefix xs ys = 0"

lemma common_prefix_append:
  "length xs = length ys \<Longrightarrow>
     common_prefix (xs @ xs') (ys @ ys') = (if xs = ys then length xs + common_prefix xs' ys' else common_prefix xs ys)"
  by (induction xs ys rule: list_induct2) auto

lemma common_prefix_commute: "common_prefix xs ys = common_prefix ys xs"
  by (induction xs ys rule: common_prefix.induct) auto

lemma common_prefix_le: "common_prefix xs ys \<le> length xs"
  by (induction xs ys rule: common_prefix.induct) auto

lemma common_prefix_full: "length xs = length ys \<Longrightarrow> common_prefix xs ys = length xs \<longleftrightarrow> xs = ys"
  by (induction xs ys rule: list_induct2) auto

lemma common_prefix_take: "n \<le> common_prefix xs ys \<Longrightarrow> take n xs = take n ys"
proof (induction xs ys arbitrary: n rule: common_prefix.induct)
  case (1 x xs y ys)
  then show ?case by (cases n) (auto split: if_splits)
qed auto

lemma common_prefix_nth:
  "length xs = length ys \<Longrightarrow> common_prefix xs ys < length xs \<Longrightarrow> xs ! common_prefix xs ys \<noteq> ys ! common_prefix xs ys"
  by (induction xs ys rule: list_induct2) auto

lemma common_prefix_ge_iff:
  "length xs = length ys \<Longrightarrow> n \<le> length xs \<Longrightarrow> n \<le> common_prefix xs ys \<longleftrightarrow> take n xs = take n ys"
proof (induction xs ys arbitrary: n rule: list_induct2)
  case (Cons x xs y ys)
  then show ?case by (cases n) auto
qed simp

text \<open>The prefix lengths form an ultrametric: of three keys, the two smallest are equal.\<close>

lemma common_prefix_min:
  assumes "length xs = length ys" "length ys = length zs"
  shows "min (common_prefix xs ys) (common_prefix ys zs) \<le> common_prefix xs zs"
  using assms common_prefix_ge_iff [of xs zs "min (common_prefix xs ys) (common_prefix ys zs)"]
    common_prefix_take [of "min (common_prefix xs ys) (common_prefix ys zs)" xs ys]
    common_prefix_take [of "min (common_prefix xs ys) (common_prefix ys zs)" ys zs] common_prefix_le [of xs ys]
  by (simp add: min.coboundedI1)

lemma common_prefix_other:
  assumes "length xs = length ys" "length ys = length zs" "common_prefix xs ys \<noteq> common_prefix ys zs"
  shows "common_prefix xs zs = min (common_prefix xs ys) (common_prefix ys zs)"
proof -
  have "min (common_prefix xs ys) (common_prefix ys zs) \<le> common_prefix xs zs"
    by (rule common_prefix_min [OF assms(1,2)])
  moreover have "min (common_prefix ys xs) (common_prefix xs zs) \<le> common_prefix ys zs"
    by (rule common_prefix_min) (simp_all only: assms)
  moreover have "min (common_prefix xs zs) (common_prefix zs ys) \<le> common_prefix xs ys"
    by (rule common_prefix_min) (simp_all only: assms)
  moreover have "common_prefix ys xs = common_prefix xs ys" "common_prefix zs ys = common_prefix ys zs" by (rule common_prefix_commute)+
  ultimately show ?thesis using assms(3) by linarith
qed

lemma common_prefix_map: "common_prefix (map f xs) (map g xs) = length (takeWhile (\<lambda>x. f x = g x) xs)"
  by (induction xs) auto

definition byte_bits :: "byte \<Rightarrow> bool list" where
  "byte_bits b = map (bit b) [7, 6, 5, 4, 3, 2, 1, 0]"

lemma length_byte_bits [simp]: "length (byte_bits b) = 8"
  by (simp add: byte_bits_def)

lemma key_bits_simps [simp]: "key_bits [] = []" "key_bits (b # bs) = byte_bits b @ key_bits bs"
  by (simp_all add: key_bits_def byte_bits_def)

lemma length_key_bits [simp]: "length (key_bits k) = 8 * length k"
  by (induction k) auto

lemma byte_bits_inj: "byte_bits a = byte_bits b \<longleftrightarrow> a = b"
proof
  assume *: "byte_bits a = byte_bits b"
  show "a = b"
  proof (rule bit_word_eqI)
    fix n assume "n < LENGTH(8)"
    then have "n \<in> set [7, 6, 5, 4, 3, 2, 1, 0]" by auto
    then show "bit a n = bit b n" using * by (auto simp: byte_bits_def)
  qed
qed simp

lemma key_bits_inj: "length a = length b \<Longrightarrow> key_bits a = key_bits b \<longleftrightarrow> a = b"
  by (induction a b rule: list_induct2) (auto simp: byte_bits_inj)

lemma LeadingZeros8_xor: "LeadingZeros8 (a XOR b) = common_prefix (byte_bits a) (byte_bits b)"
  unfolding LeadingZeros8_def byte_bits_def common_prefix_map by (simp add: bit_simps)

lemma xor_eq_0: "a XOR b = 0 \<longleftrightarrow> a = (b :: byte)"
proof
  assume "a XOR b = 0"
  moreover have "(a XOR b) XOR b = a" by (simp add: xor.assoc)
  ultimately show "a = b" by simp
qed simp

lemma leading_zeros_from_xor:
  "length a = length b \<Longrightarrow> leading_zeros_from i (Xor a b)
     = (if a = b then CONST_KKEY_BIT_COUNT else i * 8 + common_prefix (key_bits a) (key_bits b))"
proof (induction a b arbitrary: i rule: list_induct2)
  case (Cons x xs y ys)
  then show ?case
    by (auto simp: Xor_def xor_eq_0 LeadingZeros8_xor common_prefix_append byte_bits_inj)
qed (simp add: Xor_def)

text \<open>The distance of two keys is the length of their common prefix.\<close>

lemma Distance_prefix:
  assumes "is_kkey a" "is_kkey b"
  shows "Distance a b = common_prefix (key_bits a) (key_bits b)"
proof -
  have l: "length a = length b" using assms by (simp add: is_kkey_def)
  then have "a = b \<Longrightarrow> common_prefix (key_bits a) (key_bits b) = 144"
    using common_prefix_full [of "key_bits a" "key_bits b"] assms by (simp add: is_kkey_def CONST_KKEY_BYTE_COUNT_def)
  then show ?thesis using leading_zeros_from_xor [OF l, of 0]
    by (simp add: Distance_def LeadingZeros_def CONST_KKEY_BIT_COUNT_def CONST_KKEY_BYTE_COUNT_def)
qed

lemma Distance_bounds:
  assumes "is_kkey a" "is_kkey b"
  shows "Distance a b \<le> 144" "Distance a b = 144 \<longleftrightarrow> a = b" "Distance a b = Distance b a"
proof -
  have l: "length (key_bits a) = 144" "length (key_bits b) = 144" using assms by (simp_all add: is_kkey_def CONST_KKEY_BYTE_COUNT_def)
  show "Distance a b \<le> 144" using common_prefix_le [of "key_bits a" "key_bits b"] unfolding l by (simp add: Distance_prefix assms)
  show "Distance a b = 144 \<longleftrightarrow> a = b"
    using common_prefix_full [of "key_bits a" "key_bits b"] key_bits_inj [of a b] assms unfolding l by (simp add: Distance_prefix is_kkey_def)
  show "Distance a b = Distance b a" using assms by (simp add: Distance_prefix common_prefix_commute)
qed

lemma Distance_other:
  assumes "is_kkey a" "is_kkey b" "is_kkey c" "Distance a b \<noteq> Distance b c"
  shows "Distance a c = min (Distance a b) (Distance b c)"
  using common_prefix_other [of "key_bits a" "key_bits b" "key_bits c"] assms by (simp add: Distance_prefix is_kkey_def)

lemma Distance_same:
  assumes "is_kkey a" "is_kkey b" "is_kkey c" "Distance a b = Distance b c" "Distance a b < 144"
  shows "Distance a b < Distance a c"
proof -
  let ?n = "Distance a b" and ?A = "key_bits a" and ?B = "key_bits b" and ?C = "key_bits c"
  have l: "length ?A = 144" "length ?B = 144" "length ?C = 144" using assms by (simp_all add: is_kkey_def CONST_KKEY_BYTE_COUNT_def)
  have p: "common_prefix ?A ?B = ?n" "common_prefix ?B ?C = ?n" using assms by (simp_all add: Distance_prefix)
  have "?A ! ?n \<noteq> ?B ! ?n" "?B ! ?n \<noteq> ?C ! ?n" using common_prefix_nth [of ?A ?B] common_prefix_nth [of ?B ?C] l p assms(5) by auto
  then have "?A ! ?n = ?C ! ?n" by blast
  moreover have "take ?n ?A = take ?n ?C" using common_prefix_take [of ?n ?A ?B] common_prefix_take [of ?n ?B ?C] p by simp
  ultimately have "take (Suc ?n) ?A = take (Suc ?n) ?C" using l assms(5) by (simp add: take_Suc_conv_app_nth)
  then have "Suc ?n \<le> common_prefix ?A ?C" using common_prefix_ge_iff [of ?A ?C "Suc ?n"] l assms(5) by simp
  then show ?thesis using assms by (simp add: Distance_prefix)
qed

section \<open>Conversions\<close>

lemma is_kkey_zero [simp]: "is_kkey zero_kkey"
  by (simp add: is_kkey_def zero_kkey_def)

lemma ToKKey_eq: "ToKKey k = (if is_kkey k then Inr k else Inl ERR_INVALID_KEY)"
  by (simp add: ToKKey_def is_kkey_def zero_kkey_def copy_at_def)

lemma ApiKKey_eq: "ApiKKey k = (if is_kkey k then Inr k else Inl ERR_INVALID_KEY)"
  by (simp add: ApiKKey_def is_kkey_def)

lemma length_hash_bytes [simp]: "length (hash_bytes h) = 8"
  by (simp add: hash_bytes_def)

text \<open>The layout of a new key: domain hash, position, content hash or identity hash.\<close>

lemma NewKKey_layout:
  assumes "NewKKey cr location domain i content domainKey idKey = Inr k"
  shows "is_kkey k" "\<exists>d. SignMessage cr domainKey domain = Inr d \<and> take 8 k = hash_bytes (sum64 cr d)"
    "\<exists>lat lon. location = Inr (lat, lon) \<and> k ! 8 = geo_byte 90 lat \<and> k ! 9 = geo_byte 180 lon"
    "content \<noteq> [] \<Longrightarrow> drop 10 k = hash_bytes (sum64 cr content)"
    "content = [] \<Longrightarrow> \<exists>d. SignMessage cr domainKey (MarshalCompressed cr (PublicKey cr idKey) @ i) = Inr d \<and> drop 10 k = hash_bytes (sum64 cr d)"
proof -
  obtain d lat lon h where k: "SignMessage cr domainKey domain = Inr d" "location = Inr (lat, lon)" "length h = 8"
    "k = copy_at 10 ((copy_at 0 zero_kkey (hash_bytes (sum64 cr d)))[8 := geo_byte 90 lat, 9 := geo_byte 180 lon]) h"
    "content \<noteq> [] \<Longrightarrow> h = hash_bytes (sum64 cr content)"
    "content = [] \<Longrightarrow> \<exists>d. SignMessage cr domainKey (MarshalCompressed cr (PublicKey cr idKey) @ i) = Inr d \<and> h = hash_bytes (sum64 cr d)"
    using assms by (cases "content = []") (auto simp: NewKKey_def HashKey_def k_hash_def res_bind_eq_Inr Let_def ECDSAMarshal_def)
  have e: "k = hash_bytes (sum64 cr d) @ [geo_byte 90 lat, geo_byte 180 lon] @ h"
    using k(3) unfolding k(4) by (simp add: copy_at_def zero_kkey_def CONST_KKEY_BYTE_COUNT_def list_update_append numeral_eq_Suc)
  show "is_kkey k" using k(3) by (simp add: e is_kkey_def CONST_KKEY_BYTE_COUNT_def)
  show "\<exists>d. SignMessage cr domainKey domain = Inr d \<and> take 8 k = hash_bytes (sum64 cr d)" using k(1) by (simp add: e)
  show "\<exists>lat lon. location = Inr (lat, lon) \<and> k ! 8 = geo_byte 90 lat \<and> k ! 9 = geo_byte 180 lon" using k(2) by (simp add: e nth_append)
  show "content \<noteq> [] \<Longrightarrow> drop 10 k = hash_bytes (sum64 cr content)" using k(5) by (simp add: e)
  show "content = [] \<Longrightarrow> \<exists>d. SignMessage cr domainKey (MarshalCompressed cr (PublicKey cr idKey) @ i) = Inr d \<and> drop 10 k = hash_bytes (sum64 cr d)"
    using k(6) by (auto simp: e)
qed

end
