(* ===== verification/GoHeap.thy ===== *)
theory GoHeap
  imports Prelude "HOL-Library.Multiset"
begin

text \<open>
  The package \<^verbatim>\<open>container/heap\<close> of the Go library on a slice, for a given \<^verbatim>\<open>Less\<close>. \<^verbatim>\<open>Swap\<close>, \<^verbatim>\<open>Push\<close> and \<^verbatim>\<open>Pop\<close> of
  the interface are those of a slice. The laws of the operations are proved in a locale of strict weak
  orders.
\<close>

section \<open>Operations\<close>

definition heap_swap :: "nat \<Rightarrow> nat \<Rightarrow> 'a list \<Rightarrow> 'a list" where
  "heap_swap i j xs = xs[i := xs ! j, j := xs ! i]"

text \<open>The parent of 0 is 0, since division truncates.\<close>

definition parent :: "nat \<Rightarrow> nat" where
  "parent j = (j - 1) div 2"

lemma parent_less: "0 < k \<Longrightarrow> parent k < k"
  unfolding parent_def by linarith

lemma parent_neq [simp]: "0 < k \<Longrightarrow> parent k \<noteq> k" "0 < k \<Longrightarrow> k \<noteq> parent k"
  using parent_less [of k] by simp_all

lemma parent_eq: "0 < k \<Longrightarrow> parent k = i \<longleftrightarrow> k = 2 * i + 1 \<or> k = 2 * i + 2"
  by (auto simp: parent_def)

lemma parent_0 [simp]: "parent 0 = 0"
  by (simp add: parent_def)

text \<open>The loop of \<^verbatim>\<open>up\<close>.\<close>

function heap_up :: "('a \<Rightarrow> 'a \<Rightarrow> bool) \<Rightarrow> nat \<Rightarrow> 'a list \<Rightarrow> 'a list" where
  "heap_up lt j xs =
     (let i = parent j
      in if i = j \<or> \<not> lt (xs ! j) (xs ! i) then xs else heap_up lt i (heap_swap i j xs))"
  by pat_completeness auto
termination by (relation "measure (\<lambda>(lt, j, xs). j)") (auto simp: parent_def)

text \<open>The loop of \<^verbatim>\<open>down\<close>, with the position where it ends.\<close>

function heap_down :: "('a \<Rightarrow> 'a \<Rightarrow> bool) \<Rightarrow> nat \<Rightarrow> nat \<Rightarrow> 'a list \<Rightarrow> 'a list \<times> nat" where
  "heap_down lt i n xs =
     (let j1 = 2 * i + 1
      in if j1 \<ge> n then (xs, i)
         else let j = (if j1 + 1 < n \<and> lt (xs ! (j1 + 1)) (xs ! j1) then j1 + 1 else j1)
              in if \<not> lt (xs ! j) (xs ! i) then (xs, i) else heap_down lt j n (heap_swap i j xs))"
  by pat_completeness auto
termination by (relation "measure (\<lambda>(lt, i, n, xs). n - i)") (auto simp: Let_def split: if_splits)

declare heap_up.simps [simp del] heap_down.simps [simp del]

definition heap_Push :: "('a \<Rightarrow> 'a \<Rightarrow> bool) \<Rightarrow> 'a \<Rightarrow> 'a list \<Rightarrow> 'a list" where
  "heap_Push lt x xs = heap_up lt (length xs) (xs @ [x])"

definition heap_Pop :: "('a \<Rightarrow> 'a \<Rightarrow> bool) \<Rightarrow> 'a list \<Rightarrow> 'a list \<times> 'a" where
  "heap_Pop lt xs =
     (let n = length xs - 1; ys = fst (heap_down lt 0 n (heap_swap 0 n xs)) in (butlast ys, last ys))"

text \<open>\<^verbatim>\<open>if !down(h, i, n) { up(h, i) }\<close>\<close>

definition heap_sift :: "('a \<Rightarrow> 'a \<Rightarrow> bool) \<Rightarrow> nat \<Rightarrow> nat \<Rightarrow> 'a list \<Rightarrow> 'a list" where
  "heap_sift lt i n xs = (let (zs, i') = heap_down lt i n xs in if i' > i then zs else heap_up lt i zs)"

definition heap_Remove :: "('a \<Rightarrow> 'a \<Rightarrow> bool) \<Rightarrow> nat \<Rightarrow> 'a list \<Rightarrow> 'a list \<times> 'a" where
  "heap_Remove lt i xs =
     (let n = length xs - 1;
          ys = (if n = i then xs else heap_sift lt i n (heap_swap i n xs))
      in (butlast ys, last ys))"

definition heap_Fix :: "('a \<Rightarrow> 'a \<Rightarrow> bool) \<Rightarrow> nat \<Rightarrow> 'a list \<Rightarrow> 'a list" where
  "heap_Fix lt i xs = heap_sift lt i (length xs) xs"

definition heap_Init :: "('a \<Rightarrow> 'a \<Rightarrow> bool) \<Rightarrow> 'a list \<Rightarrow> 'a list" where
  "heap_Init lt xs = fold (\<lambda>i ys. fst (heap_down lt i (length xs) ys)) (rev [0..<length xs div 2]) xs"

section \<open>Contents\<close>

lemma length_heap_swap [simp]: "length (heap_swap i j xs) = length xs"
  by (simp add: heap_swap_def)

lemma mset_heap_swap [simp]: "i < length xs \<Longrightarrow> j < length xs \<Longrightarrow> mset (heap_swap i j xs) = mset xs"
  by (simp add: heap_swap_def mset_swap)

lemma nth_heap_swap:
  "i < length xs \<Longrightarrow> j < length xs \<Longrightarrow> heap_swap i j xs ! k = (if k = j then xs ! i else if k = i then xs ! j else xs ! k)"
  by (auto simp: heap_swap_def nth_list_update)

lemma heap_up_mset: "j < length xs \<Longrightarrow> mset (heap_up lt j xs) = mset xs \<and> length (heap_up lt j xs) = length xs"
proof (induction lt j xs rule: heap_up.induct)
  case (1 lt j xs)
  have "parent j < length xs" using 1(2) by (simp add: parent_def)
  then show ?case using 1 by (subst (1 2) heap_up.simps) (auto simp: Let_def)
qed

text \<open>Sifting down leaves the slice beyond \<open>n\<close> alone.\<close>

lemma heap_down_mset:
  "n \<le> length xs \<Longrightarrow> i < length xs \<Longrightarrow>
     mset (fst (heap_down lt i n xs)) = mset xs \<and> length (fst (heap_down lt i n xs)) = length xs
     \<and> drop n (fst (heap_down lt i n xs)) = drop n xs \<and> i \<le> snd (heap_down lt i n xs)"
proof (induction lt i n xs rule: heap_down.induct)
  case (1 lt i n xs)
  define j where "j = (if 2 * i + 1 + 1 < n \<and> lt (xs ! (2 * i + 1 + 1)) (xs ! (2 * i + 1)) then 2 * i + 1 + 1 else 2 * i + 1)"
  show ?case
  proof (cases "2 * i + 1 \<ge> n \<or> \<not> lt (xs ! j) (xs ! i)")
    case True
    then show ?thesis by (subst (1 2 3 4) heap_down.simps) (auto simp: Let_def j_def)
  next
    case False
    then have j: "j < n" "i < j" by (auto simp: j_def)
    have e: "heap_down lt i n xs = heap_down lt j n (heap_swap i j xs)"
      using False by (subst heap_down.simps) (auto simp: Let_def j_def)
    have "drop n (heap_swap i j xs) = drop n xs" using j by (simp add: heap_swap_def)
    moreover have "mset (fst (heap_down lt j n (heap_swap i j xs))) = mset (heap_swap i j xs)
      \<and> length (fst (heap_down lt j n (heap_swap i j xs))) = length (heap_swap i j xs)
      \<and> drop n (fst (heap_down lt j n (heap_swap i j xs))) = drop n (heap_swap i j xs) \<and> j \<le> snd (heap_down lt j n (heap_swap i j xs))"
      using 1(1) [OF refl _ j_def] False 1(2) j by auto
    ultimately show ?thesis using e j 1(2,3) by simp
  qed
qed

lemma heap_up_drop: "j < n \<Longrightarrow> drop n (heap_up lt j xs) = drop n xs"
proof (induction lt j xs rule: heap_up.induct)
  case (1 lt j xs)
  have "parent j < n" using 1(2) by (simp add: parent_def)
  then show ?case using 1 by (subst heap_up.simps) (auto simp: Let_def heap_swap_def)
qed

lemma heap_sift_mset:
  assumes "i < n" "n \<le> length xs"
  shows "mset (heap_sift lt i n xs) = mset xs" "length (heap_sift lt i n xs) = length xs" "drop n (heap_sift lt i n xs) = drop n xs"
proof -
  obtain zs i' where z: "heap_down lt i n xs = (zs, i')" by force
  have "mset zs = mset xs" "length zs = length xs" "drop n zs = drop n xs"
    using heap_down_mset [of n xs i lt] assms by (simp_all add: z)
  then show "mset (heap_sift lt i n xs) = mset xs" "length (heap_sift lt i n xs) = length xs" "drop n (heap_sift lt i n xs) = drop n xs"
    using heap_up_mset [of i zs lt] heap_up_drop [OF assms(1), of lt zs] assms by (simp_all add: heap_sift_def z)
qed

text \<open>Dropping the last element after it was moved there.\<close>

lemma last_of_drop: "length ys = Suc n \<Longrightarrow> drop n ys = [x] \<Longrightarrow> ys = butlast ys @ [x]"
  by (metis append_take_drop_id butlast_snoc)

lemma drop_heap_swap: "length xs = Suc n \<Longrightarrow> i < length xs \<Longrightarrow> drop n (heap_swap i n xs) = [xs ! i]"
  by (rule nth_equalityI) (auto simp: nth_heap_swap)

lemma popped:
  assumes "length ys = Suc n" "drop n ys = [x]" "mset ys = mset xs"
  shows "last ys = x" "mset (butlast ys) = mset xs - {#x#}" "length (butlast ys) = n"
proof -
  have y: "ys = butlast ys @ [x]" using last_of_drop [OF assms(1,2)] .
  then show "last ys = x" by (metis last_snoc)
  have "mset xs = mset (butlast ys) + {#x#}" using assms(3) y by (metis mset_append mset_single_iff_right mset.simps(1) mset.simps(2) add_mset_add_single)
  then show "mset (butlast ys) = mset xs - {#x#}" by simp
  show "length (butlast ys) = n" using assms(1) by simp
qed

lemma heap_Remove_mset:
  assumes "i < length xs"
  shows "snd (heap_Remove lt i xs) = xs ! i" "mset (fst (heap_Remove lt i xs)) = mset xs - {#xs ! i#}"
    "length (fst (heap_Remove lt i xs)) = length xs - 1"
proof -
  obtain n where n: "length xs = Suc n" using assms by (cases xs) auto
  define ys where "ys = (if n = i then xs else heap_sift lt i n (heap_swap i n xs))"
  have "drop n xs = [xs ! n]" by (rule nth_equalityI) (auto simp: n)
  then have "length ys = Suc n" "drop n ys = [xs ! i]" "mset ys = mset xs"
    using heap_sift_mset [of i n "heap_swap i n xs" lt] drop_heap_swap [OF n assms] n assms by (auto simp: ys_def)
  note popped [OF this]
  then show "snd (heap_Remove lt i xs) = xs ! i" "mset (fst (heap_Remove lt i xs)) = mset xs - {#xs ! i#}"
    "length (fst (heap_Remove lt i xs)) = length xs - 1"
    using n by (simp_all add: heap_Remove_def ys_def)
qed

lemma heap_Pop_mset:
  assumes "xs \<noteq> []"
  shows "snd (heap_Pop lt xs) = xs ! 0" "mset (fst (heap_Pop lt xs)) = mset xs - {#xs ! 0#}" "length (fst (heap_Pop lt xs)) = length xs - 1"
proof -
  obtain n where n: "length xs = Suc n" using assms by (cases xs) auto
  define ys where "ys = fst (heap_down lt 0 n (heap_swap 0 n xs))"
  have "length ys = Suc n" "drop n ys = [xs ! 0]" "mset ys = mset xs"
    using heap_down_mset [of n "heap_swap 0 n xs" 0 lt] drop_heap_swap [OF n, of 0] n by (auto simp: ys_def)
  note popped [OF this]
  then show "snd (heap_Pop lt xs) = xs ! 0" "mset (fst (heap_Pop lt xs)) = mset xs - {#xs ! 0#}" "length (fst (heap_Pop lt xs)) = length xs - 1"
    using n by (simp_all add: heap_Pop_def ys_def)
qed

lemma heap_Push_mset: "mset (heap_Push lt x xs) = mset xs + {#x#}" "length (heap_Push lt x xs) = Suc (length xs)"
  using heap_up_mset [of "length xs" "xs @ [x]" lt] by (simp_all add: heap_Push_def)

lemma heap_Fix_mset: "i < length xs \<Longrightarrow> mset (heap_Fix lt i xs) = mset xs" "i < length xs \<Longrightarrow> length (heap_Fix lt i xs) = length xs"
  using heap_sift_mset [of i "length xs" xs lt] by (simp_all add: heap_Fix_def)

section \<open>Heap order\<close>

definition is_heap :: "('a \<Rightarrow> 'a \<Rightarrow> bool) \<Rightarrow> nat \<Rightarrow> 'a list \<Rightarrow> bool" where
  "is_heap lt n xs \<longleftrightarrow> (\<forall>k. 0 < k \<and> k < n \<longrightarrow> \<not> lt (xs ! k) (xs ! parent k))"

text \<open>Heap order except around position \<open>i\<close>, whose children are still in order with its parent.\<close>

definition heap_but :: "('a \<Rightarrow> 'a \<Rightarrow> bool) \<Rightarrow> nat \<Rightarrow> nat \<Rightarrow> 'a list \<Rightarrow> bool" where
  "heap_but lt n i xs \<longleftrightarrow>
     (\<forall>k. 0 < k \<and> k < n \<and> k \<noteq> i \<and> parent k \<noteq> i \<longrightarrow> \<not> lt (xs ! k) (xs ! parent k))
     \<and> (\<forall>k. 0 < k \<and> k < n \<and> parent k = i \<and> 0 < i \<longrightarrow> \<not> lt (xs ! k) (xs ! parent i))"

locale weak_order =
  fixes lt :: "'a \<Rightarrow> 'a \<Rightarrow> bool"
  assumes lt_asym: "lt x y \<Longrightarrow> \<not> lt y x"
    and not_lt_trans: "\<not> lt x y \<Longrightarrow> \<not> lt y z \<Longrightarrow> \<not> lt x z"
begin

lemma lt_irrefl: "\<not> lt x x"
  using lt_asym by blast

lemma lt_not_lt_trans: "lt x y \<Longrightarrow> \<not> lt z y \<Longrightarrow> \<not> lt z x"
  using lt_asym not_lt_trans by blast

lemma root_least:
  assumes "is_heap lt n xs" "k < n"
  shows "\<not> lt (xs ! k) (xs ! 0)"
  using assms(2)
proof (induction k rule: less_induct)
  case (less k)
  show ?case
  proof (cases "k = 0")
    case False
    then have "\<not> lt (xs ! parent k) (xs ! 0)" "\<not> lt (xs ! k) (xs ! parent k)"
      using less parent_less [of k] assms(1) by (auto simp: is_heap_def)
    then show ?thesis using not_lt_trans by blast
  qed (simp add: lt_irrefl)
qed

lemma is_heap_but: "is_heap lt n xs \<Longrightarrow> i < n \<Longrightarrow> heap_but lt n i (xs[i := x])"
proof -
  assume h: "is_heap lt n xs" "i < n"
  have "\<not> lt (xs[i := x] ! k) (xs[i := x] ! parent i)" if "0 < k" "k < n" "parent k = i" "0 < i" for k
  proof -
    have "k \<noteq> i" "parent i \<noteq> i" using that parent_less [of k] parent_less [of i] by auto
    moreover have "\<not> lt (xs ! k) (xs ! i)" "\<not> lt (xs ! i) (xs ! parent i)" using h that by (auto simp: is_heap_def)
    ultimately show ?thesis using not_lt_trans by auto
  qed
  then show ?thesis using h(1) by (auto simp: heap_but_def is_heap_def)
qed

text \<open>Sifting up repairs a position whose children are in order.\<close>

lemma up_repairs:
  assumes "heap_but lt n j xs" "\<forall>k. 0 < k \<and> k < n \<and> parent k = j \<longrightarrow> \<not> lt (xs ! k) (xs ! j)" "j < n" "n \<le> length xs"
  shows "is_heap lt n (heap_up lt j xs)"
  using assms
proof (induction j arbitrary: xs rule: less_induct)
  case (less j)
  let ?i = "parent j" and ?ys = "heap_swap (parent j) j xs"
  show ?case
  proof (cases "j = 0 \<or> \<not> lt (xs ! j) (xs ! ?i)")
    case True
    then have "heap_up lt j xs = xs" by (subst heap_up.simps) (auto simp: Let_def)
    moreover have "\<not> lt (xs ! k) (xs ! parent k)" if "0 < k" "k < n" for k
      using less.prems(1,2) that True by (cases "k = j"; cases "parent k = j") (auto simp: heap_but_def)
    ultimately show ?thesis by (simp add: is_heap_def)
  next
    case False
    then have i: "?i < j" using parent_less by blast
    have nth: "?ys ! k = (if k = j then xs ! ?i else if k = ?i then xs ! j else xs ! k)" for k
      using less.prems(3,4) i by (intro nth_heap_swap) auto
    have up: "heap_up lt j xs = heap_up lt ?i ?ys" using False i by (subst heap_up.simps) (auto simp: Let_def)
    have order: "\<not> lt (?ys ! k) (?ys ! parent k)" if k: "0 < k" "k < n" "k \<noteq> ?i" for k
    proof -
      consider "k = j" | "k \<noteq> j" "parent k = j" | "k \<noteq> j" "parent k = ?i" | "k \<noteq> j" "parent k \<noteq> j" "parent k \<noteq> ?i" by blast
      then show ?thesis
      proof cases
        case 1
        then show ?thesis using False i lt_asym by (simp add: nth)
      next
        case 2
        then show ?thesis using less.prems(1) k False i by (auto simp: nth heap_but_def)
      next
        case 3
        then have "\<not> lt (xs ! k) (xs ! ?i)" using less.prems(1) k i by (auto simp: heap_but_def)
        moreover have "lt (xs ! j) (xs ! ?i)" using False by blast
        ultimately have "\<not> lt (xs ! k) (xs ! j)" using lt_not_lt_trans by blast
        then show ?thesis using 3 k i by (simp add: nth)
      next
        case 4
        then show ?thesis using less.prems(1) k by (auto simp: nth heap_but_def)
      qed
    qed
    have "\<not> lt (?ys ! k) (?ys ! parent ?i)" if k: "0 < k" "k < n" "parent k = ?i" "0 < ?i" for k
    proof -
      have p: "parent ?i < ?i" using k(4) by (rule parent_less)
      have "\<not> lt (xs ! ?i) (xs ! parent ?i)" using less.prems(1,3) i k(4) p by (auto simp: heap_but_def)
      moreover have "\<not> lt (xs ! k) (xs ! ?i)" if "k \<noteq> j" using less.prems(1) k that i by (auto simp: heap_but_def)
      ultimately show ?thesis using p i k not_lt_trans parent_less [of k] by (auto simp: nth)
    qed
    then have "heap_but lt n ?i ?ys" using order by (auto simp: heap_but_def)
    moreover have "\<forall>k. 0 < k \<and> k < n \<and> parent k = ?i \<longrightarrow> \<not> lt (?ys ! k) (?ys ! ?i)"
      using order parent_less by (metis less_irrefl)
    ultimately show ?thesis unfolding up using less.IH [OF i, of ?ys] less.prems(3,4) i by simp
  qed
qed

text \<open>Sifting down ends in a heap when it moved, and leaves the children of the position in order otherwise.\<close>

lemma down_repairs:
  assumes "heap_but lt n i xs" "i < n" "n \<le> length xs"
  shows "if i < snd (heap_down lt i n xs) then is_heap lt n (fst (heap_down lt i n xs))
    else fst (heap_down lt i n xs) = xs \<and> (\<forall>k. 0 < k \<and> k < n \<and> parent k = i \<longrightarrow> \<not> lt (xs ! k) (xs ! i))"
  using assms
proof (induction "n - i" arbitrary: i xs rule: less_induct)
  case less
  define j where "j = (if 2 * i + 1 + 1 < n \<and> lt (xs ! (2 * i + 1 + 1)) (xs ! (2 * i + 1)) then 2 * i + 1 + 1 else 2 * i + 1)"
  have least: "\<not> lt (xs ! k) (xs ! j)" if "0 < k" "k < n" "parent k = i" for k
    using that lt_irrefl lt_asym unfolding parent_eq [OF that(1)] by (auto simp: j_def split: if_splits)
  show ?case
  proof (cases "2 * i + 1 \<ge> n \<or> \<not> lt (xs ! j) (xs ! i)")
    case True
    then have "heap_down lt i n xs = (xs, i)" by (subst heap_down.simps) (auto simp: Let_def j_def)
    moreover have "\<not> lt (xs ! k) (xs ! i)" if "0 < k" "k < n" "parent k = i" for k
    proof -
      have "\<not> 2 * i + 1 \<ge> n" using that by (auto simp: parent_eq)
      then show ?thesis using least [OF that] True not_lt_trans by blast
    qed
    ultimately show ?thesis by simp
  next
    case False
    let ?ys = "heap_swap i j xs"
    have j: "j < n" "i < j" "parent j = i" "0 < j" using False by (auto simp: j_def parent_eq split: if_splits)
    have e: "heap_down lt i n xs = heap_down lt j n ?ys" using False by (subst heap_down.simps) (auto simp: Let_def j_def)
    have nth: "?ys ! k = (if k = j then xs ! i else if k = i then xs ! j else xs ! k)" for k
      using less.prems(2,3) j by (intro nth_heap_swap) auto
    have order: "\<not> lt (?ys ! k) (?ys ! parent k)" if k: "0 < k" "k < n" "parent k \<noteq> j" for k
    proof -
      consider "k = j" | "k \<noteq> j" "parent k = i" | "k = i" | "k \<noteq> j" "k \<noteq> i" "parent k \<noteq> i" by blast
      then show ?thesis
      proof cases
        case 1
        then show ?thesis using False j lt_asym by (simp add: nth)
      next
        case 2
        then show ?thesis using least [OF k(1,2)] k by (auto simp: nth j)
      next
        case 3
        then show ?thesis using less.prems(1) k j by (auto simp: nth heap_but_def)
      next
        case 4
        then show ?thesis using less.prems(1) k by (auto simp: nth heap_but_def)
      qed
    qed
    have "\<not> lt (?ys ! k) (?ys ! parent j)" if k: "0 < k" "k < n" "parent k = j" for k
    proof -
      have "k \<noteq> j" "k \<noteq> i" "parent k \<noteq> i" using parent_less [OF k(1)] k j by auto
      then show ?thesis using less.prems(1) k j by (auto simp: nth heap_but_def)
    qed
    then have b: "heap_but lt n j ?ys" using order by (auto simp: heap_but_def)
    have "is_heap lt n (fst (heap_down lt j n ?ys))"
    proof (cases "j < snd (heap_down lt j n ?ys)")
      case True
      then show ?thesis using less.hyps [of j ?ys] b j less.prems(3) by simp
    next
      case False
      then have "fst (heap_down lt j n ?ys) = ?ys" "\<forall>k. 0 < k \<and> k < n \<and> parent k = j \<longrightarrow> \<not> lt (?ys ! k) (?ys ! j)"
        using less.hyps [of j ?ys] b j less.prems(3) by (simp_all split: if_splits)
      then show ?thesis using order unfolding is_heap_def by metis
    qed
    moreover have "i < snd (heap_down lt j n ?ys)" using heap_down_mset [of n ?ys j lt] j less.prems(3) by simp
    ultimately show ?thesis by (simp add: e)
  qed
qed

lemma sift_repairs:
  assumes "heap_but lt n i xs" "i < n" "n \<le> length xs"
  shows "is_heap lt n (heap_sift lt i n xs)"
proof -
  obtain zs i' where z: "heap_down lt i n xs = (zs, i')" by force
  show ?thesis using down_repairs [OF assms] up_repairs [OF assms(1) _ assms(2,3)]
    by (auto simp: heap_sift_def z split: if_splits)
qed

lemma is_heap_butlast: "is_heap lt n ys \<Longrightarrow> length ys = Suc n \<Longrightarrow> is_heap lt n (butlast ys)"
  by (auto simp: is_heap_def nth_butlast parent_def)

text \<open>Every operation keeps the heap order.\<close>

lemma Push_heap:
  assumes "is_heap lt (length xs) xs"
  shows "is_heap lt (Suc (length xs)) (heap_Push lt x xs)"
proof -
  have p: "parent k < length xs" if "0 < k" "k < Suc (length xs)" for k using parent_less [OF that(1)] that(2) by simp
  have q: "parent k \<noteq> length xs" if "0 < k" "k < Suc (length xs)" for k using p [OF that] by simp
  then have "heap_but lt (Suc (length xs)) (length xs) (xs @ [x])"
    using assms p by (auto simp: heap_but_def is_heap_def nth_append)
  with q show ?thesis unfolding heap_Push_def by (intro up_repairs) auto
qed

lemma Remove_heap:
  assumes "is_heap lt (length xs) xs" "i < length xs"
  shows "is_heap lt (length xs - 1) (fst (heap_Remove lt i xs))"
proof -
  obtain n where n: "length xs = Suc n" using assms by (cases xs) auto
  have h: "is_heap lt n xs" using assms(1) n by (simp add: is_heap_def)
  show ?thesis
  proof (cases "n = i")
    case True
    then show ?thesis using h n by (simp add: heap_Remove_def is_heap_butlast)
  next
    case False
    then have i: "i < n" using assms(2) n by simp
    have "heap_but lt n i (heap_swap i n xs)"
    proof -
      have "heap_swap i n xs ! k = xs[i := xs ! n] ! k" if "k < n" for k using that n i by (simp add: nth_heap_swap nth_list_update)
      then show ?thesis using is_heap_but [OF h i, of "xs ! n"] i unfolding heap_but_def parent_def by auto
    qed
    then have "is_heap lt n (heap_sift lt i n (heap_swap i n xs))" using i n by (intro sift_repairs) auto
    then show ?thesis using False n heap_sift_mset(2) [of i n "heap_swap i n xs" lt] i
      by (simp add: heap_Remove_def is_heap_butlast Let_def)
  qed
qed

lemma Fix_heap:
  assumes "is_heap lt (length xs) xs" "i < length xs"
  shows "is_heap lt (length xs) (heap_Fix lt i (xs[i := x]))"
  using sift_repairs [OF is_heap_but [OF assms]] assms(2) by (simp add: heap_Fix_def)

lemma Pop_heap:
  assumes "is_heap lt (length xs) xs" "xs \<noteq> []"
  shows "is_heap lt (length xs - 1) (fst (heap_Pop lt xs))"
proof -
  obtain n where n: "length xs = Suc n" using assms by (cases xs) auto
  have h: "is_heap lt n xs" using assms(1) n by (simp add: is_heap_def)
  let ?ys = "heap_swap 0 n xs"
  have "is_heap lt n (fst (heap_down lt 0 n ?ys))"
  proof (cases "n = 0")
    case False
    have "?ys ! k = xs[0 := xs ! n] ! k" if "k < n" for k using that n by (simp add: nth_heap_swap nth_list_update)
    then have b: "heap_but lt n 0 ?ys" using is_heap_but [OF h, of 0 "xs ! n"] False unfolding heap_but_def parent_def by auto
    show ?thesis
    proof (cases "0 < snd (heap_down lt 0 n ?ys)")
      case True
      then show ?thesis using down_repairs [OF b] False n by simp
    next
      case stay: False
      then have d: "fst (heap_down lt 0 n ?ys) = ?ys" "\<forall>k. 0 < k \<and> k < n \<and> parent k = 0 \<longrightarrow> \<not> lt (?ys ! k) (?ys ! 0)"
        using down_repairs [OF b] False n by simp_all
      have "\<not> lt (?ys ! k) (?ys ! parent k)" if "0 < k" "k < n" for k
        using d(2) b that by (cases "parent k = 0") (auto simp: heap_but_def)
      then show ?thesis by (simp add: d(1) is_heap_def)
    qed
  qed (simp add: is_heap_def)
  then show ?thesis using n heap_down_mset [of n ?ys 0 lt] by (simp add: heap_Pop_def is_heap_butlast Let_def)
qed

end

end
