(* ===== verification/KademliaTable.thy ===== *)
theory KademliaTable
  imports KademliaKey GoHeap
begin

text \<open>
  The routing table of the Kademlia node (\<^verbatim>\<open>src/kademlia/routing.go\<close>): 144 buckets of at most 20 contacts, each
  a heap ordered by start time and round-trip time, on top of \<^verbatim>\<open>container/heap\<close>. Public keys are a type
  parameter. The RPC client of a contact is left out: \<^verbatim>\<open>GetClient\<close> stores it in a copy of the contact only.
\<close>

section \<open>Contacts\<close>

text \<open>A public key is a pointer, which may be nil.\<close>

record 'pk Contact =
  c_key :: KKey
  c_Addr :: string
  c_domain :: string
  c_domainKey :: "'pk option"
  c_id :: string
  c_idKey :: "'pk option"
  c_StartTime :: int
  c_RTT :: int
  c_SERVER_MODE :: bool

definition zero_contact :: "'pk Contact" where
  "zero_contact = \<lparr>c_key = zero_kkey, c_Addr = '''', c_domain = '''', c_domainKey = None, c_id = '''', c_idKey = None,
     c_StartTime = 0, c_RTT = 0, c_SERVER_MODE = False\<rparr>"

type_synonym 'pk ContactHeap = "'pk Contact list"

definition contact_Less :: "'pk Contact \<Rightarrow> 'pk Contact \<Rightarrow> bool" where
  "contact_Less a b = (if c_StartTime a = c_StartTime b then c_RTT a < c_RTT b else c_StartTime a > c_StartTime b)"

text \<open>The position of the first contact with a key.\<close>

fun index_of :: "KKey \<Rightarrow> 'pk ContactHeap \<Rightarrow> nat option" where
  "index_of k [] = None"
| "index_of k (c # cs) = (if c_key c = k then Some 0 else map_option Suc (index_of k cs))"

definition ch_Remove :: "KKey \<Rightarrow> 'pk ContactHeap \<Rightarrow> 'pk ContactHeap" where
  "ch_Remove k h = (case index_of k h of None \<Rightarrow> h | Some i \<Rightarrow> fst (heap_Remove contact_Less i h))"

definition Peek :: "'pk ContactHeap \<Rightarrow> 'pk Contact option" where
  "Peek h = (if length h = 0 then None else Some (h ! 0))"

definition NewContactHeap :: "'pk ContactHeap" where
  "NewContactHeap = heap_Init contact_Less []"

section \<open>Buckets\<close>

record 'pk KBucket =
  contacts :: "'pk ContactHeap"

definition bucket_AddContact :: "'pk Contact \<Rightarrow> 'pk KBucket \<Rightarrow> 'pk KBucket" where
  "bucket_AddContact c b =
     (case index_of (c_key c) (contacts b) of
        Some i \<Rightarrow> b\<lparr>contacts := heap_Fix contact_Less i ((contacts b)[i := c])\<rparr>
      | None \<Rightarrow>
          if length (contacts b) < CONST_K then b\<lparr>contacts := heap_Push contact_Less c (contacts b)\<rparr>
          else b\<lparr>contacts := heap_Push contact_Less c (fst (heap_Pop contact_Less (contacts b)))\<rparr>)"

definition bucket_GetContacts :: "'pk KBucket \<Rightarrow> 'pk Contact list" where
  "bucket_GetContacts b = contacts b"

section \<open>The table\<close>

record 'pk RoutingTable =
  Buckets :: "'pk KBucket list"

definition NewRoutingTable :: "KKey \<Rightarrow> 'pk RoutingTable" where
  "NewRoutingTable selfID = \<lparr>Buckets = replicate CONST_KKEY_BIT_COUNT \<lparr>contacts = []\<rparr>\<rparr>"

text \<open>The methods of the node on its table; \<open>self\<close> is the key of the node.\<close>

definition AddContact :: "KKey \<Rightarrow> 'pk Contact \<Rightarrow> 'pk RoutingTable \<Rightarrow> 'pk RoutingTable go" where
  "AddContact self c rt =
     (let bucketIndex = LeadingZeros (Xor (c_key c) self)
      in go_bind (go_index (Buckets rt) (int bucketIndex)) (\<lambda>b.
           Inr (rt\<lparr>Buckets := (Buckets rt)[bucketIndex := bucket_AddContact c b]\<rparr>)))"

definition kad_Remove :: "KKey \<Rightarrow> 'pk Contact \<Rightarrow> 'pk RoutingTable \<Rightarrow> 'pk RoutingTable go" where
  "kad_Remove self c rt =
     (let bucketIndex = LeadingZeros (Xor (c_key c) self)
      in go_bind (go_index (Buckets rt) (int bucketIndex)) (\<lambda>b.
           Inr (rt\<lparr>Buckets := (Buckets rt)[bucketIndex := b\<lparr>contacts := ch_Remove (c_key c) (contacts b)\<rparr>]\<rparr>)))"

definition NumContacts :: "'pk RoutingTable \<Rightarrow> nat" where
  "NumContacts rt = sum_list (map (\<lambda>b. length (contacts b)) (Buckets rt))"

text \<open>Contacts are stored under the index of their bucket, and the first \<open>n\<close> positions are returned.\<close>

definition FewContacts :: "'pk RoutingTable \<Rightarrow> 'pk Contact list" where
  "FewContacts rt =
     (let cs = map (\<lambda>b. case Peek (contacts b) of Some c \<Rightarrow> c | None \<Rightarrow> zero_contact) (Buckets rt);
          n = length (filter (\<lambda>b. Peek (contacts b) \<noteq> None) (Buckets rt))
      in take n cs)"

text \<open>The loop over the neighbouring buckets, with \<open>left\<close> rounds to go.\<close>

fun neighbours :: "'pk RoutingTable \<Rightarrow> nat \<Rightarrow> nat \<Rightarrow> nat \<Rightarrow> 'pk Contact list \<Rightarrow> 'pk Contact list" where
  "neighbours rt bucketIndex i 0 closest = closest"
| "neighbours rt bucketIndex i (Suc left) closest =
     (if length closest < CONST_ALPHA
      then let c1 = (if i \<le> bucketIndex then closest @ bucket_GetContacts (Buckets rt ! (bucketIndex - i)) else closest);
               c2 = (if bucketIndex + i < CONST_KKEY_BIT_COUNT then c1 @ bucket_GetContacts (Buckets rt ! (bucketIndex + i)) else c1)
           in neighbours rt bucketIndex (Suc i) left c2
      else closest)"

definition FindClosest :: "KKey \<Rightarrow> KKey \<Rightarrow> 'pk RoutingTable \<Rightarrow> 'pk Contact list" where
  "FindClosest self target rt =
     (let bucketIndex = LeadingZeros (Xor target self)
      in if bucketIndex = CONST_KKEY_BIT_COUNT then []
         else let closest = bucket_GetContacts (Buckets rt ! bucketIndex);
                  closest' = (if length closest < CONST_K
                              then neighbours rt bucketIndex 1 (CONST_KKEY_BIT_COUNT - 1) closest else closest)
              in if length closest' > CONST_K then take CONST_K closest' else closest')"

text \<open>\<^verbatim>\<open>bytes.Compare(a, b) >= 0\<close>\<close>

fun bytes_ge :: "byte list \<Rightarrow> byte list \<Rightarrow> bool" where
  "bytes_ge xs [] = True"
| "bytes_ge [] (y # ys) = False"
| "bytes_ge (x # xs) (y # ys) = (if x = y then bytes_ge xs ys else x > y)"

definition FindSuccessor :: "KKey \<Rightarrow> KKey \<Rightarrow> 'pk RoutingTable \<Rightarrow> 'pk Contact go" where
  "FindSuccessor self key rt =
     (let closestNodes = FindClosest self key rt
      in case find (\<lambda>c. bytes_ge (c_key c) key) closestNodes of
           Some c \<Rightarrow> Inr c
         | None \<Rightarrow> go_index closestNodes 0)"

section \<open>The heap of contacts\<close>

interpretation contact_heap: weak_order contact_Less
  by unfold_locales (auto simp: contact_Less_def split: if_splits)

lemma index_of_None: "index_of k h = None \<longleftrightarrow> (\<forall>c \<in> set h. c_key c \<noteq> k)"
  by (induction h) auto

lemma index_of_Some: "index_of k h = Some i \<Longrightarrow> i < length h \<and> c_key (h ! i) = k"
  by (induction h arbitrary: i) (auto split: if_splits)

text \<open>What a bucket promises.\<close>

definition bucket_ok :: "nat \<Rightarrow> KKey \<Rightarrow> 'pk ContactHeap \<Rightarrow> bool" where
  "bucket_ok i self h \<longleftrightarrow> length h \<le> CONST_K \<and> distinct (map c_key h)
     \<and> (\<forall>c \<in> set h. is_kkey (c_key c) \<and> Distance (c_key c) self = i)"

definition heap_ordered :: "'pk ContactHeap \<Rightarrow> bool" where
  "heap_ordered h \<longleftrightarrow> is_heap contact_Less (length h) h"

definition table_ok :: "KKey \<Rightarrow> 'pk RoutingTable \<Rightarrow> bool" where
  "table_ok self rt \<longleftrightarrow> is_kkey self \<and> length (Buckets rt) = CONST_KKEY_BIT_COUNT
     \<and> (\<forall>i < CONST_KKEY_BIT_COUNT. bucket_ok i self (contacts (Buckets rt ! i)))"

definition table_ordered :: "'pk RoutingTable \<Rightarrow> bool" where
  "table_ordered rt \<longleftrightarrow> (\<forall>b \<in> set (Buckets rt). heap_ordered (contacts b))"

text \<open>The properties of a bucket depend on the contents of its heap only.\<close>

lemma distinct_map_mset: "mset xs = mset ys \<Longrightarrow> distinct (map f xs) = distinct (map f ys)"
  by (metis mset_map mset_eq_imp_distinct_iff)

lemma bucket_ok_mset: "mset h = mset h' \<Longrightarrow> bucket_ok i self h = bucket_ok i self h'"
  using distinct_map_mset [of h h' c_key] mset_eq_setD [of h h'] mset_eq_length [of h h'] by (simp add: bucket_ok_def)

text \<open>The reference for an addition: the contact with the same key is replaced, and in a full bucket the root,
  which has the highest priority, makes room.\<close>

definition added :: "'pk Contact \<Rightarrow> 'pk ContactHeap \<Rightarrow> 'pk Contact list" where
  "added c h = (case index_of (c_key c) h of
     Some i \<Rightarrow> h[i := c] | None \<Rightarrow> if length h < CONST_K then c # h else c # tl h)"

lemma bucket_AddContact_mset: "mset (contacts (bucket_AddContact c b)) = mset (added c (contacts b))"
proof (cases "index_of (c_key c) (contacts b)")
  case None
  show ?thesis
  proof (cases "length (contacts b) < CONST_K")
    case True
    then show ?thesis using None by (simp add: bucket_AddContact_def added_def heap_Push_mset)
  next
    case False
    then obtain x xs where x: "contacts b = x # xs" by (cases "contacts b") (auto simp: CONST_K_def)
    show ?thesis using False None heap_Pop_mset(2) [of "contacts b" contact_Less]
      by (simp add: bucket_AddContact_def added_def heap_Push_mset x)
  qed
next
  case (Some i)
  then show ?thesis using heap_Fix_mset(1) [of i "(contacts b)[i := c]" contact_Less] index_of_Some [OF Some]
    by (simp add: bucket_AddContact_def added_def)
qed

lemma added_ok:
  assumes "bucket_ok i self h" "is_kkey (c_key c)" "Distance (c_key c) self = i"
  shows "bucket_ok i self (added c h)"
proof (cases "index_of (c_key c) h")
  case None
  then have a: "added c h = (if length h < CONST_K then c # h else c # tl h)" by (simp add: added_def)
  have n: "\<forall>x \<in> set h. c_key x \<noteq> c_key c" using None by (simp add: index_of_None)
  show ?thesis
  proof (cases h)
    case Nil
    then show ?thesis using assms unfolding a by (simp add: bucket_ok_def CONST_K_def)
  next
    case (Cons x xs)
    then have "c_key c \<notin> c_key ` set h" using n by auto
    then show ?thesis using assms Cons unfolding a by (simp add: bucket_ok_def)
  qed
next
  case (Some j)
  then have "map c_key (h[j := c]) = map c_key h" using index_of_Some [OF Some] by (metis list_update_id map_update)
  then show ?thesis using assms Some set_update_subset_insert [of h j c] by (auto simp: bucket_ok_def added_def)
qed

lemma ch_Remove_mset:
  assumes "distinct (map c_key h)"
  shows "mset (ch_Remove k h) = mset (filter (\<lambda>c. c_key c \<noteq> k) h)"
proof (cases "index_of k h")
  case None
  then have "filter (\<lambda>c. c_key c \<noteq> k) h = h" by (simp add: index_of_None)
  then show ?thesis using None by (simp add: ch_Remove_def)
next
  case (Some i)
  then have i: "i < length h" "c_key (h ! i) = k" using index_of_Some by blast+
  have h: "h = take i h @ h ! i # drop (Suc i) h" using i(1) by (simp add: id_take_nth_drop [symmetric])
  have k: "c_key x \<noteq> k" if "x \<in> set (take i h) \<or> x \<in> set (drop (Suc i) h)" for x
  proof -
    have "distinct (map c_key (take i h @ h ! i # drop (Suc i) h))" using assms h by simp
    then have "c_key (h ! i) \<notin> c_key ` set (take i h)" "c_key (h ! i) \<notin> c_key ` set (drop (Suc i) h)" by simp_all
    then show ?thesis using that i(2) imageI by metis
  qed
  have "filter (\<lambda>c. c_key c \<noteq> k) h = filter (\<lambda>c. c_key c \<noteq> k) (take i h @ h ! i # drop (Suc i) h)" using h by simp
  also have "\<dots> = take i h @ drop (Suc i) h" using i(2) k by (simp add: filter_id_conv)
  finally have "mset (filter (\<lambda>c. c_key c \<noteq> k) h) = mset h - {#h ! i#}"
    using arg_cong [OF h, of mset] by simp
  then show ?thesis using Some heap_Remove_mset(2) [OF i(1), of contact_Less] by (simp add: ch_Remove_def)
qed

lemma removed_ok: "bucket_ok i self h \<Longrightarrow> bucket_ok i self (filter P h)"
  unfolding bucket_ok_def using order_trans [OF length_filter_le [of P h]] by (auto simp: distinct_map inj_on_def)

lemma bucket_AddContact_ok:
  "bucket_ok i self (contacts b) \<Longrightarrow> is_kkey (c_key c) \<Longrightarrow> Distance (c_key c) self = i
     \<Longrightarrow> bucket_ok i self (contacts (bucket_AddContact c b))"
  using added_ok bucket_ok_mset [OF bucket_AddContact_mset] by blast

lemma ch_Remove_ok: "bucket_ok i self h \<Longrightarrow> bucket_ok i self (ch_Remove k h)"
  using removed_ok bucket_ok_mset [OF ch_Remove_mset] by (metis bucket_ok_def)

lemma bucket_AddContact_ordered:
  assumes "heap_ordered (contacts b)"
  shows "heap_ordered (contacts (bucket_AddContact c b))"
proof (cases "index_of (c_key c) (contacts b)")
  case None
  show ?thesis
  proof (cases "length (contacts b) < CONST_K")
    case True
    then show ?thesis using None contact_heap.Push_heap assms
      by (simp add: bucket_AddContact_def heap_ordered_def heap_Push_mset)
  next
    case False
    then have ne: "contacts b \<noteq> []" by (auto simp: CONST_K_def)
    show ?thesis
      using False None contact_heap.Push_heap [of "fst (heap_Pop contact_Less (contacts b))" c] contact_heap.Pop_heap [OF _ ne] assms
        heap_Pop_mset(3) [OF ne, of contact_Less]
      by (simp add: bucket_AddContact_def heap_ordered_def heap_Push_mset)
  qed
next
  case (Some i)
  then show ?thesis
    using contact_heap.Fix_heap [of "contacts b" i c] assms index_of_Some [OF Some] heap_Fix_mset(2) [of i "(contacts b)[i := c]" contact_Less]
    by (simp add: bucket_AddContact_def heap_ordered_def)
qed

lemma ch_Remove_ordered: "heap_ordered h \<Longrightarrow> heap_ordered (ch_Remove k h)"
  using contact_heap.Remove_heap [of h] heap_Remove_mset(3) [of _ h contact_Less] index_of_Some [of k h]
  by (auto simp: ch_Remove_def heap_ordered_def split: option.splits)

section \<open>The table as a whole\<close>

lemma bit_count [simp]: "CONST_KKEY_BIT_COUNT = 144"
  by (simp add: CONST_KKEY_BIT_COUNT_def CONST_KKEY_BYTE_COUNT_def)

lemma LeadingZeros_Xor: "LeadingZeros (Xor a b) = Distance a b"
  by (simp add: Distance_def)

lemma table_ok_new: "is_kkey self \<Longrightarrow> table_ok self (NewRoutingTable k) \<and> table_ordered (NewRoutingTable k)"
  by (auto simp: table_ok_def NewRoutingTable_def bucket_ok_def table_ordered_def heap_ordered_def is_heap_def)

lemma table_update:
  assumes "table_ok self rt" "i < 144" "bucket_ok i self (contacts b)"
  shows "table_ok self (rt\<lparr>Buckets := (Buckets rt)[i := b]\<rparr>)"
  using assms by (auto simp: table_ok_def nth_list_update)

lemma table_ordered_update: "table_ordered rt \<Longrightarrow> heap_ordered (contacts b) \<Longrightarrow> table_ordered (rt\<lparr>Buckets := (Buckets rt)[i := b]\<rparr>)"
  using set_update_subset_insert [of "Buckets rt" i b] by (auto simp: table_ordered_def)

lemma ordered_nth: "table_ordered rt \<Longrightarrow> i < length (Buckets rt) \<Longrightarrow> heap_ordered (contacts (Buckets rt ! i))"
  by (simp add: table_ordered_def)

lemma AddContact_self: "is_kkey self \<Longrightarrow> length (Buckets rt) = 144 \<Longrightarrow> c_key c = self \<Longrightarrow> AddContact self c rt = Inl IndexOutOfRange"
  using Distance_bounds(2) [of self self] by (simp add: AddContact_def go_index_def LeadingZeros_Xor)

lemma bucket_index:
  assumes "table_ok self rt" "is_kkey k" "k \<noteq> self"
  shows "Distance k self < 144" "go_index (Buckets rt) (int (Distance k self)) = Inr (Buckets rt ! Distance k self)"
proof -
  show "Distance k self < 144" using Distance_bounds [of k self] assms by (auto simp: table_ok_def order_le_less)
  then show "go_index (Buckets rt) (int (Distance k self)) = Inr (Buckets rt ! Distance k self)"
    using assms by (simp add: go_index_def table_ok_def)
qed

lemma AddContact_ok:
  assumes "table_ok self rt" "is_kkey (c_key c)" "c_key c \<noteq> self"
  shows "\<exists>rt'. AddContact self c rt = Inr rt' \<and> table_ok self rt' \<and> (table_ordered rt \<longrightarrow> table_ordered rt')
    \<and> (\<forall>i < 144. mset (contacts (Buckets rt' ! i)) =
         mset (if i = Distance (c_key c) self then added c (contacts (Buckets rt ! i)) else contacts (Buckets rt ! i)))"
proof -
  let ?i = "Distance (c_key c) self"
  note b = bucket_index [OF assms]
  let ?rt = "rt\<lparr>Buckets := (Buckets rt)[?i := bucket_AddContact c (Buckets rt ! ?i)]\<rparr>"
  have l: "length (Buckets rt) = 144" using assms(1) by (simp add: table_ok_def)
  have "AddContact self c rt = Inr ?rt" by (simp add: AddContact_def LeadingZeros_Xor b Let_def)
  moreover have "table_ok self ?rt"
    using assms b(1) by (intro table_update bucket_AddContact_ok) (auto simp: table_ok_def)
  moreover have "table_ordered rt \<longrightarrow> table_ordered ?rt"
    using b(1) l by (auto intro!: table_ordered_update bucket_AddContact_ordered ordered_nth)
  ultimately show ?thesis using b(1) l by (intro exI [of _ ?rt]) (simp add: bucket_AddContact_mset nth_list_update)
qed

lemma kad_Remove_ok:
  assumes "table_ok self rt" "is_kkey (c_key c)" "c_key c \<noteq> self"
  shows "\<exists>rt'. kad_Remove self c rt = Inr rt' \<and> table_ok self rt' \<and> (table_ordered rt \<longrightarrow> table_ordered rt')
    \<and> (\<forall>i < 144. mset (contacts (Buckets rt' ! i)) = mset (filter (\<lambda>x. c_key x \<noteq> c_key c) (contacts (Buckets rt ! i))))"
proof -
  let ?i = "Distance (c_key c) self"
  note b = bucket_index [OF assms]
  let ?b = "(Buckets rt ! ?i)\<lparr>contacts := ch_Remove (c_key c) (contacts (Buckets rt ! ?i))\<rparr>"
  let ?rt = "rt\<lparr>Buckets := (Buckets rt)[?i := ?b]\<rparr>"
  have l: "length (Buckets rt) = 144" and ok: "\<And>i. i < 144 \<Longrightarrow> bucket_ok i self (contacts (Buckets rt ! i))"
    using assms(1) by (auto simp: table_ok_def)
  have "kad_Remove self c rt = Inr ?rt" by (simp add: kad_Remove_def LeadingZeros_Xor b Let_def)
  moreover have "table_ok self ?rt" using assms b(1) ok by (intro table_update) (auto simp: ch_Remove_ok)
  moreover have "table_ordered rt \<longrightarrow> table_ordered ?rt"
    using b(1) l by (auto intro!: table_ordered_update ch_Remove_ordered ordered_nth)
  moreover have "mset (contacts (Buckets ?rt ! i)) = mset (filter (\<lambda>x. c_key x \<noteq> c_key c) (contacts (Buckets rt ! i)))" if "i < 144" for i
  proof (cases "i = ?i")
    case True
    have "distinct (map c_key (contacts (Buckets rt ! ?i)))" using ok [OF b(1)] by (simp add: bucket_ok_def)
    then show ?thesis using True b(1) l by (simp add: ch_Remove_mset)
  next
    case False
    then have "\<forall>x \<in> set (contacts (Buckets rt ! i)). c_key x \<noteq> c_key c" using ok [OF that] by (auto simp: bucket_ok_def)
    then show ?thesis using False by (simp add: filter_True)
  qed
  ultimately show ?thesis by blast
qed

section \<open>Looking up the closest contacts\<close>

definition all_contacts :: "'pk RoutingTable \<Rightarrow> 'pk Contact set" where
  "all_contacts rt = (\<Union>b \<in> set (Buckets rt). set (contacts b))"

text \<open>The contacts in the buckets at most \<open>r\<close> away from bucket \<open>b\<close>.\<close>

definition near :: "'pk RoutingTable \<Rightarrow> nat \<Rightarrow> nat \<Rightarrow> 'pk Contact set" where
  "near rt b r = (\<Union>k \<in> {k. k < 144 \<and> k \<le> b + r \<and> b \<le> k + r}. set (contacts (Buckets rt ! k)))"

lemma in_bucket: "table_ok self rt \<Longrightarrow> k < 144 \<Longrightarrow> c \<in> set (contacts (Buckets rt ! k)) \<Longrightarrow> is_kkey (c_key c) \<and> Distance (c_key c) self = k"
  by (auto simp: table_ok_def bucket_ok_def)

lemma near_Suc:
  "near rt b (Suc r) = near rt b r \<union> (if Suc r \<le> b \<and> b < 144 + Suc r then set (contacts (Buckets rt ! (b - Suc r))) else {})
     \<union> (if b + Suc r < 144 then set (contacts (Buckets rt ! (b + Suc r))) else {})"
proof -
  have "{k. k < 144 \<and> k \<le> b + Suc r \<and> b \<le> k + Suc r} = {k. k < 144 \<and> k \<le> b + r \<and> b \<le> k + r}
    \<union> (if Suc r \<le> b \<and> b < 144 + Suc r then {b - Suc r} else {}) \<union> (if b + Suc r < 144 then {b + Suc r} else {})"
    by (auto split: if_splits)
  then show ?thesis by (simp add: near_def)
qed

lemma near_distance:
  "table_ok self rt \<Longrightarrow> c \<in> near rt b r \<Longrightarrow> Distance (c_key c) self \<le> b + r \<and> b \<le> Distance (c_key c) self + r"
  by (auto simp: near_def dest: in_bucket)

lemma distinct_append_bucket:
  assumes "table_ok self rt" "distinct (map c_key cs)" "k < 144" "\<forall>c \<in> set cs. Distance (c_key c) self \<noteq> k"
  shows "distinct (map c_key (cs @ contacts (Buckets rt ! k)))"
  using assms in_bucket [OF assms(1,3)] by (auto simp: table_ok_def bucket_ok_def)

lemma neighbours_spec:
  assumes "table_ok self rt" "b < 144"
  shows "set closest = near rt b i \<Longrightarrow> distinct (map c_key closest) \<Longrightarrow>
    distinct (map c_key (neighbours rt b (Suc i) left closest))
    \<and> (\<exists>r \<le> i + left. set (neighbours rt b (Suc i) left closest) = near rt b r
         \<and> (length (neighbours rt b (Suc i) left closest) < CONST_ALPHA \<longrightarrow> r = i + left))
    \<and> (\<exists>cs. neighbours rt b (Suc i) left closest = closest @ cs)"
proof (induction left arbitrary: closest i)
  case 0
  then show ?case by auto
next
  case (Suc left)
  show ?case
  proof (cases "length closest < CONST_ALPHA")
    case False
    then show ?thesis using Suc.prems by (auto intro!: exI [of _ i])
  next
    case True
    let ?c1 = "if Suc i \<le> b then closest @ contacts (Buckets rt ! (b - Suc i)) else closest"
    let ?c2 = "if b + Suc i < 144 then ?c1 @ contacts (Buckets rt ! (b + Suc i)) else ?c1"
    have e: "neighbours rt b (Suc i) (Suc left) closest = neighbours rt b (Suc (Suc i)) left ?c2"
      using True by (simp add: bucket_GetContacts_def Let_def)
    have s: "set ?c2 = near rt b (Suc i)" using Suc.prems(1) assms(2) by (auto simp: near_Suc)
    have d0: "\<forall>c \<in> set closest. Distance (c_key c) self \<le> b + i \<and> b \<le> Distance (c_key c) self + i"
      using Suc.prems(1) near_distance [OF assms(1)] by blast
    have d1: "distinct (map c_key ?c1)" "\<forall>c \<in> set ?c1. Distance (c_key c) self \<le> b + i"
    proof -
      have "\<forall>c \<in> set closest. Distance (c_key c) self \<noteq> b - Suc i" if "Suc i \<le> b" using d0 that by fastforce
      then show "distinct (map c_key ?c1)"
        using distinct_append_bucket [OF assms(1) Suc.prems(2), of "b - Suc i"] assms(2) Suc.prems(2) by simp
      show "\<forall>c \<in> set ?c1. Distance (c_key c) self \<le> b + i"
        using d0 in_bucket [OF assms(1), of "b - Suc i"] assms(2) by auto
    qed
    have "\<forall>c \<in> set ?c1. Distance (c_key c) self \<noteq> b + Suc i" using d1(2) by fastforce
    then have "distinct (map c_key ?c2)"
      using distinct_append_bucket [OF assms(1) d1(1), of "b + Suc i"] d1(1) by (cases "b + Suc i < 144") simp_all
    from Suc.IH [OF s this] show ?thesis unfolding e by (auto split: if_splits)
  qed
qed

lemma near_0: "b < 144 \<Longrightarrow> near rt b 0 = set (contacts (Buckets rt ! b))"
proof -
  assume "b < 144"
  then have "{k. k < 144 \<and> k \<le> b + 0 \<and> b \<le> k + 0} = {b}" by auto
  then show ?thesis by (simp add: near_def)
qed

lemma all_contacts_nth: "length (Buckets rt) = 144 \<Longrightarrow> all_contacts rt = (\<Union>k \<in> {..<144}. set (contacts (Buckets rt ! k)))"
proof -
  assume "length (Buckets rt) = 144"
  then have "set (Buckets rt) = (\<lambda>k. Buckets rt ! k) ` {..<144}" by (auto simp: set_conv_nth)
  then show ?thesis by (simp add: all_contacts_def)
qed

lemma near_all:
  assumes "length (Buckets rt) = 144" "b < 144"
  shows "near rt b 143 = all_contacts rt" "near rt b r \<subseteq> all_contacts rt"
proof -
  have k: "{k. k < 144 \<and> k \<le> b + 143 \<and> b \<le> k + 143} = {..<144}" using assms(2) by auto
  show "near rt b 143 = all_contacts rt" by (simp add: near_def k all_contacts_nth [OF assms(1)])
  show "near rt b r \<subseteq> all_contacts rt" by (auto simp: near_def all_contacts_nth [OF assms(1)])
qed

lemma FindClosest_spec:
  assumes "table_ok self rt" "is_kkey target" "target \<noteq> self"
  defines "b \<equiv> Distance target self" and "F \<equiv> FindClosest self target rt"
  shows "length F \<le> 20" "distinct (map c_key F)" "set F \<subseteq> all_contacts rt" "\<exists>cs. F = contacts (Buckets rt ! b) @ cs"
    "length F < 5 \<Longrightarrow> set F = all_contacts rt"
proof -
  have b: "b < 144" unfolding b_def by (rule bucket_index(1) [OF assms(1-3)])
  have l: "length (Buckets rt) = 144" using assms(1) by (simp add: table_ok_def)
  let ?c = "contacts (Buckets rt ! b)"
  have ok: "length ?c \<le> 20" "distinct (map c_key ?c)" using assms(1) b by (simp_all add: table_ok_def bucket_ok_def CONST_K_def)
  let ?n = "neighbours rt b 1 143 ?c"
  have F: "F = take 20 (if length ?c < 20 then ?n else ?c)"
    using b by (simp add: F_def FindClosest_def LeadingZeros_Xor b_def [symmetric] bucket_GetContacts_def Let_def CONST_K_def)
  obtain r cs where n: "distinct (map c_key ?n)" "set ?n = near rt b r" "length ?n < CONST_ALPHA \<longrightarrow> r = 143" "?n = ?c @ cs"
    using neighbours_spec [OF assms(1) b near_0 [OF b, symmetric] ok(2), where left = 143] by (auto simp: eval_nat_numeral)
  have s: "set ?c \<subseteq> all_contacts rt" "set ?n \<subseteq> all_contacts rt" using near_all(2) [OF l b] near_0 [OF b, of rt] n(2) by auto
  show "length F \<le> 20" by (simp add: F)
  show "distinct (map c_key F)" using ok(2) n(1) by (auto simp: F take_map [symmetric] intro: distinct_take)
  show "set F \<subseteq> all_contacts rt" using s set_take_subset [of 20 ?n] set_take_subset [of 20 ?c] by (auto simp: F)
  show "\<exists>cs. F = ?c @ cs" using ok(1) n(4) by (auto simp: F)
  show "set F = all_contacts rt" if "length F < 5"
  proof -
    have "length ?c < 20" "length ?n < 5" using that ok(1) by (auto simp: F split: if_splits)
    then show ?thesis using n(2,3) near_all(1) [OF l b] by (simp add: F CONST_ALPHA_def)
  qed
qed

lemma bucket_closer:
  assumes "table_ok self rt" "is_kkey target" "b = Distance target self" "b < 144" "c \<in> set (contacts (Buckets rt ! b))"
    and "k < 144" "k \<noteq> b" "c' \<in> set (contacts (Buckets rt ! k))"
  shows "Distance (c_key c') target = min k b" "Distance (c_key c') target < Distance (c_key c) target"
proof -
  have s: "is_kkey self" using assms(1) by (simp add: table_ok_def)
  have c: "is_kkey (c_key c)" "Distance (c_key c) self = b" using in_bucket [OF assms(1,4,5)] by auto
  have c': "is_kkey (c_key c')" "Distance (c_key c') self = k" using in_bucket [OF assms(1,6,8)] by auto
  have t: "Distance self target = b" using Distance_bounds(3) [OF s assms(2)] assms(3) by simp
  show m: "Distance (c_key c') target = min k b"
    using Distance_other [OF c'(1) s assms(2)] c'(2) t assms(7) by simp
  have "b < Distance (c_key c) target" using Distance_same [OF c(1) s assms(2)] c(2) t assms(4) by simp
  then show "Distance (c_key c') target < Distance (c_key c) target" using m by simp
qed

section \<open>Properties\<close>

text \<open>Adding a contact to a routing table. A node panics when it is given its own key. Every other contact
  goes to the bucket of the length of the common prefix with the own key, where it replaces the contact
  with the same key or, in a full bucket, the root of the heap; no bucket gets more than 20 contacts or
  two with the same key, and the heaps stay heaps.\<close>

theorem kad_add_contact:
  assumes "table_ok self rt" "is_kkey (c_key c)"
  shows "if c_key c = self then AddContact self c rt = Inl IndexOutOfRange
    else \<exists>rt'. AddContact self c rt = Inr rt' \<and> table_ok self rt' \<and> (table_ordered rt \<longrightarrow> table_ordered rt')
      \<and> (\<forall>i < 144. mset (contacts (Buckets rt' ! i)) =
           mset (if i = common_prefix (key_bits (c_key c)) (key_bits self) then added c (contacts (Buckets rt ! i))
                 else contacts (Buckets rt ! i)))"
  using AddContact_self [of self rt c] AddContact_ok [OF assms] assms Distance_prefix [of "c_key c" self]
  by (simp add: table_ok_def)

definition kad_contact :: "byte \<Rightarrow> int \<Rightarrow> nat Contact" where
  "kad_contact b t = zero_contact\<lparr>c_key := b # replicate 17 0, c_StartTime := t\<rparr>"

lemma zero_kkey_Cons: "zero_kkey = 0 # replicate 17 0"
  by (simp add: zero_kkey_def CONST_KKEY_BYTE_COUNT_def flip: replicate_Suc)

lemma kad_contact_key: "is_kkey (c_key (kad_contact b t))" "b \<noteq> 0 \<Longrightarrow> c_key (kad_contact b t) \<noteq> zero_kkey"
  by (simp_all add: kad_contact_def is_kkey_def zero_kkey_Cons CONST_KKEY_BYTE_COUNT_def)

theorem kad_add_contact_witness:
  "AddContact zero_kkey zero_contact (NewRoutingTable zero_kkey :: nat RoutingTable) = Inl IndexOutOfRange
   \<and> (\<exists>rt. AddContact zero_kkey (kad_contact 4 9) (NewRoutingTable zero_kkey) = Inr rt \<and> mset (contacts (Buckets rt ! 5)) = {#kad_contact 4 9#})"
proof -
  have t: "table_ok zero_kkey (NewRoutingTable zero_kkey :: nat RoutingTable)"
    by (rule table_ok_new [OF is_kkey_zero, THEN conjunct1])
  note k = kad_contact_key [of 4 9]
  have p: "common_prefix (key_bits (c_key (kad_contact 4 9))) (key_bits zero_kkey) = 5"
    by (simp add: kad_contact_def zero_kkey_Cons byte_bits_def bit_numeral_rec)
  obtain rt :: "nat RoutingTable" where rt: "AddContact zero_kkey (kad_contact 4 9) (NewRoutingTable zero_kkey) = Inr rt"
    "mset (contacts (Buckets rt ! 5)) = mset (added (kad_contact 4 9) (contacts (Buckets (NewRoutingTable zero_kkey) ! 5)))"
    using kad_add_contact [OF t k(1)] k(2) unfolding p by auto
  have "AddContact zero_kkey zero_contact (NewRoutingTable zero_kkey :: nat RoutingTable) = Inl IndexOutOfRange"
    using kad_add_contact [OF t, of zero_contact] by (simp add: zero_contact_def)
  moreover have "mset (contacts (Buckets rt ! 5)) = {#kad_contact 4 9#}"
    unfolding rt(2) by (simp add: NewRoutingTable_def added_def CONST_K_def)
  ultimately show ?thesis using rt(1) by blast
qed

text \<open>Looking up the contacts close to a key other than the own one. The result has at most 20 contacts
  of the table, no two with the same key; the contacts in the bucket of the key come first, and each of
  them is closer to the key than any contact in another bucket; and when the result has fewer than five
  contacts, it has all contacts of the table.\<close>

theorem kad_find_closest:
  assumes "table_ok self rt" "is_kkey target" "target \<noteq> self"
  shows "length (FindClosest self target rt) \<le> 20 \<and> distinct (map c_key (FindClosest self target rt))
    \<and> set (FindClosest self target rt) \<subseteq> all_contacts rt
    \<and> (\<exists>cs. FindClosest self target rt = contacts (Buckets rt ! Distance target self) @ cs)
    \<and> (\<forall>c \<in> set (contacts (Buckets rt ! Distance target self)). \<forall>c' \<in> all_contacts rt - set (contacts (Buckets rt ! Distance target self)).
         Distance (c_key c') target < Distance (c_key c) target)
    \<and> (length (FindClosest self target rt) < 5 \<longrightarrow> set (FindClosest self target rt) = all_contacts rt)"
proof -
  note F = FindClosest_spec [OF assms] and b = bucket_index(1) [OF assms]
  have "Distance (c_key c') target < Distance (c_key c) target"
    if c: "c \<in> set (contacts (Buckets rt ! Distance target self))"
      "c' \<in> all_contacts rt - set (contacts (Buckets rt ! Distance target self))" for c c'
  proof -
    obtain k where "k < 144" "c' \<in> set (contacts (Buckets rt ! k))"
      using c(2) assms(1) all_contacts_nth [of rt] by (auto simp: table_ok_def)
    moreover have "k \<noteq> Distance target self" using c(2) calculation(2) by auto
    ultimately show ?thesis using bucket_closer(2) [OF assms(1,2) refl b c(1)] by blast
  qed
  with F show ?thesis by blast
qed

theorem kad_find_closest_witness:
  "\<exists>rt. AddContact zero_kkey (kad_contact 4 9) (NewRoutingTable zero_kkey) = Inr rt
     \<and> set (FindClosest zero_kkey (c_key (kad_contact 64 0)) rt) = {kad_contact 4 9}"
proof -
  have t: "table_ok zero_kkey (NewRoutingTable zero_kkey :: nat RoutingTable)"
    by (rule table_ok_new [OF is_kkey_zero, THEN conjunct1])
  note k = kad_contact_key(1) and n = kad_contact_key(2)
  obtain rt :: "nat RoutingTable" where rt: "AddContact zero_kkey (kad_contact 4 9) (NewRoutingTable zero_kkey) = Inr rt" "table_ok zero_kkey rt"
    "\<forall>i < 144. mset (contacts (Buckets rt ! i)) = mset (if i = Distance (c_key (kad_contact 4 9)) zero_kkey then added (kad_contact 4 9) (contacts (Buckets (NewRoutingTable zero_kkey) ! i))
                 else contacts (Buckets (NewRoutingTable zero_kkey) ! i))"
    using AddContact_ok [OF t k n, of 4 9] by auto
  have m: "mset (contacts (Buckets rt ! i)) = (if i = Distance (c_key (kad_contact 4 9)) zero_kkey then {#kad_contact 4 9#} else {#})" if "i < 144" for i
    using rt(3) that by (simp add: NewRoutingTable_def added_def CONST_K_def)
  have all: "all_contacts rt = {kad_contact 4 9}"
  proof -
    have "all_contacts rt = (\<Union>i \<in> {..<144}. set_mset (mset (contacts (Buckets rt ! i))))"
      using rt(2) all_contacts_nth [of rt] by (simp add: table_ok_def)
    also have "\<dots> = {kad_contact 4 9}" using m bucket_index(1) [OF t k n, of 4 9] by (auto split: if_splits)
    finally show ?thesis .
  qed
  have "card (set (FindClosest zero_kkey (c_key (kad_contact 64 0)) rt)) \<le> card {kad_contact 4 9}"
    using kad_find_closest [OF rt(2) k n, of 64 0] by (intro card_mono) (simp_all add: all)
  moreover have "distinct (FindClosest zero_kkey (c_key (kad_contact 64 0)) rt)"
    using kad_find_closest [OF rt(2) k n, of 64 0] by (auto dest: distinct_map [THEN iffD1])
  ultimately have "length (FindClosest zero_kkey (c_key (kad_contact 64 0)) rt) < 5" by (simp add: distinct_card)
  then show ?thesis using kad_find_closest [OF rt(2) k n, of 64 0] all rt(1) by auto
qed

text \<open>The contacts that are returned need not be the closest ones: when the bucket of the key is empty
  and the bucket before it is full, exactly that bucket is returned, although the contacts in the bucket
  after it are closer to the key.\<close>

theorem kad_skips_closer:
  assumes "table_ok self rt" "is_kkey target" "b = Distance target self" "0 < b" "b < 143"
    and "contacts (Buckets rt ! b) = []" "length (contacts (Buckets rt ! (b - 1))) = 20"
    and "c \<in> set (FindClosest self target rt)" "c' \<in> set (contacts (Buckets rt ! (b + 1)))"
  shows "c \<in> set (contacts (Buckets rt ! (b - 1))) \<and> c' \<notin> set (FindClosest self target rt)
    \<and> Distance (c_key c) target < Distance (c_key c') target"
proof -
  let ?r = "contacts (Buckets rt ! (b + 1))" and ?l = "contacts (Buckets rt ! (b - 1))"
  have n: "neighbours rt b 1 143 [] = ?l @ ?r"
    using assms(4,5,7) by (simp add: CONST_ALPHA_def bucket_GetContacts_def Let_def eval_nat_numeral)
  have F: "FindClosest self target rt = ?l"
    using assms(3-7) n by (simp add: FindClosest_def LeadingZeros_Xor bucket_GetContacts_def Let_def CONST_K_def)
  have k: "is_kkey (c_key c)" "Distance (c_key c) self = b - 1" "is_kkey (c_key c')" "Distance (c_key c') self = b + 1"
    using in_bucket [OF assms(1), of "b - 1" c] in_bucket [OF assms(1), of "b + 1" c'] assms(5,8,9) F by auto
  have s: "is_kkey self" using assms(1) by (simp add: table_ok_def)
  have t: "Distance self target = b" using Distance_bounds(3) [OF s assms(2)] assms(3) by simp
  have "Distance (c_key c) target = b - 1" "Distance (c_key c') target = b"
    using Distance_other [OF k(1) s assms(2)] Distance_other [OF k(3) s assms(2)] k t assms(4) by auto
  moreover have "c' \<notin> set ?l" using in_bucket [OF assms(1), of "b - 1" c'] k(4) assms(5) by fastforce
  ultimately show ?thesis using assms(4,8) F by auto
qed

definition lopsided :: "nat RoutingTable" where
  "lopsided = \<lparr>Buckets = (replicate 144 \<lparr>contacts = []\<rparr>)
     [0 := \<lparr>contacts = map (\<lambda>b. kad_contact (128 + b) 0) [0, 1, 2, 3, 4, 5, 6, 7, 8, 9, 10, 11, 12, 13, 14, 15, 16, 17, 18, 19]\<rparr>,
      2 := \<lparr>contacts = [kad_contact 32 0]\<rparr>]\<rparr>"

lemma Distance_kad_contact: "b \<noteq> 0 \<Longrightarrow> Distance (c_key (kad_contact b t)) zero_kkey = LeadingZeros8 b"
  by (simp add: Distance_def LeadingZeros_def Xor_def zero_kkey_Cons kad_contact_def)

lemma lopsided_ok: "table_ok zero_kkey lopsided"
proof -
  have "bucket_ok 0 zero_kkey (map (\<lambda>b. kad_contact (128 + b) 0) [0, 1, 2, 3, 4, 5, 6, 7, 8, 9, 10, 11, 12, 13, 14, 15, 16, 17, 18, 19] :: nat Contact list)"
    by (simp add: bucket_ok_def CONST_K_def Distance_kad_contact kad_contact_key(1) LeadingZeros8_def bit_numeral_rec) (simp add: kad_contact_def)
  moreover have "bucket_ok 2 zero_kkey [kad_contact 32 0]"
    by (simp add: bucket_ok_def CONST_K_def Distance_kad_contact kad_contact_key(1) LeadingZeros8_def bit_numeral_rec)
  moreover have "bucket_ok i zero_kkey ([] :: nat ContactHeap)" for i by (simp add: bucket_ok_def)
  ultimately show ?thesis by (simp add: table_ok_def lopsided_def nth_list_update)
qed

theorem kad_skips_closer_witness:
  "kad_contact 32 0 \<notin> set (FindClosest zero_kkey (c_key (kad_contact 64 0)) lopsided)
   \<and> Distance (c_key (kad_contact 128 0)) (c_key (kad_contact 64 0)) < Distance (c_key (kad_contact 32 0)) (c_key (kad_contact 64 0))"
proof -
  have b: "1 = Distance (c_key (kad_contact 64 0)) zero_kkey" by (simp add: Distance_kad_contact LeadingZeros8_def bit_numeral_rec)
  have l: "contacts (Buckets lopsided ! 1) = []" "length (contacts (Buckets lopsided ! 0)) = 20"
    "kad_contact 128 0 \<in> set (contacts (Buckets lopsided ! 0))" "contacts (Buckets lopsided ! 2) = [kad_contact 32 0]"
    by (simp_all add: lopsided_def)
  have n: "neighbours lopsided 1 1 143 [] = contacts (Buckets lopsided ! 0) @ [kad_contact 32 0]"
    using l(2,4) by (simp add: CONST_ALPHA_def bucket_GetContacts_def Let_def eval_nat_numeral)
  have "kad_contact 128 0 \<in> set (FindClosest zero_kkey (c_key (kad_contact 64 0)) lopsided)"
    using n b [symmetric] l by (simp add: FindClosest_def LeadingZeros_Xor bucket_GetContacts_def Let_def CONST_K_def)
  moreover have "1 - 1 = (0::nat)" "1 + 1 = (2::nat)" by simp_all
  ultimately show ?thesis
    using kad_skips_closer [OF lopsided_ok kad_contact_key(1) b _ _ l(1), of "kad_contact 128 0" "kad_contact 32 0"] l by (simp only: list.set_intros) simp
qed

end
