(* ===== verification/KademliaNode.thy ===== *)
theory KademliaNode
  imports KademliaTable
begin

text \<open>
  The Kademlia node (\<^verbatim>\<open>src/kademlia/node.go\<close>, \<^verbatim>\<open>server.go\<close>, \<^verbatim>\<open>kv.go\<close>): contacts on the wire, the key-value store,
  the RPC handlers, the lookup of a node and the ping round. Calls to other nodes are parameters. Of the
  goroutines of a lookup the model has the schedule in which the loop that starts them ends before the
  first response arrives; the ping round runs without interference.
\<close>

section \<open>Contacts on the wire\<close>

text \<open>Messages are pointers, which may be nil; so is the key in a contact.\<close>

record ApiContactMsg =
  ac_Key :: "byte list option"
  ac_Addr :: string
  ac_Domain :: string
  ac_DomainKey :: "byte list"
  ac_Id :: string
  ac_IdKey :: "byte list"

definition ApiContact :: "('sk, 'pk) Crypto \<Rightarrow> 'pk Contact \<Rightarrow> ApiContactMsg res" where
  "ApiContact cr contact =
     res_bind (ApiKKey (c_key contact)) (\<lambda>contactKey.
       case (ECDSAMarshal cr (c_domainKey contact), ECDSAMarshal cr (c_idKey contact)) of
         (Inr domainKey, Inr idKey) \<Rightarrow>
           Inr \<lparr>ac_Key = Some contactKey, ac_Addr = c_Addr contact, ac_Domain = c_domain contact, ac_DomainKey = domainKey,
                ac_Id = c_id contact, ac_IdKey = idKey\<rparr>
       | (Inl e, _) \<Rightarrow> Inl e
       | (_, Inl e) \<Rightarrow> Inl e)"

text \<open>\<^verbatim>\<open>ToKKey\<close> of a pointer.\<close>

definition ToKKey_ptr :: "byte list option \<Rightarrow> KKey res" where
  "ToKKey_ptr k = (case k of None \<Rightarrow> Inl (Panicked nil_dereference) | Some b \<Rightarrow> ToKKey b)"

definition ToContact :: "('sk, 'pk) Crypto \<Rightarrow> ApiContactMsg option \<Rightarrow> 'pk Contact res" where
  "ToContact cr m =
     (case m of
        None \<Rightarrow> Inl (Failure ''Null Contact'')
      | Some c \<Rightarrow>
          res_bind (ToKKey_ptr (ac_Key c)) (\<lambda>contactKey.
            case (BytesToECDSAPublicKey cr (ac_DomainKey c), BytesToECDSAPublicKey cr (ac_IdKey c)) of
              (Inr domainkey, Inr idkey) \<Rightarrow>
                Inr \<lparr>c_key = contactKey, c_Addr = ac_Addr c, c_domain = ac_Domain c, c_domainKey = Some domainkey,
                     c_id = ac_Id c, c_idKey = Some idkey, c_StartTime = 0, c_RTT = 0, c_SERVER_MODE = False\<rparr>
            | (Inl e, _) \<Rightarrow> Inl e
            | (_, Inl e) \<Rightarrow> Inl e))"

section \<open>The node and its store\<close>

type_synonym KeyValueStore = "KKey \<rightharpoonup> byte list"

record ('sk, 'pk) KNode =
  n_Key :: KKey
  n_Addr :: string
  n_routingTable :: "'pk RoutingTable"
  n_kvStore :: KeyValueStore
  n_domain :: string
  n_domainKey :: 'sk
  n_id :: string
  n_idKey :: 'sk

definition NewKeyValueStore :: KeyValueStore where
  "NewKeyValueStore = Map.empty"

definition kvs_Store :: "KKey \<Rightarrow> byte list \<Rightarrow> KeyValueStore \<Rightarrow> KeyValueStore" where
  "kvs_Store key value store = store(key \<mapsto> value)"

definition kvs_Get :: "KKey \<Rightarrow> KeyValueStore \<Rightarrow> byte list option" where
  "kvs_Get key store = store key"

text \<open>The key and the address are made by the caller of the model: the key with \<^const>\<open>NewKKey\<close>, the address by
  the listener.\<close>

definition NewNode :: "KKey \<Rightarrow> string \<Rightarrow> string \<Rightarrow> string \<Rightarrow> 'sk \<Rightarrow> 'sk \<Rightarrow> ('sk, 'pk) KNode" where
  "NewNode nodeId addr domain i domainKey idKey =
     \<lparr>n_Key = nodeId, n_Addr = addr, n_routingTable = NewRoutingTable nodeId, n_kvStore = NewKeyValueStore,
      n_domain = domain, n_domainKey = domainKey, n_id = i, n_idKey = idKey\<rparr>"

definition node_ToContact :: "('sk, 'pk) Crypto \<Rightarrow> ('sk, 'pk) KNode \<Rightarrow> 'pk Contact" where
  "node_ToContact cr node =
     \<lparr>c_key = n_Key node, c_Addr = n_Addr node, c_domain = n_domain node, c_domainKey = Some (PublicKey cr (n_domainKey node)),
      c_id = n_id node, c_idKey = Some (PublicKey cr (n_idKey node)), c_StartTime = 0, c_RTT = 0, c_SERVER_MODE = False\<rparr>"

section \<open>Handlers\<close>

datatype connect_code = CodeInvalidArgument | CodeNotFound

datatype rpc_err = RpcPanic gopanic | RpcError connect_code string

type_synonym 'a rpc = "rpc_err + 'a"

definition h_Ping :: "string rpc" where
  "h_Ping = Inr ''OK''"

text \<open>A key argument that is not a key.\<close>

definition key_arg :: "string \<Rightarrow> byte list option \<Rightarrow> KKey rpc" where
  "key_arg msg k = (case ToKKey_ptr k of
     Inr key \<Rightarrow> Inr key | Inl (Panicked p) \<Rightarrow> Inl (RpcPanic p) | Inl _ \<Rightarrow> Inl (RpcError CodeInvalidArgument msg))"

definition rpc_bind :: "'a rpc \<Rightarrow> ('a \<Rightarrow> 'b rpc) \<Rightarrow> 'b rpc" where
  "rpc_bind m f = (case m of Inl e \<Rightarrow> Inl e | Inr x \<Rightarrow> f x)"

text \<open>The contact of an iteration is appended when its conversion fails, and is nil then.\<close>

definition h_GetContacts :: "('sk, 'pk) Crypto \<Rightarrow> byte list option \<Rightarrow> ('sk, 'pk) KNode \<Rightarrow> ApiContactMsg option list rpc" where
  "h_GetContacts cr targetArg node =
     rpc_bind (key_arg ''kademlia.Kademlia.FindNode incorrect targetID'' targetArg) (\<lambda>targetId.
       let closestNodes = FindClosest (n_Key node) targetId (n_routingTable node)
       in Inr (concat (map (\<lambda>contact. case ApiContact cr contact of Inl _ \<Rightarrow> [None] | Inr _ \<Rightarrow> []) closestNodes)))"

text \<open>The handler prints the key of the argument first.\<close>

definition h_Join :: "('sk, 'pk) Crypto \<Rightarrow> ApiContactMsg option \<Rightarrow> ('sk, 'pk) KNode
    \<Rightarrow> (('sk, 'pk) KNode \<times> ApiContactMsg option \<times> ApiContactMsg list) rpc" where
  "h_Join cr self node =
     (if self = None then Inl (RpcPanic nil_dereference)
      else case ToContact cr self of
        Inl (Panicked p) \<Rightarrow> Inl (RpcPanic p)
      | Inl _ \<Rightarrow> Inl (RpcError CodeInvalidArgument ''kademlia.Kademlia.Join incorrect contact'')
      | Inr c \<Rightarrow>
          let cs = FewContacts (n_routingTable node);
              nodes = concat (map (\<lambda>contact. case ApiContact cr contact of Inl _ \<Rightarrow> [] | Inr a \<Rightarrow> [a]) cs)
          in (case AddContact (n_Key node) c (n_routingTable node) of
                Inl p \<Rightarrow> Inl (RpcPanic p)
              | Inr rt \<Rightarrow>
                  Inr (node\<lparr>n_routingTable := rt\<rparr>,
                       (case ApiContact cr (node_ToContact cr node) of Inl _ \<Rightarrow> None | Inr a \<Rightarrow> Some a), nodes)))"

definition h_Store :: "byte list option \<Rightarrow> byte list \<Rightarrow> ('sk, 'pk) KNode \<Rightarrow> (('sk, 'pk) KNode \<times> string) rpc" where
  "h_Store keyArg value node =
     rpc_bind (key_arg ''kademlia.Kademlia.Store Invalid Key'' keyArg) (\<lambda>key.
       Inr (node\<lparr>n_kvStore := kvs_Store key value (n_kvStore node)\<rparr>, ''OK''))"

definition h_FindValue :: "byte list option \<Rightarrow> ('sk, 'pk) KNode \<Rightarrow> byte list rpc" where
  "h_FindValue keyArg node =
     rpc_bind (key_arg ''kademlia.Kademlia.FindValue Invalid Key'' keyArg) (\<lambda>key.
       case kvs_Get key (n_kvStore node) of
         Some value \<Rightarrow> Inr value
       | None \<Rightarrow> Inl (RpcError CodeNotFound ''kademlia.Kademlia.FindValue Not Found''))"

section \<open>Lookup\<close>

text \<open>The loop over the contacts of a response.\<close>

fun scan_reply :: "('sk, 'pk) Crypto \<Rightarrow> KKey \<Rightarrow> ApiContactMsg option list \<Rightarrow> 'pk Contact option go" where
  "scan_reply cr target [] = Inr None"
| "scan_reply cr target (m # ms) =
     (case ToContact cr m of
        Inl (Panicked p) \<Rightarrow> Inl p
      | Inl _ \<Rightarrow> scan_reply cr target ms
      | Inr contact \<Rightarrow> if c_key contact = target then Inr (Some contact) else scan_reply cr target ms)"

text \<open>The contacts for which the loop starts a goroutine.\<close>

fun unqueried :: "KKey set \<Rightarrow> 'pk Contact list \<Rightarrow> 'pk Contact list" where
  "unqueried queried [] = []"
| "unqueried queried (c # cs) =
     (if c_key c \<in> queried then unqueried queried cs else c # unqueried (insert (c_key c) queried) cs)"

fun go_map :: "('a \<Rightarrow> 'b go) \<Rightarrow> 'a list \<Rightarrow> 'b list go" where
  "go_map f [] = Inr []"
| "go_map f (x # xs) = go_bind (f x) (\<lambda>y. go_bind (go_map f xs) (\<lambda>ys. Inr (y # ys)))"

lemma go_map_cong [fundef_cong]: "xs = ys \<Longrightarrow> (\<And>x. x \<in> set ys \<Longrightarrow> f x = g x) \<Longrightarrow> go_map f xs = go_map g ys"
  by (induction ys arbitrary: xs) auto

lemma unqueried_set: "c \<in> set (unqueried queried cs) \<Longrightarrow> c \<in> set cs \<and> c_key c \<notin> queried"
  by (induction queried cs rule: unqueried.induct) (auto split: if_splits)

text \<open>\<open>ask\<close> is the response of a contact to \<^verbatim>\<open>GetContacts\<close>, or nothing when the call fails; \<open>closest\<close> is
  \<^verbatim>\<open>node.FindClosest(target)\<close>, which is the same in every call. A result is a contact, or nothing, and a path.
  Each goroutine tells whether it found the target itself. A panic in a goroutine ends the process.\<close>

function RecursiveFindNode ::
  "('sk, 'pk) Crypto \<Rightarrow> ('pk Contact \<Rightarrow> ApiContactMsg option list option) \<Rightarrow> 'pk Contact list \<Rightarrow> KKey \<Rightarrow> KKey set
   \<Rightarrow> 'pk Contact list \<Rightarrow> ('pk Contact option \<times> 'pk Contact list) go" where
  "RecursiveFindNode cr ask closest target queried path =
     (if closest = [] then Inr (None, path)
      else let started = unqueried queried (take CONST_ALPHA closest);
               queried' = queried \<union> c_key ` set started
           in go_bind (go_map (\<lambda>contact.
                case ask contact of
                  None \<Rightarrow> Inr (False, None, path)
                | Some reply \<Rightarrow>
                    go_bind (scan_reply cr target reply) (\<lambda>r.
                      case r of
                        Some c \<Rightarrow> Inr (True, Some c, path @ [contact])
                      | None \<Rightarrow> go_bind (RecursiveFindNode cr ask closest target queried' (path @ [contact])) (\<lambda>(c, p). Inr (False, c, p))))
                started) (\<lambda>results.
              case find (\<lambda>(found, c, p). found) results of
                Some (_, c, _) \<Rightarrow> Inr (c, path)
              | None \<Rightarrow>
                  (case find (\<lambda>(found, c, p). c \<noteq> None) results of
                     Some (_, c, p) \<Rightarrow> Inr (c, p)
                   | None \<Rightarrow> Inr (None, path))))"
  by pat_completeness auto

termination
proof (relation "measure (\<lambda>(cr, ask, closest, target, queried, path). card (c_key ` set closest - queried))", goal_cases)
  case (2 cr ask closest target queried path started queried' contact)
  then have c: "c_key contact \<in> c_key ` set closest - queried"
    using unqueried_set [of contact queried "take CONST_ALPHA closest"] by (auto dest: in_set_takeD)
  have "c_key ` set closest - queried' \<subset> c_key ` set closest - queried" using c 2 by auto
  then show ?case by (auto intro: psubset_card_mono)
qed simp

declare RecursiveFindNode.simps [simp del]

definition RFindNode ::
  "('sk, 'pk) Crypto \<Rightarrow> ('pk Contact \<Rightarrow> ApiContactMsg option list option) \<Rightarrow> KKey \<Rightarrow> ('sk, 'pk) KNode
   \<Rightarrow> ('pk Contact option \<times> 'pk Contact list) go" where
  "RFindNode cr ask target node =
     RecursiveFindNode cr ask (FindClosest (n_Key node) target (n_routingTable node)) target {} []"

definition h_FindNode ::
  "('sk, 'pk) Crypto \<Rightarrow> ('pk Contact \<Rightarrow> ApiContactMsg option list option) \<Rightarrow> byte list option \<Rightarrow> ('sk, 'pk) KNode
   \<Rightarrow> (ApiContactMsg \<times> ApiContactMsg option list) rpc" where
  "h_FindNode cr ask targetArg node =
     rpc_bind (key_arg ''kademlia.Kademlia.FindNode incorrect targetID'' targetArg) (\<lambda>targetId.
       case RFindNode cr ask targetId node of
         Inl p \<Rightarrow> Inl (RpcPanic p)
       | Inr (None, path) \<Rightarrow> Inl (RpcError CodeNotFound ''kademlia.Kademlia.FindNode not found'')
       | Inr (Some contact, path) \<Rightarrow>
           (case ApiContact cr contact of
              Inl _ \<Rightarrow> Inl (RpcError CodeInvalidArgument ''kademlia.Kademlia.FindNode incorrect contact'')
            | Inr a \<Rightarrow> Inr (a, map (\<lambda>c. case ApiContact cr c of Inl _ \<Rightarrow> None | Inr x \<Rightarrow> Some x) path)))"

section \<open>The ping round\<close>

text \<open>\<open>ping\<close> is the round-trip time of a contact, or nothing when it does not answer. The time is written through
  the pointer that \<^verbatim>\<open>Peek\<close> returned, into the root of the heap.\<close>

definition ping_bucket :: "('pk Contact \<Rightarrow> int option) \<Rightarrow> 'pk KBucket \<Rightarrow> 'pk KBucket" where
  "ping_bucket ping b =
     (case Peek (contacts b) of
        None \<Rightarrow> b
      | Some oldest \<Rightarrow>
          (case ping oldest of
             None \<Rightarrow> b\<lparr>contacts := ch_Remove (c_key oldest) (contacts b)\<rparr>
           | Some rtt \<Rightarrow> b\<lparr>contacts := (contacts b)[0 := oldest\<lparr>c_RTT := rtt\<rparr>]\<rparr>))"

definition PingOldestContacts :: "('pk Contact \<Rightarrow> int option) \<Rightarrow> ('sk, 'pk) KNode \<Rightarrow> ('sk, 'pk) KNode" where
  "PingOldestContacts ping node =
     node\<lparr>n_routingTable := (n_routingTable node)\<lparr>Buckets := map (ping_bucket ping) (Buckets (n_routingTable node))\<rparr>\<rparr>"

section \<open>Conversions\<close>

text \<open>What the library promises of compressed public keys.\<close>

definition crypto_ok :: "('sk, 'pk) Crypto \<Rightarrow> bool" where
  "crypto_ok cr \<longleftrightarrow> (\<forall>p. length (MarshalCompressed cr p) = 33 \<and> UnmarshalCompressed cr (MarshalCompressed cr p) = Some p)"

definition keyed :: "'pk Contact \<Rightarrow> bool" where
  "keyed c \<longleftrightarrow> is_kkey (c_key c) \<and> c_domainKey c \<noteq> None \<and> c_idKey c \<noteq> None"

lemma ApiContact_keyed: "keyed c \<Longrightarrow> \<exists>a. ApiContact cr c = Inr a"
  by (auto simp: keyed_def ApiContact_def ApiKKey_eq ECDSAMarshal_def)

lemma ToContact_keyed: "ToContact cr m = Inr c \<Longrightarrow> keyed c"
  by (cases m; cases "BytesToECDSAPublicKey cr (ac_DomainKey (the m))"; cases "BytesToECDSAPublicKey cr (ac_IdKey (the m))")
    (auto simp: ToContact_def ToKKey_ptr_def ToKKey_eq keyed_def res_bind_eq_Inr split: option.split_asm if_splits)

lemma ToContact_ApiContact:
  assumes "crypto_ok cr" "keyed c" "ApiContact cr c = Inr a"
  shows "ToContact cr (Some a) = Inr (c\<lparr>c_StartTime := 0, c_RTT := 0, c_SERVER_MODE := False\<rparr>)"
  using assms
  by (auto simp: keyed_def ApiContact_def ApiKKey_eq ECDSAMarshal_def ToContact_def ToKKey_ptr_def ToKKey_eq BytesToECDSAPublicKey_def crypto_ok_def)

section \<open>Runs of a node\<close>

text \<open>A node from its creation on: joins of others, contacts taken from responses, stores and ping rounds.\<close>

inductive kad_run :: "('sk, 'pk) Crypto \<Rightarrow> ('sk, 'pk) KNode \<Rightarrow> bool" for cr where
  created: "is_kkey k \<Longrightarrow> kad_run cr (NewNode k addr domain i domainKey idKey)"
| joined: "kad_run cr node \<Longrightarrow> h_Join cr m node = Inr (node', self, cs) \<Longrightarrow> kad_run cr node'"
| learned: "kad_run cr node \<Longrightarrow> ToContact cr m = Inr c \<Longrightarrow> AddContact (n_Key node) c (n_routingTable node) = Inr rt
    \<Longrightarrow> kad_run cr (node\<lparr>n_routingTable := rt\<rparr>)"
| removed: "kad_run cr node \<Longrightarrow> ToContact cr m = Inr c \<Longrightarrow> kad_Remove (n_Key node) c (n_routingTable node) = Inr rt
    \<Longrightarrow> kad_run cr (node\<lparr>n_routingTable := rt\<rparr>)"
| stored: "kad_run cr node \<Longrightarrow> h_Store k v node = Inr (node', st) \<Longrightarrow> kad_run cr node'"
| pinged: "kad_run cr node \<Longrightarrow> kad_run cr (PingOldestContacts ping node)"

definition node_ok :: "('sk, 'pk) KNode \<Rightarrow> bool" where
  "node_ok node \<longleftrightarrow> table_ok (n_Key node) (n_routingTable node) \<and> (\<forall>c \<in> all_contacts (n_routingTable node). keyed c)"

lemma added_subset: "set (added c h) \<subseteq> insert c (set h)"
proof (cases "index_of (c_key c) h")
  case None
  then show ?thesis by (cases h) (auto simp: added_def)
next
  case (Some i)
  then show ?thesis using set_update_subset_insert [of h i c] by (simp add: added_def)
qed

lemma all_contacts_mono:
  assumes "table_ok self rt" "table_ok self rt'" "\<And>i. i < 144 \<Longrightarrow> set (contacts (Buckets rt' ! i)) \<subseteq> X \<union> set (contacts (Buckets rt ! i))"
  shows "all_contacts rt' \<subseteq> X \<union> all_contacts rt"
proof
  fix c assume "c \<in> all_contacts rt'"
  then obtain i where "i < 144" "c \<in> set (contacts (Buckets rt' ! i))"
    using assms(2) all_contacts_nth [of rt'] by (auto simp: table_ok_def)
  then have "c \<in> X \<union> set (contacts (Buckets rt ! i))" "i < 144" using assms(3) by auto
  then show "c \<in> X \<union> all_contacts rt" using assms(1) all_contacts_nth [of rt] by (auto simp: table_ok_def)
qed

lemma node_ok_add:
  assumes "node_ok node" "keyed c" "AddContact (n_Key node) c (n_routingTable node) = Inr rt"
  shows "node_ok (node\<lparr>n_routingTable := rt\<rparr>)"
proof -
  let ?rt = "n_routingTable node"
  have t: "table_ok (n_Key node) ?rt" using assms(1) by (simp add: node_ok_def)
  have "c_key c \<noteq> n_Key node" using AddContact_self [of "n_Key node" ?rt c] assms t by (auto simp: table_ok_def)
  then have rt: "table_ok (n_Key node) rt" and m: "\<forall>i < 144. mset (contacts (Buckets rt ! i)) =
      mset (if i = Distance (c_key c) (n_Key node) then added c (contacts (Buckets ?rt ! i)) else contacts (Buckets ?rt ! i))"
    using AddContact_ok [OF t, of c] assms(2,3) by (auto simp: keyed_def)
  have "set (contacts (Buckets rt ! i)) \<subseteq> {c} \<union> set (contacts (Buckets ?rt ! i))" if "i < 144" for i
  proof -
    have "set (contacts (Buckets rt ! i)) = set (if i = Distance (c_key c) (n_Key node) then added c (contacts (Buckets ?rt ! i)) else contacts (Buckets ?rt ! i))"
      using m that by (intro mset_eq_setD) simp
    then show ?thesis using added_subset [of c "contacts (Buckets ?rt ! i)"] by auto
  qed
  from all_contacts_mono [OF t rt this] show ?thesis using assms(1,2) rt by (auto simp: node_ok_def)
qed

lemma node_ok_remove:
  assumes "node_ok node" "keyed c" "kad_Remove (n_Key node) c (n_routingTable node) = Inr rt"
  shows "node_ok (node\<lparr>n_routingTable := rt\<rparr>)"
proof -
  let ?rt = "n_routingTable node"
  have t: "table_ok (n_Key node) ?rt" using assms(1) by (simp add: node_ok_def)
  have "c_key c \<noteq> n_Key node"
    using assms(3) t Distance_bounds(2) [of "n_Key node" "n_Key node"] by (auto simp: kad_Remove_def go_index_def LeadingZeros_Xor table_ok_def)
  then have rt: "table_ok (n_Key node) rt" and m: "\<forall>i < 144. mset (contacts (Buckets rt ! i)) =
      mset (filter (\<lambda>x. c_key x \<noteq> c_key c) (contacts (Buckets ?rt ! i)))"
    using kad_Remove_ok [OF t, of c] assms(2,3) by (auto simp: keyed_def)
  have "set (contacts (Buckets rt ! i)) \<subseteq> {} \<union> set (contacts (Buckets ?rt ! i))" if "i < 144" for i
  proof -
    have "set (contacts (Buckets rt ! i)) = set (filter (\<lambda>x. c_key x \<noteq> c_key c) (contacts (Buckets ?rt ! i)))"
      using m that by (intro mset_eq_setD) simp
    then show ?thesis by auto
  qed
  from all_contacts_mono [OF t rt this] show ?thesis using assms(1) rt by (auto simp: node_ok_def)
qed

lemma ping_bucket_ok:
  assumes "bucket_ok i self (contacts b)" "\<forall>c \<in> set (contacts b). keyed c"
  shows "bucket_ok i self (contacts (ping_bucket ping b)) \<and> (\<forall>c \<in> set (contacts (ping_bucket ping b)). keyed c)"
proof (cases "contacts b")
  case Nil
  then show ?thesis using assms by (simp add: ping_bucket_def Peek_def)
next
  case (Cons c cs)
  show ?thesis
  proof (cases "ping c")
    case None
    have "mset (ch_Remove (c_key c) (contacts b)) = mset (filter (\<lambda>x. c_key x \<noteq> c_key c) (contacts b))"
      using assms(1) by (intro ch_Remove_mset) (simp add: bucket_ok_def)
    then have "set (ch_Remove (c_key c) (contacts b)) = set (filter (\<lambda>x. c_key x \<noteq> c_key c) (contacts b))" by (rule mset_eq_setD)
    then show ?thesis using Cons None assms ch_Remove_ok [OF assms(1), of "c_key c"] by (auto simp: ping_bucket_def Peek_def)
  next
    case (Some r)
    then show ?thesis using Cons assms by (auto simp: ping_bucket_def Peek_def bucket_ok_def keyed_def)
  qed
qed

lemma node_ok_ping:
  assumes "node_ok node"
  shows "node_ok (PingOldestContacts ping node)"
proof -
  have k: "\<forall>b \<in> set (Buckets (n_routingTable node)). \<forall>c \<in> set (contacts b). keyed c" and
    t: "length (Buckets (n_routingTable node)) = 144" "is_kkey (n_Key node)"
       "\<forall>i < 144. bucket_ok i (n_Key node) (contacts (Buckets (n_routingTable node) ! i))"
    using assms by (auto simp: node_ok_def all_contacts_def table_ok_def)
  have b: "bucket_ok i (n_Key node) (contacts (ping_bucket ping (Buckets (n_routingTable node) ! i)))
      \<and> (\<forall>c \<in> set (contacts (ping_bucket ping (Buckets (n_routingTable node) ! i))). keyed c)" if "i < 144" for i
  proof -
    have "Buckets (n_routingTable node) ! i \<in> set (Buckets (n_routingTable node))" using t(1) that by simp
    then show ?thesis using k t(3) that by (intro ping_bucket_ok) blast+
  qed
  then have "\<forall>x \<in> set (Buckets (n_routingTable node)). \<forall>c \<in> set (contacts (ping_bucket ping x)). keyed c"
    using t(1) by (metis in_set_conv_nth)
  then show ?thesis using b t by (simp add: node_ok_def PingOldestContacts_def table_ok_def all_contacts_def)
qed

lemma kad_run_ok: "kad_run cr node \<Longrightarrow> node_ok node"
proof (induction rule: kad_run.induct)
  case (created k addr domain i domainKey idKey)
  then show ?case using table_ok_new [of k k] by (auto simp: node_ok_def NewNode_def all_contacts_def NewRoutingTable_def)
next
  case (joined node m node' self cs)
  then obtain c rt where "ToContact cr m = Inr c" "AddContact (n_Key node) c (n_routingTable node) = Inr rt" "node' = node\<lparr>n_routingTable := rt\<rparr>"
    by (auto simp: h_Join_def Let_def split: if_splits sum.splits goerr.splits)
  then show ?case using node_ok_add joined.IH ToContact_keyed by blast
next
  case (learned node m c rt)
  then show ?case using node_ok_add ToContact_keyed by blast
next
  case (removed node m c rt)
  then show ?case using node_ok_remove ToContact_keyed by blast
next
  case (stored node k v node' st)
  then show ?case by (auto simp: h_Store_def rpc_bind_def node_ok_def split: sum.splits)
next
  case (pinged node ping)
  then show ?case by (rule_tac node_ok_ping)
qed

section \<open>What a lookup finds\<close>

lemma unqueried_all: "c_key ` set cs \<subseteq> queried \<Longrightarrow> unqueried queried cs = []"
  by (induction queried cs rule: unqueried.induct) auto

lemma unqueried_none: "distinct (map c_key cs) \<Longrightarrow> c_key ` set cs \<inter> queried = {} \<Longrightarrow> unqueried queried cs = cs"
  by (induction cs arbitrary: queried) auto

lemma go_map_Inr: "(\<And>x. x \<in> set xs \<Longrightarrow> f x = Inr (g x)) \<Longrightarrow> go_map f xs = Inr (map g xs)"
  by (induction xs) auto

text \<open>A call in which every contact was queried already asks nobody.\<close>

lemma lookup_exhausted:
  "c_key ` set (take CONST_ALPHA closest) \<subseteq> queried \<Longrightarrow> RecursiveFindNode cr ask closest target queried path = Inr (None, path)"
  by (subst RecursiveFindNode.simps) (simp add: unqueried_all)

text \<open>What a contact answers: nothing, or the contact with the key in its response.\<close>

definition answer :: "('sk, 'pk) Crypto \<Rightarrow> ('pk Contact \<Rightarrow> ApiContactMsg option list option) \<Rightarrow> KKey \<Rightarrow> 'pk Contact \<Rightarrow> 'pk Contact option" where
  "answer cr ask target c = (case ask c of None \<Rightarrow> None | Some reply \<Rightarrow> (case scan_reply cr target reply of Inr r \<Rightarrow> r | Inl _ \<Rightarrow> None))"

definition harmless :: "('sk, 'pk) Crypto \<Rightarrow> ApiContactMsg option list \<Rightarrow> bool" where
  "harmless cr reply \<longleftrightarrow> (\<forall>m \<in> set reply. \<forall>p. ToContact cr m \<noteq> Inl (Panicked p))"

lemma scan_harmless: "harmless cr reply \<Longrightarrow> \<exists>r. scan_reply cr target reply = Inr r"
  by (induction reply) (auto simp: harmless_def split: sum.splits goerr.splits)

lemma lookup_once:
  assumes "distinct (map c_key closest)"
    and "\<And>c reply. c \<in> set (take CONST_ALPHA closest) \<Longrightarrow> ask c = Some reply \<Longrightarrow> harmless cr reply"
  shows "RecursiveFindNode cr ask closest target {} [] =
    Inr (case List.map_filter (answer cr ask target) (take CONST_ALPHA closest) of [] \<Rightarrow> None | x # _ \<Rightarrow> Some x, [])"
proof (cases "closest = []")
  case True
  then show ?thesis by (subst RecursiveFindNode.simps) (simp add: map_filter_def)
next
  case False
  let ?first = "take CONST_ALPHA closest"
  have u: "unqueried {} ?first = ?first" using assms(1) by (intro unqueried_none) (simp_all add: take_map [symmetric])
  define g where "g = (\<lambda>c. (answer cr ask target c \<noteq> None, answer cr ask target c, if ask c = None then [] else [c]))"
  have "(case ask c of None \<Rightarrow> Inr (False, None, [])
      | Some reply \<Rightarrow> go_bind (scan_reply cr target reply) (\<lambda>r. case r of
            Some x \<Rightarrow> Inr (True, Some x, [] @ [c])
          | None \<Rightarrow> go_bind (RecursiveFindNode cr ask closest target ({} \<union> c_key ` set ?first) ([] @ [c])) (\<lambda>(x, p). Inr (False, x, p))))
      = Inr (g c)" if c: "c \<in> set ?first" for c
  proof (cases "ask c")
    case None
    then show ?thesis by (simp add: g_def answer_def)
  next
    case (Some reply)
    obtain r where "scan_reply cr target reply = Inr r" using scan_harmless [OF assms(2) [OF c Some]] by blast
    then show ?thesis using Some lookup_exhausted [of closest "c_key ` set ?first" cr ask target "[c]"]
      by (cases r) (auto simp: g_def answer_def)
  qed
  then have m: "go_map (\<lambda>c. case ask c of None \<Rightarrow> Inr (False, None, [])
      | Some reply \<Rightarrow> go_bind (scan_reply cr target reply) (\<lambda>r. case r of
            Some x \<Rightarrow> Inr (True, Some x, [] @ [c])
          | None \<Rightarrow> go_bind (RecursiveFindNode cr ask closest target ({} \<union> c_key ` set ?first) ([] @ [c])) (\<lambda>(x, p). Inr (False, x, p))))
      ?first = Inr (map g ?first)" by (intro go_map_Inr) auto
  have f1: "List.map_filter (answer cr ask target) cs = [] \<Longrightarrow>
      find (\<lambda>(found, c, p). found) (map g cs) = None \<and> find (\<lambda>(found, c, p). c \<noteq> None) (map g cs) = None" for cs
    by (induction cs) (auto simp: g_def map_filter_simps split: option.splits)
  have f2: "List.map_filter (answer cr ask target) cs = x # xs \<Longrightarrow>
      \<exists>p. find (\<lambda>(found, c, p). found) (map g cs) = Some (True, Some x, p)" for cs x xs
    by (induction cs) (auto simp: g_def map_filter_simps split: option.splits)
  have "RecursiveFindNode cr ask closest target {} [] =
      (case find (\<lambda>(found, c, p). found) (map g ?first) of
         Some (_, c, _) \<Rightarrow> Inr (c, [])
       | None \<Rightarrow> (case find (\<lambda>(found, c, p). c \<noteq> None) (map g ?first) of Some (_, c, p) \<Rightarrow> Inr (c, p) | None \<Rightarrow> Inr (None, [])))"
    unfolding RecursiveFindNode.simps [of cr ask closest target "{}" "[]"] Let_def u m go_bind_simps if_not_P [OF False] ..
  then show ?thesis
    using f1 [of ?first] f2 [of ?first] by (cases "List.map_filter (answer cr ask target) ?first") auto
qed

lemma FindClosest_keyed:
  assumes "node_ok node" "is_kkey target"
  shows "distinct (map c_key (FindClosest (n_Key node) target (n_routingTable node)))
    \<and> (\<forall>c \<in> set (FindClosest (n_Key node) target (n_routingTable node)). keyed c)"
proof (cases "target = n_Key node")
  case True
  then have "FindClosest (n_Key node) target (n_routingTable node) = []"
    using Distance_bounds(2) [OF assms(2,2)] by (simp add: FindClosest_def LeadingZeros_Xor)
  then show ?thesis by simp
next
  case False
  have t: "table_ok (n_Key node) (n_routingTable node)" using assms(1) by (simp add: node_ok_def)
  show ?thesis using FindClosest_spec(2,3) [OF t assms(2) False] assms(1) by (auto simp: node_ok_def)
qed

lemmas FindClosest_distinct = FindClosest_keyed [THEN conjunct1]

text \<open>Every contact of a node can be converted, so the handler never appends anything.\<close>

lemma h_GetContacts_empty:
  assumes "node_ok node" "is_kkey target"
  shows "h_GetContacts cr (Some target) node = Inr []"
proof -
  have "(case ApiContact cr c of Inl _ \<Rightarrow> [None :: ApiContactMsg option] | Inr _ \<Rightarrow> []) = []"
    if "c \<in> set (FindClosest (n_Key node) target (n_routingTable node))" for c
    using FindClosest_keyed [OF assms] ApiContact_keyed [of c cr] that by auto
  then show ?thesis using assms(2) by (simp add: h_GetContacts_def rpc_bind_def key_arg_def ToKKey_ptr_def ToKKey_eq)
qed

section \<open>Properties\<close>

text \<open>C29: in every run of a node, whatever joins, contacts and ping results arrive, no bucket has more than 20
  contacts or two with the same key, and every contact is in the bucket of the length of the prefix that
  its key shares with the node's own key, which no contact has.\<close>

theorem kad_table_invariant:
  assumes "kad_run cr node" "i < 144" "c \<in> set (contacts (Buckets (n_routingTable node) ! i))"
  shows "length (contacts (Buckets (n_routingTable node) ! i)) \<le> 20 \<and> distinct (map c_key (contacts (Buckets (n_routingTable node) ! i)))
    \<and> common_prefix (key_bits (c_key c)) (key_bits (n_Key node)) = i \<and> c_key c \<noteq> n_Key node"
proof -
  have t: "table_ok (n_Key node) (n_routingTable node)" using kad_run_ok [OF assms(1)] by (simp add: node_ok_def)
  have k: "is_kkey (n_Key node)" using t by (simp add: table_ok_def)
  have c: "is_kkey (c_key c)" "Distance (c_key c) (n_Key node) = i" using in_bucket [OF t assms(2,3)] by auto
  then have "c_key c \<noteq> n_Key node" using Distance_bounds(2) [OF c(1) k] assms(2) by auto
  then show ?thesis using c t assms(2) Distance_prefix [OF c(1) k] by (auto simp: table_ok_def bucket_ok_def CONST_K_def)
qed

text \<open>A node with one contact, for a cryptography with a single public key.\<close>

definition one_key :: "(unit, unit) Crypto" where
  "one_key = \<lparr>sha256 = (\<lambda>m. []), sum64 = (\<lambda>m. 0), sign = (\<lambda>m k. Inr m), verify = (\<lambda>k h s. True), PublicKey = (\<lambda>k. ()),
     MarshalCompressed = (\<lambda>p. replicate 33 2), UnmarshalCompressed = (\<lambda>b. Some ()), UnmarshalUncompressed = (\<lambda>b. None), PointXY = (\<lambda>x y. ())\<rparr>"

definition sample_contact :: "unit Contact" where
  "sample_contact = \<lparr>c_key = 4 # replicate 17 0, c_Addr = ''127.0.0.1:1'', c_domain = ''d'', c_domainKey = Some (), c_id = ''i'', c_idKey = Some (),
     c_StartTime = 0, c_RTT = 0, c_SERVER_MODE = False\<rparr>"

lemma crypto_ok_one_key: "crypto_ok one_key"
  by (simp add: crypto_ok_def one_key_def)

lemma sample_keyed: "keyed sample_contact"
  by (simp add: keyed_def sample_contact_def is_kkey_def CONST_KKEY_BYTE_COUNT_def)

lemma sample_run:
  obtains node where "kad_run one_key node" "n_Key node = zero_kkey" "contacts (Buckets (n_routingTable node) ! 5) = [sample_contact]"
proof -
  let ?n = "NewNode zero_kkey ''127.0.0.1:0'' ''d'' ''i'' () () :: (unit, unit) KNode"
  have r: "kad_run one_key ?n" by (rule kad_run.created) simp
  have t: "table_ok zero_kkey (n_routingTable ?n)" using kad_run_ok [OF r] by (simp add: node_ok_def NewNode_def)
  have k: "is_kkey (c_key sample_contact)" "c_key sample_contact \<noteq> zero_kkey"
    by (simp_all add: sample_contact_def is_kkey_def CONST_KKEY_BYTE_COUNT_def zero_kkey_Cons)
  have d: "Distance (c_key sample_contact) zero_kkey = 5"
    by (simp add: Distance_def LeadingZeros_def Xor_def zero_kkey_Cons sample_contact_def LeadingZeros8_def bit_numeral_rec)
  obtain a where a: "ApiContact one_key sample_contact = Inr a" using ApiContact_keyed [OF sample_keyed] by blast
  have c: "ToContact one_key (Some a) = Inr sample_contact"
    using ToContact_ApiContact [OF crypto_ok_one_key sample_keyed a] by (simp add: sample_contact_def)
  obtain rt where rt: "AddContact zero_kkey sample_contact (n_routingTable ?n) = Inr rt"
    "\<forall>i < 144. mset (contacts (Buckets rt ! i)) = mset (if i = 5 then added sample_contact (contacts (Buckets (n_routingTable ?n) ! i))
                 else contacts (Buckets (n_routingTable ?n) ! i))"
    using AddContact_ok [OF t k] d by auto
  have "mset (contacts (Buckets rt ! 5)) = {#sample_contact#}" using rt(2) by (simp add: NewNode_def NewRoutingTable_def added_def CONST_K_def)
  moreover have "n_Key ?n = zero_kkey" by (simp add: NewNode_def)
  ultimately show thesis using that [OF kad_run.learned [OF r c, of rt]] rt(1) by simp
qed

theorem kad_table_invariant_witness:
  "\<exists>node. kad_run one_key node \<and> contacts (Buckets (n_routingTable node) ! 5) = [sample_contact]
     \<and> common_prefix (key_bits (c_key sample_contact)) (key_bits (n_Key node)) = 5"
proof (rule sample_run)
  fix node :: "(unit, unit) KNode"
  assume n: "kad_run one_key node" "contacts (Buckets (n_routingTable node) ! 5) = [sample_contact]"
  show ?thesis using kad_table_invariant [OF n(1), of 5 sample_contact] n by auto
qed



definition asks_nodes :: "('sk, 'pk) Crypto \<Rightarrow> ('pk Contact \<Rightarrow> ('sk, 'pk) KNode option) \<Rightarrow> KKey \<Rightarrow> 'pk Contact \<Rightarrow> ApiContactMsg option list option" where
  "asks_nodes cr net target c =
     (case net c of
        None \<Rightarrow> None
      | Some node \<Rightarrow> (case h_GetContacts cr (Some target) node of Inr reply \<Rightarrow> Some reply | Inl _ \<Rightarrow> None))"

lemma asks_nodes_empty:
  assumes "is_kkey target" "\<forall>c n. net c = Some n \<longrightarrow> kad_run cr n"
  shows "asks_nodes cr net target c = Some reply \<Longrightarrow> reply = []"
  using assms(2) h_GetContacts_empty [OF kad_run_ok assms(1), of cr _ cr] by (auto simp: asks_nodes_def split: option.splits)

text \<open>Nodes that run this code find nobody: \<^verbatim>\<open>GetContacts\<close> reports the contacts whose conversion failed, and
  there are none, so every lookup among such nodes ends with \<^verbatim>\<open>CodeNotFound\<close>, even for a node that is in the
  table of the one that looks it up.\<close>

theorem kad_find_node_fails:
  assumes "kad_run cr node" "\<forall>c n. net c = Some n \<longrightarrow> kad_run cr n" "is_kkey target"
  shows "h_FindNode cr (asks_nodes cr net target) (Some target) node
    = Inl (RpcError CodeNotFound ''kademlia.Kademlia.FindNode not found'')"
proof -
  let ?ask = "asks_nodes cr net target" and ?F = "FindClosest (n_Key node) target (n_routingTable node)"
  have e: "?ask c = Some reply \<Longrightarrow> reply = []" for c reply by (rule asks_nodes_empty [OF assms(3,2)])
  have "answer cr ?ask target c = None" for c
    using e [of c] by (cases "?ask c") (auto simp: answer_def)
  then have n: "List.map_filter (answer cr ?ask target) cs = []" for cs by (simp add: map_filter_def)
  have "harmless cr reply" if "?ask c = Some reply" for c reply using e [OF that] by (simp add: harmless_def)
  then have "RFindNode cr ?ask target node = Inr (None, [])"
    using lookup_once [OF FindClosest_distinct [OF kad_run_ok [OF assms(1)] assms(3)], of ?ask cr target]
    unfolding RFindNode_def n by simp
  then show ?thesis using assms(3) by (simp add: h_FindNode_def key_arg_def ToKKey_ptr_def ToKKey_eq rpc_bind_def)
qed

theorem kad_find_node_fails_witness:
  "\<exists>node. kad_run one_key node \<and> sample_contact \<in> all_contacts (n_routingTable node)
     \<and> h_FindNode one_key (asks_nodes one_key (\<lambda>c. Some node) (c_key sample_contact)) (Some (c_key sample_contact)) node
         = Inl (RpcError CodeNotFound ''kademlia.Kademlia.FindNode not found'')"
proof (rule sample_run)
  fix node :: "(unit, unit) KNode"
  assume n: "kad_run one_key node" "contacts (Buckets (n_routingTable node) ! 5) = [sample_contact]"
  have "length (Buckets (n_routingTable node)) = 144" using kad_run_ok [OF n(1)] by (simp add: node_ok_def table_ok_def)
  then have "Buckets (n_routingTable node) ! 5 \<in> set (Buckets (n_routingTable node))" by simp
  then have "sample_contact \<in> all_contacts (n_routingTable node)"
    unfolding all_contacts_def by (rule UN_I) (simp add: n(2))
  moreover have "h_FindNode one_key (asks_nodes one_key (\<lambda>c. Some node) (c_key sample_contact)) (Some (c_key sample_contact)) node
      = Inl (RpcError CodeNotFound ''kademlia.Kademlia.FindNode not found'')"
    by (rule kad_find_node_fails [OF n(1)]) (use n(1) sample_keyed in \<open>simp_all add: keyed_def\<close>)
  ultimately show ?thesis using n(1) by blast
qed

text \<open>Storing and finding values: a value is found under its key, and other keys are unaffected.\<close>

lemma store_find:
  assumes "h_Store (Some k) v node = Inr (node', st)"
  shows "h_FindValue (Some k') node' = (if k' = k then Inr v else h_FindValue (Some k') node)"
  using assms by (auto simp: h_Store_def h_FindValue_def rpc_bind_def key_arg_def ToKKey_ptr_def ToKKey_eq kvs_Store_def kvs_Get_def
    ERR_INVALID_KEY_def split: if_splits)

text \<open>The ping round writes the new round-trip time into the root without restoring the heap.\<close>

lemma ping_breaks_order:
  "\<exists>b :: unit KBucket. heap_ordered (contacts b) \<and> \<not> heap_ordered (contacts (ping_bucket (\<lambda>c. Some 9) b))"
proof -
  let ?c = "zero_contact :: unit Contact"
  have h: "is_heap contact_Less (Suc (Suc 0)) [x, y] \<longleftrightarrow> \<not> contact_Less y x" for x y :: "unit Contact"
    by (auto simp: is_heap_def less_Suc_eq parent_def)
  show ?thesis
    by (rule exI [of _ "\<lparr>contacts = [?c\<lparr>c_RTT := 3\<rparr>, ?c\<lparr>c_RTT := 5\<rparr>]\<rparr>"])
      (simp add: heap_ordered_def h ping_bucket_def Peek_def contact_Less_def zero_contact_def)
qed

text \<open>\<^verbatim>\<open>FewContacts\<close> returns the first positions of an array in which the contacts are stored under the index of
  their bucket: a single contact in any bucket but the first is left out.\<close>

lemma few_contacts_misses:
  assumes "length (Buckets rt) = 144" "0 < i" "i < 144" "contacts (Buckets rt ! i) \<noteq> []"
    and "\<And>j. j < 144 \<Longrightarrow> j \<noteq> i \<Longrightarrow> contacts (Buckets rt ! j) = []"
  shows "FewContacts rt = [zero_contact]"
proof -
  have "Peek (contacts (Buckets rt ! j)) \<noteq> None \<longleftrightarrow> j = i" if "j < 144" for j
    using assms(4,5) that by (cases "j = i") (simp_all add: Peek_def)
  then have "{j. j < length (Buckets rt) \<and> Peek (contacts (Buckets rt ! j)) \<noteq> None} = {i}" using assms(1,3) by auto
  then have n: "length (filter (\<lambda>b. Peek (contacts b) \<noteq> None) (Buckets rt)) = 1" unfolding length_filter_conv_card by simp
  obtain b bs where b: "Buckets rt = b # bs" using assms(1) by (cases "Buckets rt") auto
  then have "contacts b = []" using assms(5) [of 0] assms(2) by simp
  then show ?thesis using n by (simp add: FewContacts_def b Peek_def)
qed

end
