(* ===== verification/Hraftd.thy ===== *)
theory Hraftd
  imports Prelude
begin

text \<open>
  The key-value store on top of hashicorp/raft (\<^verbatim>\<open>src/hraftd/store/store.go\<close>), its HTTP service
  (\<^verbatim>\<open>src/hraftd/http/service.go\<close>) and the join request a new node sends (\<^verbatim>\<open>src/hraftd/main.go\<close>). The Raft library
  and the JSON encoding are parameters: records of the calls the store makes. The state machine, the snapshots, opening the store,
  joining a cluster and the request handlers are modelled. The service knows the store through an
  interface, which is a record of operations here and a locale with their laws.
\<close>

section \<open>The Raft library and JSON\<close>

type_synonym server_id = string
type_synonym server_addr = string

record hraft_server =
  srv_ID :: server_id
  srv_Address :: server_addr

text \<open>An error is a message. The state of the library is \<open>'r\<close>; the calls are the ones the store makes.\<close>

record 'r raft_lib =
  is_leader :: "'r \<Rightarrow> bool"
  raft_Apply :: "string \<Rightarrow> 'r \<Rightarrow> 'r \<times> string option"
  GetConfiguration :: "'r \<Rightarrow> string + hraft_server list"
  RemoveServer :: "server_id \<Rightarrow> 'r \<Rightarrow> 'r \<times> string option"
  AddVoter :: "server_id \<Rightarrow> server_addr \<Rightarrow> 'r \<Rightarrow> 'r \<times> string option"

record hcommand =
  h_Op :: string
  h_Key :: string
  h_Value :: string

type_synonym hmap = "string \<rightharpoonup> string"

record json =
  marshal_command :: "hcommand \<Rightarrow> string + string"
  unmarshal_command :: "string \<Rightarrow> string + hcommand"
  marshal_map :: "hmap \<Rightarrow> string + string"
  decode_map :: "string \<Rightarrow> string + hmap"

text \<open>The calls with which a store is opened. A log store is in memory or a file.\<close>

datatype log_store = InmemStore | BoltStore string

definition retainSnapshotCount :: nat where "retainSnapshotCount = 2"

record 'r raft_setup =
  ResolveTCPAddr :: "string \<Rightarrow> string + string"
  NewTCPTransport :: "string \<Rightarrow> string \<Rightarrow> string + server_addr"
  NewFileSnapshotStore :: "string \<Rightarrow> nat \<Rightarrow> string + (string \<times> nat)"
  raftboltdb_New :: "string \<Rightarrow> string + log_store"
  filepath_Join :: "string \<Rightarrow> string \<Rightarrow> string"
  NewRaft :: "server_id \<Rightarrow> log_store \<Rightarrow> log_store \<Rightarrow> string \<times> nat \<Rightarrow> server_addr \<Rightarrow> string + 'r"
  BootstrapCluster :: "hraft_server list \<Rightarrow> 'r \<Rightarrow> 'r"

section \<open>The store\<close>

text \<open>The Raft instance is a pointer that is nil until the store has been opened.\<close>

record 'r Store =
  s_RaftDir :: string
  s_RaftBind :: string
  s_inmem :: bool
  s_m :: hmap
  s_raft :: "'r option"

definition hstore_New :: "bool \<Rightarrow> 'r Store" where
  "hstore_New inmem = \<lparr>s_RaftDir = '''', s_RaftBind = '''', s_inmem = inmem, s_m = Map.empty, s_raft = None\<rparr>"

definition hs_Open :: "'r raft_setup \<Rightarrow> bool \<Rightarrow> server_id \<Rightarrow> 'r Store \<Rightarrow> 'r Store \<times> string option" where
  "hs_Open su enableSingle localID s =
     (case ResolveTCPAddr su (s_RaftBind s) of
        Inl err \<Rightarrow> (s, Some err)
      | Inr addr \<Rightarrow>
     (case NewTCPTransport su (s_RaftBind s) addr of
        Inl err \<Rightarrow> (s, Some err)
      | Inr transport \<Rightarrow>
     (case NewFileSnapshotStore su (s_RaftDir s) retainSnapshotCount of
        Inl err \<Rightarrow> (s, Some (''file snapshot store: '' @ err))
      | Inr snapshots \<Rightarrow>
     (case (if s_inmem s then Inr (InmemStore, InmemStore)
            else (case raftboltdb_New su (filepath_Join su (s_RaftDir s) ''raft.db'') of
                    Inl err \<Rightarrow> Inl (''new bbolt store: '' @ err)
                  | Inr boltDB \<Rightarrow> Inr (boltDB, boltDB))) of
        Inl err \<Rightarrow> (s, Some err)
      | Inr (logStore, stableStore) \<Rightarrow>
     (case NewRaft su localID logStore stableStore snapshots transport of
        Inl err \<Rightarrow> (s, Some (''new raft: '' @ err))
      | Inr ra \<Rightarrow>
          (s\<lparr>s_raft := Some (if enableSingle
                              then BootstrapCluster su [\<lparr>srv_ID = localID, srv_Address = transport\<rparr>] ra
                              else ra)\<rparr>, None))))))"

text \<open>A key that is not there has the empty string.\<close>

definition hs_Get :: "string \<Rightarrow> 'r Store \<Rightarrow> string \<times> string option" where
  "hs_Get key s = ((case s_m s key of None \<Rightarrow> '''' | Some v \<Rightarrow> v), None)"

definition hs_Set :: "'r raft_lib \<Rightarrow> json \<Rightarrow> string \<Rightarrow> string \<Rightarrow> 'r Store \<Rightarrow> ('r Store \<times> string option) go" where
  "hs_Set lib js key value s =
     (case s_raft s of
        None \<Rightarrow> Inl nil_dereference
      | Some r \<Rightarrow>
          if \<not> is_leader lib r then Inr (s, Some ''not leader'')
          else (case marshal_command js \<lparr>h_Op = ''set'', h_Key = key, h_Value = value\<rparr> of
                  Inl err \<Rightarrow> Inr (s, Some err)
                | Inr b \<Rightarrow> (case raft_Apply lib b r of (r', e) \<Rightarrow> Inr (s\<lparr>s_raft := Some r'\<rparr>, e))))"

definition hs_Delete :: "'r raft_lib \<Rightarrow> json \<Rightarrow> string \<Rightarrow> 'r Store \<Rightarrow> ('r Store \<times> string option) go" where
  "hs_Delete lib js key s =
     (case s_raft s of
        None \<Rightarrow> Inl nil_dereference
      | Some r \<Rightarrow>
          if \<not> is_leader lib r then Inr (s, Some ''not leader'')
          else (case marshal_command js \<lparr>h_Op = ''delete'', h_Key = key, h_Value = ''''\<rparr> of
                  Inl err \<Rightarrow> Inr (s, Some err)
                | Inr b \<Rightarrow> (case raft_Apply lib b r of (r', e) \<Rightarrow> Inr (s\<lparr>s_raft := Some r'\<rparr>, e))))"

text \<open>The loop over the configured servers. A server with the same id and address ends the call; one with the
  same id or address is removed.\<close>

datatype join_loop = Already_member | Removal_failed string | Conflicts_removed

fun remove_conflicts :: "'r raft_lib \<Rightarrow> server_id \<Rightarrow> server_addr \<Rightarrow> hraft_server list \<Rightarrow> 'r \<Rightarrow> 'r \<times> join_loop" where
  "remove_conflicts lib nodeID addr [] r = (r, Conflicts_removed)"
| "remove_conflicts lib nodeID addr (srv # srvs) r =
     (if srv_ID srv = nodeID \<or> srv_Address srv = addr
      then if srv_Address srv = addr \<and> srv_ID srv = nodeID then (r, Already_member)
           else (case RemoveServer lib (srv_ID srv) r of
                   (r', Some err) \<Rightarrow>
                     (r', Removal_failed (''error removing existing node '' @ nodeID @ '' at '' @ addr @ '': '' @ err))
                 | (r', None) \<Rightarrow> remove_conflicts lib nodeID addr srvs r')
      else remove_conflicts lib nodeID addr srvs r)"

definition hs_Join :: "'r raft_lib \<Rightarrow> server_id \<Rightarrow> server_addr \<Rightarrow> 'r Store \<Rightarrow> ('r Store \<times> string option) go" where
  "hs_Join lib nodeID addr s =
     (case s_raft s of
        None \<Rightarrow> Inl nil_dereference
      | Some r \<Rightarrow>
          (case GetConfiguration lib r of
             Inl err \<Rightarrow> Inr (s, Some err)
           | Inr servers \<Rightarrow>
               (case remove_conflicts lib nodeID addr servers r of
                  (r', Already_member) \<Rightarrow> Inr (s\<lparr>s_raft := Some r'\<rparr>, None)
                | (r', Removal_failed err) \<Rightarrow> Inr (s\<lparr>s_raft := Some r'\<rparr>, Some err)
                | (r', Conflicts_removed) \<Rightarrow>
                    (case AddVoter lib nodeID addr r' of (r'', e) \<Rightarrow> Inr (s\<lparr>s_raft := Some r''\<rparr>, e)))))"

section \<open>The state machine\<close>

definition applySet :: "string \<Rightarrow> string \<Rightarrow> hmap \<Rightarrow> hmap" where
  "applySet key value m = m(key \<mapsto> value)"

definition applyDelete :: "string \<Rightarrow> hmap \<Rightarrow> hmap" where
  "applyDelete key m = m(key := None)"

definition fsm_Apply :: "json \<Rightarrow> string \<Rightarrow> hmap \<Rightarrow> hmap go" where
  "fsm_Apply js dat m =
     (case unmarshal_command js dat of
        Inl err \<Rightarrow> Inl (Explicit (''failed to unmarshal command: '' @ err))
      | Inr c \<Rightarrow>
          if h_Op c = ''set'' then Inr (applySet (h_Key c) (h_Value c) m)
          else if h_Op c = ''delete'' then Inr (applyDelete (h_Key c) m)
          else Inl (Explicit (''unrecognized command op: '' @ h_Op c)))"

text \<open>The snapshot is a copy of the map.\<close>

definition fsm_Snapshot :: "hmap \<Rightarrow> hmap" where
  "fsm_Snapshot m = m"

text \<open>The sink: what was written, whether it was closed or cancelled, and which of the calls fail.\<close>

record sink =
  sk_data :: string
  sk_closed :: bool
  sk_cancelled :: bool
  sk_write_error :: "string option"
  sk_close_error :: "string option"

definition snapshot_Persist :: "json \<Rightarrow> hmap \<Rightarrow> sink \<Rightarrow> sink \<times> string option" where
  "snapshot_Persist js store sink =
     (let (sink', err) =
        (case marshal_map js store of
           Inl e \<Rightarrow> (sink, Some e)
         | Inr b \<Rightarrow>
             (case sk_write_error sink of
                Some e \<Rightarrow> (sink, Some e)
              | None \<Rightarrow>
                  let sink1 = sink\<lparr>sk_data := sk_data sink @ b\<rparr>
                  in (case sk_close_error sink of
                        Some e \<Rightarrow> (sink1, Some e)
                      | None \<Rightarrow> (sink1\<lparr>sk_closed := True\<rparr>, None))))
      in if err \<noteq> None then (sink'\<lparr>sk_cancelled := True\<rparr>, err) else (sink', err))"

definition fsm_Restore :: "json \<Rightarrow> string \<Rightarrow> hmap \<Rightarrow> hmap \<times> string option" where
  "fsm_Restore js rc m = (case decode_map js rc of Inl err \<Rightarrow> (m, Some err) | Inr o' \<Rightarrow> (o', None))"

section \<open>The HTTP service\<close>

text \<open>The service has a store of which it only knows the interface.\<close>

record 's StoreOps =
  i_Get :: "string \<Rightarrow> 's \<Rightarrow> string \<times> string option"
  i_Set :: "string \<Rightarrow> string \<Rightarrow> 's \<Rightarrow> ('s \<times> string option) go"
  i_Delete :: "string \<Rightarrow> 's \<Rightarrow> ('s \<times> string option) go"
  i_Join :: "string \<Rightarrow> string \<Rightarrow> 's \<Rightarrow> ('s \<times> string option) go"

definition hstore_ops :: "'r raft_lib \<Rightarrow> json \<Rightarrow> 'r Store StoreOps" where
  "hstore_ops lib js = \<lparr>i_Get = hs_Get, i_Set = hs_Set lib js, i_Delete = hs_Delete lib js, i_Join = hs_Join lib\<rparr>"

text \<open>The first status written counts; a write without a status, and a handler that returns without one,
  answer 200. The body is what was written.\<close>

record response =
  rs_status :: "nat option"
  rs_body :: string

definition no_response :: response where
  "no_response = \<lparr>rs_status = None, rs_body = ''''\<rparr>"

definition WriteHeader :: "nat \<Rightarrow> response \<Rightarrow> response" where
  "WriteHeader st w = (case rs_status w of None \<Rightarrow> w\<lparr>rs_status := Some st\<rparr> | Some _ \<Rightarrow> w)"

definition WriteString :: "string \<Rightarrow> response \<Rightarrow> response" where
  "WriteString b w = (WriteHeader 200 w)\<lparr>rs_body := rs_body w @ b\<rparr>"

definition final_status :: "response \<Rightarrow> nat" where
  "final_status w = (case rs_status w of None \<Rightarrow> 200 | Some st \<Rightarrow> st)"

text \<open>\<^verbatim>\<open>strings.Split(s, "/")\<close>\<close>

fun split_slash :: "string \<Rightarrow> string list" where
  "split_slash [] = ['''']"
| "split_slash (c # cs) =
     (if c = CHR ''/'' then '''' # split_slash cs
      else (case split_slash cs of [] \<Rightarrow> [[c]] | p # ps \<Rightarrow> (c # p) # ps))"

definition getKey :: "string \<Rightarrow> string" where
  "getKey path = (let parts = split_slash path in if length parts \<noteq> 3 then '''' else parts ! 2)"

record request =
  rq_Method :: string
  rq_Path :: string
  rq_Body :: string

text \<open>The loop over a map visits its keys in an order that the language leaves open: the list of keys is an
  argument, and keys outside the map are not visited.\<close>

fun set_all :: "'s StoreOps \<Rightarrow> string list \<Rightarrow> hmap \<Rightarrow> 's \<Rightarrow> ('s \<times> string option) go" where
  "set_all st [] m s = Inr (s, None)"
| "set_all st (k # ks) m s =
     (case m k of
        None \<Rightarrow> set_all st ks m s
      | Some v \<Rightarrow>
          go_bind (i_Set st k v s) (\<lambda>(s', e).
            case e of Some err \<Rightarrow> Inr (s', Some err) | None \<Rightarrow> set_all st ks m s'))"

definition handleKeyRequest :: "json \<Rightarrow> 's StoreOps \<Rightarrow> string list \<Rightarrow> request \<Rightarrow> 's \<Rightarrow> ('s \<times> response) go" where
  "handleKeyRequest js st ks r s =
     (if rq_Method r = ''GET'' then
        (let k = getKey (rq_Path r);
             w = (if k = '''' then WriteHeader 400 no_response else no_response)
         in (case i_Get st k s of
               (v, Some _) \<Rightarrow> Inr (s, WriteHeader 500 w)
             | (v, None) \<Rightarrow>
                 (case marshal_map js [k \<mapsto> v] of
                    Inl _ \<Rightarrow> Inr (s, WriteHeader 500 w)
                  | Inr b \<Rightarrow> Inr (s, WriteString b w))))
      else if rq_Method r = ''POST'' then
        (case decode_map js (rq_Body r) of
           Inl _ \<Rightarrow> Inr (s, WriteHeader 400 no_response)
         | Inr m \<Rightarrow>
             go_bind (set_all st ks m s) (\<lambda>(s', e).
               if e \<noteq> None then Inr (s', WriteHeader 500 no_response) else Inr (s', no_response)))
      else if rq_Method r = ''DELETE'' then
        (let k = getKey (rq_Path r)
         in if k = '''' then Inr (s, WriteHeader 400 no_response)
            else go_bind (i_Delete st k s) (\<lambda>(s', e).
                   if e \<noteq> None then Inr (s', WriteHeader 500 no_response) else Inr (s', no_response)))
      else Inr (s, WriteHeader 405 no_response))"

definition handleJoin :: "json \<Rightarrow> 's StoreOps \<Rightarrow> request \<Rightarrow> 's \<Rightarrow> ('s \<times> response) go" where
  "handleJoin js st r s =
     (case decode_map js (rq_Body r) of
        Inl _ \<Rightarrow> Inr (s, WriteHeader 400 no_response)
      | Inr m \<Rightarrow>
          if card (dom m) \<noteq> 2 then Inr (s, WriteHeader 400 no_response)
          else (case m ''addr'' of
                  None \<Rightarrow> Inr (s, WriteHeader 400 no_response)
                | Some remoteAddr \<Rightarrow>
                    (case m ''id'' of
                       None \<Rightarrow> Inr (s, WriteHeader 400 no_response)
                     | Some nodeID \<Rightarrow>
                         go_bind (i_Join st nodeID remoteAddr s) (\<lambda>(s', e).
                           if e \<noteq> None then Inr (s', WriteHeader 500 no_response) else Inr (s', no_response)))))"

definition ServeHTTP :: "json \<Rightarrow> 's StoreOps \<Rightarrow> string list \<Rightarrow> request \<Rightarrow> 's \<Rightarrow> ('s \<times> response) go" where
  "ServeHTTP js st ks r s =
     (if take 4 (rq_Path r) = ''/key'' then handleKeyRequest js st ks r s
      else if rq_Path r = ''/join'' then handleJoin js st r s
      else Inr (s, WriteHeader 404 no_response))"

text \<open>The join request of a new node. \<open>post\<close> is \<^verbatim>\<open>http.Post\<close>: an error, or a response, which the code drops.\<close>

definition join_request :: "json \<Rightarrow> string \<Rightarrow> server_addr \<Rightarrow> server_id \<Rightarrow> string + string \<times> request" where
  "join_request js joinAddr raftAddr nodeID =
     (case marshal_map js [''addr'' \<mapsto> raftAddr, ''id'' \<mapsto> nodeID] of
        Inl err \<Rightarrow> Inl err
      | Inr b \<Rightarrow> Inr (joinAddr, \<lparr>rq_Method = ''POST'', rq_Path = ''/join'', rq_Body = b\<rparr>))"

definition main_join :: "json \<Rightarrow> (string \<Rightarrow> request \<Rightarrow> string + response) \<Rightarrow> string \<Rightarrow> server_addr \<Rightarrow> server_id \<Rightarrow> string option" where
  "main_join js post joinAddr raftAddr nodeID =
     (case join_request js joinAddr raftAddr nodeID of
        Inl err \<Rightarrow> Some err
      | Inr (host, req) \<Rightarrow> (case post host req of Inl err \<Rightarrow> Some err | Inr resp \<Rightarrow> None))"

section \<open>Replaying a log\<close>

fun replay :: "json \<Rightarrow> string list \<Rightarrow> hmap \<Rightarrow> hmap go" where
  "replay js [] m = Inr m"
| "replay js (b # bs) m = go_bind (fsm_Apply js b m) (replay js bs)"

lemma replay_append: "replay js (xs @ ys) m = go_bind (replay js xs m) (replay js ys)"
  by (induction xs arbitrary: m) (auto simp: go_bind_def split: sum.splits)

text \<open>What the store relies on in the encoding: text that is valid (\<^verbatim>\<open>encoding/json\<close> replaces bytes that are not
  UTF-8) comes back, and decoding only gives valid text and finite maps.\<close>

definition text_map :: "(string \<Rightarrow> bool) \<Rightarrow> hmap \<Rightarrow> bool" where
  "text_map valid m \<longleftrightarrow> finite (dom m) \<and> (\<forall>k v. m k = Some v \<longrightarrow> valid k \<and> valid v)"

definition json_laws :: "json \<Rightarrow> (string \<Rightarrow> bool) \<Rightarrow> bool" where
  "json_laws js valid \<longleftrightarrow>
     (\<forall>c b. marshal_command js c = Inr b \<longrightarrow> h_Op c \<in> {''set'', ''delete''} \<longrightarrow> valid (h_Key c) \<longrightarrow> valid (h_Value c)
        \<longrightarrow> unmarshal_command js b = Inr c)
   \<and> (\<forall>b c. unmarshal_command js b = Inr c \<longrightarrow> valid (h_Key c) \<and> valid (h_Value c))
   \<and> (\<forall>m b. marshal_map js m = Inr b \<longrightarrow> text_map valid m \<longrightarrow> decode_map js b = Inr m)
   \<and> (\<forall>b m. decode_map js b = Inr m \<longrightarrow> text_map valid m)"

lemma json_lawsD:
  assumes "json_laws js valid"
  shows "marshal_command js c = Inr b \<Longrightarrow> h_Op c \<in> {''set'', ''delete''} \<Longrightarrow> valid (h_Key c) \<Longrightarrow> valid (h_Value c) \<Longrightarrow> unmarshal_command js b = Inr c"
    and "unmarshal_command js b = Inr c \<Longrightarrow> valid (h_Key c) \<and> valid (h_Value c)"
    and "marshal_map js m = Inr b \<Longrightarrow> text_map valid m \<Longrightarrow> decode_map js b = Inr m"
    and "decode_map js b = Inr m \<Longrightarrow> text_map valid m"
  using assms unfolding json_laws_def by blast+

lemma fsm_Apply_text:
  assumes "json_laws js valid" "text_map valid m" "fsm_Apply js b m = Inr m'"
  shows "text_map valid m'"
  using assms(2,3) json_lawsD(2) [OF assms(1), of b]
  by (auto simp: fsm_Apply_def applySet_def applyDelete_def text_map_def
      split: sum.splits if_splits elim: rev_finite_subset)

lemma replay_text:
  "json_laws js valid \<Longrightarrow> text_map valid m \<Longrightarrow> replay js bs m = Inr m' \<Longrightarrow> text_map valid m'"
  by (induction bs arbitrary: m) (auto simp: go_bind_eq_Inr dest: fsm_Apply_text)

lemma persist_ok:
  assumes "snapshot_Persist js m sk = (sk', None)"
  obtains b where "marshal_map js m = Inr b" "sk_data sk' = sk_data sk @ b" "sk_closed sk'" "sk_cancelled sk' = sk_cancelled sk"
  using assms by (auto simp: snapshot_Persist_def Let_def split: sum.splits option.splits if_splits prod.splits)

lemma persist_error:
  "snapshot_Persist js m sk = (sk', Some e) \<Longrightarrow> sk_cancelled sk'"
  by (auto simp: snapshot_Persist_def Let_def split: sum.splits option.splits if_splits prod.splits)

lemma text_map_empty [simp]: "text_map valid Map.empty"
  by (simp add: text_map_def)

text \<open>C31: snapshots stand for the log they replace. When the state that a prefix of the log produced has been
  persisted to a fresh sink without an error, the sink is closed and not cancelled, restoring its contents
  into any node succeeds, and replaying the rest of the log there gives exactly what replaying the whole
  log from the empty map gives.\<close>

theorem hraftd_snapshot:
  assumes "json_laws js valid" "replay js pre Map.empty = Inr m"
    and "snapshot_Persist js (fsm_Snapshot m) sk = (sk', None)" "sk_data sk = ''''" "\<not> sk_cancelled sk"
  shows "sk_closed sk' \<and> \<not> sk_cancelled sk' \<and> fsm_Restore js (sk_data sk') old = (m, None)
    \<and> replay js post (fst (fsm_Restore js (sk_data sk') old)) = replay js (pre @ post) Map.empty"
proof -
  obtain b where b: "marshal_map js m = Inr b" "sk_data sk' = b" "sk_closed sk'" "\<not> sk_cancelled sk'"
    using assms(3-5) by (auto simp: fsm_Snapshot_def elim: persist_ok)
  have "decode_map js b = Inr m"
    using json_lawsD(3) [OF assms(1) b(1)] replay_text [OF assms(1) _ assms(2)] by simp
  then show ?thesis using b assms(2) by (simp add: fsm_Restore_def replay_append)
qed

section \<open>The store as the service sees it\<close>

text \<open>
  The contract of the interface. \<open>contents\<close> is the map a client has built up, that is, what the accepted
  commands make of the empty map; \<open>good\<close> is what the store needs of its state. A call that reports no
  error has its effect; after an error nothing is known of the contents, because the command may still be
  committed.
\<close>

locale key_value_store =
  fixes ops :: "'s StoreOps"
    and good :: "'s \<Rightarrow> bool"
    and contents :: "'s \<Rightarrow> hmap"
    and valid :: "string \<Rightarrow> bool"
  assumes set_ok: "good s \<Longrightarrow> valid k \<Longrightarrow> valid v \<Longrightarrow> i_Set ops k v s = Inr (s', None)
      \<Longrightarrow> good s' \<and> contents s' = (contents s)(k \<mapsto> v)"
    and delete_ok: "good s \<Longrightarrow> valid k \<Longrightarrow> i_Delete ops k s = Inr (s', None)
      \<Longrightarrow> good s' \<and> contents s' = (contents s)(k := None)"
begin

lemma set_all_ok:
  assumes "good s" "text_map valid m" "set_all ops ks m s = Inr (s', None)"
  shows "good s' \<and> contents s' = contents s ++ (m |` set ks)"
  using assms(1,3)
proof (induction ks arbitrary: s)
  case Nil
  then show ?case by (simp add: restrict_map_def map_add_def fun_eq_iff)
next
  case (Cons k ks)
  show ?case
  proof (cases "m k")
    case None
    then have "m |` set (k # ks) = m |` set ks" by (auto simp: restrict_map_def fun_eq_iff)
    then show ?thesis using Cons None by simp
  next
    case (Some v)
    then obtain t where t: "i_Set ops k v s = Inr (t, None)" "set_all ops ks m t = Inr (s', None)"
      using Cons.prems(2) by (auto simp: go_bind_eq_Inr split: option.splits)
    have "valid k \<and> valid v" using assms(2) Some by (auto simp: text_map_def)
    then have c: "good t" "contents t = (contents s)(k \<mapsto> v)" using set_ok [OF Cons.prems(1) _ _ t(1)] by auto
    have "(contents s)(k \<mapsto> v) ++ (m |` set ks) = contents s ++ (m |` set (k # ks))"
      using Some by (auto simp: restrict_map_def map_add_def fun_eq_iff split: option.splits)
    then show ?thesis using Cons.IH [OF c(1) t(2)] unfolding c(2) by metis
  qed
qed

lemma post_ok:
  assumes "good s" "rq_Method r = ''POST''" "decode_map js (rq_Body r) = Inr m" "text_map valid m" "dom m \<subseteq> set ks"
    and "handleKeyRequest js ops ks r s = Inr (s', w)" "final_status w = 200"
  shows "good s' \<and> contents s' = contents s ++ m"
proof -
  have "set_all ops ks m s = Inr (s', None)"
    using assms(2,3,6,7) by (auto simp: handleKeyRequest_def go_bind_eq_Inr final_status_def WriteHeader_def no_response_def split: if_splits)
  moreover have "m |` set ks = m" using assms(5) by (intro ext) (metis domIff in_mono restrict_map_def)
  ultimately show ?thesis using set_all_ok [OF assms(1,4)] by metis
qed

lemma delete_request_ok:
  assumes "good s" "rq_Method r = ''DELETE''" "valid (getKey (rq_Path r))"
    and "handleKeyRequest js ops ks r s = Inr (s', w)" "final_status w = 200"
  shows "good s' \<and> contents s' = (contents s)(getKey (rq_Path r) := None)"
proof -
  have "i_Delete ops (getKey (rq_Path r)) s = Inr (s', None)"
    using assms(2,4,5)
    by (auto simp: handleKeyRequest_def Let_def go_bind_eq_Inr final_status_def WriteHeader_def no_response_def split: if_splits)
  then show ?thesis by (rule delete_ok [OF assms(1,3)])
qed

end

text \<open>
  The store provides it. \<open>rlog r\<close> is the sequence of commands the library has accepted; accepting one puts it
  at the end, as long as no other client submits at the same time. The contents are the replay of that
  sequence: what every node's map is once it has applied all of it.
\<close>

definition applies :: "'r raft_lib \<Rightarrow> ('r \<Rightarrow> string list) \<Rightarrow> bool" where
  "applies lib rlog \<longleftrightarrow> (\<forall>b r r'. raft_Apply lib b r = (r', None) \<longrightarrow> rlog r' = rlog r @ [b])"

definition accepted :: "('r \<Rightarrow> string list) \<Rightarrow> 'r Store \<Rightarrow> string list" where
  "accepted rlog s = (case s_raft s of None \<Rightarrow> [] | Some r \<Rightarrow> rlog r)"

definition store_contents :: "json \<Rightarrow> ('r \<Rightarrow> string list) \<Rightarrow> 'r Store \<Rightarrow> hmap" where
  "store_contents js rlog s = (case replay js (accepted rlog s) Map.empty of Inl _ \<Rightarrow> Map.empty | Inr m \<Rightarrow> m)"

definition store_good :: "'r raft_lib \<Rightarrow> json \<Rightarrow> ('r \<Rightarrow> string list) \<Rightarrow> (string \<Rightarrow> bool) \<Rightarrow> 'r Store \<Rightarrow> bool" where
  "store_good lib js rlog valid s \<longleftrightarrow>
     applies lib rlog \<and> json_laws js valid \<and> valid '''' \<and> (\<exists>m. replay js (accepted rlog s) Map.empty = Inr m)"

lemma submitted:
  assumes "store_good lib js rlog valid s" "s_raft s = Some r" "marshal_command js c = Inr b"
    "raft_Apply lib b r = (r', None)" "h_Op c \<in> {''set'', ''delete''}" "valid (h_Key c)" "valid (h_Value c)"
    "\<And>m. (if h_Op c = ''set'' then applySet (h_Key c) (h_Value c) m else applyDelete (h_Key c) m) = f m"
  shows "store_good lib js rlog valid (s\<lparr>s_raft := Some r'\<rparr>)"
    and "store_contents js rlog (s\<lparr>s_raft := Some r'\<rparr>) = f (store_contents js rlog s)"
proof -
  obtain m where m: "replay js (rlog r) Map.empty = Inr m" and laws: "applies lib rlog" "json_laws js valid" "valid ''''"
    using assms(1,2) by (auto simp: store_good_def accepted_def)
  have l: "rlog r' = rlog r @ [b]" using laws(1) assms(4) by (auto simp: applies_def)
  have "unmarshal_command js b = Inr c" using json_lawsD(1) [OF laws(2) assms(3,5,6,7)] .
  then have "fsm_Apply js b m = Inr (f m)" using assms(5) assms(8) [of m] by (auto simp: fsm_Apply_def split: if_splits)
  then have r: "replay js (rlog r') Map.empty = Inr (f m)" using m l by (simp add: replay_append)
  show "store_good lib js rlog valid (s\<lparr>s_raft := Some r'\<rparr>)"
    using laws r by (simp add: store_good_def accepted_def)
  show "store_contents js rlog (s\<lparr>s_raft := Some r'\<rparr>) = f (store_contents js rlog s)"
    using r m assms(2) by (simp add: store_contents_def accepted_def)
qed

lemma hs_Set_ok:
  assumes "hs_Set lib js k v s = Inr (s', None)"
  obtains r b r' where "s_raft s = Some r" "is_leader lib r" "marshal_command js \<lparr>h_Op = ''set'', h_Key = k, h_Value = v\<rparr> = Inr b"
    "raft_Apply lib b r = (r', None)" "s' = s\<lparr>s_raft := Some r'\<rparr>"
  using assms by (auto simp: hs_Set_def split: option.splits if_splits sum.splits prod.splits)

lemma hs_Delete_ok:
  assumes "hs_Delete lib js k s = Inr (s', None)"
  obtains r b r' where "s_raft s = Some r" "is_leader lib r" "marshal_command js \<lparr>h_Op = ''delete'', h_Key = k, h_Value = ''''\<rparr> = Inr b"
    "raft_Apply lib b r = (r', None)" "s' = s\<lparr>s_raft := Some r'\<rparr>"
  using assms by (auto simp: hs_Delete_def split: option.splits if_splits sum.splits prod.splits)

interpretation hstore: key_value_store "hstore_ops lib js" "store_good lib js rlog valid" "store_contents js rlog" valid
  for lib js rlog valid
proof
  fix s s' k v
  assume g: "store_good lib js rlog valid s" and k: "valid k" and v: "valid v"
    and "i_Set (hstore_ops lib js) k v s = Inr (s', None)"
  then have "hs_Set lib js k v s = Inr (s', None)" by (simp add: hstore_ops_def)
  then obtain r b r' where o: "s_raft s = Some r" "marshal_command js \<lparr>h_Op = ''set'', h_Key = k, h_Value = v\<rparr> = Inr b"
    "raft_Apply lib b r = (r', None)" "s' = s\<lparr>s_raft := Some r'\<rparr>" by (rule hs_Set_ok)
  show "store_good lib js rlog valid s' \<and> store_contents js rlog s' = (store_contents js rlog s)(k \<mapsto> v)"
    using submitted [OF g o(1-3), of "applySet k v"] k v o(4) by (simp add: applySet_def)
next
  fix s s' k
  assume g: "store_good lib js rlog valid s" and k: "valid k"
    and "i_Delete (hstore_ops lib js) k s = Inr (s', None)"
  then have "hs_Delete lib js k s = Inr (s', None)" by (simp add: hstore_ops_def)
  then obtain r b r' where o: "s_raft s = Some r" "marshal_command js \<lparr>h_Op = ''delete'', h_Key = k, h_Value = ''''\<rparr> = Inr b"
    "raft_Apply lib b r = (r', None)" "s' = s\<lparr>s_raft := Some r'\<rparr>" by (rule hs_Delete_ok)
  have "valid ''''" using g by (simp add: store_good_def)
  then show "store_good lib js rlog valid s' \<and> store_contents js rlog s' = (store_contents js rlog s)(k := None)"
    using submitted [OF g o(1-3), of "applyDelete k"] k o(4) by (simp add: applyDelete_def)
qed

text \<open>A POST that is answered 200 has added exactly the entries of its body to the contents of the store, in
  whatever order the handler visited them: replaying the accepted commands gives the map before, overridden
  by the body.\<close>

theorem hraftd_post:
  assumes "applies lib rlog" "json_laws js valid" "valid ''''" "replay js (accepted rlog s) Map.empty = Inr m0"
    and "take 4 (rq_Path r) = ''/key''" "rq_Method r = ''POST''" "decode_map js (rq_Body r) = Inr m" "dom m \<subseteq> set ks"
    and "ServeHTTP js (hstore_ops lib js) ks r s = Inr (s', w)" "final_status w = 200"
  shows "replay js (accepted rlog s') Map.empty = Inr (m0 ++ m)"
proof -
  have g: "store_good lib js rlog valid s" using assms(1-4) by (simp add: store_good_def)
  have t: "text_map valid m" using json_lawsD(4) [OF assms(2,7)] .
  have h: "handleKeyRequest js (hstore_ops lib js) ks r s = Inr (s', w)" using assms(5,9) by (simp add: ServeHTTP_def)
  have "store_good lib js rlog valid s' \<and> store_contents js rlog s' = store_contents js rlog s ++ m"
    by (rule hstore.post_ok [OF g assms(6,7) t assms(8) h assms(10)])
  then show ?thesis using assms(4) by (auto simp: store_good_def store_contents_def)
qed

section \<open>Joining\<close>

text \<open>What the library documents of its configuration: it is reported as it is, removing a server takes out the
  one with that id, and a voter with a new id is added.\<close>

definition configures :: "'r raft_lib \<Rightarrow> ('r \<Rightarrow> hraft_server list) \<Rightarrow> bool" where
  "configures lib conf \<longleftrightarrow>
     (\<forall>r srvs. GetConfiguration lib r = Inr srvs \<longrightarrow> srvs = conf r)
   \<and> (\<forall>i r r'. RemoveServer lib i r = (r', None) \<longrightarrow> conf r' = filter (\<lambda>x. srv_ID x \<noteq> i) (conf r))
   \<and> (\<forall>i a r r'. AddVoter lib i a r = (r', None) \<longrightarrow> i \<notin> srv_ID ` set (conf r)
        \<longrightarrow> conf r' = conf r @ [\<lparr>srv_ID = i, srv_Address = a\<rparr>])"

definition unique_servers :: "hraft_server list \<Rightarrow> bool" where
  "unique_servers srvs \<longleftrightarrow> distinct (map srv_ID srvs) \<and> distinct (map srv_Address srvs)"

lemma unique_serversD:
  assumes "unique_servers srvs" "x \<in> set srvs" "y \<in> set srvs" "srv_ID x = srv_ID y \<or> srv_Address x = srv_Address y"
  shows "x = y"
  using assms by (auto simp: unique_servers_def distinct_map inj_on_def)

lemma configuresD:
  assumes "configures lib conf"
  shows "GetConfiguration lib r = Inr srvs \<Longrightarrow> srvs = conf r"
    and "RemoveServer lib i r = (r', None) \<Longrightarrow> conf r' = filter (\<lambda>x. srv_ID x \<noteq> i) (conf r)"
    and "AddVoter lib i a r = (r', None) \<Longrightarrow> i \<notin> srv_ID ` set (conf r) \<Longrightarrow> conf r' = conf r @ [\<lparr>srv_ID = i, srv_Address = a\<rparr>]"
  using assms unfolding configures_def by blast+

lemma remove_conflicts_removed:
  assumes "configures lib conf" "remove_conflicts lib i a srvs r = (r', Conflicts_removed)"
  shows "conf r' = filter (\<lambda>x. \<forall>t \<in> set srvs. srv_ID t = i \<or> srv_Address t = a \<longrightarrow> srv_ID x \<noteq> srv_ID t) (conf r)
    \<and> \<lparr>srv_ID = i, srv_Address = a\<rparr> \<notin> set srvs"
  using assms(2)
proof (induction srvs arbitrary: r)
  case (Cons t srvs)
  show ?case
  proof (cases "srv_ID t = i \<or> srv_Address t = a")
    case True
    then obtain q where n: "\<not> (srv_Address t = a \<and> srv_ID t = i)" and q: "RemoveServer lib (srv_ID t) r = (q, None)"
      and rest: "remove_conflicts lib i a srvs q = (r', Conflicts_removed)"
      using Cons.prems by (auto split: if_splits prod.splits option.splits)
    have "\<lparr>srv_ID = i, srv_Address = a\<rparr> \<noteq> t" using n by auto
    then show ?thesis
      using Cons.IH [OF rest] configuresD(2) [OF assms(1) q] True by (auto intro!: filter_cong)
  next
    case False
    then show ?thesis using Cons by (auto intro!: filter_cong)
  qed
qed simp

lemma remove_conflicts_member:
  assumes "remove_conflicts lib i a srvs r = (r', Already_member)"
  shows "\<lparr>srv_ID = i, srv_Address = a\<rparr> \<in> set srvs"
  using assms by (induction srvs arbitrary: r) (auto split: if_splits prod.splits option.splits)

lemma remove_conflicts_unchanged:
  assumes "\<forall>t \<in> set srvs. srv_ID t = i \<or> srv_Address t = a \<longrightarrow> srv_ID t = i \<and> srv_Address t = a"
    and "remove_conflicts lib i a srvs r = (r', out)"
  shows "r' = r"
  using assms
proof (induction srvs)
  case (Cons t srvs)
  show ?case
  proof (cases "srv_ID t = i \<or> srv_Address t = a")
    case True
    with Cons.prems(1) have "srv_ID t = i \<and> srv_Address t = a" unfolding list.set ball_simps by (elim conjE mp)
    then have "remove_conflicts lib i a (t # srvs) r = (r, Already_member)" by simp
    then show ?thesis using Cons.prems(2) by simp
  next
    case False
    then have "remove_conflicts lib i a srvs r = (r', out)" using Cons.prems(2) by simp
    then show ?thesis by (rule Cons.IH [rotated]) (use Cons.prems(1) in simp)
  qed
qed simp

lemma hs_Join_ok:
  assumes "configures lib conf" "s_raft s = Some r" "unique_servers (conf r)" "hs_Join lib i a s = Inr (s', None)"
  obtains r' where "s_raft s' = Some r'" "unique_servers (conf r')"
    "set (conf r') = insert \<lparr>srv_ID = i, srv_Address = a\<rparr> {x \<in> set (conf r). srv_ID x \<noteq> i \<and> srv_Address x \<noteq> a}"
proof -
  let ?new = "\<lparr>srv_ID = i, srv_Address = a\<rparr>"
  obtain srvs where g: "GetConfiguration lib r = Inr srvs"
    using assms(2,4) by (auto simp: hs_Join_def split: sum.splits)
  then have srvs: "srvs = conf r" by (rule configuresD(1) [OF assms(1)])
  note uniq = unique_serversD [OF assms(3)]
  obtain q out where q: "remove_conflicts lib i a (conf r) r = (q, out)" by fastforce
  show thesis
  proof (cases out)
    case Already_member
    then have m: "?new \<in> set (conf r)" using remove_conflicts_member q by metis
    have c: "t = ?new" if "t \<in> set (conf r)" "srv_ID t = i \<or> srv_Address t = a" for t
      using uniq [OF that(1) m] that(2) by simp
    have "q = r" by (rule remove_conflicts_unchanged [OF _ q]) (metis c hraft_server.select_convs(1,2))
    then have "s_raft s' = Some r" using assms(2,4) g srvs q Already_member by (auto simp: hs_Join_def)
    moreover have "set (conf r) = insert ?new {x \<in> set (conf r). srv_ID x \<noteq> i \<and> srv_Address x \<noteq> a}"
      using m c by blast
    ultimately show thesis using that assms(3) by blast
  next
    case (Removal_failed e)
    then show thesis using assms(2,4) g srvs q by (auto simp: hs_Join_def)
  next
    case Conflicts_removed
    have "(\<forall>t \<in> set (conf r). srv_ID t = i \<or> srv_Address t = a \<longrightarrow> srv_ID x \<noteq> srv_ID t) \<longleftrightarrow> srv_ID x \<noteq> i \<and> srv_Address x \<noteq> a"
      if "x \<in> set (conf r)" for x using uniq that by metis
    then have "conf q = filter (\<lambda>x. srv_ID x \<noteq> i \<and> srv_Address x \<noteq> a) (conf r)"
      unfolding conjunct1 [OF remove_conflicts_removed [OF assms(1) q [unfolded Conflicts_removed]]]
      by (intro filter_cong refl)
    moreover obtain r' where r': "AddVoter lib i a q = (r', None)" "s_raft s' = Some r'"
      using assms(2,4) g srvs q Conflicts_removed by (auto simp: hs_Join_def split: prod.splits)
    ultimately have l: "conf r' = filter (\<lambda>x. srv_ID x \<noteq> i \<and> srv_Address x \<noteq> a) (conf r) @ [?new]"
      using configuresD(3) [OF assms(1) r'(1)] by auto
    then have "unique_servers (conf r')"
      using assms(3) by (auto simp: unique_servers_def distinct_map_filter)
    then show thesis using that [OF r'(2)] l by auto
  qed
qed

lemma join_request_served:
  assumes "json_laws js valid" "text_map valid [''addr'' \<mapsto> a, ''id'' \<mapsto> i]" "join_request js host a i = Inr (h, req)"
  shows "ServeHTTP js st ks req s = go_bind (i_Join st i a s) (\<lambda>(s', e).
           if e \<noteq> None then Inr (s', WriteHeader 500 no_response) else Inr (s', no_response))"
proof -
  obtain b where b: "marshal_map js [''addr'' \<mapsto> a, ''id'' \<mapsto> i] = Inr b"
    "req = \<lparr>rq_Method = ''POST'', rq_Path = ''/join'', rq_Body = b\<rparr>"
    using assms(3) by (auto simp: join_request_def split: sum.splits)
  have "decode_map js b = Inr [''addr'' \<mapsto> a, ''id'' \<mapsto> i]" by (rule json_lawsD(3) [OF assms(1) b(1) assms(2)])
  then show ?thesis using b(2) by (simp add: ServeHTTP_def handleJoin_def)
qed

text \<open>C32: the request with which a new node joins, served by a member of the cluster. It is well formed, so it is
  answered 200 or 500; and when it is answered 200, the configuration has the new node under its id and
  address, no other server with that id or that address, and every other server it had before.\<close>

theorem hraftd_join:
  assumes "json_laws js valid" "text_map valid [''addr'' \<mapsto> a, ''id'' \<mapsto> i]" "join_request js host a i = Inr (host, req)"
    and "configures lib conf" "s_raft s = Some r" "unique_servers (conf r)"
    and "ServeHTTP js (hstore_ops lib js) ks req s = Inr (s', w)"
  shows "final_status w \<in> {200, 500}
    \<and> (final_status w = 200 \<longrightarrow>
        (\<exists>r'. s_raft s' = Some r' \<and> unique_servers (conf r')
           \<and> set (conf r') = insert \<lparr>srv_ID = i, srv_Address = a\<rparr> {x \<in> set (conf r). srv_ID x \<noteq> i \<and> srv_Address x \<noteq> a}))"
proof -
  obtain e where e: "hs_Join lib i a s = Inr (s', e)" "w = (if e \<noteq> None then WriteHeader 500 no_response else no_response)"
    using assms(7) unfolding join_request_served [OF assms(1-3)]
    by (auto simp: go_bind_eq_Inr hstore_ops_def split: if_splits)
  show ?thesis
  proof (cases e)
    case None
    then have "hs_Join lib i a s = Inr (s', None)" using e(1) by simp
    from hs_Join_ok [OF assms(4-6) this] show ?thesis using e(2) None by (auto simp: final_status_def no_response_def)
  qed (use e(2) in \<open>simp add: final_status_def no_response_def WriteHeader_def\<close>)
qed

text \<open>The node that asked drops the answer: its \<^verbatim>\<open>join\<close> reports success when the request was refused.\<close>

lemma main_join_ignores_refusal:
  assumes "join_request js host a i = Inr (host, req)" "post host req = Inr w"
  shows "main_join js post host a i = None"
  using assms by (simp add: main_join_def)

text \<open>A GET without a key is answered 400, and still has a body.\<close>

lemma get_without_key:
  assumes "rq_Method r = ''GET''" "getKey (rq_Path r) = ''''" "marshal_map js ['''' \<mapsto> fst (hs_Get '''' s)] = Inr b"
  shows "handleKeyRequest js (hstore_ops lib js) ks r s = Inr (s, \<lparr>rs_status = Some 400, rs_body = b\<rparr>)"
  using assms by (simp add: handleKeyRequest_def hstore_ops_def hs_Get_def WriteHeader_def WriteString_def no_response_def)

text \<open>A store that failed to open has no Raft instance, and one that opened has the instance of the library,
  bootstrapped with itself when it is the first.\<close>

lemma hs_Open_error: "hs_Open su single i s = (s', Some e) \<Longrightarrow> s' = s"
  by (auto simp: hs_Open_def split: sum.splits if_splits)

lemma hs_Open_ok:
  assumes "hs_Open su single i s = (s', None)"
  obtains tr ls ss sn ra where "NewRaft su i ls ss sn tr = Inr ra" "s_inmem s \<longrightarrow> ls = InmemStore \<and> ss = InmemStore"
    "s' = s\<lparr>s_raft := Some (if single then BootstrapCluster su [\<lparr>srv_ID = i, srv_Address = tr\<rparr>] ra else ra)\<rparr>"
  using assms by (auto simp: hs_Open_def split: sum.splits if_splits)

section \<open>Concrete inputs\<close>

text \<open>A small encoding that obeys the laws, and a library that accepts everything.\<close>

definition sample_json :: json where
  "sample_json = \<lparr>
     marshal_command = \<lambda>c. if c = \<lparr>h_Op = ''set'', h_Key = ''k'', h_Value = ''v''\<rparr> then Inr ''set k v'' else Inl ''unsupported'',
     unmarshal_command = \<lambda>b. if b = ''set k v'' then Inr \<lparr>h_Op = ''set'', h_Key = ''k'', h_Value = ''v''\<rparr> else Inl ''syntax'',
     marshal_map = \<lambda>m. if m = [''k'' \<mapsto> ''v''] then Inr ''{k: v}''
       else if m = [''addr'' \<mapsto> ''host2'', ''id'' \<mapsto> ''n2''] then Inr ''{addr: host2, id: n2}'' else Inl ''unsupported'',
     decode_map = \<lambda>b. if b = ''{k: v}'' then Inr [''k'' \<mapsto> ''v'']
       else if b = ''{addr: host2, id: n2}'' then Inr [''addr'' \<mapsto> ''host2'', ''id'' \<mapsto> ''n2''] else Inl ''syntax''\<rparr>"

definition sample_lib :: "(string list \<times> hraft_server list) raft_lib" where
  "sample_lib = \<lparr>
     is_leader = \<lambda>r. True,
     raft_Apply = \<lambda>b (l, c). ((l @ [b], c), None),
     GetConfiguration = \<lambda>(l, c). Inr c,
     RemoveServer = \<lambda>i (l, c). ((l, filter (\<lambda>x. srv_ID x \<noteq> i) c), None),
     AddVoter = \<lambda>i a (l, c). ((l, c @ [\<lparr>srv_ID = i, srv_Address = a\<rparr>]), None)\<rparr>"

definition sample_store :: "(string list \<times> hraft_server list) Store" where
  "sample_store = (hstore_New True)\<lparr>s_raft := Some ([], [\<lparr>srv_ID = ''n1'', srv_Address = ''host1''\<rparr>, \<lparr>srv_ID = ''n2'', srv_Address = ''old''\<rparr>])\<rparr>"

lemma sample_json_laws: "json_laws sample_json (\<lambda>s. True)"
  by (auto simp: json_laws_def sample_json_def text_map_def split: if_splits)

lemma sample_lib_laws: "applies sample_lib fst" "configures sample_lib snd"
  by (auto simp: applies_def configures_def sample_lib_def)

definition sample_sink :: sink where
  "sample_sink = \<lparr>sk_data = '''', sk_closed = False, sk_cancelled = False, sk_write_error = None, sk_close_error = None\<rparr>"

theorem hraftd_snapshot_witness:
  "\<exists>m sk'. replay sample_json [''set k v''] Map.empty = Inr m
     \<and> snapshot_Persist sample_json (fsm_Snapshot m) sample_sink = (sk', None)
     \<and> fsm_Restore sample_json (sk_data sk') Map.empty = (m, None) \<and> m ''k'' = Some ''v''"
proof -
  let ?m = "[''k'' \<mapsto> ''v'']" and ?sk = "sample_sink\<lparr>sk_data := ''{k: v}'', sk_closed := True\<rparr>"
  have r: "replay sample_json [''set k v''] Map.empty = Inr ?m"
    by (simp add: sample_json_def fsm_Apply_def applySet_def)
  have p: "snapshot_Persist sample_json (fsm_Snapshot ?m) sample_sink = (?sk, None)"
    by (simp add: snapshot_Persist_def fsm_Snapshot_def sample_json_def sample_sink_def)
  show ?thesis
    using hraftd_snapshot [OF sample_json_laws r p, of Map.empty] r p by (auto simp: sample_sink_def)
qed

theorem hraftd_post_witness:
  "\<exists>s' w. ServeHTTP sample_json (hstore_ops sample_lib sample_json) [''k'']
        \<lparr>rq_Method = ''POST'', rq_Path = ''/key'', rq_Body = ''{k: v}''\<rparr> sample_store = Inr (s', w)
     \<and> replay sample_json (accepted fst s') Map.empty = Inr [''k'' \<mapsto> ''v'']"
proof -
  let ?r = "\<lparr>rq_Method = ''POST'', rq_Path = ''/key'', rq_Body = ''{k: v}''\<rparr>"
  let ?s = "sample_store\<lparr>s_raft := Some ([''set k v''], snd (the (s_raft sample_store)))\<rparr>"
  have c: "ServeHTTP sample_json (hstore_ops sample_lib sample_json) [''k''] ?r sample_store = Inr (?s, no_response)"
    by (simp add: ServeHTTP_def handleKeyRequest_def sample_json_def hstore_ops_def hs_Set_def sample_lib_def sample_store_def hstore_New_def)
  have r0: "replay sample_json (accepted fst sample_store) Map.empty = Inr Map.empty"
    by (simp add: accepted_def sample_store_def)
  have d: "decode_map sample_json (rq_Body ?r) = Inr [''k'' \<mapsto> ''v'']" by (simp add: sample_json_def)
  show ?thesis
    using hraftd_post [OF sample_lib_laws(1) sample_json_laws TrueI r0 _ _ d _ c] c by (auto simp: final_status_def no_response_def)
qed

theorem hraftd_join_witness:
  "\<exists>req s' w r'. join_request sample_json ''host1'' ''host2'' ''n2'' = Inr (''host1'', req)
     \<and> ServeHTTP sample_json (hstore_ops sample_lib sample_json) [] req sample_store = Inr (s', w)
     \<and> s_raft s' = Some r' \<and> set (snd r') = {\<lparr>srv_ID = ''n1'', srv_Address = ''host1''\<rparr>, \<lparr>srv_ID = ''n2'', srv_Address = ''host2''\<rparr>}"
proof -
  let ?req = "\<lparr>rq_Method = ''POST'', rq_Path = ''/join'', rq_Body = ''{addr: host2, id: n2}''\<rparr>"
  let ?c = "[\<lparr>srv_ID = ''n1'', srv_Address = ''host1''\<rparr>, \<lparr>srv_ID = ''n2'', srv_Address = ''old''\<rparr>]"
  let ?s = "sample_store\<lparr>s_raft := Some ([], [\<lparr>srv_ID = ''n1'', srv_Address = ''host1''\<rparr>, \<lparr>srv_ID = ''n2'', srv_Address = ''host2''\<rparr>])\<rparr>"
  have ne: "[''addr'' \<mapsto> ''host2'', ''id'' \<mapsto> ''n2''] \<noteq> [''k'' \<mapsto> ''v'']"
  proof
    assume e: "[''addr'' \<mapsto> ''host2'', ''id'' \<mapsto> ''n2''] = [''k'' \<mapsto> ''v'']"
    show False using fun_cong [OF e, of "''k''"] by simp
  qed
  have j: "join_request sample_json ''host1'' ''host2'' ''n2'' = Inr (''host1'', ?req)"
    using ne by (simp add: join_request_def sample_json_def)
  have t: "text_map (\<lambda>s. True) [''addr'' \<mapsto> ''host2'', ''id'' \<mapsto> ''n2'']" by (simp add: text_map_def)
  have s: "s_raft sample_store = Some ([], ?c)" by (simp add: sample_store_def)
  have u: "unique_servers (snd ([] :: string list, ?c))" by (simp add: unique_servers_def)
  have w: "ServeHTTP sample_json (hstore_ops sample_lib sample_json) [] ?req sample_store = Inr (?s, no_response)"
    by (simp add: ServeHTTP_def handleJoin_def sample_json_def hstore_ops_def hs_Join_def sample_lib_def sample_store_def hstore_New_def)
  have f: "final_status no_response = 200" by (simp add: final_status_def no_response_def)
  obtain r' where "s_raft ?s = Some r'"
    "set (snd r') = insert \<lparr>srv_ID = ''n2'', srv_Address = ''host2''\<rparr> {x \<in> set ?c. srv_ID x \<noteq> ''n2'' \<and> srv_Address x \<noteq> ''host2''}"
    using hraftd_join [OF sample_json_laws t j sample_lib_laws(2) s u w] f by auto
  moreover have "insert \<lparr>srv_ID = ''n2'', srv_Address = ''host2''\<rparr> {x \<in> set ?c. srv_ID x \<noteq> ''n2'' \<and> srv_Address x \<noteq> ''host2''}
    = {\<lparr>srv_ID = ''n1'', srv_Address = ''host1''\<rparr>, \<lparr>srv_ID = ''n2'', srv_Address = ''host2''\<rparr>}" by auto
  ultimately have "set (snd r') = {\<lparr>srv_ID = ''n1'', srv_Address = ''host1''\<rparr>, \<lparr>srv_ID = ''n2'', srv_Address = ''host2''\<rparr>}"
    "s_raft ?s = Some r'" by simp_all
  then show ?thesis by (intro exI conjI) (rule j, rule w)
qed

end
