(* ===== verification/Gossip.thy ===== *)
theory Gossip
  imports Bytes "HOL-Library.Multiset"
begin

text \<open>
  The gossip node of \<^verbatim>\<open>src/gossip\<close> (\<^verbatim>\<open>gossip.go\<close>, \<^verbatim>\<open>routes.go\<close>, \<^verbatim>\<open>types.go\<close>): joining through a bootstrap
  node, exchanging peers, forwarding broadcasts. A client is the address it was made for. The
  association list of a Go map is in the order in which a loop over it runs. A panic in a handler is
  recovered by \<^verbatim>\<open>net/http\<close>: the caller sees an error and the state is as it was at the panic.
\<close>

unbundle bit_operations_syntax

section \<open>Messages and state\<close>

record Peer =
  PeerId :: "64 word"
  pr_Addr :: string
  pr_StartTime :: int

record ConnectRequest =
  cq_Peer :: "Peer option"

record ConnectResponse =
  cr_Peer :: "Peer option"
  ApproxNumNode :: "64 word"
  KnownPeers :: "Peer list"

datatype MessageType = JOIN | MSG

record BroadcastRequest =
  OriginId :: "64 word"
  Timestamp :: int
  br_MessageType :: MessageType
  br_Message :: string

record GossipNodeInfo =
  gi_ID :: "64 word"
  gi_Addr :: string
  gi_StartTime :: int
  gi_connection :: string

record GossipNode =
  gn_ID :: "64 word"
  gn_Addr :: string
  gn_StartTime :: int
  APPROX_NUM_NODE :: "64 word"
  MIN_PEER :: int
  MAX_PEER :: int
  BROADCAST_COUNT :: int
  Bootstraps :: "(64 word \<times> GossipNodeInfo) list"
  Peers :: "(64 word \<times> GossipNodeInfo) list"

definition BOOTSTRAP :: "64 word" where
  "BOOTSTRAP = push_bit 63 1"

definition IsBootstrap :: "64 word \<Rightarrow> bool" where
  "IsBootstrap i \<longleftrightarrow> i AND BOOTSTRAP > 0"

definition createGossipConnection :: "string \<Rightarrow> string" where
  "createGossipConnection addr = addr"

text \<open>The entry that \<^verbatim>\<open>JoinGossip\<close>, \<^verbatim>\<open>StartGossipLoop\<close> and \<^verbatim>\<open>Connect\<close> write for a peer of a message.\<close>

definition info_of :: "Peer \<Rightarrow> GossipNodeInfo" where
  "info_of p = \<lparr>gi_ID = PeerId p, gi_Addr = pr_Addr p, gi_StartTime = pr_StartTime p,
     gi_connection = createGossipConnection (pr_Addr p)\<rparr>"

definition put_peer :: "Peer \<Rightarrow> (64 word \<times> GossipNodeInfo) list \<Rightarrow> (64 word \<times> GossipNodeInfo) list" where
  "put_peer p m = AList.update (PeerId p) (info_of p) m"

section \<open>Exchanging peers\<close>

definition gn_Connect :: "ConnectRequest \<Rightarrow> GossipNode \<Rightarrow> (GossipNode \<times> ConnectResponse) go" where
  "gn_Connect req node =
     (let peerList = map (\<lambda>(k, p). \<lparr>PeerId = 0, pr_Addr = gi_Addr p, pr_StartTime = gi_StartTime p\<rparr>) (Peers node);
          res = \<lparr>cr_Peer = None, ApproxNumNode = 0, KnownPeers = peerList\<rparr>
      in if \<not> IsBootstrap (gn_ID node)
         then case cq_Peer req of
                None \<Rightarrow> Inl nil_dereference
              | Some p \<Rightarrow> Inr (node\<lparr>Peers := put_peer p (Peers node)\<rparr>, res)
         else Inr (node, res))"

text \<open>What a caller gets from \<^verbatim>\<open>Connect\<close> at the address of a node: the reply, or an error.\<close>

definition call_Connect :: "GossipNode option \<Rightarrow> ConnectRequest \<Rightarrow> ConnectResponse option" where
  "call_Connect served req =
     (case served of
        None \<Rightarrow> None
      | Some node \<Rightarrow> (case gn_Connect req node of Inl _ \<Rightarrow> None | Inr (_, res) \<Rightarrow> Some res))"

text \<open>\<open>connect\<close> answers the call of the bootstrap node and \<open>now\<close> is the Unix time. The result is the
  node, or \<open>None\<close> for the error.\<close>

definition JoinGossip ::
  "int \<Rightarrow> string \<Rightarrow> int \<Rightarrow> (ConnectRequest \<Rightarrow> ConnectResponse option) \<Rightarrow> GossipNode option go" where
  "JoinGossip port BootstrapAddr now connect =
     (case connect \<lparr>cq_Peer = None\<rparr> of
        None \<Rightarrow> Inr None
      | Some res \<Rightarrow>
          let newNodes = fold put_peer (KnownPeers res) []
          in case cr_Peer res of
               None \<Rightarrow> Inl nil_dereference
             | Some b \<Rightarrow>
                 Inr (Some \<lparr>gn_ID = ApproxNumNode res + word_of_int now, gn_Addr = ''localhost:'' @ Itoa port, gn_StartTime = 0,
                   APPROX_NUM_NODE = ApproxNumNode res, MIN_PEER = 10, MAX_PEER = 20, BROADCAST_COUNT = 10,
                   Bootstraps = [(PeerId b, (info_of b)\<lparr>gi_connection := createGossipConnection BootstrapAddr\<rparr>)],
                   Peers = newNodes\<rparr>))"

definition Gossip_start :: "int \<Rightarrow> int \<Rightarrow> (ConnectRequest \<Rightarrow> ConnectResponse option) \<Rightarrow> GossipNode go" where
  "Gossip_start port now connect =
     go_bind (JoinGossip port ''localhost:8888'' now connect) (\<lambda>r.
       case r of None \<Rightarrow> Inl (Explicit ''The END!'') | Some node \<Rightarrow> Inr node)"

section \<open>The gossip loop\<close>

text \<open>One round of \<^verbatim>\<open>StartGossipLoop\<close> starts a goroutine per peer and then computes the estimate, without
  waiting for them. \<open>gl_approx\<close> and \<open>gl_active\<close> are the variables of the round.\<close>

record gossip_round =
  gl_node :: GossipNode
  gl_approx :: "64 word"
  gl_active :: int

definition gossip_request :: "GossipNode \<Rightarrow> ConnectRequest" where
  "gossip_request node = \<lparr>cq_Peer = Some \<lparr>PeerId = 0, pr_Addr = gn_Addr node, pr_StartTime = 0\<rparr>\<rparr>"

definition gossip_reply :: "GossipNodeInfo \<Rightarrow> ConnectResponse option \<Rightarrow> gossip_round \<Rightarrow> gossip_round" where
  "gossip_reply peer reply s =
     (case reply of
        None \<Rightarrow> s\<lparr>gl_node := (gl_node s)\<lparr>Peers := AList.delete (gi_ID peer) (Peers (gl_node s))\<rparr>\<rparr>
      | Some msg \<Rightarrow>
          s\<lparr>gl_approx := gl_approx s + ApproxNumNode msg, gl_active := gl_active s + 1,
            gl_node := (gl_node s)\<lparr>Peers := fold put_peer (KnownPeers msg) (Peers (gl_node s))\<rparr>\<rparr>)"

definition gossip_estimate :: "gossip_round \<Rightarrow> gossip_round" where
  "gossip_estimate s =
     s\<lparr>gl_node := (gl_node s)\<lparr>APPROX_NUM_NODE :=
         (gl_approx s + APPROX_NUM_NODE (gl_node s)) div word_of_int (gl_active s + 1)\<rparr>\<rparr>"

section \<open>Broadcasting\<close>

text \<open>The nodes whose locks are free: each nested call of a broadcast holds one more.\<close>

definition free_nodes :: "(string \<times> GossipNode) list \<Rightarrow> string list \<Rightarrow> nat" where
  "free_nodes net held = card (fst ` set net - set held)"

lemma free_nodes_less: "map_of net a = Some nd \<Longrightarrow> a \<notin> set held \<Longrightarrow> free_nodes net (a # held) < free_nodes net held"
  unfolding free_nodes_def by (intro psubset_card_mono) (force dest: map_of_SomeD)+

text \<open>
  \<^verbatim>\<open>BroadcastMessage\<close> keeps \<^verbatim>\<open>PeersLock\<close> while it calls the chosen peers one after the other, and a call has
  no deadline. \<open>held\<close> are the nodes whose handlers wait for this call to return; a call of one of them
  waits for a lock that is only released when it has returned, so it never does: the value \<open>None\<close>.
  Otherwise the result is the messages received, in order, and whether the caller got an answer
  without error. \<open>shuffle k\<close> is the \<open>k\<close>-th use of \<^verbatim>\<open>rand.Shuffle\<close>. The nodes by their addresses are \<open>net\<close>.
\<close>

function BroadcastMessage ::
    "(nat \<Rightarrow> GossipNodeInfo list \<Rightarrow> GossipNodeInfo list) \<Rightarrow> (string \<times> GossipNode) list \<Rightarrow> string list \<Rightarrow> nat \<Rightarrow> string \<Rightarrow>
     BroadcastRequest \<Rightarrow> (nat \<times> (string \<times> BroadcastRequest) list \<times> bool) option"
  and forward_all ::
    "(nat \<Rightarrow> GossipNodeInfo list \<Rightarrow> GossipNodeInfo list) \<Rightarrow> (string \<times> GossipNode) list \<Rightarrow> string list \<Rightarrow> nat \<Rightarrow> GossipNodeInfo list \<Rightarrow>
     BroadcastRequest \<Rightarrow> (nat \<times> (string \<times> BroadcastRequest) list) option" where
  "BroadcastMessage shuffle net held k addr msg =
     (case map_of net addr of
        None \<Rightarrow> Some (k, [], False)
      | Some node \<Rightarrow>
          if addr \<in> set held then None
          else if Peers node = [] then Some (k, [(addr, msg)], True)
          else let peerList = shuffle k (map snd (Peers node));
                   n = (if BROADCAST_COUNT node > int (length (Peers node)) then int (length (Peers node)) else BROADCAST_COUNT node)
               in if n < 0 then Some (Suc k, [(addr, msg)], False)
                  else case forward_all shuffle net (addr # held) (Suc k) (take (nat n) peerList) (msg\<lparr>OriginId := gn_ID node\<rparr>) of
                         None \<Rightarrow> None
                       | Some (k', tr) \<Rightarrow> Some (k', (addr, msg) # tr, True))"
| "forward_all shuffle net held k [] msg = Some (k, [])"
| "forward_all shuffle net held k (p # ps) msg =
     (case BroadcastMessage shuffle net held k (gi_connection p) msg of
        None \<Rightarrow> None
      | Some (k1, tr1, ok) \<Rightarrow>
          (case forward_all shuffle net held k1 ps msg of
             None \<Rightarrow> None
           | Some (k2, tr2) \<Rightarrow> Some (k2, tr1 @ tr2)))"
  by pat_completeness auto

termination
proof (relation "case_sum (\<lambda>(_, net, held, _, _, _). free_nodes net held) (\<lambda>(_, net, held, _, _, _). free_nodes net held)
    <*mlex*> measure (case_sum (\<lambda>_. 0) (\<lambda>(_, _, _, _, ps, _). Suc (length ps)))", goal_cases)
  case 1
  show ?case by (simp add: wf_mlex)
qed (auto simp: mlex_prod_def free_nodes_less)

declare BroadcastMessage.simps [simp del]

section \<open>No node joins\<close>

text \<open>A node is a bootstrap node when the top bit of its identifier is set.\<close>

lemma IsBootstrap_bit: "IsBootstrap i \<longleftrightarrow> bit i 63"
  using and_exp_eq_0_iff_not_bit [of i 63] unfolding IsBootstrap_def BOOTSTRAP_def push_bit_of_1 word_gt_0 by metis

text \<open>C39: A gossip process cannot start, whichever node serves the bootstrap address: an ordinary node
  dereferences the peer that the request does not have, so that the process ends with
  \<^verbatim>\<open>panic("The END!")\<close> as it does when nobody answers; a bootstrap node answers without the field
  \<^verbatim>\<open>Peer\<close>, which the process then dereferences.\<close>

theorem gossip_cannot_join:
  "Gossip_start port now (call_Connect served) =
     (case served of
        Some node \<Rightarrow> if IsBootstrap (gn_ID node) then Inl nil_dereference else Inl (Explicit ''The END!'')
      | None \<Rightarrow> Inl (Explicit ''The END!''))"
  by (auto simp: Gossip_start_def JoinGossip_def call_Connect_def gn_Connect_def Let_def split: option.splits)

text \<open>A reply of \<^verbatim>\<open>Connect\<close> has no identifiers, and neither has the request of the gossip loop, so a
  node never learns more than one peer, under the key zero.\<close>

definition only_zero :: "GossipNode \<Rightarrow> bool" where
  "only_zero node \<longleftrightarrow> fst ` set (Peers node) \<subseteq> {0}"

lemma fold_put_keys: "fst ` set (fold put_peer ps m) = fst ` set m \<union> PeerId ` set ps"
  by (induction ps arbitrary: m) (auto simp: put_peer_def dom_update)

lemma Connect_no_ids: "gn_Connect req node = Inr (node', res) \<Longrightarrow> p \<in> set (KnownPeers res) \<Longrightarrow> PeerId p = 0"
  by (auto simp: gn_Connect_def Let_def split: if_splits option.splits)

lemma put_peer_zero: "fst ` set m \<subseteq> {0} \<Longrightarrow> PeerId p = 0 \<Longrightarrow> fst ` set (put_peer p m) \<subseteq> {0}"
  by (simp add: put_peer_def dom_update)

lemma Connect_only_zero:
  "gn_Connect (gossip_request other) node = Inr (node', res) \<Longrightarrow> only_zero node \<Longrightarrow> only_zero node'"
  by (auto simp: gn_Connect_def gossip_request_def only_zero_def put_peer_zero Let_def simp del: split_paired_All
      split: if_splits del: subsetI)

lemma gossip_reply_only_zero:
  assumes "reply = call_Connect served req" "only_zero (gl_node s)"
  shows "only_zero (gl_node (gossip_reply peer reply s))"
proof (cases reply)
  case None
  then show ?thesis using assms(2) delete_keys [of "gi_ID peer" "Peers (gl_node s)"]
    by (simp add: gossip_reply_def only_zero_def flip: set_map) auto
next
  case (Some msg)
  have "PeerId p = 0" if "p \<in> set (KnownPeers msg)" for p
    using assms(1) Some that Connect_no_ids by (fastforce simp: call_Connect_def split: option.splits sum.splits)
  then show ?thesis using assms(2) Some by (auto simp: gossip_reply_def only_zero_def fold_put_keys)
qed

section \<open>Broadcasts block\<close>

lemma set_take_shuffle: "mset (f xs) = mset xs \<Longrightarrow> set (take n (f xs)) \<subseteq> set xs"
  by (metis set_mset_mset set_take_subset)

text \<open>When every node has a peer and the peers are nodes, each handler calls another one, and in the
  end one that is waiting.\<close>

definition gossip_closed :: "(string \<times> GossipNode) list \<Rightarrow> bool" where
  "gossip_closed net \<longleftrightarrow> (\<forall>(addr, node) \<in> set net. Peers node \<noteq> [] \<and> 0 < BROADCAST_COUNT node
     \<and> (\<forall>(i, p) \<in> set (Peers node). gi_connection p \<in> fst ` set net))"

lemma broadcast_blocks:
  assumes "gossip_closed net" "\<forall>k xs. mset (shuffle k xs) = mset xs"
  shows "addr \<in> fst ` set net \<Longrightarrow> BroadcastMessage shuffle net held k addr msg = None"
    and "ps \<noteq> [] \<Longrightarrow> \<forall>p \<in> set ps. gi_connection p \<in> fst ` set net \<Longrightarrow> forward_all shuffle net held k ps msg = None"
  using assms
proof (induction shuffle net held k addr msg and shuffle net held k ps msg rule: BroadcastMessage_forward_all.induct)
  case (1 shuffle net held k addr msg)
  obtain node where node: "map_of net addr = Some node" using 1(2) by (auto simp: dom_map_of_conv_image_fst [symmetric])
  then have "(addr, node) \<in> set net" by (rule map_of_SomeD)
  then have c: "Peers node \<noteq> []" "0 < BROADCAST_COUNT node" "\<forall>(i, p) \<in> set (Peers node). gi_connection p \<in> fst ` set net"
    using 1(3) unfolding gossip_closed_def by auto
  let ?ps = "shuffle k (map snd (Peers node))"
  let ?n = "if BROADCAST_COUNT node > int (length (Peers node)) then int (length (Peers node)) else BROADCAST_COUNT node"
  have len: "length ?ps = length (Peers node)" using 1(4) by (metis length_map size_mset)
  have n: "0 < ?n" using c(1,2) by auto
  have ne: "take (nat ?n) ?ps \<noteq> []" using n c(1) len by auto
  have el: "\<forall>p \<in> set (take (nat ?n) ?ps). gi_connection p \<in> fst ` set net"
    using set_take_shuffle [of "shuffle k" "map snd (Peers node)"] 1(4) c(3) by fastforce
  show ?case
  proof (cases "addr \<in> set held")
    case False
    have "forward_all shuffle net (addr # held) (Suc k) (take (nat ?n) ?ps) (msg\<lparr>OriginId := gn_ID node\<rparr>) = None"
      by (rule 1(1) [OF node False c(1) refl refl]) (use n ne el 1(3,4) in auto)
    then show ?thesis using node False c(1) n by (simp add: BroadcastMessage.simps [of shuffle net held k addr] Let_def)
  qed (simp add: node BroadcastMessage.simps)
next
  case (3 shuffle net held k p ps msg)
  then show ?case by simp
qed simp

text \<open>A broadcast returns when the peers are ordered: every node only knows nodes of a smaller rank.\<close>

lemma broadcast_returns:
  fixes rank :: "string \<Rightarrow> nat"
  assumes "\<forall>(addr, node) \<in> set net. \<forall>(i, p) \<in> set (Peers node). rank (gi_connection p) < rank addr" "\<forall>k xs. mset (shuffle k xs) = mset xs"
  shows "\<forall>b \<in> set held. rank addr < rank b \<Longrightarrow> \<exists>r. BroadcastMessage shuffle net held k addr msg = Some r"
    and "\<forall>b \<in> set held. \<forall>p \<in> set ps. rank (gi_connection p) < rank b \<Longrightarrow> \<exists>r. forward_all shuffle net held k ps msg = Some r"
  using assms
proof (induction shuffle net held k addr msg and shuffle net held k ps msg rule: BroadcastMessage_forward_all.induct)
  case (1 shuffle net held k addr msg)
  show ?case
  proof (cases "map_of net addr")
    case (Some node)
    let ?ps = "shuffle k (map snd (Peers node))"
    let ?n = "if BROADCAST_COUNT node > int (length (Peers node)) then int (length (Peers node)) else BROADCAST_COUNT node"
    have free: "addr \<notin> set held" using 1(2) by auto
    have lower: "rank (gi_connection p) < rank addr" if "p \<in> set (take (nat ?n) ?ps)" for p
      using set_take_shuffle [of "shuffle k" "map snd (Peers node)"] 1(3,4) map_of_SomeD [OF Some] that by fastforce
    have low: "\<forall>b \<in> set (addr # held). \<forall>p \<in> set (take (nat ?n) ?ps). rank (gi_connection p) < rank b"
    proof (intro ballI)
      fix b p assume "b \<in> set (addr # held)" "p \<in> set (take (nat ?n) ?ps)"
      then show "rank (gi_connection p) < rank b" using lower [of p] 1(2) by (cases "b = addr") (auto dest: bspec intro: less_trans)
    qed
    have "\<exists>r. forward_all shuffle net (addr # held) (Suc k) (take (nat ?n) ?ps) (msg\<lparr>OriginId := gn_ID node\<rparr>) = Some r"
      if "Peers node \<noteq> []" "\<not> ?n < 0"
      by (rule 1(1) [OF Some free that(1) refl refl that(2) low 1(3,4)])
    then show ?thesis using Some free by (auto simp: BroadcastMessage.simps [of shuffle net held k addr] Let_def simp del: split_paired_Ex)
  qed (simp add: BroadcastMessage.simps del: split_paired_Ex)
next
  case (3 shuffle net held k p ps msg)
  then show ?case by (fastforce split: option.splits prod.splits)
qed simp


text \<open>Two nodes that know each other.\<close>

definition gossip_ex_node :: "64 word \<Rightarrow> string \<Rightarrow> string \<Rightarrow> GossipNode" where
  "gossip_ex_node i a b =
     \<lparr>gn_ID = i, gn_Addr = a, gn_StartTime = 0, APPROX_NUM_NODE = 0, MIN_PEER = 10, MAX_PEER = 20, BROADCAST_COUNT = 10,
      Bootstraps = [], Peers = put_peer \<lparr>PeerId = 0, pr_Addr = b, pr_StartTime = 0\<rparr> []\<rparr>"

definition gossip_ex_net :: "(string \<times> GossipNode) list" where
  "gossip_ex_net = [(''a'', gossip_ex_node 1 ''a'' ''b''), (''b'', gossip_ex_node 2 ''b'' ''a'')]"


end
