(* ===== verification/Spec2Isabelle.thy ===== *)
theory Spec2Isabelle
  imports Raft1 Raft2 RaftTesting CraftHarness KVHarnessFacts KVCluster KVClient4 TorrentFile GoraftKV KademliaNode Hraftd Gossip
begin

text \<open>
  A verification library for the Go programs of this repository. Each program is translated, operation by
  operation, into HOL functions; the theories of a program hold its definitions, in the order of its source
  files, and the lemmas that make it correct. File names below are relative to \<^verbatim>\<open>src/\<close>.

  \<^bold>\<open>The programs and their theories\<close>

  \<^item> \<^bold>\<open>Raft\<close>, in four versions of growing strength: \<^verbatim>\<open>raft/part1/raft.go\<close> (elections, theory \<^verbatim>\<open>Raft1\<close>),
    \<^verbatim>\<open>raft/part2/raft.go\<close> (log replication, \<^verbatim>\<open>Raft2\<close>), \<^verbatim>\<open>raft/part3/raft.go\<close> (persistence and fast backup, \<^verbatim>\<open>Raft3\<close>)
    and \<^verbatim>\<open>craft/craft.go\<close> (the same on Connect RPC, \<^verbatim>\<open>Craft\<close>). The structure \<^verbatim>\<open>ConsensusModule\<close> is a record of the
    same fields; each method that holds the mutex is one function, and a goroutine that releases it around an
    RPC is the pair of the functions before and after the release. \<^verbatim>\<open>RaftTypes\<close> has the messages, \<^verbatim>\<open>RaftStorage\<close> the
    storage interface and \<^verbatim>\<open>MapStorage\<close>.
  \<^item> \<^bold>\<open>Clusters\<close> (\<^verbatim>\<open>RaftNet\<close>): any number of servers whose critical sections, goroutines and RPCs interleave; an RPC
    may be delayed, reordered or lost, a server may stop and restart. A version of Raft enters as a record of its
    operations. \<^verbatim>\<open>RaftElection\<close>, \<^verbatim>\<open>RaftLog\<close>, \<^verbatim>\<open>RaftHistory\<close>, \<^verbatim>\<open>RaftCommit\<close> and \<^verbatim>\<open>RaftSafety\<close> prove election safety, log
    matching, leader completeness and state machine safety once, from laws on these operations; \<^verbatim>\<open>Raft1\<close>, \<^verbatim>\<open>Raft2\<close>,
    \<^verbatim>\<open>Raft3Net\<close>, \<^verbatim>\<open>Craft\<close> and \<^verbatim>\<open>Raft3Safety\<close> prove the laws for the four versions. \<^verbatim>\<open>Raft3Facts\<close> says what the single
    operations of part3 compute.
  \<^item> \<^bold>\<open>Servers and test harnesses\<close> of part3 and craft: \<^verbatim>\<open>raft/part3/server.go\<close> (\<^verbatim>\<open>RaftServer\<close>), \<^verbatim>\<open>raft/part3/testharness.go\<close>
    (\<^verbatim>\<open>RaftHarness\<close>, \<^verbatim>\<open>RaftHarnessFacts\<close>), \<^verbatim>\<open>craft/server.go\<close>, \<^verbatim>\<open>craft/rpcproxy.go\<close> and \<^verbatim>\<open>craft/testharness.go\<close> (\<^verbatim>\<open>CraftServer\<close>,
    \<^verbatim>\<open>CraftHarness\<close>): listeners, clients, the proxy that drops calls, partitions, crashes and restarts, and the checks
    a test makes. \<^verbatim>\<open>RaftTesting\<close> joins the checks with state machine safety.
  \<^item> \<^bold>\<open>A replicated key-value store\<close> on Raft: \<^verbatim>\<open>raft/part5kv\<close> (\<^verbatim>\<open>KVService\<close>, \<^verbatim>\<open>KVClient\<close>) and \<^verbatim>\<open>raft/part4kv\<close> (\<^verbatim>\<open>KVService4\<close>,
    \<^verbatim>\<open>KVClient4\<close>): data store, HTTP handlers split where they wait for a commit, the updater that executes the commit
    stream, the client that looks for the leader. \<^verbatim>\<open>KVCluster\<close> composes services, commit streams and the cluster;
    \<^verbatim>\<open>KVHarness\<close> and \<^verbatim>\<open>KVHarnessFacts\<close> have the life cycle of a service and the test harness of part5kv.
  \<^item> \<^bold>\<open>A BitTorrent client\<close>, \<^verbatim>\<open>torrent-client\<close>: \<^verbatim>\<open>TorrentBitfield\<close>, \<^verbatim>\<open>TorrentMessage\<close>, \<^verbatim>\<open>TorrentHandshake\<close> (also peer lists),
    \<^verbatim>\<open>TorrentClient\<close>, \<^verbatim>\<open>TorrentPiece\<close> and \<^verbatim>\<open>TorrentDownload\<close> (\<^verbatim>\<open>p2p/p2p.go\<close>), \<^verbatim>\<open>TorrentFile\<close> (torrent files and trackers).
  \<^item> \<^bold>\<open>Goraft\<close>, a second Raft with a metadata file of fixed-width records: \<^verbatim>\<open>goraft/raft.go\<close> in \<^verbatim>\<open>Goraft\<close>, \<^verbatim>\<open>GoraftDisk\<close>,
    \<^verbatim>\<open>GoraftServer\<close>, \<^verbatim>\<open>GoraftFacts\<close>, \<^verbatim>\<open>GoraftRuns\<close>, and its key-value server \<^verbatim>\<open>goraft/cmd/kvapi\<close> in \<^verbatim>\<open>GoraftKV\<close>.
  \<^item> \<^bold>\<open>A Kademlia node\<close>, \<^verbatim>\<open>kademlia\<close>: \<^verbatim>\<open>KademliaKey\<close> (keys and distances), \<^verbatim>\<open>KademliaTable\<close> (buckets, on \<^verbatim>\<open>container/heap\<close> as
    modelled in \<^verbatim>\<open>GoHeap\<close>), \<^verbatim>\<open>KademliaNode\<close> (RPC handlers, lookup, ping round).
  \<^item> \<^bold>\<open>Hraftd\<close>, a store on hashicorp/raft with its HTTP service: \<^verbatim>\<open>hraftd\<close> in \<^verbatim>\<open>Hraftd\<close>.
  \<^item> \<^bold>\<open>A gossip node\<close>, \<^verbatim>\<open>gossip\<close> in \<^verbatim>\<open>Gossip\<close>.

  \<^verbatim>\<open>Prelude\<close> and \<^verbatim>\<open>Bytes\<close> have what the programs share: panics as the left value of a sum, the readings of Go maps,
  slices and integers, byte streams and fixed-width encodings.

  \<^bold>\<open>Interfaces\<close>

  The contracts between components are locales, each interpreted on the models of the code:
  \<^verbatim>\<open>stable_storage\<close> (on \<^verbatim>\<open>MapStorage\<close>); \<^verbatim>\<open>raft_node\<close>, \<^verbatim>\<open>raft_cluster\<close>, \<^verbatim>\<open>raft_log\<close>, \<^verbatim>\<open>raft_log_cluster\<close>, \<^verbatim>\<open>raft_commit\<close> and
  \<^verbatim>\<open>raft_commit_cluster\<close>, each extending the one before (on part1, part2, part3 and craft, as far as the version goes);
  \<^verbatim>\<open>kv_store\<close> (on the data stores of part4 and part5); \<^verbatim>\<open>wire_format\<close> (on torrent messages and handshakes);
  \<^verbatim>\<open>weak_order\<close> (on the order of Kademlia contacts in a heap); \<^verbatim>\<open>key_value_store\<close> (on the hraftd store).

  \<^bold>\<open>What the theorems show\<close>

  \<^item> Raft: at most one leader per term, log matching, leader completeness and state machine safety for runs of
    any length and clusters of any size, provided that events are \<^emph>\<open>timely\<close> or \<^emph>\<open>prompt\<close>: replies of an earlier
    election or leadership do not arrive after the server has moved on, and a server does not restart with an
    unsaved vote. The code neither checks nor ensures this, and concrete runs show that each restriction
    is needed: a delayed vote or a restart gives two leaders of one term, a delayed acknowledgement makes two
    servers deliver different commands, a delayed heartbeat goroutine panics. The handlers are characterised on
    every branch, against reference definitions where the code is optimised, and part2 and craft are related to
    part3 by refinement and equality.
  \<^item> Servers and harnesses: tests that crash live servers and restart dead ones run to their end, the harnesses
    (also that of the key-value service) implement a graph of links along which calls go, the proxy drops exactly the calls it should (and none in
    craft), \<^verbatim>\<open>CheckCommitted\<close> never reports a mismatch for a part3 cluster.
  \<^item> Key-value service: replicas that applied the same number of commands agree, a command is executed at most
    once per request, a write is answered after its commit, the client finds the leader.
  \<^item> Torrent: a finished download is correct piece by piece whatever the peers send, no piece is lost or duplicated
    between workers, a cooperative peer is enough, messages and handshakes are read back as written.
  \<^item> Goraft: durability over crashes, the append handler against its reference, a stale vote that makes two leaders;
    the round trip through commands and state machine.
  \<^item> Kademlia: the invariant of the routing table, the lookup returns and asks the closest contacts once.
  \<^item> Hraftd: snapshots, restoring and joining. Gossip: nodes cannot join, broadcasts in a connected network deadlock.

  \<^bold>\<open>Conventions and bounds\<close>

  \<^item> Go \<^verbatim>\<open>int\<close> and \<^verbatim>\<open>int64\<close> counters that only grow by one per event (terms, log indices) are HOL integers. Where the
    code computes with a width that can be reached (bytes, lengths on the wire, goraft records, bit positions, the
    gossip estimate) they are words and wrap.
  \<^item> A slice is a list value. Sharing of backing arrays is modelled where a result depends on it (the capacities that
    \<^verbatim>\<open>append\<close> gives in goraft). A Go map is a partial function, or an association list whose order is the one in which
    a loop over it runs; theorems hold for every such list and so for every order.
  \<^item> A panic, a \<^verbatim>\<open>log.Fatal\<close> or a failed test is the left value of a sum, an error a value of the result type, an endless
    wait the value \<^term>\<open>None\<close>. The loops of the code are total functions with a measure, except \<^verbatim>\<open>send\<close> of the key-value
    client, which may retry forever and has fuel, the number of HTTP exchanges; the theorem on it shows that as many
    exchanges as there are services are enough once the leader answers.
  \<^item> Interleaving is explicit: steps of a relation, or a list of events that a run executes. Clocks, random numbers and
    permutations are arguments or an environment, and the theorems quantify over them.
  \<^item> Code outside the repository is a parameter with named hypotheses: dialling and HTTP exchanges, SHA-1, bencode, URL
    and JSON encoding, the library hashicorp/raft, elliptic-curve signatures. Witnesses instantiate them.

  \<^bold>\<open>Not modelled\<close>

  The generated protobuf and Connect code (its messages are records here); the servers and test harnesses of part1,
  part2 and part4kv, which repeat those of part3 and part5kv with fewer features; JSON encoding of HTTP bodies; the
  log visualisation tools, the goraft stress programs, the load generator k7, the example of hashicorp/raft, the serf example
  and the main functions, which are input, output and wiring; key files, geographic look-up and HTTP server
  life cycle of Kademlia; listeners, signals and tickers of the HTTP programs. The test files are not modelled.
  Deviations of the code from its comments and tests
  are recorded with the theorems that show them.
\<close>

end
